(* ===== verification/Prelude.thy ===== *)
theory Prelude
  imports Complex_Main "HOL-Library.Word" "HOL-Library.Sublist"
begin

text \<open>
  Shared vocabulary of the development: the machine types of the program, the result type of
  operations that may block or be undefined, IEEE comparisons, generic list lemmas and the two
  interfaces (locales) that several components implement.

  \<^item> Unsigned integers of the source are words of their width (\<open>TurnId\<close> and the counters are
    \<open>uint64_t\<close>, sequence numbers \<open>uint32_t\<close>, PCM samples \<open>int16_t\<close>). Sizes of containers
    (\<open>std::size_t\<close> results of \<open>size()\<close>) are naturals: a container cannot hold \<open>2 ^ 64\<close> elements.
  \<^item> \<open>std::chrono::steady_clock\<close> instants are integers in nanoseconds; the clock reading is an
    argument of the operation that reads it. Durations in milliseconds are integers.
\<close>

section \<open>Machine types\<close>

type_synonym turn_id = "64 word"
type_synonym seq_no = "32 word"
type_synonym counter = "64 word"
type_synonym sample = "16 word"
type_synonym time_point = int
type_synonym millis = int

text \<open>\<open>duration_cast<milliseconds>\<close> of a nanosecond duration truncates towards zero.\<close>

definition trunc_div :: "int \<Rightarrow> int \<Rightarrow> int" where
  "trunc_div a b = sgn a * sgn b * (\<bar>a\<bar> div \<bar>b\<bar>)"

definition to_millis :: "int \<Rightarrow> millis" where
  "to_millis ns = trunc_div ns 1000000"

text \<open>
  The outcome of an operation: a result, a thread parked on a condition variable (the state is
  unchanged and the operation is retried on wake-up), or undefined behaviour of the source.
\<close>

datatype 'a exec = Done 'a | Blocked | UB

section \<open>IEEE comparisons\<close>

text \<open>A C++ \<open>float\<close>: comparisons with NaN are false.\<close>

datatype cfloat = NaN | NegInf | Fin real | PosInf

fun cfloat_ge :: "cfloat \<Rightarrow> cfloat \<Rightarrow> bool" where
  "cfloat_ge NaN _ = False"
| "cfloat_ge _ NaN = False"
| "cfloat_ge PosInf _ = True"
| "cfloat_ge _ NegInf = True"
| "cfloat_ge NegInf _ = False"
| "cfloat_ge (Fin _) PosInf = False"
| "cfloat_ge (Fin x) (Fin y) = (x \<ge> y)"

definition cfloat_lt :: "cfloat \<Rightarrow> cfloat \<Rightarrow> bool" where
  "cfloat_lt x y = (x \<noteq> NaN \<and> y \<noteq> NaN \<and> \<not> cfloat_ge x y)"

lemma cfloat_ge_Fin [simp]: "cfloat_ge (Fin x) (Fin y) \<longleftrightarrow> y \<le> x"
  by simp

lemma cfloat_lt_Fin [simp]: "cfloat_lt (Fin x) (Fin y) \<longleftrightarrow> x < y"
  by (auto simp: cfloat_lt_def)

lemma cfloat_NaN [simp]:
  "\<not> cfloat_ge NaN y" "\<not> cfloat_ge x NaN" "\<not> cfloat_lt NaN y" "\<not> cfloat_lt x NaN"
  by (cases x; simp add: cfloat_lt_def)+

section \<open>Lists\<close>

definition take_last :: "nat \<Rightarrow> 'a list \<Rightarrow> 'a list" where
  "take_last n xs = drop (length xs - n) xs"

lemma length_take_last [simp]: "length (take_last n xs) = min n (length xs)"
  by (simp add: take_last_def)

lemma take_last_all [simp]: "length xs \<le> n \<Longrightarrow> take_last n xs = xs"
  by (simp add: take_last_def)

lemma take_last_append: "take_last n (take_last n xs @ ys) = take_last n (xs @ ys)"
proof (cases "length xs \<le> n")
  case False
  then show ?thesis
    by (cases "n \<le> length ys") (auto simp: take_last_def add.commute)
qed simp

lemma suffix_take_last [simp]: "suffix (take_last n xs) xs"
  by (simp add: take_last_def suffix_drop)

lemma subseq_drop_append: "subseq (drop k xs @ ys) (xs @ ys)"
  by (simp add: suffix_drop suffix_imp_subseq)

lemma subseq_set: "subseq xs ys \<Longrightarrow> set xs \<subseteq> set ys"
  by (induction rule: list_emb.induct) auto

lemma subseq_appendI [intro]: "subseq ys zs \<Longrightarrow> subseq (xs @ ys) (xs @ zs)"
  by (rule list_emb_append_mono [OF subseq_order.refl])

lemma drop_Cons_subseq: "drop k xs = x # ys \<Longrightarrow> subseq (x # ys) xs"
  by (metis suffix_drop suffix_imp_subseq)

lemma strict_sorted_le_last:
  "sorted_wrt (<) xs \<Longrightarrow> x \<in> set xs \<Longrightarrow> x \<le> last (xs :: 'a::linorder list)"
  by (induction xs) (auto simp: less_imp_le)

lemma of_nat_length_tl [simp]:
  "xs \<noteq> [] \<Longrightarrow> (of_nat (length (tl xs)) :: 'a::ring_1) = of_nat (length xs) - 1"
  by (cases xs) auto

lemma mod_shift: "h < c \<Longrightarrow> i < c \<Longrightarrow> (h + i) mod c = (if h + i < c then h + i else h + i - c)"
  for h i c :: nat
  by (simp add: le_mod_geq)

section \<open>Interface: a machine with an invariant\<close>

text \<open>
  Components that handle one event at a time (the dialogue state machine, the TTS bridge, the
  turn writer, the endpointer) provide a step function and an invariant every step keeps. What
  the clients use is that any sequence of steps keeps it.
\<close>

locale step_machine =
  fixes step :: "'s \<Rightarrow> 'e \<Rightarrow> 's"
    and inv :: "'s \<Rightarrow> bool"
  assumes step_inv: "inv s \<Longrightarrow> inv (step s e)"
begin

lemma run_inv: "inv s \<Longrightarrow> inv (foldl step s es)"
  by (induction es arbitrary: s) (auto intro: step_inv)

text \<open>The invariant holds at every intermediate state of a run, not only at its end.\<close>

lemma run_prefix_inv: "inv s \<Longrightarrow> inv (foldl step s (take n es))"
  by (rule run_inv)

text \<open>A quantity that no step lets decrease does not decrease over a run.\<close>

lemma run_mono:
  assumes "inv s" and "\<And>s e. inv s \<Longrightarrow> (m s :: 'm::preorder) \<le> m (step s e)"
  shows "m s \<le> m (foldl step s es)"
  using assms(1)
proof (induction es arbitrary: s)
  case (Cons e es)
  then have "m (step s e) \<le> m (foldl step (step s e) es)"
    by (simp add: step_inv)
  with assms(2) [OF Cons.prems] show ?case
    by (auto intro: order_trans)
qed simp

end

section \<open>Interface: first-in first-out queues\<close>

text \<open>
  One operation of a client of a queue, and a run of such operations. A blocked operation leaves
  the queue as it is. The run collects the accepted values, the values handed out and the final
  queue.
\<close>

datatype 'a qop = Push 'a | Pop

fun fifo_op ::
  "('a \<Rightarrow> 'q \<Rightarrow> (bool \<times> 'q) exec) \<Rightarrow> ('q \<Rightarrow> ('a option \<times> 'q) exec) \<Rightarrow> 'q \<Rightarrow> 'a qop
     \<Rightarrow> 'a list \<times> 'a list \<times> 'q" where
  "fifo_op push pop q (Push x) =
     (case push x q of Done (b, q') \<Rightarrow> (if b then [x] else [], [], q') | _ \<Rightarrow> ([], [], q))"
| "fifo_op push pop q Pop =
     (case pop q of
        Done (Some x, q') \<Rightarrow> ([], [x], q')
      | Done (None, q') \<Rightarrow> ([], [], q')
      | _ \<Rightarrow> ([], [], q))"

fun fifo_run ::
  "('a \<Rightarrow> 'q \<Rightarrow> (bool \<times> 'q) exec) \<Rightarrow> ('q \<Rightarrow> ('a option \<times> 'q) exec) \<Rightarrow> 'q \<Rightarrow> 'a qop list
     \<Rightarrow> 'a list \<times> 'a list \<times> 'q" where
  "fifo_run push pop q [] = ([], [], q)"
| "fifo_run push pop q (op # ops) =
     (case fifo_op push pop q op of (a, v, q1) \<Rightarrow>
        case fifo_run push pop q1 ops of (as, vs, q2) \<Rightarrow> (a @ as, v @ vs, q2))"

text \<open>
  A queue that may discard its oldest elements (on overflow, or stale ones at the head) but
  never reorders, duplicates or invents one.
\<close>

locale lossy_fifo =
  fixes inv :: "'q \<Rightarrow> bool"
    and items :: "'q \<Rightarrow> 'a list"
    and push :: "'a \<Rightarrow> 'q \<Rightarrow> (bool \<times> 'q) exec"
    and pop :: "'q \<Rightarrow> ('a option \<times> 'q) exec"
  assumes push_inv: "inv q \<Longrightarrow> push x q = Done (b, q') \<Longrightarrow> inv q'"
    and push_items: "inv q \<Longrightarrow> push x q = Done (True, q') \<Longrightarrow> \<exists>k. items q' = drop k (items q) @ [x]"
    and push_reject: "inv q \<Longrightarrow> push x q = Done (False, q') \<Longrightarrow> items q' = items q"
    and pop_inv: "inv q \<Longrightarrow> pop q = Done (r, q') \<Longrightarrow> inv q'"
    and pop_some: "inv q \<Longrightarrow> pop q = Done (Some x, q') \<Longrightarrow> \<exists>k. drop k (items q) = x # items q'"
    and pop_none: "inv q \<Longrightarrow> pop q = Done (None, q') \<Longrightarrow> \<exists>k. items q' = drop k (items q)"
begin

lemma op_inv: "inv q \<Longrightarrow> fifo_op push pop q op = (a, v, q') \<Longrightarrow> inv q'"
  by (cases op) (auto split: exec.splits prod.splits option.splits intro: push_inv pop_inv)

lemma op_subseq:
  assumes "inv q" and "fifo_op push pop q op = (a, v, q')"
  shows "subseq (v @ items q') (items q @ a)"
proof (cases op)
  case (Push x)
  with assms consider "a = []" "v = []" "items q' = items q"
    | k where "a = [x]" "v = []" "items q' = drop k (items q) @ [x]"
    by (auto split: exec.splits prod.splits if_splits dest: push_items push_reject)
  then show ?thesis
    by cases (auto simp: subseq_drop_append)
next
  case Pop
  with assms consider "a = []" "v = []" "items q' = items q"
    | k where "a = []" "v = []" "items q' = drop k (items q)"
    | k x where "a = []" "v = [x]" "drop k (items q) = x # items q'"
    by (auto split: exec.splits prod.splits option.splits dest: pop_some pop_none)
  then show ?thesis
    by cases (auto simp: suffix_drop suffix_imp_subseq dest: drop_Cons_subseq)
qed

lemma run_keeps_inv:
  "inv q \<Longrightarrow> fifo_run push pop q ops = (acc, out, q') \<Longrightarrow> inv q'"
  by (induction ops arbitrary: q acc out) (auto split: prod.splits dest: op_inv)

lemma run_subseq:
  "inv q \<Longrightarrow> fifo_run push pop q ops = (acc, out, q') \<Longrightarrow>
     subseq (out @ items q') (items q @ acc)"
proof (induction ops arbitrary: q acc out)
  case (Cons op ops)
  obtain a v q1 where op: "fifo_op push pop q op = (a, v, q1)"
    by (metis prod_cases3)
  with Cons.prems obtain as vs where run: "fifo_run push pop q1 ops = (as, vs, q')"
    and eq: "acc = a @ as" "out = v @ vs"
    by (auto split: prod.splits)
  have "subseq (vs @ items q') (items q1 @ as)"
    using Cons.IH [OF op_inv [OF Cons.prems(1) op] run] .
  then have "subseq (v @ vs @ items q') (v @ items q1 @ as)"
    by (rule subseq_appendI)
  also have "subseq (v @ items q1 @ as) (items q @ a @ as)"
    using list_emb_append_mono [OF op_subseq [OF Cons.prems(1) op] subseq_order.refl [of as]]
    by simp
  finally show ?case by (simp add: eq)
qed simp

end

text \<open>A queue that loses nothing it accepted.\<close>

locale strict_fifo = lossy_fifo +
  assumes push_exact: "inv q \<Longrightarrow> push x q = Done (True, q') \<Longrightarrow> items q' = items q @ [x]"
    and pop_exact: "inv q \<Longrightarrow> pop q = Done (Some x, q') \<Longrightarrow> items q = x # items q'"
    and pop_idle: "inv q \<Longrightarrow> pop q = Done (None, q') \<Longrightarrow> items q' = items q"
begin

lemma op_exact:
  "inv q \<Longrightarrow> fifo_op push pop q op = (a, v, q') \<Longrightarrow> v @ items q' = items q @ a"
  by (cases op)
    (auto split: exec.splits prod.splits option.splits if_splits
      dest: push_exact push_reject pop_exact pop_idle)

lemma run_exact:
  "inv q \<Longrightarrow> fifo_run push pop q ops = (acc, out, q') \<Longrightarrow> out @ items q' = items q @ acc"
proof (induction ops arbitrary: q acc out)
  case (Cons op ops)
  obtain a v q1 where op: "fifo_op push pop q op = (a, v, q1)"
    by (metis prod_cases3)
  with Cons.prems obtain as vs where run: "fifo_run push pop q1 ops = (as, vs, q')"
    and eq: "acc = a @ as" "out = v @ vs"
    by (auto split: prod.splits)
  have "vs @ items q' = items q1 @ as"
    using Cons.IH [OF op_inv [OF Cons.prems(1) op] run] .
  with op_exact [OF Cons.prems(1) op] eq show ?case
    by (metis append.assoc)
qed simp

end

end
