(* ===== verification/Events.thy ===== *)
theory Events
  imports Prelude
begin

text \<open>
  The control events of \<open>src/event/event.hpp\<close>: one constructor per alternative of the
  \<open>Event\<close> variant with the struct's fields in order, the type index used for routing
  (\<open>typeid\<close> of the active alternative), and the two observers \<open>event_name\<close> and
  \<open>event_turn\<close> of \<open>src/event/event.cpp\<close>.
\<close>

definition kNoTurn :: turn_id where
  "kNoTurn = 0"

text \<open>The utterance buffer an \<open>UtteranceReady\<close> event points to (\<open>audio::AudioSlice\<close>).\<close>

record audio_slice =
  slice_samples :: "sample list"
  slice_rate :: nat
  slice_started_at :: time_point
  slice_ended_at :: time_point

datatype health_state = HsUnknown | HsHealthy | HsDegraded | HsUnhealthy

record partial_transcript =
  pt_turn :: turn_id
  pt_text :: string
  pt_lang :: string
  pt_stable_prefix_len :: nat
  pt_seq :: seq_no
  pt_confidence :: cfloat

record final_transcript =
  ft_turn :: turn_id
  ft_text :: string
  ft_lang :: string
  ft_confidence :: cfloat
  ft_audio_duration :: millis
  ft_processing_duration :: millis

record llm_sentence =
  ls_turn :: turn_id
  ls_seq :: seq_no
  ls_text :: string
  ls_lang :: string

datatype event =
    SpeechStarted turn_id time_point
  | SpeechEnded turn_id time_point
  | UtteranceReady turn_id "audio_slice option"
  | PartialTranscript partial_transcript
  | FinalTranscript final_transcript
  | LlmStarted turn_id
  | LlmToken turn_id string
  | LlmSentence llm_sentence
  | LlmFinished turn_id bool nat
  | TtsStarted turn_id seq_no
  | TtsAudioChunk turn_id seq_no nat
  | TtsFinished turn_id seq_no
  | PlaybackStarted turn_id seq_no
  | PlaybackFinished turn_id seq_no
  | UserInterrupted turn_id time_point
  | CancelGeneration turn_id
  | Pause
  | Resume
  | ErrorEvent string string
  | HealthChanged string health_state string

text \<open>\<open>std::type_index\<close> of the active alternative.\<close>

datatype event_type =
    TSpeechStarted | TSpeechEnded | TUtteranceReady | TPartialTranscript | TFinalTranscript
  | TLlmStarted | TLlmToken | TLlmSentence | TLlmFinished | TTtsStarted | TTtsAudioChunk
  | TTtsFinished | TPlaybackStarted | TPlaybackFinished | TUserInterrupted | TCancelGeneration
  | TPause | TResume | TErrorEvent | THealthChanged

fun event_typeid :: "event \<Rightarrow> event_type" where
  "event_typeid (SpeechStarted _ _) = TSpeechStarted"
| "event_typeid (SpeechEnded _ _) = TSpeechEnded"
| "event_typeid (UtteranceReady _ _) = TUtteranceReady"
| "event_typeid (PartialTranscript _) = TPartialTranscript"
| "event_typeid (FinalTranscript _) = TFinalTranscript"
| "event_typeid (LlmStarted _) = TLlmStarted"
| "event_typeid (LlmToken _ _) = TLlmToken"
| "event_typeid (LlmSentence _) = TLlmSentence"
| "event_typeid (LlmFinished _ _ _) = TLlmFinished"
| "event_typeid (TtsStarted _ _) = TTtsStarted"
| "event_typeid (TtsAudioChunk _ _ _) = TTtsAudioChunk"
| "event_typeid (TtsFinished _ _) = TTtsFinished"
| "event_typeid (PlaybackStarted _ _) = TPlaybackStarted"
| "event_typeid (PlaybackFinished _ _) = TPlaybackFinished"
| "event_typeid (UserInterrupted _ _) = TUserInterrupted"
| "event_typeid (CancelGeneration _) = TCancelGeneration"
| "event_typeid Pause = TPause"
| "event_typeid Resume = TResume"
| "event_typeid (ErrorEvent _ _) = TErrorEvent"
| "event_typeid (HealthChanged _ _ _) = THealthChanged"

fun event_name :: "event \<Rightarrow> string" where
  "event_name (SpeechStarted _ _) = ''speech_started''"
| "event_name (SpeechEnded _ _) = ''speech_ended''"
| "event_name (UtteranceReady _ _) = ''utterance_ready''"
| "event_name (PartialTranscript _) = ''partial_transcript''"
| "event_name (FinalTranscript _) = ''final_transcript''"
| "event_name (LlmStarted _) = ''llm_started''"
| "event_name (LlmToken _ _) = ''llm_token''"
| "event_name (LlmSentence _) = ''llm_sentence''"
| "event_name (LlmFinished _ _ _) = ''llm_finished''"
| "event_name (TtsStarted _ _) = ''tts_started''"
| "event_name (TtsAudioChunk _ _ _) = ''tts_audio_chunk''"
| "event_name (TtsFinished _ _) = ''tts_finished''"
| "event_name (PlaybackStarted _ _) = ''playback_started''"
| "event_name (PlaybackFinished _ _) = ''playback_finished''"
| "event_name (UserInterrupted _ _) = ''user_interrupted''"
| "event_name (CancelGeneration _) = ''cancel_generation''"
| "event_name Pause = ''pause''"
| "event_name Resume = ''resume''"
| "event_name (ErrorEvent _ _) = ''error''"
| "event_name (HealthChanged _ _ _) = ''health_changed''"

fun event_turn :: "event \<Rightarrow> turn_id" where
  "event_turn (SpeechStarted t _) = t"
| "event_turn (SpeechEnded t _) = t"
| "event_turn (UtteranceReady t _) = t"
| "event_turn (PartialTranscript p) = pt_turn p"
| "event_turn (FinalTranscript f) = ft_turn f"
| "event_turn (LlmStarted t) = t"
| "event_turn (LlmToken t _) = t"
| "event_turn (LlmSentence s) = ls_turn s"
| "event_turn (LlmFinished t _ _) = t"
| "event_turn (TtsStarted t _) = t"
| "event_turn (TtsAudioChunk t _ _) = t"
| "event_turn (TtsFinished t _) = t"
| "event_turn (PlaybackStarted t _) = t"
| "event_turn (PlaybackFinished t _) = t"
| "event_turn (UserInterrupted t _) = t"
| "event_turn (CancelGeneration t) = t"
| "event_turn Pause = kNoTurn"
| "event_turn Resume = kNoTurn"
| "event_turn (ErrorEvent _ _) = kNoTurn"
| "event_turn (HealthChanged _ _ _) = kNoTurn"

text \<open>The metric label of an event identifies its type: no two alternatives share a name.\<close>

lemma event_name_typeid: "event_name e = event_name e' \<longleftrightarrow> event_typeid e = event_typeid e'"
  by (cases e; cases e'; simp)

end
