(* ===== verification/Bounded_Queue.thy ===== *)
theory Bounded_Queue
  imports Prelude
begin

text \<open>
  \<open>BoundedQueue<T>\<close> of \<open>src/event/queue.hpp\<close>: the lock-based bounded queue behind every bus
  subscription and the playback postbox. Each operation is one critical section of the queue's
  mutex. A wait on a condition variable whose predicate is false is \<open>Blocked\<close>; re-running the
  operation after a wake-up evaluates the same conditions as the code after \<open>wait\<close> returns.
  \<open>pop_front\<close> on an empty deque (a full queue of capacity 0 under DropOldest) is \<open>UB\<close>.

  The lemmas show that every operation keeps the size bound and the counter equation, and that
  the queue implements the FIFO interfaces of the prelude: exactly for the policies that reject
  or block, up to losing the oldest elements for DropOldest.
\<close>

datatype overflow_policy = DropOldest | DropNewest | Block

record 'a bounded_queue =
  bq_capacity :: nat
  bq_policy :: overflow_policy
  bq_q :: "'a list"
  bq_closed :: bool
  bq_pushes :: counter
  bq_pops :: counter
  bq_drops :: counter

definition bq_new :: "nat \<Rightarrow> overflow_policy \<Rightarrow> 'a bounded_queue" where
  "bq_new capacity policy =
     \<lparr>bq_capacity = capacity, bq_policy = policy, bq_q = [], bq_closed = False,
      bq_pushes = 0, bq_pops = 0, bq_drops = 0\<rparr>"

definition bq_append :: "'a \<Rightarrow> 'a bounded_queue \<Rightarrow> bool \<times> 'a bounded_queue" where
  "bq_append x q = (True, q\<lparr>bq_q := bq_q q @ [x], bq_pushes := bq_pushes q + 1\<rparr>)"

definition bq_push :: "'a \<Rightarrow> 'a bounded_queue \<Rightarrow> (bool \<times> 'a bounded_queue) exec" where
  "bq_push x q =
     (if bq_closed q then Done (False, q)
      else if bq_capacity q \<le> length (bq_q q) then
        (case bq_policy q of
           DropOldest \<Rightarrow>
             (if bq_q q = [] then UB
              else Done (bq_append x (q\<lparr>bq_q := tl (bq_q q), bq_drops := bq_drops q + 1\<rparr>)))
         | DropNewest \<Rightarrow> Done (False, q\<lparr>bq_drops := bq_drops q + 1\<rparr>)
         | Block \<Rightarrow> Blocked)
      else Done (bq_append x q))"

text \<open>The common tail of the three pops: take the front element of a non-empty queue.\<close>

definition bq_take :: "'a bounded_queue \<Rightarrow> 'a option \<times> 'a bounded_queue" where
  "bq_take q =
     (case bq_q q of
        [] \<Rightarrow> (None, q)
      | x # xs \<Rightarrow> (Some x, q\<lparr>bq_q := xs, bq_pops := bq_pops q + 1\<rparr>))"

definition bq_pop_until ::
  "time_point \<Rightarrow> time_point \<Rightarrow> 'a bounded_queue \<Rightarrow> ('a option \<times> 'a bounded_queue) exec" where
  "bq_pop_until now deadline q =
     (if bq_q q = [] \<and> \<not> bq_closed q then (if deadline \<le> now then Done (None, q) else Blocked)
      else Done (bq_take q))"

definition bq_pop :: "'a bounded_queue \<Rightarrow> ('a option \<times> 'a bounded_queue) exec" where
  "bq_pop q = (if bq_q q = [] \<and> \<not> bq_closed q then Blocked else Done (bq_take q))"

definition bq_try_pop :: "'a bounded_queue \<Rightarrow> 'a option \<times> 'a bounded_queue" where
  "bq_try_pop q = bq_take q"

definition bq_close :: "'a bounded_queue \<Rightarrow> 'a bounded_queue" where
  "bq_close q = q\<lparr>bq_closed := True\<rparr>"

definition bq_size :: "'a bounded_queue \<Rightarrow> nat" where
  "bq_size q = length (bq_q q)"

text \<open>
  The invariant: a positive capacity that bounds the size, and the counters account for every
  accepted element (modulo the counters' wrap-around). Under DropNewest the drop counter counts
  rejected pushes, under DropOldest elements removed from the front.
\<close>

definition bq_inv :: "'a bounded_queue \<Rightarrow> bool" where
  "bq_inv q \<longleftrightarrow>
     0 < bq_capacity q \<and> length (bq_q q) \<le> bq_capacity q \<and>
     bq_pushes q = bq_pops q + of_nat (length (bq_q q))
       + (if bq_policy q = DropOldest then bq_drops q else 0) \<and>
     (bq_policy q = Block \<longrightarrow> bq_drops q = 0)"

lemmas bq_defs = bq_push_def bq_pop_def bq_pop_until_def bq_try_pop_def bq_take_def
  bq_append_def bq_close_def

lemma bq_new_inv: "0 < capacity \<Longrightarrow> bq_inv (bq_new capacity policy)"
  by (simp add: bq_inv_def bq_new_def)

lemma bq_push_inv: "bq_inv q \<Longrightarrow> bq_push x q = Done (b, q') \<Longrightarrow> bq_inv q'"
  by (auto simp: bq_inv_def bq_defs split: if_splits overflow_policy.splits)

lemma bq_take_inv: "bq_inv q \<Longrightarrow> bq_take q = (r, q') \<Longrightarrow> bq_inv q'"
  by (auto simp: bq_inv_def bq_take_def split: list.splits)

lemma bq_pop_inv: "bq_inv q \<Longrightarrow> bq_pop q = Done (r, q') \<Longrightarrow> bq_inv q'"
  by (auto simp: bq_pop_def dest: bq_take_inv split: if_splits)

lemma bq_pop_until_inv: "bq_inv q \<Longrightarrow> bq_pop_until now dl q = Done (r, q') \<Longrightarrow> bq_inv q'"
  by (auto simp: bq_pop_until_def dest: bq_take_inv split: if_splits)

lemma bq_close_inv: "bq_inv q \<Longrightarrow> bq_inv (bq_close q)"
  by (simp add: bq_inv_def bq_close_def)

lemma bq_push_policy: "bq_push x q = Done (b, q') \<Longrightarrow> bq_policy q' = bq_policy q"
  by (auto simp: bq_defs split: if_splits overflow_policy.splits)

lemma bq_take_policy: "bq_take q = (r, q') \<Longrightarrow> bq_policy q' = bq_policy q"
  by (auto simp: bq_take_def split: list.splits)

lemma bq_pop_policy: "bq_pop q = Done (r, q') \<Longrightarrow> bq_policy q' = bq_policy q"
  by (auto simp: bq_pop_def dest: bq_take_policy split: if_splits)

lemma bq_push_items:
  "bq_push x q = Done (True, q') \<Longrightarrow>
     bq_q q' = (if bq_capacity q \<le> length (bq_q q) then tl (bq_q q) else bq_q q) @ [x]"
  by (auto simp: bq_defs split: if_splits overflow_policy.splits)

lemma bq_push_lossless:
  "bq_policy q \<noteq> DropOldest \<Longrightarrow> bq_push x q = Done (True, q') \<Longrightarrow> bq_q q' = bq_q q @ [x]"
  by (auto simp: bq_defs split: if_splits overflow_policy.splits)

lemma bq_push_reject: "bq_push x q = Done (False, q') \<Longrightarrow> bq_q q' = bq_q q"
  by (auto simp: bq_defs split: if_splits overflow_policy.splits)

lemma bq_push_no_UB: "bq_inv q \<Longrightarrow> bq_push x q \<noteq> UB"
  by (auto simp: bq_inv_def bq_defs split: overflow_policy.splits)

lemma bq_pop_some: "bq_pop q = Done (Some x, q') \<Longrightarrow> bq_q q = x # bq_q q'"
  by (auto simp: bq_defs split: if_splits list.splits)

lemma bq_pop_none: "bq_pop q = Done (None, q') \<Longrightarrow> q' = q \<and> bq_q q = [] \<and> bq_closed q"
  by (auto simp: bq_defs split: if_splits list.splits)

text \<open>A closed queue still hands out what it holds, and takes nothing more.\<close>

lemma bq_closed_push: "bq_closed q \<Longrightarrow> bq_push x q = Done (False, q)"
  by (simp add: bq_push_def)

lemma bq_closed_pop: "bq_closed q \<Longrightarrow> bq_pop q = Done (bq_take q)"
  by (simp add: bq_pop_def)

text \<open>Under every policy the queue is a FIFO that may lose its oldest elements.\<close>

interpretation bq: lossy_fifo bq_inv bq_q bq_push bq_pop
proof unfold_locales
  fix q q' :: "'a bounded_queue" and x
  assume "bq_push x q = Done (True, q')"
  then have "bq_q q' = (if bq_capacity q \<le> length (bq_q q) then drop 1 (bq_q q)
      else drop 0 (bq_q q)) @ [x]"
    by (simp add: bq_push_items drop_Suc)
  then show "\<exists>k. bq_q q' = drop k (bq_q q) @ [x]"
    by metis
next
  fix q q' :: "'a bounded_queue" and x
  assume "bq_pop q = Done (Some x, q')"
  then have "drop 0 (bq_q q) = x # bq_q q'" by (simp add: bq_pop_some)
  then show "\<exists>k. drop k (bq_q q) = x # bq_q q'" ..
next
  fix q q' :: "'a bounded_queue"
  assume "bq_pop q = Done (None, q')"
  then have "bq_q q' = drop 0 (bq_q q)" by (auto dest: bq_pop_none)
  then show "\<exists>k. bq_q q' = drop k (bq_q q)" ..
qed (auto dest: bq_push_inv bq_pop_inv bq_push_reject)

text \<open>Under Block and DropNewest nothing that was accepted is lost.\<close>

interpretation bqs: strict_fifo
  "\<lambda>q. bq_inv q \<and> bq_policy q \<noteq> DropOldest" bq_q bq_push bq_pop
proof unfold_locales
  fix q q' :: "'a bounded_queue" and x
  assume "bq_inv q \<and> bq_policy q \<noteq> DropOldest" and "bq_pop q = Done (Some x, q')"
  then show "\<exists>k. drop k (bq_q q) = x # bq_q q'"
    by (auto intro: bq.pop_some)
qed (auto dest: bq_push_inv bq_pop_inv bq_push_reject bq_push_policy bq_pop_policy bq_pop_some
    bq_pop_none bq_push_lossless bq.push_items bq.pop_none)

end
