(* ===== verification/Event_Bus.thy ===== *)
theory Event_Bus
  imports Events Bounded_Queue
begin

text \<open>
  The publish/subscribe bus of \<open>src/event/bus.hpp\<close> and \<open>src/event/bus.cpp\<close> as an explicit
  interleaving of the steps of its threads: publishers inside \<open>publish_event\<close>, one worker per
  subscription inside \<open>Subscription::run\<close>, and threads inside \<open>Subscription::stop\<close> and
  \<open>EventBus::shutdown\<close>. Every step is one atomic access or one critical section. A step that
  is not enabled (a push blocked by a full Block queue, a pop on an empty open queue, a join on a
  live worker) is \<open>None\<close>.

  The subscriptions ever created form a store indexed by creation order (the \<open>shared_ptr\<close>
  identity); \<open>bus_subs\<close> is the bus's own vector of handles. \<open>sub_handled\<close> logs the handler's
  invocations and \<open>sub_accepted\<close> the events the subscription's queue accepted.
\<close>

section \<open>State\<close>

text \<open>Where a worker is in \<open>run\<close>: at the loop head, in \<open>pop\<close>, in the handler, or returned.\<close>

datatype worker = AtLoopHead | InPop | InHandler event | Exited

text \<open>How far the (single) thread that won the exchange in \<open>stop\<close> is.\<close>

datatype stopper = NotStopped | Cased | QueueClosed | Joined

record subscription =
  sub_name :: string
  sub_target :: "event_type option"  \<comment> \<open>\<open>None\<close>: \<open>typeid(Event)\<close>, every event\<close>
  sub_queue :: "event bounded_queue"
  sub_running :: bool
  sub_worker :: worker
  sub_stopper :: stopper
  sub_handled :: "event list"
  sub_accepted :: "event list"

record subscribe_options =
  so_name :: string
  so_queue_capacity :: nat
  so_policy :: overflow_policy

text \<open>A thread inside \<open>publish_event\<close>: before the snapshot, or in the delivery loop.\<close>

datatype publisher = PubCounted event | PubDelivering event "nat list"

record bus =
  bus_store :: "subscription list"
  bus_subs :: "nat list"
  bus_shutting_down :: bool
  bus_published :: counter
  bus_publishers :: "publisher list"

definition bus_new :: bus where
  "bus_new = \<lparr>bus_store = [], bus_subs = [], bus_shutting_down = False, bus_published = 0,
              bus_publishers = []\<rparr>"

section \<open>Subscriptions\<close>

definition sub_new :: "subscribe_options \<Rightarrow> event_type option \<Rightarrow> subscription" where
  "sub_new opts target =
     \<lparr>sub_name = so_name opts, sub_target = target,
      sub_queue = bq_new (so_queue_capacity opts) (so_policy opts),
      sub_running = True, sub_worker = AtLoopHead, sub_stopper = NotStopped,
      sub_handled = [], sub_accepted = []\<rparr>"

definition sub_matches :: "subscription \<Rightarrow> event \<Rightarrow> bool" where
  "sub_matches s e \<longleftrightarrow>
     (case sub_target s of None \<Rightarrow> True | Some t \<Rightarrow> event_typeid e = t)"

text \<open>
  One step of the worker loop. The wrapper installed by \<open>subscribe<E>\<close> calls the typed handler
  only when the event holds an \<open>E\<close>; \<open>subscribe_all\<close> passes every event through.
\<close>

definition sub_worker_step :: "subscription \<Rightarrow> subscription option" where
  "sub_worker_step s =
     (case sub_worker s of
        AtLoopHead \<Rightarrow> Some (s\<lparr>sub_worker := if sub_running s then InPop else Exited\<rparr>)
      | InPop \<Rightarrow>
          (case bq_pop (sub_queue s) of
             Done (Some e, q) \<Rightarrow> Some (s\<lparr>sub_queue := q, sub_worker := InHandler e\<rparr>)
           | Done (None, q) \<Rightarrow> Some (s\<lparr>sub_queue := q, sub_worker := Exited\<rparr>)
           | _ \<Rightarrow> None)
      | InHandler e \<Rightarrow>
          Some (s\<lparr>sub_worker := AtLoopHead,
                  sub_handled := (if sub_matches s e then sub_handled s @ [e] else sub_handled s)\<rparr>)
      | Exited \<Rightarrow> None)"

definition sub_stop_step :: "subscription \<Rightarrow> subscription option" where
  "sub_stop_step s =
     (case sub_stopper s of
        NotStopped \<Rightarrow> Some (s\<lparr>sub_running := False, sub_stopper := Cased\<rparr>)
      | Cased \<Rightarrow> Some (s\<lparr>sub_queue := bq_close (sub_queue s), sub_stopper := QueueClosed\<rparr>)
      | QueueClosed \<Rightarrow>
          (if sub_worker s = Exited then Some (s\<lparr>sub_stopper := Joined\<rparr>) else None)
      | Joined \<Rightarrow> Some s)"

text \<open>The body of the delivery loop for one subscription.\<close>

definition sub_offer :: "event \<Rightarrow> subscription \<Rightarrow> subscription option" where
  "sub_offer e s =
     (if sub_matches s e then
        (case bq_push e (sub_queue s) of
           Done (b, q) \<Rightarrow>
             Some (s\<lparr>sub_queue := q, sub_accepted := sub_accepted s @ (if b then [e] else [])\<rparr>)
         | _ \<Rightarrow> None)
      else Some s)"

section \<open>Bus operations\<close>

definition bus_register :: "subscribe_options \<Rightarrow> event_type option \<Rightarrow> bus \<Rightarrow> bus" where
  "bus_register opts target b =
     b\<lparr>bus_store := bus_store b @ [sub_new opts target],
       bus_subs := bus_subs b @ [length (bus_store b)]\<rparr>"

definition bus_publish_begin :: "event \<Rightarrow> bus \<Rightarrow> bus" where
  "bus_publish_begin e b =
     (if bus_shutting_down b then b
      else b\<lparr>bus_published := bus_published b + 1,
             bus_publishers := bus_publishers b @ [PubCounted e]\<rparr>)"

definition update_store :: "nat \<Rightarrow> (subscription \<Rightarrow> subscription option) \<Rightarrow> bus \<Rightarrow> bus option" where
  "update_store i f b =
     (if i < length (bus_store b)
      then map_option (\<lambda>s. b\<lparr>bus_store := (bus_store b)[i := s]\<rparr>) (f (bus_store b ! i))
      else None)"

definition bus_publish_step :: "nat \<Rightarrow> bus \<Rightarrow> bus option" where
  "bus_publish_step k b =
     (if k < length (bus_publishers b) then
        (case bus_publishers b ! k of
           PubCounted e \<Rightarrow>
             Some (b\<lparr>bus_publishers := (bus_publishers b)[k := PubDelivering e (bus_subs b)]\<rparr>)
         | PubDelivering e [] \<Rightarrow> None
         | PubDelivering e (i # is) \<Rightarrow>
             map_option (\<lambda>b'. b'\<lparr>bus_publishers := (bus_publishers b)[k := PubDelivering e is]\<rparr>)
               (update_store i (sub_offer e) b))
      else None)"

definition bus_shutdown_begin :: "bus \<Rightarrow> bus" where
  "bus_shutdown_begin b = b\<lparr>bus_shutting_down := True\<rparr>"

definition bus_shutdown_swap :: "bus \<Rightarrow> bus option" where
  "bus_shutdown_swap b = (if bus_shutting_down b then Some (b\<lparr>bus_subs := []\<rparr>) else None)"

definition bus_subscriber_count :: "bus \<Rightarrow> nat" where
  "bus_subscriber_count b = length (bus_subs b)"

datatype bus_action =
    ARegister subscribe_options "event_type option"
  | APublish event
  | APublisher nat
  | AWorker nat
  | AStopper nat
  | AShutdown
  | ASwap

fun bus_do :: "bus_action \<Rightarrow> bus \<Rightarrow> bus option" where
  "bus_do (ARegister opts target) b =
     (if 0 < so_queue_capacity opts then Some (bus_register opts target b) else None)"
| "bus_do (APublish e) b = Some (bus_publish_begin e b)"
| "bus_do (APublisher k) b = bus_publish_step k b"
| "bus_do (AWorker i) b = update_store i sub_worker_step b"
| "bus_do (AStopper i) b = update_store i sub_stop_step b"
| "bus_do AShutdown b = Some (bus_shutdown_begin b)"
| "bus_do ASwap b = bus_shutdown_swap b"

inductive bus_reachable :: "bus \<Rightarrow> bool" where
  init: "bus_reachable bus_new"
| step: "bus_reachable b \<Longrightarrow> bus_do a b = Some b' \<Longrightarrow> bus_reachable b'"

text \<open>Execution of a list of actions, for concrete schedules.\<close>

fun bus_run :: "bus_action list \<Rightarrow> bus \<Rightarrow> bus option" where
  "bus_run [] b = Some b"
| "bus_run (a # as) b = (case bus_do a b of None \<Rightarrow> None | Some b' \<Rightarrow> bus_run as b')"

section \<open>The subscription invariant\<close>

text \<open>The event the handler is being called with.\<close>

definition sub_in_hand :: "subscription \<Rightarrow> event list" where
  "sub_in_hand s = (case sub_worker s of InHandler e \<Rightarrow> [e] | _ \<Rightarrow> [])"

definition sub_flow :: "subscription \<Rightarrow> event list" where
  "sub_flow s = sub_handled s @ sub_in_hand s @ bq_q (sub_queue s)"

definition sub_inv :: "subscription \<Rightarrow> bool" where
  "sub_inv s \<longleftrightarrow>
     bq_inv (sub_queue s) \<and> list_all (sub_matches s) (sub_accepted s) \<and>
     subseq (sub_flow s) (sub_accepted s) \<and>
     (bq_policy (sub_queue s) \<noteq> DropOldest \<longrightarrow> sub_flow s = sub_accepted s)"

lemma sub_new_inv: "0 < so_queue_capacity opts \<Longrightarrow> sub_inv (sub_new opts target)"
  by (simp add: sub_inv_def sub_new_def sub_flow_def sub_in_hand_def bq_new_inv)
    (simp add: bq_new_def)

lemma sub_in_hand_simps [simp]:
  "sub_in_hand (s\<lparr>sub_worker := InHandler e\<rparr>) = [e]"
  "sub_in_hand (s\<lparr>sub_queue := q\<rparr>) = sub_in_hand s"
  "sub_in_hand (s\<lparr>sub_handled := h\<rparr>) = sub_in_hand s"
  "sub_in_hand (s\<lparr>sub_accepted := h\<rparr>) = sub_in_hand s"
  "sub_in_hand (s\<lparr>sub_stopper := p\<rparr>) = sub_in_hand s"
  "sub_in_hand (s\<lparr>sub_running := r\<rparr>) = sub_in_hand s"
  "sub_in_hand (s\<lparr>sub_worker := AtLoopHead\<rparr>) = []"
  "sub_in_hand (s\<lparr>sub_worker := InPop\<rparr>) = []"
  "sub_in_hand (s\<lparr>sub_worker := Exited\<rparr>) = []"
  by (simp_all add: sub_in_hand_def)

lemma sub_matches_cong [simp]:
  "sub_matches (s\<lparr>sub_queue := q\<rparr>) = sub_matches s"
  "sub_matches (s\<lparr>sub_worker := w\<rparr>) = sub_matches s"
  "sub_matches (s\<lparr>sub_handled := h\<rparr>) = sub_matches s"
  "sub_matches (s\<lparr>sub_accepted := h\<rparr>) = sub_matches s"
  "sub_matches (s\<lparr>sub_stopper := p\<rparr>) = sub_matches s"
  "sub_matches (s\<lparr>sub_running := r\<rparr>) = sub_matches s"
  by (simp_all add: sub_matches_def fun_eq_iff)

lemma sub_inv_in_hand_matches: "sub_inv s \<Longrightarrow> sub_worker s = InHandler e \<Longrightarrow> sub_matches s e"
proof -
  assume "sub_inv s" "sub_worker s = InHandler e"
  then have "e \<in> set (sub_flow s)" and "subseq (sub_flow s) (sub_accepted s)"
    by (auto simp: sub_inv_def sub_flow_def sub_in_hand_def)
  then have "e \<in> set (sub_accepted s)"
    using subseq_set by blast
  with \<open>sub_inv s\<close> show ?thesis
    by (auto simp: sub_inv_def list_all_iff)
qed

text \<open>
  A step that leaves the accepted events alone keeps the invariant when it keeps the flow; the
  worker only moves an event from the queue into the handler and from there into the log.
\<close>

lemma sub_worker_step_inv:
  assumes "sub_inv s" and "sub_worker_step s = Some s'"
  shows "sub_inv s'"
proof (cases "sub_worker s")
  case AtLoopHead
  with assms show ?thesis
    by (auto simp: sub_worker_step_def sub_inv_def sub_flow_def sub_in_hand_def)
next
  case InPop
  from assms InPop consider e q where "bq_pop (sub_queue s) = Done (Some e, q)"
      "s' = s\<lparr>sub_queue := q, sub_worker := InHandler e\<rparr>"
    | q where "bq_pop (sub_queue s) = Done (None, q)"
      "s' = s\<lparr>sub_queue := q, sub_worker := Exited\<rparr>"
    by (auto simp: sub_worker_step_def split: exec.splits option.splits)
  then show ?thesis
  proof cases
    case (1 e q)
    with assms(1) InPop show ?thesis
      by (auto simp: sub_inv_def sub_flow_def sub_in_hand_def
          dest: bq_pop_inv bq_pop_some bq_pop_policy)
  next
    case (2 q)
    with assms(1) InPop show ?thesis
      by (auto simp: sub_inv_def sub_flow_def sub_in_hand_def dest: bq_pop_none)
  qed
next
  case (InHandler e)
  then have "sub_matches s e" using assms(1) sub_inv_in_hand_matches by blast
  with assms InHandler show ?thesis
    by (auto simp: sub_worker_step_def sub_inv_def sub_flow_def sub_in_hand_def)
next
  case Exited
  with assms show ?thesis by (simp add: sub_worker_step_def)
qed

lemma sub_stop_step_inv:
  "sub_inv s \<Longrightarrow> sub_stop_step s = Some s' \<Longrightarrow> sub_inv s'"
  by (auto simp: sub_stop_step_def sub_inv_def sub_flow_def bq_close_inv split: stopper.splits
      if_splits) (simp_all add: bq_close_def)

lemma sub_offer_inv:
  assumes "sub_inv s" and "sub_offer e s = Some s'"
  shows "sub_inv s'"
proof (cases "sub_matches s e")
  case True
  with assms(2) obtain b q where push: "bq_push e (sub_queue s) = Done (b, q)"
    and s': "s' = s\<lparr>sub_queue := q, sub_accepted := sub_accepted s @ (if b then [e] else [])\<rparr>"
    by (auto simp: sub_offer_def split: exec.splits)
  from assms(1) have inv: "bq_inv (sub_queue s)" by (simp add: sub_inv_def)
  show ?thesis
  proof (cases b)
    case b: True
    obtain k where "bq_q q = drop k (bq_q (sub_queue s)) @ [e]"
      using bq.push_items [OF inv] push b by auto
    moreover have "subseq (sub_handled s @ sub_in_hand s @ drop k (bq_q (sub_queue s))) (sub_flow s)"
      unfolding sub_flow_def by (intro subseq_appendI suffix_imp_subseq suffix_drop)
    then have "subseq (sub_handled s @ sub_in_hand s @ drop k (bq_q (sub_queue s))) (sub_accepted s)"
      using assms(1) by (auto simp: sub_inv_def intro: subseq_order.trans)
    then have "subseq ((sub_handled s @ sub_in_hand s @ drop k (bq_q (sub_queue s))) @ [e])
        (sub_accepted s @ [e])"
      by (rule list_emb_append_mono) simp
    ultimately have "subseq (sub_flow s') (sub_accepted s')"
      using b s' by (simp add: sub_flow_def)
    moreover have "bq_policy q \<noteq> DropOldest \<Longrightarrow> sub_flow s' = sub_accepted s'"
      using assms(1) b s' push bq_push_policy bq_push_lossless
      by (fastforce simp: sub_inv_def sub_flow_def)
    ultimately show ?thesis
      using assms(1) b s' push True inv by (auto simp: sub_inv_def dest: bq_push_inv)
  next
    case False
    with assms(1) s' push show ?thesis
      by (auto simp: sub_inv_def sub_flow_def dest: bq_push_inv bq_push_policy bq_push_reject)
  qed
next
  case False
  with assms show ?thesis by (simp add: sub_offer_def)
qed

section \<open>Reachable buses\<close>

definition bus_inv :: "bus \<Rightarrow> bool" where
  "bus_inv b \<longleftrightarrow> list_all sub_inv (bus_store b)"

lemma update_store_inv:
  assumes "bus_inv b" and "update_store i f b = Some b'"
    and "\<And>s s'. sub_inv s \<Longrightarrow> f s = Some s' \<Longrightarrow> sub_inv s'"
  shows "bus_inv b'"
proof -
  from assms(2) obtain s' where i: "i < length (bus_store b)" and f: "f (bus_store b ! i) = Some s'"
    and b': "b' = b\<lparr>bus_store := (bus_store b)[i := s']\<rparr>"
    by (auto simp: update_store_def split: if_splits)
  have "sub_inv s'" using assms(1,3) i f by (auto simp: bus_inv_def list_all_length)
  with assms(1) b' show ?thesis
    by (auto simp: bus_inv_def list_all_iff dest: set_update_subset_insert [THEN subsetD])
qed

lemma bus_publish_step_inv:
  assumes "bus_inv b" and "bus_publish_step k b = Some b'"
  shows "bus_inv b'"
proof -
  from assms(2) consider e where "b' = b\<lparr>bus_publishers :=
        (bus_publishers b)[k := PubDelivering e (bus_subs b)]\<rparr>"
    | e i "is" b1 where "update_store i (sub_offer e) b = Some b1"
        "b' = b1\<lparr>bus_publishers := (bus_publishers b)[k := PubDelivering e is]\<rparr>"
    by (auto simp: bus_publish_step_def split: if_splits publisher.splits list.splits)
  then show ?thesis
  proof cases
    case 1
    with assms(1) show ?thesis by (simp add: bus_inv_def)
  next
    case 2
    then have "bus_inv b1" using assms(1) update_store_inv sub_offer_inv by blast
    with 2 show ?thesis by (simp add: bus_inv_def)
  qed
qed

lemma bus_do_inv:
  assumes "bus_inv b" and "bus_do a b = Some b'"
  shows "bus_inv b'"
proof (cases a)
  case (ARegister opts target)
  with assms show ?thesis
    by (auto simp: bus_inv_def bus_register_def sub_new_inv split: if_splits)
next
  case (AWorker i)
  with assms show ?thesis
    by (auto intro: update_store_inv sub_worker_step_inv)
next
  case (AStopper i)
  with assms show ?thesis
    by (auto intro: update_store_inv sub_stop_step_inv)
qed (use assms in \<open>auto simp: bus_inv_def bus_publish_begin_def bus_shutdown_begin_def
    bus_shutdown_swap_def dest: bus_publish_step_inv [unfolded bus_inv_def] split: if_splits\<close>)

lemma bus_reachable_inv: "bus_reachable b \<Longrightarrow> bus_inv b"
  by (induction rule: bus_reachable.induct) (auto simp: bus_inv_def bus_new_def dest: bus_do_inv [unfolded bus_inv_def])

lemma bus_run_reachable: "bus_reachable b \<Longrightarrow> bus_run as b = Some b' \<Longrightarrow> bus_reachable b'"
  by (induction as arbitrary: b) (auto split: option.splits intro: bus_reachable.step)

section \<open>Properties\<close>


text \<open>A schedule: one typed Block subscription, two published events, one of them handled.\<close>

definition demo_opts :: subscribe_options where
  "demo_opts = \<lparr>so_name = ''demo'', so_queue_capacity = 2, so_policy = Block\<rparr>"

definition demo_actions :: "bus_action list" where
  "demo_actions = [ARegister demo_opts (Some TLlmStarted),
     APublish (LlmStarted 1), APublish Pause, APublish (LlmStarted 2),
     APublisher 0, APublisher 0, APublisher 1, APublisher 1, APublisher 2, APublisher 2,
     AWorker 0, AWorker 0, AWorker 0]"

definition demo_bus :: bus where
  "demo_bus = the (bus_run demo_actions bus_new)"

lemma demo_bus_run: "bus_run demo_actions bus_new = Some demo_bus"
  unfolding demo_bus_def demo_actions_def demo_opts_def by code_simp

lemma demo_bus_store:
  "map (\<lambda>s. (sub_handled s, bq_q (sub_queue s))) (bus_store demo_bus)
     = [([LlmStarted 1], [LlmStarted 2])]"
  unfolding demo_bus_def demo_actions_def demo_opts_def by code_simp


text \<open>
  Stopping a subscription does not drain its queue: there is a reachable state in which
  \<open>stop()\<close> has closed the queue and joined the worker, and an accepted event was never handled.
  The worker tests \<open>running_\<close>, which \<open>stop()\<close> clears first, before every \<open>pop\<close>; the comment on
  \<open>Subscription::stop\<close> promises the opposite.
\<close>

theorem stop_may_leave_events:
  "\<exists>b s. bus_reachable b \<and> s \<in> set (bus_store b) \<and> sub_stopper s = Joined \<and>
     bq_policy (sub_queue s) = Block \<and> sub_handled s = [] \<and> sub_accepted s = [LlmStarted 1]"
proof -
  let ?as = "[ARegister demo_opts (Some TLlmStarted), APublish (LlmStarted 1), APublisher 0,
     APublisher 0, AStopper 0, AWorker 0, AStopper 0, AStopper 0]"
  let ?b = "the (bus_run ?as bus_new)"
  have run: "bus_run ?as bus_new = Some ?b"
    unfolding demo_opts_def by code_simp
  have st: "map (\<lambda>s. (sub_stopper s, bq_policy (sub_queue s), sub_handled s, sub_accepted s))
      (bus_store ?b) = [(Joined, Block, [], [LlmStarted 1])]"
    unfolding demo_opts_def by code_simp
  then obtain s where "bus_store ?b = [s]" "sub_stopper s = Joined"
    "bq_policy (sub_queue s) = Block" "sub_handled s = []" "sub_accepted s = [LlmStarted 1]"
    by (auto simp: map_eq_Cons_conv)
  with bus_run_reachable [OF bus_reachable.init run] show ?thesis
    by (metis list.set_intros(1))
qed

end
