(* ===== verification/Turn.thy ===== *)
theory Turn
  imports Events
begin

text \<open>
  Turn contexts and cancellation tokens (\<open>src/dialogue/turn.hpp\<close>, \<open>src/dialogue/turn.cpp\<close>).
  Tokens are shared objects: a token is an address in a heap of flags, allocated by
  \<open>make_shared\<close> and only ever flipped to cancelled. The lemmas show that minting gives fresh,
  live tokens and pairwise distinct, non-zero turn ids until the 64-bit counter wraps, and that
  cancelling one token touches no other.
\<close>

type_synonym token = nat
type_synonym heap = "bool list"

definition new_token :: "heap \<Rightarrow> token \<times> heap" where
  "new_token h = (length h, h @ [False])"

definition cancel_token :: "token \<Rightarrow> heap \<Rightarrow> heap" where
  "cancel_token t h = h[t := True]"

definition is_cancelled :: "heap \<Rightarrow> token \<Rightarrow> bool" where
  "is_cancelled h t \<longleftrightarrow> t < length h \<and> h ! t"

record turn_context =
  tc_id :: turn_id
  tc_token :: "token option"
  tc_started_at :: time_point

definition tc_empty :: turn_context where
  "tc_empty = \<lparr>tc_id = kNoTurn, tc_token = None, tc_started_at = 0\<rparr>"

definition tc_valid :: "turn_context \<Rightarrow> bool" where
  "tc_valid c \<longleftrightarrow> tc_id c \<noteq> kNoTurn \<and> tc_token c \<noteq> None"

definition tc_cancelled :: "heap \<Rightarrow> turn_context \<Rightarrow> bool" where
  "tc_cancelled h c \<longleftrightarrow> (case tc_token c of None \<Rightarrow> True | Some t \<Rightarrow> is_cancelled h t)"

record turn_factory =
  tf_next :: turn_id

definition tf_new :: turn_factory where
  "tf_new = \<lparr>tf_next = 1\<rparr>"

definition mint ::
  "time_point \<Rightarrow> turn_factory \<Rightarrow> heap \<Rightarrow> turn_context \<times> turn_factory \<times> heap" where
  "mint now f h =
     (let (t, h') = new_token h
      in (\<lparr>tc_id = tf_next f, tc_token = Some t, tc_started_at = now\<rparr>,
          f\<lparr>tf_next := tf_next f + 1\<rparr>, h'))"

definition adopt :: "turn_id \<Rightarrow> time_point \<Rightarrow> heap \<Rightarrow> turn_context \<times> heap" where
  "adopt i now h =
     (let (t, h') = new_token h in (\<lparr>tc_id = i, tc_token = Some t, tc_started_at = now\<rparr>, h'))"

text \<open>A factory used \<open>n\<close> times in a row.\<close>

fun mint_many :: "nat \<Rightarrow> time_point \<Rightarrow> turn_factory \<Rightarrow> heap \<Rightarrow> turn_context list" where
  "mint_many 0 now f h = []"
| "mint_many (Suc n) now f h =
     (case mint now f h of (c, f', h') \<Rightarrow> c # mint_many n now f' h')"

section \<open>Tokens\<close>

lemma cancel_token_other: "t \<noteq> u \<Longrightarrow> is_cancelled (cancel_token t h) u = is_cancelled h u"
  by (auto simp: is_cancelled_def cancel_token_def)

lemma cancel_token_same: "t < length h \<Longrightarrow> is_cancelled (cancel_token t h) t"
  by (simp add: is_cancelled_def cancel_token_def)

lemma cancel_token_mono: "is_cancelled h u \<Longrightarrow> is_cancelled (cancel_token t h) u"
  by (cases "t = u") (auto simp: is_cancelled_def cancel_token_def)

lemma is_cancelled_cancel:
  "is_cancelled (cancel_token t h) u \<longleftrightarrow> is_cancelled h u \<or> t = u \<and> u < length h"
  by (cases "t = u") (auto simp: is_cancelled_def cancel_token_def)

lemma length_cancel_token [simp]: "length (cancel_token t h) = length h"
  by (simp add: cancel_token_def)

lemma new_token_fresh:
  "new_token h = (t, h') \<Longrightarrow> \<not> is_cancelled h' t \<and> t < length h' \<and> (\<forall>u < length h. h' ! u = h ! u)"
  by (auto simp: new_token_def is_cancelled_def nth_append)

lemma is_cancelled_append [simp]: "is_cancelled (h @ [False]) t = is_cancelled h t"
  by (auto simp: is_cancelled_def nth_append less_Suc_eq)

section \<open>Turn ids\<close>

lemma length_mint_many [simp]: "length (mint_many n now f h) = n"
  by (induction n arbitrary: f h) (auto simp: mint_def new_token_def)

lemma mint_many_nth:
  "i < n \<Longrightarrow> tc_id (mint_many n now f h ! i) = tf_next f + of_nat i \<and>
     tc_token (mint_many n now f h ! i) = Some (length h + i)"
proof (induction n arbitrary: i f h)
  case (Suc n)
  then show ?case
    by (cases i) (auto simp: mint_def new_token_def algebra_simps)
qed simp

lemma of_nat_turn_inj:
  "i < 2 ^ 64 \<Longrightarrow> j < 2 ^ 64 \<Longrightarrow> (of_nat i :: turn_id) = of_nat j \<Longrightarrow> i = j"
  by (simp add: word_of_nat_eq_iff take_bit_nat_eq_self)

text \<open>
  A factory mints unique turns: the contexts a fresh \<open>TurnFactory\<close> hands out within one
  wrap of its 64-bit counter all have different ids, none of them the reserved \<open>kNoTurn\<close>, each
  with a token of its own, so that invalidating one turn can never hit another.
\<close>

theorem mint_unique:
  assumes "n < 2 ^ 64" and "i < n" and "j < n" and "i \<noteq> j"
  shows "tc_id (mint_many n now tf_new h ! i) \<noteq> tc_id (mint_many n now tf_new h ! j) \<and>
    tc_id (mint_many n now tf_new h ! i) \<noteq> kNoTurn \<and>
    tc_token (mint_many n now tf_new h ! i) \<noteq> tc_token (mint_many n now tf_new h ! j) \<and>
    tc_valid (mint_many n now tf_new h ! i)"
proof -
  have id: "tc_id (mint_many n now tf_new h ! k) = of_nat (Suc k)" if "k < n" for k
    using mint_many_nth [OF that, of now tf_new h] by (simp add: tf_new_def)
  have tok: "tc_token (mint_many n now tf_new h ! k) = Some (length h + k)" if "k < n" for k
    using mint_many_nth [OF that, of now tf_new h] by simp
  have "(of_nat (Suc i) :: turn_id) \<noteq> of_nat (Suc j)"
    using of_nat_turn_inj [of "Suc i" "Suc j"] assms by auto
  moreover have "(of_nat (Suc i) :: turn_id) \<noteq> of_nat 0"
    using of_nat_turn_inj [of "Suc i" 0] assms by auto
  ultimately show ?thesis
    using assms by (simp add: id tok kNoTurn_def tc_valid_def)
qed

theorem mint_unique_witness:
  "tc_id (mint_many 2 0 tf_new [] ! 0) \<noteq> tc_id (mint_many 2 0 tf_new [] ! 1)"
  using mint_unique [of 2 0 1 0 "[]"] by simp

end
