(* ===== verification/Dialogue_Fsm.thy ===== *)
theory Dialogue_Fsm
  imports Turn
begin

text \<open>
  The dialogue state machine of \<open>src/dialogue/fsm.hpp\<close> and \<open>src/dialogue/fsm.cpp\<close>. The handlers
  run one event at a time on the subscription's worker thread, so the model is a step function.
  The record keeps the object's fields, the turn factory and token heap it mints from, and logs
  of its outputs: the calls of the state observer and of the turn-outcome observer, and the events
  it publishes. The clock reading a handler may take is an argument of the step.
\<close>

section \<open>State\<close>

datatype fsm_state =
    Idle | Listening | UserSpeaking | Transcribing | Thinking | Speaking | Completed | Interrupted

datatype turn_outcome =
    OutNotStarted | OutGenerating | OutSpeaking | OutInterrupted | OutCompleted | OutDiscarded

fun fsm_state_to_string :: "fsm_state \<Rightarrow> string" where
  "fsm_state_to_string Idle = ''idle''"
| "fsm_state_to_string Listening = ''listening''"
| "fsm_state_to_string UserSpeaking = ''user_speaking''"
| "fsm_state_to_string Transcribing = ''transcribing''"
| "fsm_state_to_string Thinking = ''thinking''"
| "fsm_state_to_string Speaking = ''speaking''"
| "fsm_state_to_string Completed = ''completed''"
| "fsm_state_to_string Interrupted = ''interrupted''"

fun turn_outcome_to_string :: "turn_outcome \<Rightarrow> string" where
  "turn_outcome_to_string OutNotStarted = ''not_started''"
| "turn_outcome_to_string OutGenerating = ''generating''"
| "turn_outcome_to_string OutSpeaking = ''speaking''"
| "turn_outcome_to_string OutInterrupted = ''interrupted''"
| "turn_outcome_to_string OutCompleted = ''completed''"
| "turn_outcome_to_string OutDiscarded = ''discarded''"

record fsm =
  fsm_subscribed :: bool
  fsm_state :: fsm_state
  fsm_active :: turn_context
  fsm_outcome :: turn_outcome
  fsm_sentences_played :: "32 word"
  fsm_sentences_received :: "32 word"
  fsm_llm_finished_seen :: bool
  fsm_turns_completed :: counter
  fsm_turns_interrupted :: counter
  fsm_turns_discarded :: counter
  fsm_entered_speaking_at :: time_point
  fsm_turns :: turn_factory
  fsm_heap :: heap
  fsm_state_log :: "(fsm_state \<times> fsm_state) list"
  fsm_outcome_log :: "turn_outcome list"
  fsm_published :: "event list"

record fsm_snapshot =
  snap_state :: fsm_state
  snap_active_turn :: turn_id
  snap_outcome :: turn_outcome
  snap_sentences_played :: "32 word"
  snap_turns_completed :: counter
  snap_turns_interrupted :: counter
  snap_turns_discarded :: counter
  snap_entered_speaking_at :: time_point

definition fsm_new :: "turn_factory \<Rightarrow> heap \<Rightarrow> fsm" where
  "fsm_new f h =
     \<lparr>fsm_subscribed = False, fsm_state = Idle, fsm_active = tc_empty, fsm_outcome = OutNotStarted,
      fsm_sentences_played = 0, fsm_sentences_received = 0, fsm_llm_finished_seen = False,
      fsm_turns_completed = 0, fsm_turns_interrupted = 0, fsm_turns_discarded = 0,
      fsm_entered_speaking_at = 0, fsm_turns = f, fsm_heap = h,
      fsm_state_log = [], fsm_outcome_log = [], fsm_published = []\<rparr>"

definition fsm_snapshot_of :: "fsm \<Rightarrow> fsm_snapshot" where
  "fsm_snapshot_of s =
     \<lparr>snap_state = fsm_state s, snap_active_turn = tc_id (fsm_active s),
      snap_outcome = fsm_outcome s, snap_sentences_played = fsm_sentences_played s,
      snap_turns_completed = fsm_turns_completed s,
      snap_turns_interrupted = fsm_turns_interrupted s,
      snap_turns_discarded = fsm_turns_discarded s,
      snap_entered_speaking_at = fsm_entered_speaking_at s\<rparr>"

section \<open>Handlers\<close>

definition fsm_transition :: "time_point \<Rightarrow> fsm_state \<Rightarrow> fsm \<Rightarrow> fsm" where
  "fsm_transition now next s =
     s\<lparr>fsm_state := next,
       fsm_entered_speaking_at :=
         (if fsm_state s \<noteq> Speaking \<and> next = Speaking then now else fsm_entered_speaking_at s),
       fsm_state_log :=
         (if fsm_state s \<noteq> next then fsm_state_log s @ [(fsm_state s, next)] else fsm_state_log s)\<rparr>"

definition fsm_start :: "time_point \<Rightarrow> fsm \<Rightarrow> fsm" where
  "fsm_start now s =
     (if fsm_subscribed s then s
      else fsm_transition now Listening (s\<lparr>fsm_subscribed := True\<rparr>))"

definition fsm_stop :: "fsm \<Rightarrow> fsm" where
  "fsm_stop s = (if fsm_subscribed s then s\<lparr>fsm_subscribed := False\<rparr> else s)"

definition handle_speech_started :: "time_point \<Rightarrow> fsm \<Rightarrow> fsm" where
  "handle_speech_started now s =
     (if fsm_state s \<in> {Listening, Completed, Interrupted} then
        (case mint now (fsm_turns s) (fsm_heap s) of (ctx, f, h) \<Rightarrow>
           fsm_transition now UserSpeaking
             (s\<lparr>fsm_active := ctx, fsm_turns := f, fsm_heap := h, fsm_outcome := OutNotStarted,
               fsm_sentences_played := 0, fsm_sentences_received := 0,
               fsm_llm_finished_seen := False\<rparr>))
      else s)"

definition handle_speech_ended :: "time_point \<Rightarrow> fsm \<Rightarrow> fsm" where
  "handle_speech_ended now s =
     (if fsm_state s = UserSpeaking then fsm_transition now Transcribing s else s)"

definition handle_final_transcript :: "time_point \<Rightarrow> fsm \<Rightarrow> fsm" where
  "handle_final_transcript now s =
     (if fsm_state s = Transcribing
      then fsm_transition now Thinking (s\<lparr>fsm_outcome := OutGenerating\<rparr>) else s)"

definition handle_llm_sentence :: "time_point \<Rightarrow> fsm \<Rightarrow> fsm" where
  "handle_llm_sentence now s =
     (let s1 = s\<lparr>fsm_sentences_received := fsm_sentences_received s + 1\<rparr>
      in if fsm_state s = Thinking
         then fsm_transition now Speaking (s1\<lparr>fsm_outcome := OutSpeaking\<rparr>) else s1)"

text \<open>The completion of a turn, shared by the two handlers that can close it.\<close>

definition fsm_complete :: "time_point \<Rightarrow> fsm \<Rightarrow> fsm" where
  "fsm_complete now s =
     fsm_transition now Listening (fsm_transition now Completed
       (s\<lparr>fsm_outcome := OutCompleted, fsm_turns_completed := fsm_turns_completed s + 1,
         fsm_outcome_log := fsm_outcome_log s @ [OutCompleted]\<rparr>))"

definition handle_llm_finished :: "time_point \<Rightarrow> fsm \<Rightarrow> fsm" where
  "handle_llm_finished now s =
     (let s1 = s\<lparr>fsm_llm_finished_seen := True\<rparr>
      in if fsm_state s = Thinking \<and> fsm_sentences_received s = 0
           \<or> fsm_state s = Speaking \<and> fsm_sentences_played s = fsm_sentences_received s
         then fsm_complete now s1 else s1)"

definition handle_playback_finished :: "turn_id \<Rightarrow> time_point \<Rightarrow> fsm \<Rightarrow> fsm" where
  "handle_playback_finished t now s =
     (if t \<noteq> tc_id (fsm_active s) then s
      else let s1 = s\<lparr>fsm_sentences_played := fsm_sentences_played s + 1\<rparr>
           in if fsm_state s1 = Speaking \<and> fsm_llm_finished_seen s1
                 \<and> fsm_sentences_played s1 = fsm_sentences_received s1
              then fsm_complete now s1 else s1)"

definition handle_user_interrupted :: "time_point \<Rightarrow> fsm \<Rightarrow> fsm" where
  "handle_user_interrupted now s =
     (if fsm_state s \<in> {Listening, Idle} then s
      else
        let old = fsm_active s;
            played = 1 \<le> fsm_sentences_played s;
            s1 = (case tc_token old of
                    None \<Rightarrow> s | Some t \<Rightarrow> s\<lparr>fsm_heap := cancel_token t (fsm_heap s)\<rparr>);
            s2 = s1\<lparr>fsm_published := fsm_published s1 @ [CancelGeneration (tc_id old)]\<rparr>;
            s3 = (if played
                  then s2\<lparr>fsm_outcome := OutInterrupted,
                          fsm_turns_interrupted := fsm_turns_interrupted s2 + 1,
                          fsm_outcome_log := fsm_outcome_log s2 @ [OutInterrupted]\<rparr>
                  else s2\<lparr>fsm_outcome := OutDiscarded,
                          fsm_turns_discarded := fsm_turns_discarded s2 + 1,
                          fsm_outcome_log := fsm_outcome_log s2 @ [OutDiscarded]\<rparr>)
        in fsm_transition now Listening (fsm_transition now Interrupted s3))"

fun fsm_on_event :: "time_point \<Rightarrow> event \<Rightarrow> fsm \<Rightarrow> fsm" where
  "fsm_on_event now (SpeechStarted _ _) s = handle_speech_started now s"
| "fsm_on_event now (SpeechEnded _ _) s = handle_speech_ended now s"
| "fsm_on_event now (FinalTranscript _) s = handle_final_transcript now s"
| "fsm_on_event now (LlmSentence _) s = handle_llm_sentence now s"
| "fsm_on_event now (LlmFinished _ _ _) s = handle_llm_finished now s"
| "fsm_on_event now (PlaybackFinished t _) s = handle_playback_finished t now s"
| "fsm_on_event now (UserInterrupted _ _) s = handle_user_interrupted now s"
| "fsm_on_event now _ s = s"

text \<open>A step of the machine for the generic run lemmas: a time-stamped event.\<close>

definition fsm_step :: "fsm \<Rightarrow> time_point \<times> event \<Rightarrow> fsm" where
  "fsm_step s te = fsm_on_event (fst te) (snd te) s"

abbreviation fsm_run :: "fsm \<Rightarrow> (time_point \<times> event) list \<Rightarrow> fsm" where
  "fsm_run \<equiv> foldl fsm_step"

section \<open>The transition graph\<close>

inductive fsm_edge :: "fsm_state \<Rightarrow> fsm_state \<Rightarrow> bool" where
  "fsm_edge Idle Listening"
| "fsm_edge Listening UserSpeaking"
| "fsm_edge UserSpeaking Transcribing"
| "fsm_edge Transcribing Thinking"
| "fsm_edge Thinking Speaking"
| "fsm_edge Thinking Completed"
| "fsm_edge Speaking Completed"
| "fsm_edge Completed Listening"
| "st \<in> {UserSpeaking, Transcribing, Thinking, Speaking} \<Longrightarrow> fsm_edge st Interrupted"
| "fsm_edge Interrupted Listening"

inductive_simps fsm_edge_simps:
  "fsm_edge Idle x" "fsm_edge Listening x" "fsm_edge UserSpeaking x" "fsm_edge Transcribing x"
  "fsm_edge Thinking x" "fsm_edge Speaking x" "fsm_edge Completed x" "fsm_edge Interrupted x"

text \<open>A log of transitions that forms a path of the graph from \<open>a\<close> to \<open>b\<close>.\<close>

fun fsm_path :: "fsm_state \<Rightarrow> (fsm_state \<times> fsm_state) list \<Rightarrow> fsm_state \<Rightarrow> bool" where
  "fsm_path a [] b \<longleftrightarrow> a = b"
| "fsm_path a ((x, y) # ps) b \<longleftrightarrow> x = a \<and> fsm_edge x y \<and> fsm_path y ps b"

lemma fsm_path_append [simp]:
  "fsm_path a (ps @ qs) b \<longleftrightarrow> (\<exists>m. fsm_path a ps m \<and> fsm_path m qs b)"
  by (induction ps arbitrary: a) auto

section \<open>Invariant\<close>

definition outcome_fits :: "fsm_state \<Rightarrow> turn_outcome \<Rightarrow> bool" where
  "outcome_fits st out \<longleftrightarrow>
     (case st of
        UserSpeaking \<Rightarrow> out = OutNotStarted | Transcribing \<Rightarrow> out = OutNotStarted
      | Thinking \<Rightarrow> out = OutGenerating | Speaking \<Rightarrow> out = OutSpeaking
      | Listening \<Rightarrow> out \<notin> {OutGenerating, OutSpeaking}
      | _ \<Rightarrow> False)"

text \<open>
  What holds between two events of a started machine. Completed and Interrupted are only passed
  through; a turn in progress owns a live token; each counter counts its entries in the outcome
  log; the observed transitions form a path of the graph.
\<close>

definition fsm_inv :: "fsm \<Rightarrow> bool" where
  "fsm_inv s \<longleftrightarrow>
     outcome_fits (fsm_state s) (fsm_outcome s) \<and>
     (fsm_state s \<noteq> Listening \<longrightarrow>
        (\<exists>t < length (fsm_heap s). tc_token (fsm_active s) = Some t \<and> \<not> is_cancelled (fsm_heap s) t)) \<and>
     fsm_turns_completed s = of_nat (count_list (fsm_outcome_log s) OutCompleted) \<and>
     fsm_turns_interrupted s = of_nat (count_list (fsm_outcome_log s) OutInterrupted) \<and>
     fsm_turns_discarded s = of_nat (count_list (fsm_outcome_log s) OutDiscarded) \<and>
     set (fsm_outcome_log s) \<subseteq> {OutCompleted, OutInterrupted, OutDiscarded} \<and>
     fsm_path Idle (fsm_state_log s) (fsm_state s)"

lemmas fsm_handler_defs = handle_speech_started_def handle_speech_ended_def
  handle_final_transcript_def handle_llm_sentence_def handle_llm_finished_def
  handle_playback_finished_def handle_user_interrupted_def fsm_complete_def

lemma count_list_snoc [simp]: "count_list (xs @ [y]) x = count_list xs x + (if x = y then 1 else 0)"
  by (induction xs) auto

lemma fsm_start_inv: "fsm_inv (fsm_start now (fsm_new f h))"
  by (auto simp: fsm_inv_def fsm_start_def fsm_new_def fsm_transition_def outcome_fits_def
      fsm_edge_simps)

lemma outcome_fits_simps [simp]:
  "outcome_fits UserSpeaking out \<longleftrightarrow> out = OutNotStarted"
  "outcome_fits Transcribing out \<longleftrightarrow> out = OutNotStarted"
  "outcome_fits Thinking out \<longleftrightarrow> out = OutGenerating"
  "outcome_fits Speaking out \<longleftrightarrow> out = OutSpeaking"
  "outcome_fits Listening out \<longleftrightarrow> out \<notin> {OutGenerating, OutSpeaking}"
  "\<not> outcome_fits Idle out" "\<not> outcome_fits Completed out" "\<not> outcome_fits Interrupted out"
  by (simp_all add: outcome_fits_def)

lemma handle_speech_started_inv: "fsm_inv s \<Longrightarrow> fsm_inv (handle_speech_started now s)"
  by (cases "fsm_state s")
    (auto simp: fsm_inv_def handle_speech_started_def fsm_transition_def mint_def new_token_def
      fsm_edge_simps is_cancelled_def)

lemma handle_speech_ended_inv: "fsm_inv s \<Longrightarrow> fsm_inv (handle_speech_ended now s)"
  by (auto simp: fsm_inv_def handle_speech_ended_def fsm_transition_def fsm_edge_simps)

lemma handle_final_transcript_inv: "fsm_inv s \<Longrightarrow> fsm_inv (handle_final_transcript now s)"
  by (auto simp: fsm_inv_def handle_final_transcript_def fsm_transition_def fsm_edge_simps)

lemma handle_llm_sentence_inv: "fsm_inv s \<Longrightarrow> fsm_inv (handle_llm_sentence now s)"
  by (auto simp: fsm_inv_def handle_llm_sentence_def fsm_transition_def fsm_edge_simps Let_def)

lemma fsm_complete_inv:
  "fsm_inv s \<Longrightarrow> fsm_state s \<in> {Thinking, Speaking} \<Longrightarrow> fsm_inv (fsm_complete now s)"
  by (auto simp: fsm_inv_def fsm_complete_def fsm_transition_def fsm_edge_simps)

lemma fsm_inv_field_updates [simp]:
  "fsm_inv (s\<lparr>fsm_llm_finished_seen := b\<rparr>) = fsm_inv s"
  "fsm_inv (s\<lparr>fsm_sentences_played := n\<rparr>) = fsm_inv s"
  "fsm_inv (s\<lparr>fsm_sentences_received := n\<rparr>) = fsm_inv s"
  by (simp_all add: fsm_inv_def)

lemma handle_llm_finished_inv: "fsm_inv s \<Longrightarrow> fsm_inv (handle_llm_finished now s)"
  by (auto simp: handle_llm_finished_def Let_def intro!: fsm_complete_inv)

lemma handle_playback_finished_inv: "fsm_inv s \<Longrightarrow> fsm_inv (handle_playback_finished t now s)"
  by (auto simp: handle_playback_finished_def Let_def intro!: fsm_complete_inv)

lemma handle_user_interrupted_inv: "fsm_inv s \<Longrightarrow> fsm_inv (handle_user_interrupted now s)"
  by (cases "fsm_state s")
    (auto simp: fsm_inv_def handle_user_interrupted_def fsm_transition_def fsm_edge_simps Let_def
      split: option.splits)

lemma fsm_step_inv: "fsm_inv s \<Longrightarrow> fsm_inv (fsm_step s te)"
  unfolding fsm_step_def
  by (cases "snd te")
    (simp_all add: handle_speech_started_inv handle_speech_ended_inv handle_final_transcript_inv
      handle_llm_sentence_inv handle_llm_finished_inv handle_playback_finished_inv
      handle_user_interrupted_inv)

interpretation fsm: step_machine fsm_step fsm_inv
  by unfold_locales (rule fsm_step_inv)

section \<open>Properties\<close>


lemma fsm_complete_simps [simp]:
  "fsm_outcome_log (fsm_complete now s) = fsm_outcome_log s @ [OutCompleted]"
  "fsm_state (fsm_complete now s) = Listening"
  "fsm_llm_finished_seen (fsm_complete now s) = fsm_llm_finished_seen s"
  "fsm_sentences_played (fsm_complete now s) = fsm_sentences_played s"
  "fsm_sentences_received (fsm_complete now s) = fsm_sentences_received s"
  "fsm_turns_completed (fsm_complete now s) = fsm_turns_completed s + 1"
  "fsm_active (fsm_complete now s) = fsm_active s"
  by (simp_all add: fsm_complete_def fsm_transition_def)

lemma fsm_transition_simps [simp]:
  "fsm_outcome_log (fsm_transition now st s) = fsm_outcome_log s"
  "fsm_state (fsm_transition now st s) = st"
  "fsm_active (fsm_transition now st s) = fsm_active s"
  "fsm_heap (fsm_transition now st s) = fsm_heap s"
  "fsm_published (fsm_transition now st s) = fsm_published s"
  "fsm_outcome (fsm_transition now st s) = fsm_outcome s"
  "fsm_turns_completed (fsm_transition now st s) = fsm_turns_completed s"
  "fsm_llm_finished_seen (fsm_transition now st s) = fsm_llm_finished_seen s"
  "fsm_sentences_played (fsm_transition now st s) = fsm_sentences_played s"
  "fsm_sentences_received (fsm_transition now st s) = fsm_sentences_received s"
  by (simp_all add: fsm_transition_def)


text \<open>A machine in Speaking whose only sentence has played, for the witnesses below.\<close>

definition fsm_demo :: fsm where
  "fsm_demo = fsm_run (fsm_start 0 (fsm_new tf_new []))
     [(1, SpeechStarted 0 0), (2, SpeechEnded 0 0),
      (3, FinalTranscript \<lparr>ft_turn = 1, ft_text = ''hi'', ft_lang = ''en'', ft_confidence = NaN,
             ft_audio_duration = 0, ft_processing_duration = 0\<rparr>),
      (4, LlmSentence \<lparr>ls_turn = 1, ls_seq = 0, ls_text = ''yes'', ls_lang = ''en''\<rparr>),
      (5, PlaybackFinished 1 0)]"

lemma fsm_demo_facts:
  "fsm_state fsm_demo = Speaking" "fsm_outcome_log fsm_demo = []" "tc_id (fsm_active fsm_demo) = 1"
  "fsm_sentences_played fsm_demo = 1" "fsm_sentences_received fsm_demo = 1"
  "tc_token (fsm_active fsm_demo) = Some 0" "length (fsm_heap fsm_demo) = 1"
  "fsm_published fsm_demo = []" "fsm_heap fsm_demo = [False]"
  by (simp_all add: fsm_demo_def fsm_step_def fsm_start_def fsm_new_def tf_new_def fsm_handler_defs
      fsm_transition_def mint_def new_token_def tc_empty_def kNoTurn_def Let_def)


text \<open>
  Effect of a barge-in. In every active state a \<open>UserInterrupted\<close> event cancels the active
  turn's token and no other, publishes exactly one \<open>CancelGeneration\<close> for the active turn, records
  the outcome as interrupted when at least one sentence was played and as discarded otherwise,
  and returns the machine to Listening; in Listening and Idle it changes nothing.
\<close>

theorem user_interrupted_cascade:
  "let s' = fsm_on_event now (UserInterrupted t ts) s in
     (if fsm_state s \<in> {Listening, Idle} then s' = s
      else
        fsm_state s' = Listening \<and>
        fsm_published s' = fsm_published s @ [CancelGeneration (tc_id (fsm_active s))] \<and>
        fsm_outcome s' = (if 1 \<le> fsm_sentences_played s then OutInterrupted else OutDiscarded) \<and>
        fsm_outcome_log s' = fsm_outcome_log s @ [fsm_outcome s'] \<and>
        (\<forall>u. is_cancelled (fsm_heap s') u \<longleftrightarrow> is_cancelled (fsm_heap s) u
               \<or> tc_token (fsm_active s) = Some u \<and> u < length (fsm_heap s)))"
proof (cases "fsm_state s \<in> {Listening, Idle}")
  case False
  then show ?thesis
    by (auto simp: handle_user_interrupted_def Let_def is_cancelled_cancel split: option.splits)
qed (auto simp: handle_user_interrupted_def)

definition turn_script :: "turn_id \<Rightarrow> llm_sentence \<Rightarrow> final_transcript \<Rightarrow> nat \<Rightarrow> event list" where
  "turn_script t ls ft n =
     [SpeechStarted t 0, SpeechEnded t 0, FinalTranscript ft] @ replicate n (LlmSentence ls) @
     [LlmFinished t False n] @ replicate n (PlaybackFinished t 0)"

definition fsm_script :: "fsm \<Rightarrow> event list \<Rightarrow> fsm" where
  "fsm_script s es = fsm_run s (map (Pair 0) es)"

lemma fsm_script_simps [simp]:
  "fsm_script s [] = s"
  "fsm_script s (e # es) = fsm_script (fsm_on_event 0 e s) es"
  "fsm_script s (es @ es') = fsm_script (fsm_script s es) es'"
  by (simp_all add: fsm_script_def fsm_step_def)

lemma fsm_sentences:
  assumes "fsm_state s \<in> {Thinking, Speaking}"
  shows "let s' = fsm_script s (replicate n (LlmSentence ls)) in
    fsm_state s' = (if n = 0 then fsm_state s else Speaking) \<and>
    fsm_sentences_received s' = fsm_sentences_received s + of_nat n \<and>
    fsm_sentences_played s' = fsm_sentences_played s \<and>
    fsm_active s' = fsm_active s \<and> fsm_turns_completed s' = fsm_turns_completed s \<and>
    fsm_llm_finished_seen s' = fsm_llm_finished_seen s"
  using assms
proof (induction n arbitrary: s)
  case (Suc n)
  have "fsm_state (handle_llm_sentence 0 s) = Speaking"
    using Suc.prems by (auto simp: handle_llm_sentence_def Let_def)
  from Suc.IH [of "handle_llm_sentence 0 s"] this Suc.prems show ?case
    by (auto simp: Let_def handle_llm_sentence_def)
qed simp

lemma fsm_playbacks:
  assumes "fsm_state s = Speaking" and "fsm_llm_finished_seen s"
    and "fsm_sentences_received s = fsm_sentences_played s + of_nat n"
    and "0 < n" and "n < 2 ^ 32" and "t = tc_id (fsm_active s)"
  shows "let s' = fsm_script s (replicate n (PlaybackFinished t 0)) in
    fsm_state s' = Listening \<and> fsm_turns_completed s' = fsm_turns_completed s + 1"
  using assms
proof (induction n arbitrary: s)
  case (Suc n)
  show ?case
  proof (cases "n = 0")
    case True
    with Suc.prems show ?thesis
      by (simp add: handle_playback_finished_def Let_def)
  next
    case False
    let ?s1 = "s\<lparr>fsm_sentences_played := fsm_sentences_played s + 1\<rparr>"
    have "(of_nat n :: 32 word) \<noteq> 0"
      using False Suc.prems(5) by (simp add: word_of_nat_eq_0_iff nat_dvd_not_less)
    then have step: "handle_playback_finished (tc_id (fsm_active s)) 0 s = ?s1"
      using Suc.prems by (simp add: handle_playback_finished_def Let_def)
    show ?thesis
      using Suc.IH [of ?s1] Suc.prems False by (simp add: step Let_def)
  qed
qed simp

text \<open>
  A turn that is served to the end completes. From Listening, an utterance followed by its
  transcript, \<open>n\<close> sentences, the end of the LLM stream and \<open>n\<close> playback confirmations for the
  minted turn (for any \<open>n\<close> below \<open>2 ^ 32\<close>, none at all included) brings the machine back to
  Listening with exactly one more completed turn.
\<close>

theorem turn_completes:
  assumes "fsm_state s = Listening" and "n < 2 ^ 32" and "t = tf_next (fsm_turns s)"
  shows "let s' = fsm_script s (turn_script t ls ft n) in
    fsm_state s' = Listening \<and> fsm_turns_completed s' = fsm_turns_completed s + 1"
proof -
  define s0 where "s0 = fsm_script s [SpeechStarted t 0, SpeechEnded t 0, FinalTranscript ft]"
  define s1 where "s1 = fsm_script s0 (replicate n (LlmSentence ls))"
  have s0: "fsm_state s0 = Thinking" "fsm_sentences_received s0 = 0"
    "fsm_sentences_played s0 = 0" "tc_id (fsm_active s0) = t"
    "fsm_turns_completed s0 = fsm_turns_completed s"
    using assms by (simp_all add: s0_def fsm_handler_defs mint_def new_token_def)
  have s1: "fsm_state s1 = (if n = 0 then Thinking else Speaking)"
    "fsm_sentences_received s1 = of_nat n" "fsm_sentences_played s1 = 0"
    "tc_id (fsm_active s1) = t" "fsm_turns_completed s1 = fsm_turns_completed s"
    using fsm_sentences [of s0 n ls] s0 by (simp_all add: s1_def Let_def)
  have run: "fsm_script s (turn_script t ls ft n)
      = fsm_script (handle_llm_finished 0 s1) (replicate n (PlaybackFinished t 0))"
    by (simp add: turn_script_def s0_def s1_def)
  show ?thesis
  proof (cases "n = 0")
    case True
    with run s1 show ?thesis by (simp add: handle_llm_finished_def Let_def)
  next
    case False
    then have "(of_nat n :: 32 word) \<noteq> 0"
      using assms(2) by (simp add: word_of_nat_eq_0_iff nat_dvd_not_less)
    with s1 False have "handle_llm_finished 0 s1 = s1\<lparr>fsm_llm_finished_seen := True\<rparr>"
      by (simp add: handle_llm_finished_def)
    with run show ?thesis
      using fsm_playbacks [of "s1\<lparr>fsm_llm_finished_seen := True\<rparr>" n t] s1 False assms(2)
      by (simp add: Let_def)
  qed
qed

theorem turn_completes_witness:
  "fsm_turns_completed
     (fsm_script (fsm_start 0 (fsm_new tf_new []))
       (turn_script 1 \<lparr>ls_turn = 1, ls_seq = 0, ls_text = ''a'', ls_lang = ''en''\<rparr>
          \<lparr>ft_turn = 1, ft_text = ''hi'', ft_lang = ''en'', ft_confidence = NaN,
           ft_audio_duration = 0, ft_processing_duration = 0\<rparr> 3)) = 1"
proof -
  let ?s = "fsm_start 0 (fsm_new tf_new [])"
  have "fsm_state ?s = Listening" "1 = tf_next (fsm_turns ?s)" "fsm_turns_completed ?s = 0"
    by (simp_all add: fsm_start_def fsm_new_def fsm_transition_def tf_new_def)
  with turn_completes [of ?s 3 1] show ?thesis
    by (simp add: Let_def)
qed

definition stale_finish_run :: "llm_sentence \<Rightarrow> final_transcript \<Rightarrow> event list" where
  "stale_finish_run ls ft =
     [SpeechStarted 0 0, SpeechEnded 0 0, FinalTranscript ft, LlmSentence (ls\<lparr>ls_turn := 1\<rparr>),
      UserInterrupted 1 0, SpeechStarted 0 0, LlmFinished 1 True 5, SpeechEnded 0 0,
      FinalTranscript ft, LlmSentence (ls\<lparr>ls_turn := 2\<rparr>), PlaybackFinished 2 0]"

text \<open>
  Stale LLM events are not rejected. The machine compares the turn id of playback events
  only: when the end of an interrupted turn's LLM stream arrives after the next turn has begun,
  the machine treats it as the new turn's own. In this run turn 1 is interrupted, turn 2 starts,
  \<open>LlmFinished\<close> of turn 1 arrives, and turn 2 is then reported completed after its first sentence
  although its LLM stream has not ended.
\<close>

theorem stale_llm_finished_completes_next_turn:
  "let s = fsm_script (fsm_start 0 (fsm_new tf_new [])) (stale_finish_run ls ft) in
     fsm_state s = Listening \<and> tc_id (fsm_active s) = 2 \<and>
     fsm_outcome_log s = [OutDiscarded, OutCompleted]"
  by (simp add: stale_finish_run_def fsm_start_def fsm_new_def tf_new_def fsm_handler_defs
      fsm_transition_def mint_def new_token_def tc_empty_def kNoTurn_def Let_def)

end
