(* ===== verification/Barge_In.thy ===== *)
theory Barge_In
  imports Dialogue_Fsm
begin

text \<open>
  The barge-in detector of \<open>src/dialogue/barge_in.hpp\<close> and \<open>src/dialogue/barge_in.cpp\<close>. One step
  is one \<open>SpeechStarted\<close> handled on the subscription thread; the snapshot of the dialogue machine,
  the clock and the state of the audio processing module (absent, or its \<open>aec_active()\<close> and
  \<open>erle_db()\<close> readings) are inputs of the step.
\<close>

record barge_in_config =
  bc_enabled :: bool
  bc_require_aec_converged :: bool
  bc_min_aec_erle_db :: cfloat
  bc_cool_down_after_turn_ms :: nat

type_synonym apm_reading = "(bool \<times> cfloat) option"

record barge_in =
  bi_cfg :: barge_in_config
  bi_system_aec_active :: bool
  bi_subscribed :: bool
  bi_fires_total :: counter
  bi_suppressed_total :: counter
  bi_suppressed_cooldown :: counter
  bi_suppressed_aec :: counter
  bi_last_fired_ns :: time_point
  bi_last_fired_turn :: turn_id
  bi_published :: "event list"
  bi_on_fired :: "(turn_id \<times> time_point) list"

definition bi_new :: "barge_in_config \<Rightarrow> bool \<Rightarrow> barge_in" where
  "bi_new cfg system_aec =
     \<lparr>bi_cfg = cfg, bi_system_aec_active = system_aec, bi_subscribed = False, bi_fires_total = 0,
      bi_suppressed_total = 0, bi_suppressed_cooldown = 0, bi_suppressed_aec = 0,
      bi_last_fired_ns = 0, bi_last_fired_turn = kNoTurn, bi_published = [], bi_on_fired = []\<rparr>"

definition bi_start :: "barge_in \<Rightarrow> barge_in" where
  "bi_start d =
     (if bi_subscribed d then d
      else if \<not> bc_enabled (bi_cfg d) then d
      else d\<lparr>bi_subscribed := True\<rparr>)"

definition bi_stop :: "barge_in \<Rightarrow> barge_in" where
  "bi_stop d = (if bi_subscribed d then d\<lparr>bi_subscribed := False\<rparr> else d)"

definition apm_aec_active :: "apm_reading \<Rightarrow> bool" where
  "apm_aec_active apm \<longleftrightarrow> (case apm of None \<Rightarrow> False | Some (active, _) \<Rightarrow> active)"

definition erle_meets :: "apm_reading \<Rightarrow> cfloat \<Rightarrow> bool" where
  "erle_meets apm threshold \<longleftrightarrow>
     (case apm of None \<Rightarrow> False
      | Some (_, erle) \<Rightarrow> (if erle = NaN then False else cfloat_ge erle threshold))"

definition aec_ok :: "apm_reading \<Rightarrow> barge_in \<Rightarrow> bool \<times> barge_in" where
  "aec_ok apm d =
     (if \<not> bc_require_aec_converged (bi_cfg d) then (True, d)
      else if bi_system_aec_active d then (True, d)
      else if \<not> apm_aec_active apm then (False, d\<lparr>bi_suppressed_aec := bi_suppressed_aec d + 1\<rparr>)
      else if \<not> erle_meets apm (bc_min_aec_erle_db (bi_cfg d))
      then (False, d\<lparr>bi_suppressed_aec := bi_suppressed_aec d + 1\<rparr>)
      else (True, d))"

definition bi_fire :: "turn_id \<Rightarrow> time_point \<Rightarrow> barge_in \<Rightarrow> barge_in" where
  "bi_fire t now d =
     d\<lparr>bi_last_fired_turn := t, bi_last_fired_ns := now,
       bi_fires_total := bi_fires_total d + 1,
       bi_published := bi_published d @ [UserInterrupted t now],
       bi_on_fired := bi_on_fired d @ [(t, now)]\<rparr>"

definition bi_on_speech_started ::
  "fsm_snapshot \<Rightarrow> time_point \<Rightarrow> apm_reading \<Rightarrow> barge_in \<Rightarrow> barge_in" where
  "bi_on_speech_started snap now apm d =
     (if snap_state snap \<noteq> Speaking then d
      else if snap_active_turn snap = kNoTurn then d
      else if bi_last_fired_turn d = snap_active_turn snap then d
      else if to_millis (now - snap_entered_speaking_at snap)
                < int (bc_cool_down_after_turn_ms (bi_cfg d))
      then d\<lparr>bi_suppressed_cooldown := bi_suppressed_cooldown d + 1,
             bi_suppressed_total := bi_suppressed_total d + 1\<rparr>
      else
        (case aec_ok apm d of
           (False, d') \<Rightarrow> d'\<lparr>bi_suppressed_total := bi_suppressed_total d' + 1\<rparr>
         | (True, d') \<Rightarrow> bi_fire (snap_active_turn snap) now d'))"

definition bi_last_fired_at :: "barge_in \<Rightarrow> time_point" where
  "bi_last_fired_at d = (if bi_last_fired_ns d = 0 then 0 else bi_last_fired_ns d)"

definition bi_evaluate_for_test ::
  "fsm_snapshot \<Rightarrow> time_point \<Rightarrow> apm_reading \<Rightarrow> barge_in \<Rightarrow> bool \<times> barge_in" where
  "bi_evaluate_for_test snap now apm d =
     (let d' = bi_on_speech_started snap now apm d
      in (bi_last_fired_ns d' \<noteq> 0 \<and> bi_last_fired_turn d' = snap_active_turn snap, d'))"

text \<open>A run: the inputs of successive \<open>SpeechStarted\<close> events.\<close>

definition bi_step :: "barge_in \<Rightarrow> fsm_snapshot \<times> time_point \<times> apm_reading \<Rightarrow> barge_in" where
  "bi_step d i = (case i of (snap, now, apm) \<Rightarrow> bi_on_speech_started snap now apm d)"

section \<open>The gates\<close>

text \<open>The pure gate: the condition under which the detector fires.\<close>

definition aec_gate :: "apm_reading \<Rightarrow> barge_in \<Rightarrow> bool" where
  "aec_gate apm d \<longleftrightarrow>
     bc_require_aec_converged (bi_cfg d) \<longrightarrow> bi_system_aec_active d \<or>
       (\<exists>erle. apm = Some (True, erle) \<and> erle \<noteq> NaN
          \<and> cfloat_ge erle (bc_min_aec_erle_db (bi_cfg d)))"

definition bi_gate :: "fsm_snapshot \<Rightarrow> time_point \<Rightarrow> apm_reading \<Rightarrow> barge_in \<Rightarrow> bool" where
  "bi_gate snap now apm d \<longleftrightarrow>
     snap_state snap = Speaking \<and> snap_active_turn snap \<noteq> kNoTurn \<and>
     bi_last_fired_turn d \<noteq> snap_active_turn snap \<and>
     int (bc_cool_down_after_turn_ms (bi_cfg d)) \<le> to_millis (now - snap_entered_speaking_at snap) \<and>
     aec_gate apm d"

lemma aec_ok_gate: "fst (aec_ok apm d) = aec_gate apm d"
  by (auto simp: aec_ok_def aec_gate_def apm_aec_active_def erle_meets_def split: option.splits
      if_splits)

lemma aec_ok_state:
  "snd (aec_ok apm d) =
     (if aec_gate apm d then d else d\<lparr>bi_suppressed_aec := bi_suppressed_aec d + 1\<rparr>)"
  using aec_ok_gate [of apm d] by (auto simp: aec_ok_def split: if_splits)

lemma bi_on_speech_started_fires:
  "bi_gate snap now apm d \<Longrightarrow>
     bi_on_speech_started snap now apm d = bi_fire (snap_active_turn snap) now d"
  using aec_ok_gate [of apm d] aec_ok_state [of apm d]
  by (auto simp: bi_gate_def bi_on_speech_started_def split: prod.splits bool.splits)

lemma bi_on_speech_started_silent:
  "\<not> bi_gate snap now apm d \<Longrightarrow>
     bi_published (bi_on_speech_started snap now apm d) = bi_published d \<and>
     bi_last_fired_turn (bi_on_speech_started snap now apm d) = bi_last_fired_turn d \<and>
     bi_fires_total (bi_on_speech_started snap now apm d) = bi_fires_total d"
  using aec_ok_gate [of apm d] aec_ok_state [of apm d]
  by (auto simp: bi_gate_def bi_on_speech_started_def split: prod.splits bool.splits)

definition fired_turns :: "barge_in \<Rightarrow> turn_id list" where
  "fired_turns d = map event_turn (bi_published d)"

text \<open>The counters: every suppression has one cause, and each fire published one event.\<close>

definition bi_inv :: "barge_in \<Rightarrow> bool" where
  "bi_inv d \<longleftrightarrow>
     bi_suppressed_total d = bi_suppressed_cooldown d + bi_suppressed_aec d \<and>
     bi_fires_total d = of_nat (length (bi_published d)) \<and>
     bi_on_fired d = map (\<lambda>e. case e of UserInterrupted t n \<Rightarrow> (t, n)) (bi_published d) \<and>
     bi_last_fired_turn d = (if bi_published d = [] then kNoTurn else last (fired_turns d))"

lemma bi_new_inv: "bi_inv (bi_new cfg aec)"
  by (simp add: bi_inv_def bi_new_def)

lemma bi_step_inv: "bi_inv d \<Longrightarrow> bi_inv (bi_step d i)"
proof -
  assume inv: "bi_inv d"
  obtain snap now apm where i: "i = (snap, now, apm)" by (metis prod_cases3)
  show ?thesis
  proof (cases "bi_gate snap now apm d")
    case True
    with inv show ?thesis
      by (simp add: i bi_step_def bi_on_speech_started_fires bi_inv_def bi_fire_def fired_turns_def)
  next
    case False
    with inv aec_ok_gate [of apm d] aec_ok_state [of apm d] show ?thesis
      by (auto simp: i bi_step_def bi_on_speech_started_def bi_inv_def bi_gate_def fired_turns_def
          algebra_simps split: prod.splits bool.splits)
  qed
qed

interpretation bi: step_machine bi_step bi_inv
  by unfold_locales (rule bi_step_inv)

section \<open>Properties\<close>

text \<open>
  The detector fires exactly through its gates. A \<open>SpeechStarted\<close> is promoted to a
  \<open>UserInterrupted\<close> for the active turn if and only if the assistant is Speaking on a turn that
  has not been fired for yet, the cool-down since Speaking was entered has elapsed, and echo
  cancellation is not required, provided by the system, or active with an ERLE (not NaN) at or
  above the threshold; otherwise nothing is published.
\<close>

theorem barge_in_fires_iff:
  "bi_published (bi_on_speech_started snap now apm d) =
     bi_published d @ (if bi_gate snap now apm d then [UserInterrupted (snap_active_turn snap) now]
                       else [])"
  by (simp add: bi_on_speech_started_fires bi_on_speech_started_silent bi_fire_def)

lemma bi_step_fired:
  "fired_turns (bi_step d (snap, now, apm)) =
     fired_turns d @ (if bi_gate snap now apm d then [snap_active_turn snap] else [])"
  by (simp add: bi_step_def fired_turns_def bi_on_speech_started_fires bi_on_speech_started_silent
      bi_fire_def)

lemma bi_run_sorted:
  assumes "bi_inv d" and "sorted_wrt (<) (fired_turns d)"
    and "sorted (map (\<lambda>i. snap_active_turn (fst i)) is)"
    and "\<forall>i \<in> set is. \<forall>t \<in> set (fired_turns d). t \<le> snap_active_turn (fst i)"
  shows "sorted_wrt (<) (fired_turns (foldl bi_step d is))"
  using assms
proof (induction "is" arbitrary: d)
  case (Cons i "is")
  obtain snap now apm where i: "i = (snap, now, apm)" by (metis prod_cases3)
  let ?t = "snap_active_turn snap"
  have le: "\<forall>t \<in> set (fired_turns d). t \<le> ?t" using Cons.prems(4) i by auto
  have last: "fired_turns d \<noteq> [] \<Longrightarrow> last (fired_turns d) \<noteq> ?t" if "bi_gate snap now apm d"
    using that Cons.prems(1) by (auto simp: bi_gate_def bi_inv_def fired_turns_def)
  have less: "\<forall>t \<in> set (fired_turns d). t < ?t" if g: "bi_gate snap now apm d"
  proof
    fix t assume t: "t \<in> set (fired_turns d)"
    then have "t \<le> last (fired_turns d)"
      using Cons.prems(2) strict_sorted_le_last by blast
    moreover have "last (fired_turns d) < ?t"
      using t last [OF g] le by (metis empty_iff last_in_set list.set(1) order_le_neq_trans)
    ultimately show "t < ?t" by simp
  qed
  have "sorted_wrt (<) (fired_turns (bi_step d i))"
    using Cons.prems(2) less by (auto simp: i bi_step_fired sorted_wrt_append)
  moreover have "\<forall>j \<in> set is. \<forall>t \<in> set (fired_turns (bi_step d i)). t \<le> snap_active_turn (fst j)"
    using Cons.prems(3,4) by (fastforce simp: i bi_step_fired split: if_splits)
  ultimately show ?case
    using Cons.IH [of "bi_step d i"] Cons.prems bi_step_inv by (simp add: i)
qed simp

text \<open>
  At most one barge-in per turn. As long as the dialogue machine's active turn ids do not
  decrease (the factory counts upwards), a detector started fresh never publishes
  \<open>UserInterrupted\<close> twice for the same turn, however many \<open>SpeechStarted\<close> events the VAD
  reports; and the suppression counters add up.
\<close>

theorem barge_in_once_per_turn:
  assumes "sorted (map (\<lambda>i. snap_active_turn (fst i)) is)"
  shows "distinct (fired_turns (foldl bi_step (bi_new cfg aec) is)) \<and>
    bi_suppressed_total (foldl bi_step (bi_new cfg aec) is)
      = bi_suppressed_cooldown (foldl bi_step (bi_new cfg aec) is)
        + bi_suppressed_aec (foldl bi_step (bi_new cfg aec) is)"
proof -
  have "sorted_wrt (<) (fired_turns (foldl bi_step (bi_new cfg aec) is))"
    using assms by (intro bi_run_sorted bi_new_inv) (simp_all add: fired_turns_def bi_new_def)
  moreover have "bi_inv (foldl bi_step (bi_new cfg aec) is)"
    by (rule bi.run_inv [OF bi_new_inv])
  ultimately show ?thesis
    by (simp add: bi_inv_def strict_sorted_iff)
qed

definition demo_snapshot :: fsm_snapshot where
  "demo_snapshot = \<lparr>snap_state = Speaking, snap_active_turn = 4, snap_outcome = OutSpeaking,
     snap_sentences_played = 0, snap_turns_completed = 0, snap_turns_interrupted = 0,
     snap_turns_discarded = 0, snap_entered_speaking_at = 0\<rparr>"

definition demo_barge_cfg :: barge_in_config where
  "demo_barge_cfg = \<lparr>bc_enabled = True, bc_require_aec_converged = True,
     bc_min_aec_erle_db = Fin 15, bc_cool_down_after_turn_ms = 300\<rparr>"

theorem barge_in_once_per_turn_witness:
  "let is = [(demo_snapshot, 400000000, Some (True, Fin 20)),
             (demo_snapshot, 500000000, Some (True, Fin 20))];
       d = foldl bi_step (bi_new demo_barge_cfg False) is
   in sorted (map (\<lambda>i. snap_active_turn (fst i)) is) \<and>
      fired_turns d = [4] \<and> distinct (fired_turns d)"
proof -
  let ?is = "[(demo_snapshot, 400000000, Some (True, Fin 20)),
             (demo_snapshot, 500000000 :: int, Some (True, Fin 20))]"
  have "sorted (map (\<lambda>i. snap_active_turn (fst i)) ?is)"
    by simp
  moreover have "fired_turns (foldl bi_step (bi_new demo_barge_cfg False) ?is) = [4]"
    by (simp add: bi_step_def bi_on_speech_started_def bi_new_def demo_snapshot_def
        demo_barge_cfg_def aec_ok_def apm_aec_active_def erle_meets_def bi_fire_def fired_turns_def
        to_millis_def trunc_div_def kNoTurn_def)
  ultimately show ?thesis
    using barge_in_once_per_turn [of ?is demo_barge_cfg False] by (simp add: Let_def)
qed

end
