(* ===== verification/Playback_Queue.thy ===== *)
theory Playback_Queue
  imports Turn
begin

text \<open>
  The playback queue of \<open>src/playback/queue.hpp\<close> and \<open>src/playback/queue.cpp\<close>, between the TTS
  bridge (producer) and the audio callback (consumer). Each operation is one critical section;
  \<open>enqueue_blocking\<close> polls, and one poll that neither enqueues nor sees the cancellation is
  \<open>Blocked\<close>. The lemmas show the size bound, the accounting of every offered chunk, that only
  chunks of the active turn are handed out, and that the queue is a FIFO that drops stale heads.
\<close>

record audio_chunk =
  ch_turn :: turn_id
  ch_seq :: seq_no
  ch_samples :: "sample list"
  ch_eos :: bool

definition chunk_empty :: audio_chunk where
  "chunk_empty = \<lparr>ch_turn = kNoTurn, ch_seq = 0, ch_samples = [], ch_eos = False\<rparr>"

record playback_queue =
  pq_q :: "audio_chunk list"
  pq_cap :: nat
  pq_drops :: counter
  pq_enqueued :: counter
  pq_dequeued :: counter

definition pq_new :: "nat \<Rightarrow> playback_queue" where
  "pq_new max_chunks =
     \<lparr>pq_q = [], pq_cap = max_chunks, pq_drops = 0, pq_enqueued = 0, pq_dequeued = 0\<rparr>"

definition pq_append :: "audio_chunk \<Rightarrow> playback_queue \<Rightarrow> playback_queue" where
  "pq_append c q = q\<lparr>pq_q := pq_q q @ [c], pq_enqueued := pq_enqueued q + 1\<rparr>"

definition pq_enqueue :: "audio_chunk \<Rightarrow> playback_queue \<Rightarrow> bool \<times> playback_queue" where
  "pq_enqueue c q =
     (if pq_cap q \<noteq> 0 \<and> pq_cap q \<le> length (pq_q q)
      then (False, q\<lparr>pq_drops := pq_drops q + 1\<rparr>)
      else (True, pq_append c q))"

text \<open>One round of the polling loop; \<open>cancel\<close> is the (nullable) token.\<close>

definition pq_enqueue_blocking ::
  "heap \<Rightarrow> token option \<Rightarrow> audio_chunk \<Rightarrow> playback_queue \<Rightarrow> (bool \<times> playback_queue) exec" where
  "pq_enqueue_blocking h cancel c q =
     (if pq_cap q = 0 \<or> length (pq_q q) < pq_cap q then Done (True, pq_append c q)
      else if (case cancel of None \<Rightarrow> False | Some t \<Rightarrow> is_cancelled h t) then Done (False, q)
      else Blocked)"

text \<open>The loop that skips stale chunks at the head: what it drops and what is left.\<close>

fun skip_stale :: "turn_id \<Rightarrow> audio_chunk list \<Rightarrow> nat \<times> audio_chunk list" where
  "skip_stale t [] = (0, [])"
| "skip_stale t (c # cs) =
     (if ch_turn c \<noteq> t then (case skip_stale t cs of (n, r) \<Rightarrow> (Suc n, r)) else (0, c # cs))"

definition pq_dequeue_active ::
  "turn_id \<Rightarrow> playback_queue \<Rightarrow> audio_chunk option \<times> playback_queue" where
  "pq_dequeue_active t q =
     (case skip_stale t (pq_q q) of
        (n, []) \<Rightarrow> (None, q\<lparr>pq_q := [], pq_drops := pq_drops q + of_nat n\<rparr>)
      | (n, c # cs) \<Rightarrow>
          (Some c, q\<lparr>pq_q := cs, pq_drops := pq_drops q + of_nat n,
                     pq_dequeued := pq_dequeued q + 1\<rparr>))"

definition pq_invalidate_before :: "turn_id \<Rightarrow> playback_queue \<Rightarrow> nat \<times> playback_queue" where
  "pq_invalidate_before next_turn q =
     (if pq_q q = [] then (0, q)
      else let kept = filter (\<lambda>c. \<not> ch_turn c < next_turn) (pq_q q);
               dropped = length (filter (\<lambda>c. ch_turn c < next_turn) (pq_q q))
           in (dropped, q\<lparr>pq_q := kept, pq_drops := pq_drops q + of_nat dropped\<rparr>))"

definition pq_clear :: "playback_queue \<Rightarrow> nat \<times> playback_queue" where
  "pq_clear q =
     (length (pq_q q), q\<lparr>pq_q := [], pq_drops := pq_drops q + of_nat (length (pq_q q))\<rparr>)"

definition pq_size :: "playback_queue \<Rightarrow> nat" where
  "pq_size q = length (pq_q q)"

definition pq_pending_samples_for :: "turn_id \<Rightarrow> playback_queue \<Rightarrow> nat" where
  "pq_pending_samples_for t q =
     sum_list (map (\<lambda>c. if ch_turn c = t then length (ch_samples c) else 0) (pq_q q))"

section \<open>Stale heads\<close>

lemma skip_stale_eq:
  "skip_stale t cs = (length (takeWhile (\<lambda>c. ch_turn c \<noteq> t) cs), dropWhile (\<lambda>c. ch_turn c \<noteq> t) cs)"
  by (induction cs) auto

lemma pq_dequeue_active_Some:
  assumes "pq_dequeue_active t q = (Some c, q')"
  shows "ch_turn c = t \<and>
    pq_q q = takeWhile (\<lambda>c. ch_turn c \<noteq> t) (pq_q q) @ c # pq_q q' \<and>
    pq_drops q' = pq_drops q + of_nat (length (takeWhile (\<lambda>c. ch_turn c \<noteq> t) (pq_q q))) \<and>
    pq_dequeued q' = pq_dequeued q + 1 \<and> pq_enqueued q' = pq_enqueued q \<and> pq_cap q' = pq_cap q"
proof -
  from assms have dw: "dropWhile (\<lambda>c. ch_turn c \<noteq> t) (pq_q q) = c # pq_q q'"
    by (auto simp: pq_dequeue_active_def skip_stale_eq split: list.splits)
  then have "ch_turn c = t"
    by (metis (mono_tags, lifting) dropWhile_eq_Cons_conv)
  moreover have "pq_q q = takeWhile (\<lambda>c. ch_turn c \<noteq> t) (pq_q q) @ c # pq_q q'"
    using dw takeWhile_dropWhile_id [of "\<lambda>c. ch_turn c \<noteq> t" "pq_q q"] by simp
  ultimately show ?thesis
    using assms by (auto simp: pq_dequeue_active_def skip_stale_eq split: list.splits)
qed

lemma pq_dequeue_active_None:
  "pq_dequeue_active t q = (None, q') \<Longrightarrow>
     q' = q\<lparr>pq_q := [], pq_drops := pq_drops q + of_nat (length (pq_q q))\<rparr> \<and>
     (\<forall>c \<in> set (pq_q q). ch_turn c \<noteq> t)"
  by (auto simp: pq_dequeue_active_def skip_stale_eq takeWhile_eq_all_conv [THEN iffD2]
      split: list.splits)

section \<open>Accounting\<close>

datatype pq_op =
    OpEnqueue audio_chunk
  | OpEnqueueBlocking heap "token option" audio_chunk
  | OpDequeue turn_id
  | OpInvalidate turn_id
  | OpClear

fun pq_do :: "playback_queue \<Rightarrow> pq_op \<Rightarrow> playback_queue" where
  "pq_do q (OpEnqueue c) = snd (pq_enqueue c q)"
| "pq_do q (OpEnqueueBlocking h t c) =
     (case pq_enqueue_blocking h t c q of Done (_, q') \<Rightarrow> q' | _ \<Rightarrow> q)"
| "pq_do q (OpDequeue t) = snd (pq_dequeue_active t q)"
| "pq_do q (OpInvalidate t) = snd (pq_invalidate_before t q)"
| "pq_do q OpClear = snd (pq_clear q)"

text \<open>How many chunks an operation offers to the queue for good (accepted or dropped).\<close>

fun pq_offers :: "playback_queue \<Rightarrow> pq_op \<Rightarrow> nat" where
  "pq_offers q (OpEnqueue c) = 1"
| "pq_offers q (OpEnqueueBlocking h t c) =
     (case pq_enqueue_blocking h t c q of Done (True, _) \<Rightarrow> 1 | _ \<Rightarrow> 0)"
| "pq_offers q _ = 0"

fun pq_total_offers :: "playback_queue \<Rightarrow> pq_op list \<Rightarrow> nat" where
  "pq_total_offers q [] = 0"
| "pq_total_offers q (op # ops) = pq_offers q op + pq_total_offers (pq_do q op) ops"

definition pq_inv :: "playback_queue \<Rightarrow> bool" where
  "pq_inv q \<longleftrightarrow> pq_cap q = 0 \<or> length (pq_q q) \<le> pq_cap q"

definition pq_accounted :: "playback_queue \<Rightarrow> counter" where
  "pq_accounted q = pq_dequeued q + pq_drops q + of_nat (length (pq_q q))"

lemma length_filter_split:
  "of_nat (length (filter P xs)) + of_nat (length (filter (\<lambda>x. \<not> P x) xs))
     = (of_nat (length xs) :: 'a::semiring_1)"
  by (metis of_nat_add sum_length_filter_compl)

lemma pq_do_accounted: "pq_accounted (pq_do q op) = pq_accounted q + of_nat (pq_offers q op)"
proof (cases op)
  case (OpDequeue t)
  show ?thesis
  proof (cases "pq_dequeue_active t q")
    case (Pair r q')
    show ?thesis
    proof (cases r)
      case None
      with Pair OpDequeue show ?thesis
        by (auto simp: pq_accounted_def dest: pq_dequeue_active_None)
    next
      case (Some c)
      with Pair pq_dequeue_active_Some have d: "pq_q q = takeWhile (\<lambda>c. ch_turn c \<noteq> t) (pq_q q) @ c # pq_q q'"
        "pq_drops q' = pq_drops q + of_nat (length (takeWhile (\<lambda>c. ch_turn c \<noteq> t) (pq_q q)))"
        "pq_dequeued q' = pq_dequeued q + 1" by blast+
      have "length (pq_q q) = length (takeWhile (\<lambda>c. ch_turn c \<noteq> t) (pq_q q)) + Suc (length (pq_q q'))"
        by (metis d(1) length_append length_Cons)
      with Pair OpDequeue d(2,3) show ?thesis
        by (simp add: pq_accounted_def algebra_simps)
    qed
  qed
next
  case (OpInvalidate t)
  show ?thesis
    using length_filter_split [of "\<lambda>c. ch_turn c < t" "pq_q q", where 'a = "64 word"]
    by (simp add: OpInvalidate pq_accounted_def pq_invalidate_before_def Let_def algebra_simps)
qed (auto simp: pq_accounted_def pq_enqueue_def pq_append_def pq_enqueue_blocking_def pq_clear_def
    algebra_simps split: option.splits)

lemma pq_do_inv: "pq_inv q \<Longrightarrow> pq_inv (pq_do q op)"
proof (cases op)
  case (OpDequeue t)
  assume "pq_inv q"
  moreover have "length (dropWhile P xs) \<le> length xs" for P and xs :: "audio_chunk list"
    by (rule length_dropWhile_le)
  ultimately show ?thesis
    using OpDequeue
    by (auto simp: pq_inv_def pq_dequeue_active_def skip_stale_eq split: list.splits)
      (metis Suc_leD le_trans length_Cons)+
next
  case (OpInvalidate t)
  assume "pq_inv q"
  then show ?thesis
    using OpInvalidate le_trans [OF length_filter_le]
    by (auto simp: pq_inv_def pq_invalidate_before_def Let_def)
qed (auto simp: pq_inv_def pq_enqueue_def pq_append_def pq_enqueue_blocking_def pq_clear_def
    split: option.splits)

interpretation pqm: step_machine pq_do pq_inv
  by unfold_locales (rule pq_do_inv)

text \<open>As a FIFO, for any fixed active turn, the queue loses at most stale elements at its head.\<close>

interpretation pq: lossy_fifo pq_inv pq_q "\<lambda>c q. Done (pq_enqueue c q)"
  "\<lambda>q. Done (pq_dequeue_active t q)" for t
proof unfold_locales
  fix q x b q' assume "pq_inv q" "Done (pq_enqueue x q) = Done (b, q')"
  then show "pq_inv q'" using pq_do_inv [of q "OpEnqueue x"] by simp
next
  fix q x q' assume "Done (pq_enqueue x q) = Done (True, q')"
  then have "pq_q q' = drop 0 (pq_q q) @ [x]"
    by (auto simp: pq_enqueue_def pq_append_def split: if_splits)
  then show "\<exists>k. pq_q q' = drop k (pq_q q) @ [x]" ..
next
  fix q r q' assume "pq_inv q" "Done (pq_dequeue_active t q) = Done (r, q')"
  then show "pq_inv q'" using pq_do_inv [of q "OpDequeue t"] by simp
next
  fix q x q' assume "Done (pq_dequeue_active t q) = Done (Some x, q')"
  then have "pq_q q = takeWhile (\<lambda>c. ch_turn c \<noteq> t) (pq_q q) @ x # pq_q q'"
    using pq_dequeue_active_Some by blast
  then show "\<exists>k. drop k (pq_q q) = x # pq_q q'"
    by (metis append_eq_conv_conj)
next
  fix q q' assume "Done (pq_dequeue_active t q) = Done (None, q')"
  then have "pq_q q' = drop (length (pq_q q)) (pq_q q)"
    using pq_dequeue_active_None by fastforce
  then show "\<exists>k. pq_q q' = drop k (pq_q q)" ..
qed (auto simp: pq_enqueue_def split: if_splits)

section \<open>Properties\<close>

text \<open>
  Every chunk offered to the playback queue is accounted for exactly once. From an empty
  queue, after any sequence of enqueues, blocking enqueues, dequeues for any active turns,
  invalidations and clears, the number of chunks offered equals those handed to the audio thread
  plus those counted as dropped plus those still queued (modulo the 64-bit counters), and a
  bounded queue never exceeds its capacity.
\<close>

theorem playback_queue_accounting:
  "let q = foldl pq_do (pq_new n) ops in
     of_nat (pq_total_offers (pq_new n) ops) = pq_dequeued q + pq_drops q + of_nat (pq_size q) \<and>
     (n = 0 \<or> pq_size q \<le> n)"
proof -
  have acc: "pq_accounted (foldl pq_do q ops) = pq_accounted q + of_nat (pq_total_offers q ops)" for q
    by (induction ops arbitrary: q) (simp_all add: pq_do_accounted algebra_simps)
  have cap: "pq_cap (foldl pq_do q ops) = pq_cap q" for q
  proof (induction ops arbitrary: q)
    case (Cons op ops)
    have "pq_cap (pq_do q op) = pq_cap q"
      by (cases op) (auto simp: pq_enqueue_def pq_append_def pq_enqueue_blocking_def
          pq_dequeue_active_def pq_invalidate_before_def pq_clear_def Let_def
          split: option.splits prod.splits list.splits)
    with Cons show ?case by simp
  qed simp
  have "pq_inv (foldl pq_do (pq_new n) ops)"
    by (rule pqm.run_inv) (simp add: pq_inv_def pq_new_def)
  then show ?thesis
    using acc [of "pq_new n"] cap [of "pq_new n"]
    by (auto simp: Let_def pq_accounted_def pq_inv_def pq_new_def pq_size_def)
qed

text \<open>
  The audio thread never receives a stale chunk. A chunk returned by \<open>dequeue_active\<close>
  belongs to the active turn, is the first such chunk in the queue, and everything in front of it
  is dropped and counted; when there is none, the queue is emptied and every chunk counted as
  dropped was of another turn.
\<close>

theorem dequeue_active_spec:
  "case pq_dequeue_active t q of
     (Some c, q') \<Rightarrow>
       ch_turn c = t \<and>
       (\<exists>stale. pq_q q = stale @ c # pq_q q' \<and> list_all (\<lambda>x. ch_turn x \<noteq> t) stale \<and>
          pq_drops q' = pq_drops q + of_nat (length stale))
   | (None, q') \<Rightarrow>
       pq_q q' = [] \<and> list_all (\<lambda>x. ch_turn x \<noteq> t) (pq_q q) \<and>
       pq_drops q' = pq_drops q + of_nat (length (pq_q q))"
proof (cases "pq_dequeue_active t q")
  case (Pair r q')
  show ?thesis
  proof (cases r)
    case None
    with Pair show ?thesis using pq_dequeue_active_None [of t q q'] by (simp add: list_all_iff)
  next
    case (Some c)
    with Pair have *: "ch_turn c = t"
      "pq_q q = takeWhile (\<lambda>c. ch_turn c \<noteq> t) (pq_q q) @ c # pq_q q'"
      "pq_drops q' = pq_drops q + of_nat (length (takeWhile (\<lambda>c. ch_turn c \<noteq> t) (pq_q q)))"
      using pq_dequeue_active_Some [of t q c q'] by blast+
    then have "\<exists>stale. pq_q q = stale @ c # pq_q q' \<and> list_all (\<lambda>x. ch_turn x \<noteq> t) stale \<and>
          pq_drops q' = pq_drops q + of_nat (length stale)"
      unfolding list_all_iff by (metis (mono_tags, lifting) set_takeWhileD)
    with Pair Some * show ?thesis by simp
  qed
qed

end
