(* ===== verification/Loopback.thy ===== *)
theory Loopback
  imports Prelude
begin

text \<open>
  The reference-signal ring of \<open>src/audio/loopback.hpp\<close> and \<open>src/audio/loopback.cpp\<close>. Frame
  indices are integers (the source's \<open>int64_t\<close>, far from its bounds), division truncates
  towards zero. The refinement lemma relates the ring to the list of all frames ever emitted:
  every window that \<open>aligned\<close> returns is a window of that history, zero outside what is retained.
\<close>

record loopback =
  lb_rate :: nat
  lb_ring :: "sample list"
  lb_write_pos :: nat
  lb_total :: nat
  lb_last_emit_time :: time_point
  lb_first_frame :: nat  \<comment> \<open>\<open>last_emit_first_frame_\<close>\<close>

definition lb_new :: "nat \<Rightarrow> nat \<Rightarrow> loopback" where
  "lb_new capacity rate =
     \<lparr>lb_rate = rate, lb_ring = replicate (if 0 < capacity then capacity else 1) 0,
      lb_write_pos = 0, lb_total = 0, lb_last_emit_time = 0, lb_first_frame = 0\<rparr>"

text \<open>\<open>memcpy\<close> of \<open>xs\<close> to position \<open>p\<close>.\<close>

definition blit :: "nat \<Rightarrow> 'a list \<Rightarrow> 'a list \<Rightarrow> 'a list" where
  "blit p xs ring = take p ring @ xs @ drop (p + length xs) ring"

definition lb_write :: "sample list \<Rightarrow> nat \<Rightarrow> sample list \<Rightarrow> sample list" where
  "lb_write ring w xs =
     (let cap = length ring
      in if length xs \<le> cap - w then blit w xs ring
         else let first = cap - w in blit 0 (drop first xs) (blit w (take first xs) ring))"

definition lb_on_emitted :: "sample list \<Rightarrow> time_point \<Rightarrow> loopback \<Rightarrow> loopback" where
  "lb_on_emitted xs emit_time lb =
     (if xs = [] then lb
      else
        let cap = length (lb_ring lb); n = length xs;
            to_copy = min n cap; skipped = n - to_copy
        in lb\<lparr>lb_ring := lb_write (lb_ring lb) (lb_write_pos lb) (take to_copy (drop skipped xs)),
              lb_write_pos := (lb_write_pos lb + to_copy) mod cap,
              lb_first_frame := lb_total lb + skipped,
              lb_total := lb_total lb + n,
              lb_last_emit_time := emit_time\<rparr>)"

definition lb_delta_frames :: "int \<Rightarrow> nat \<Rightarrow> int" where
  "lb_delta_frames delta_ns rate =
     (if 0 \<le> delta_ns then trunc_div (delta_ns * int rate + 500000000) 1000000000
      else trunc_div (delta_ns * int rate - 500000000) 1000000000)"

definition lb_first_target :: "time_point \<Rightarrow> loopback \<Rightarrow> int" where
  "lb_first_target capture_time lb =
     int (lb_first_frame lb) + lb_delta_frames (capture_time - lb_last_emit_time lb) (lb_rate lb)"

definition lb_oldest :: "loopback \<Rightarrow> int" where
  "lb_oldest lb = int (lb_total lb) - int (min (length (lb_ring lb)) (lb_total lb))"

definition lb_frame :: "loopback \<Rightarrow> int \<Rightarrow> sample" where
  "lb_frame lb f =
     (if f < lb_oldest lb \<or> int (lb_total lb) \<le> f then 0
      else let cap = length (lb_ring lb); back = nat (int (lb_total lb) - f)
           in lb_ring lb ! ((lb_write_pos lb + cap - back) mod cap))"

definition lb_aligned :: "time_point \<Rightarrow> nat \<Rightarrow> loopback \<Rightarrow> sample list" where
  "lb_aligned capture_time n lb =
     (if lb_last_emit_time lb = 0 then replicate n 0
      else map (\<lambda>i. lb_frame lb (lb_first_target capture_time lb + int i)) [0..<n])"

definition lb_has_data :: "loopback \<Rightarrow> bool" where
  "lb_has_data lb \<longleftrightarrow> 0 < lb_total lb"

definition lb_clear :: "loopback \<Rightarrow> loopback" where
  "lb_clear lb =
     lb\<lparr>lb_ring := replicate (length (lb_ring lb)) 0, lb_write_pos := 0, lb_total := 0,
        lb_first_frame := 0, lb_last_emit_time := 0\<rparr>"

section \<open>Writing the ring\<close>

lemma length_blit: "p + length xs \<le> length ring \<Longrightarrow> length (blit p xs ring) = length ring"
  by (simp add: blit_def)

lemma nth_blit:
  "p + length xs \<le> length ring \<Longrightarrow> i < length ring \<Longrightarrow>
     blit p xs ring ! i = (if p \<le> i \<and> i < p + length xs then xs ! (i - p) else ring ! i)"
  by (auto simp: blit_def nth_append)

lemma length_lb_write:
  "w < length ring \<Longrightarrow> length xs \<le> length ring \<Longrightarrow> length (lb_write ring w xs) = length ring"
  by (auto simp: lb_write_def Let_def length_blit)

text \<open>The slot at distance \<open>d\<close> behind the write position.\<close>

lemma nth_lb_write:
  assumes "w < length ring" and "length xs \<le> length ring" and "d < length ring"
  shows "lb_write ring w xs ! ((w + d) mod length ring)
      = (if d < length xs then xs ! d else ring ! ((w + d) mod length ring))"
proof -
  let ?c = "length ring"
  have m: "(w + d) mod ?c = (if w + d < ?c then w + d else w + d - ?c)"
    using assms by (simp add: mod_shift)
  show ?thesis
  proof (cases "length xs \<le> ?c - w")
    case True
    with assms m show ?thesis by (auto simp: lb_write_def Let_def nth_blit)
  next
    case False
    let ?f = "?c - w"
    have l: "length (blit w (take ?f xs) ring) = ?c"
      using assms False by (simp add: length_blit)
    have "lb_write ring w xs ! i =
        (if i < length xs - ?f then xs ! (?f + i)
         else if w \<le> i then xs ! (i - w) else ring ! i)" if "i < ?c" for i
      using False assms that l by (simp add: lb_write_def Let_def nth_blit)
    with assms m False show ?thesis by auto
  qed
qed

section \<open>Refinement to the history of emitted frames\<close>

definition lb_repr :: "loopback \<Rightarrow> sample list \<Rightarrow> bool" where
  "lb_repr lb hist \<longleftrightarrow>
     lb_write_pos lb < length (lb_ring lb) \<and> lb_total lb = length hist \<and>
     (\<forall>b. 0 < b \<and> b \<le> length (lb_ring lb) \<and> b \<le> length hist \<longrightarrow>
        lb_ring lb ! ((lb_write_pos lb + (length (lb_ring lb) - b)) mod length (lb_ring lb))
          = hist ! (length hist - b))"

lemma lb_repr_new: "lb_repr (lb_new capacity rate) []"
  by (simp add: lb_repr_def lb_new_def)

lemma lb_repr_clear: "lb_repr lb hist \<Longrightarrow> lb_repr (lb_clear lb) []"
  by (auto simp: lb_repr_def lb_clear_def)

lemma lb_repr_emitted:
  assumes "lb_repr lb hist"
  shows "lb_repr (lb_on_emitted xs t lb) (hist @ xs)"
proof (cases "xs = []")
  case True
  with assms show ?thesis by (simp add: lb_on_emitted_def)
next
  case False
  let ?c = "length (lb_ring lb)" and ?w = "lb_write_pos lb" and ?n = "length xs"
  define k where "k = min ?n ?c"
  define ys where "ys = take k (drop (?n - k) xs)"
  have w: "?w < ?c" and tot: "lb_total lb = length hist"
    and old: "\<And>b. 0 < b \<Longrightarrow> b \<le> ?c \<Longrightarrow> b \<le> length hist \<Longrightarrow>
      lb_ring lb ! ((?w + (?c - b)) mod ?c) = hist ! (length hist - b)"
    using assms by (auto simp: lb_repr_def)
  have k: "k \<le> ?c" "k \<le> ?n" "0 < k" "length ys = k" "ys = drop (?n - k) xs"
    using False w by (auto simp: k_def ys_def)
  let ?r = "lb_write (lb_ring lb) ?w ys"
  have lr: "length ?r = ?c" using w k by (simp add: length_lb_write)
  have eq: "lb_on_emitted xs t lb = lb\<lparr>lb_ring := ?r, lb_write_pos := (?w + k) mod ?c,
      lb_first_frame := lb_total lb + (?n - k), lb_total := lb_total lb + ?n,
      lb_last_emit_time := t\<rparr>"
    using False by (simp add: lb_on_emitted_def Let_def k_def ys_def)
  have "?r ! (((?w + k) mod ?c + (?c - b)) mod ?c) = (hist @ xs) ! (length hist + ?n - b)"
    if b: "0 < b" "b \<le> ?c" "b \<le> length hist + ?n" for b
  proof (cases "b \<le> k")
    case True
    have "((?w + k) mod ?c + (?c - b)) mod ?c = (?w + k + (?c - b)) mod ?c"
      by (rule mod_add_left_eq)
    also have "?w + k + (?c - b) = ?w + (k - b) + ?c"
      using True k(1) b by simp
    finally have "((?w + k) mod ?c + (?c - b)) mod ?c = (?w + (k - b)) mod ?c"
      by simp
    moreover have "?r ! ((?w + (k - b)) mod ?c) = ys ! (k - b)"
      using nth_lb_write [OF w, of ys "k - b"] True k b by simp
    moreover have "(hist @ xs) ! (length hist + ?n - b) = xs ! (?n - b)"
      using nth_append_length_plus [of hist xs "?n - b"] True k(2) by simp
    ultimately show ?thesis
      using True k b by simp
  next
    case over: False
    then have "k = ?n" using b k_def by linarith
    have "((?w + k) mod ?c + (?c - b)) mod ?c = (?w + k + (?c - b)) mod ?c"
      by (rule mod_add_left_eq)
    also have "?w + k + (?c - b) = ?w + (?c - (b - k))"
      using over b by simp
    finally have "((?w + k) mod ?c + (?c - b)) mod ?c = (?w + (?c - (b - k))) mod ?c" .
    moreover have "?r ! ((?w + (?c - (b - k))) mod ?c) = lb_ring lb ! ((?w + (?c - (b - k))) mod ?c)"
    proof -
      have "?c - (b - k) < ?c" "\<not> ?c - (b - k) < length ys" "length ys \<le> ?c"
        using over b k by auto
      then show ?thesis by (simp only: nth_lb_write [OF w] if_False)
    qed
    moreover have "lb_ring lb ! ((?w + (?c - (b - k))) mod ?c) = hist ! (length hist - (b - k))"
      using over b \<open>k = ?n\<close> by (intro old) auto
    moreover have "(hist @ xs) ! (length hist + ?n - b) = hist ! (length hist - (b - k))"
    proof -
      have less: "length hist - (b - k) < length hist"
        and eq: "length hist + ?n - b = length hist - (b - k)"
        using over b \<open>k = ?n\<close> by linarith+
      show ?thesis by (simp only: eq nth_append less if_True)
    qed
    ultimately show ?thesis by (simp only:)
  qed
  moreover have "(?w + k) mod ?c < ?c" using w by (intro mod_less_divisor) linarith
  ultimately show ?thesis
    by (simp add: eq lb_repr_def lr tot)
qed

lemma lb_frame_repr:
  assumes "lb_repr lb hist" and "length (lb_ring lb) = cap"
  shows "lb_frame lb f =
    (if int (length hist) - int (min cap (length hist)) \<le> f \<and> f < int (length hist)
     then hist ! nat f else 0)"
proof (cases "int (length hist) - int (min cap (length hist)) \<le> f \<and> f < int (length hist)")
  case True
  define b where "b = nat (int (length hist) - f)"
  have b: "0 < b" "b \<le> cap" "b \<le> length hist" "nat f = length hist - b"
    "nat (int (length hist) - f) = b"
    using True by (auto simp: b_def min_def split: if_splits)
  have t: "lb_total lb = length hist" using assms by (simp add: lb_repr_def)
  have "lb_frame lb f = lb_ring lb ! ((lb_write_pos lb + (cap - b)) mod cap)"
    using True t b(2) assms(2) by (auto simp: lb_frame_def lb_oldest_def Let_def b(5))
  also have "\<dots> = hist ! (length hist - b)"
    using assms b by (simp add: lb_repr_def)
  finally show ?thesis using True b(4) by simp
next
  case False
  with assms show ?thesis by (auto simp: lb_frame_def lb_oldest_def lb_repr_def)
qed

text \<open>The ring after a series of chunks.\<close>

definition lb_emit_all :: "loopback \<Rightarrow> (sample list \<times> time_point) list \<Rightarrow> loopback" where
  "lb_emit_all = foldl (\<lambda>lb c. lb_on_emitted (fst c) (snd c) lb)"

lemma lb_emit_all_repr:
  "lb_repr lb hist \<Longrightarrow> lb_repr (lb_emit_all lb cs) (hist @ concat (map fst cs))"
proof (induction cs arbitrary: lb hist)
  case (Cons c cs)
  from Cons.IH [OF lb_repr_emitted [OF Cons.prems, of "fst c" "snd c"]] show ?case
    by (simp add: lb_emit_all_def)
qed (simp add: lb_emit_all_def)

lemma lb_emit_all_length: "length (lb_ring (lb_emit_all (lb_new cap rate) cs)) = max 1 cap"
proof -
  have step: "length (lb_ring (lb_on_emitted xs t lb)) = length (lb_ring lb)"
    if "lb_repr lb hist" for xs t lb hist
    using that by (auto simp: lb_on_emitted_def Let_def lb_repr_def length_lb_write)
  have "lb_repr lb hist \<Longrightarrow> length (lb_ring (lb_emit_all lb cs)) = length (lb_ring lb)" for lb hist
  proof (induction cs arbitrary: lb hist)
    case (Cons c cs)
    from Cons.IH [OF lb_repr_emitted [OF Cons.prems]] step [OF Cons.prems] show ?case
      by (simp add: lb_emit_all_def)
  qed (simp add: lb_emit_all_def)
  from this [OF lb_repr_new] show ?thesis by (simp add: lb_new_def)
qed

section \<open>Properties\<close>


text \<open>
  The reference for the instant a chunk started playing is that chunk. For a chunk that fits
  the ring, \<open>aligned\<close> at its emit time returns exactly the chunk's samples, whatever was emitted
  before.
\<close>

theorem loopback_aligned_last_chunk:
  assumes "lb_repr lb hist" and "length xs \<le> length (lb_ring lb)" and "t \<noteq> 0"
  shows "lb_aligned t (length xs) (lb_on_emitted xs t lb) = xs"
proof (cases "xs = []")
  case False
  let ?lb = "lb_on_emitted xs t lb"
  have repr: "lb_repr ?lb (hist @ xs)" by (rule lb_repr_emitted [OF assms(1)])
  have len: "length (lb_ring ?lb) = length (lb_ring lb)"
    using assms(1) by (auto simp: lb_on_emitted_def Let_def lb_repr_def length_lb_write)
  have "lb_first_target t ?lb = int (length hist)"
    using assms False
    by (simp add: lb_first_target_def lb_on_emitted_def lb_delta_frames_def trunc_div_def Let_def
        lb_repr_def)
  moreover have "lb_frame ?lb (int (length hist) + int i) = xs ! i" if "i < length xs" for i
    using lb_frame_repr [OF repr len, of "int (length hist) + int i"] that assms(2)
    by (auto simp: nth_append nat_add_distrib)
  moreover have "lb_last_emit_time ?lb = t"
    using False by (simp add: lb_on_emitted_def Let_def)
  ultimately have "lb_aligned t (length xs) ?lb = map (\<lambda>i. xs ! i) [0..<length xs]"
    using assms(3) by (simp add: lb_aligned_def)
  then show ?thesis by (simp add: map_nth)
qed (simp add: lb_aligned_def)

theorem loopback_aligned_last_chunk_witness:
  "lb_aligned 5 3 (lb_on_emitted [7, 8, 9] 5 (lb_new 4 48000)) = [7, 8, 9]"
proof -
  have "length [7, 8, 9 :: sample] \<le> length (lb_ring (lb_new 4 48000))"
    by (simp add: lb_new_def)
  from loopback_aligned_last_chunk [OF lb_repr_new this, of 5] show ?thesis
    by (simp add: numeral_3_eq_3)
qed

text \<open>
  A chunk longer than the ring is misaligned. The ring keeps the chunk's tail and moves the
  index of its first frame forward, but still stores the emit time of the frame that was dropped:
  asking for the instant the chunk began returns its retained tail instead of silence.
\<close>

theorem loopback_long_chunk_misaligned:
  "lb_aligned 1000 2 (lb_on_emitted [1, 2, 3, 4, 5] 1000 (lb_new 2 8)) = [4, 5]"
  by code_simp

end
