(* ===== verification/Playback_Engine.thy ===== *)
theory Playback_Engine
  imports Bounded_Queue Playback_Queue Loopback
begin

text \<open>
  The audio-callback side of playback (\<open>src/playback/engine.hpp\<close>, \<open>src/playback/engine.cpp\<close>):
  \<open>render_into\<close> with its per-turn prefill gate, the postbox of finished sentences, the barge-in
  latency timer and the reference tap. One callback is one step against the queue; the active
  turn is read once per refill, so a reading is a function of the refill's index. The device and
  thread handling around it is PortAudio's and is not part of the model.
\<close>

definition kPostboxCapacity :: nat where
  "kPostboxCapacity = 256"

record playback_engine =
  en_current :: audio_chunk
  en_pos :: nat
  en_postbox :: "(turn_id \<times> seq_no) bounded_queue"
  en_posts :: "(turn_id \<times> seq_no) list"  \<comment> \<open>everything ever handed to the postbox\<close>
  en_prefill_target :: nat
  en_primed_turn :: turn_id
  en_underruns :: counter
  en_frames_played :: counter
  en_chunks_played :: counter
  en_prefill_silence :: counter
  en_loopback :: "loopback option"
  en_barge_ns :: int
  en_barge_turn :: turn_id
  en_barge_latency :: "real option"  \<comment> \<open>\<open>None\<close> is the source's \<open>-1\<close>\<close>

definition en_new :: "nat \<Rightarrow> nat \<Rightarrow> loopback option \<Rightarrow> playback_engine" where
  "en_new prefill_ms sample_rate lb =
     \<lparr>en_current = chunk_empty, en_pos = 0, en_postbox = bq_new kPostboxCapacity DropOldest,
      en_posts = [], en_prefill_target = prefill_ms * sample_rate div 1000, en_primed_turn = kNoTurn,
      en_underruns = 0, en_frames_played = 0, en_chunks_played = 0, en_prefill_silence = 0,
      en_loopback = lb, en_barge_ns = 0, en_barge_turn = kNoTurn, en_barge_latency = None\<rparr>"

definition note_barge_in :: "turn_id \<Rightarrow> time_point \<Rightarrow> playback_engine \<Rightarrow> playback_engine" where
  "note_barge_in cancelled_turn publish_ts e =
     e\<lparr>en_barge_turn := cancelled_turn, en_barge_ns := publish_ts\<rparr>"

definition consume_barge_in_latency :: "playback_engine \<Rightarrow> real option \<times> playback_engine" where
  "consume_barge_in_latency e = (en_barge_latency e, e\<lparr>en_barge_latency := None\<rparr>)"

definition maybe_close_timer :: "time_point \<Rightarrow> turn_id \<Rightarrow> playback_engine \<Rightarrow> playback_engine" where
  "maybe_close_timer now active e =
     (if en_barge_ns e = 0 \<or> active = en_barge_turn e then e
      else e\<lparr>en_barge_ns := 0, en_barge_latency := Some (real_of_int (now - en_barge_ns e) / 1000000)\<rparr>)"

text \<open>The bookkeeping for a chunk that has just been consumed.\<close>

definition en_post :: "turn_id \<times> seq_no \<Rightarrow> playback_engine \<Rightarrow> playback_engine" where
  "en_post p e =
     e\<lparr>en_postbox := (case bq_push p (en_postbox e) of Done (_, q) \<Rightarrow> q | _ \<Rightarrow> en_postbox e),
       en_posts := en_posts e @ [p]\<rparr>"

definition en_finish_current :: "playback_engine \<Rightarrow> playback_engine" where
  "en_finish_current e =
     (let c = en_current e
      in if ch_turn c = kNoTurn then e
         else
           let e1 = (if ch_samples c = [] then e else e\<lparr>en_chunks_played := en_chunks_played e + 1\<rparr>);
               e2 = (if ch_eos c then en_post (ch_turn c, ch_seq c) e1 else e1)
           in e2\<lparr>en_current := chunk_empty, en_pos := 0\<rparr>)"

text \<open>
  The refill: either the rest of the buffer (\<open>left\<close> frames) is silence and the callback returns
  (\<open>False\<close>), or a chunk has been taken from the queue.
\<close>

definition en_refill ::
  "turn_id \<Rightarrow> time_point \<Rightarrow> nat \<Rightarrow> playback_engine \<Rightarrow> playback_queue \<Rightarrow>
     bool \<times> playback_engine \<times> playback_queue" where
  "en_refill active now left e0 q =
     (let e = en_finish_current e0;
          gated = 0 < en_prefill_target e \<and> active \<noteq> kNoTurn \<and> en_primed_turn e \<noteq> active
      in if gated \<and> pq_pending_samples_for active q < en_prefill_target e
         then (False, maybe_close_timer now active
                        (e\<lparr>en_prefill_silence := en_prefill_silence e + word_of_nat left\<rparr>), q)
         else
           let e1 = (if gated then e\<lparr>en_primed_turn := active\<rparr> else e)
           in case pq_dequeue_active active q of
                (None, q') \<Rightarrow>
                  (False, maybe_close_timer now active (e1\<lparr>en_underruns := en_underruns e1 + 1\<rparr>), q')
              | (Some c, q') \<Rightarrow> (True, e1\<lparr>en_current := c, en_pos := 0\<rparr>, q'))"

text \<open>Copying from the current chunk.\<close>

definition en_copy :: "nat \<Rightarrow> playback_engine \<Rightarrow> sample list \<times> playback_engine" where
  "en_copy left e =
     (let n = min left (length (ch_samples (en_current e)) - en_pos e)
      in (take n (drop (en_pos e) (ch_samples (en_current e))), e\<lparr>en_pos := en_pos e + n\<rparr>))"

lemma en_refill_shrinks:
  "en_refill active now left e q = (True, e', q') \<Longrightarrow> length (pq_q q') < length (pq_q q)"
  using pq_dequeue_active_Some [of active q]
  by (auto simp: en_refill_def Let_def split: if_splits prod.splits option.splits)
    (metis length_Cons length_append less_add_same_cancel2 not_less_eq trans_less_add2 lessI)+

text \<open>
  The loop. The result: the frames written, whether the buffer was filled from chunks to the end
  (the loop ran out) rather than cut short by silence, and the new states. \<open>k\<close> counts refills.
\<close>

function render_loop ::
  "(nat \<Rightarrow> turn_id) \<Rightarrow> time_point \<Rightarrow> nat \<Rightarrow> nat \<Rightarrow> playback_engine \<Rightarrow> playback_queue \<Rightarrow>
     sample list \<times> bool \<times> playback_engine \<times> playback_queue" where
  "render_loop act now k left e q =
     (if left = 0 then ([], True, e, q)
      else if length (ch_samples (en_current e)) \<le> en_pos e
      then (case en_refill (act k) now left e q of
              (False, e1, q1) \<Rightarrow> (replicate left 0, False, e1, q1)
            | (True, e1, q1) \<Rightarrow> render_loop act now (Suc k) left e1 q1)
      else (case en_copy left e of
              (xs, e1) \<Rightarrow>
                (case render_loop act now k (left - length xs) e1 q of
                   (ys, full, e2, q2) \<Rightarrow> (xs @ ys, full, e2, q2))))"
  by pat_completeness auto
termination
  by (relation "measure (\<lambda>(_, _, _, left, _, q). left + length (pq_q q))")
    (auto simp: en_copy_def Let_def dest: en_refill_shrinks [OF sym])

declare render_loop.simps [simp del]

definition render_into ::
  "(nat \<Rightarrow> turn_id) \<Rightarrow> time_point \<Rightarrow> nat \<Rightarrow> playback_engine \<Rightarrow> playback_queue \<Rightarrow>
     sample list \<times> playback_engine \<times> playback_queue" where
  "render_into act now frames e q =
     (case render_loop act now 0 frames e q of
        (out, full, e1, q1) \<Rightarrow>
          (if full
           then (out, e1\<lparr>en_frames_played := en_frames_played e1 + word_of_nat frames,
                        en_loopback := map_option (lb_on_emitted out now) (en_loopback e1)\<rparr>, q1)
           else (out, e1, q1)))"

section \<open>Specification: the stream of the active turn\<close>

text \<open>
  For a turn \<open>t\<close>: the samples still to be played (the rest of the current chunk, then the queued
  chunks of \<open>t\<close> in order) and the finished-sentence notices still due.
\<close>

definition en_mine :: "turn_id \<Rightarrow> playback_queue \<Rightarrow> audio_chunk list" where
  "en_mine t q = filter (\<lambda>c. ch_turn c = t) (pq_q q)"

definition en_stream :: "turn_id \<Rightarrow> playback_engine \<Rightarrow> playback_queue \<Rightarrow> sample list" where
  "en_stream t e q = drop (en_pos e) (ch_samples (en_current e)) @ concat (map ch_samples (en_mine t q))"

definition en_due :: "turn_id \<Rightarrow> playback_engine \<Rightarrow> playback_queue \<Rightarrow> (turn_id \<times> seq_no) list" where
  "en_due t e q =
     map (\<lambda>c. (ch_turn c, ch_seq c))
       (filter ch_eos ((if ch_turn (en_current e) = kNoTurn then [] else [en_current e]) @ en_mine t q))"

definition en_ungated :: "turn_id \<Rightarrow> playback_engine \<Rightarrow> bool" where
  "en_ungated t e \<longleftrightarrow> en_prefill_target e = 0 \<or> en_primed_turn e = t"

lemma maybe_close_timer_keeps [simp]:
  "en_current (maybe_close_timer now a e) = en_current e" "en_pos (maybe_close_timer now a e) = en_pos e"
  "en_posts (maybe_close_timer now a e) = en_posts e"
  "en_prefill_target (maybe_close_timer now a e) = en_prefill_target e"
  "en_primed_turn (maybe_close_timer now a e) = en_primed_turn e"
  by (simp_all add: maybe_close_timer_def)

lemma en_finish_current_spec:
  assumes "length (ch_samples (en_current e)) \<le> en_pos e"
  shows "en_posts (en_finish_current e) @ en_due t (en_finish_current e) q = en_posts e @ en_due t e q"
    and "ch_turn (en_current (en_finish_current e)) = kNoTurn"
    and "drop (en_pos (en_finish_current e)) (ch_samples (en_current (en_finish_current e))) = []"
    and "en_ungated t (en_finish_current e) = en_ungated t e"
    and "en_prefill_target (en_finish_current e) = en_prefill_target e"
    and "en_primed_turn (en_finish_current e) = en_primed_turn e"
  using assms
  by (auto simp: en_finish_current_def en_post_def en_due_def en_ungated_def chunk_empty_def Let_def)

lemma en_mine_dequeue_Some:
  assumes "pq_dequeue_active t q = (Some c, q')"
  shows "en_mine t q = c # en_mine t q' \<and> ch_turn c = t"
proof -
  note d = pq_dequeue_active_Some [OF assms]
  have "filter (\<lambda>c. ch_turn c = t) (takeWhile (\<lambda>c. ch_turn c \<noteq> t) (pq_q q)) = []"
    by (auto simp: filter_empty_conv dest: set_takeWhileD)
  with d show ?thesis
    unfolding en_mine_def by (metis (mono_tags) append_Nil filter.simps(2) filter_append)
qed

lemma en_mine_dequeue_None:
  "pq_dequeue_active t q = (None, q') \<Longrightarrow> en_mine t q = [] \<and> en_mine t q' = []"
  by (auto simp: en_mine_def filter_empty_conv dest: pq_dequeue_active_None)

lemma en_refill_ungated:
  assumes "length (ch_samples (en_current e)) \<le> en_pos e" and "en_ungated t e" and "t \<noteq> kNoTurn"
    and "en_refill t now left e q = (b, e', q')"
  shows "en_stream t e' q' = en_stream t e q \<and> en_ungated t e' \<and>
    en_posts e' @ en_due t e' q' = en_posts e @ en_due t e q \<and>
    (b \<or> en_stream t e q = [] \<and> en_due t e' q' = [])"
proof -
  define e1 where "e1 = en_finish_current e"
  note fin = en_finish_current_spec [OF assms(1), folded e1_def]
  have ungated: "\<not> (0 < en_prefill_target e1 \<and> t \<noteq> kNoTurn \<and> en_primed_turn e1 \<noteq> t)"
    using assms(2) fin(5,6) by (auto simp: en_ungated_def)
  show ?thesis
  proof (cases "pq_dequeue_active t q")
    case (Pair r q1)
    show ?thesis
    proof (cases r)
      case None
      with Pair assms(4) ungated have e': "b = False" "q' = q1"
        "e' = maybe_close_timer now t (e1\<lparr>en_underruns := en_underruns e1 + 1\<rparr>)"
        by (auto simp: en_refill_def Let_def e1_def [symmetric])
      from en_mine_dequeue_None [of t q q1] Pair None
      have mine: "en_mine t q = []" "en_mine t q' = []" by (simp_all add: e')
      have "en_posts e1 @ en_due t e1 q' = en_posts e @ en_due t e q"
        using fin(1) [of t q] mine by (simp add: en_due_def)
      moreover have "en_due t e1 q' = []" using fin(2) mine by (simp add: en_due_def)
      ultimately show ?thesis
        using fin assms(1,2) mine by (simp add: e' en_stream_def en_due_def en_ungated_def)
    next
      case (Some c)
      with Pair assms(4) ungated have e': "b = True" "q' = q1"
        "e' = e1\<lparr>en_current := c, en_pos := 0\<rparr>"
        by (auto simp: en_refill_def Let_def e1_def [symmetric])
      from en_mine_dequeue_Some [of t q c q1] Pair Some
      have mine: "en_mine t q = c # en_mine t q'" "ch_turn c = t" by (simp_all add: e')
      have "en_posts e1 @ en_due t e1 q = en_posts e @ en_due t e q" by (rule fin(1))
      moreover have "en_due t e1 q = en_due t e' q'"
        using fin(2) mine assms(3) by (simp add: en_due_def e')
      ultimately show ?thesis
        using fin assms(1,2) mine by (simp add: e' en_stream_def en_ungated_def)
    qed
  qed
qed

lemma en_copy_spec:
  assumes "en_copy left e = (xs, e')" and "en_pos e < length (ch_samples (en_current e))" and "left \<noteq> 0"
  shows "en_stream t e q = xs @ en_stream t e' q \<and> en_due t e' q = en_due t e q \<and>
    en_posts e' = en_posts e \<and> en_ungated t e' = en_ungated t e \<and> length xs \<le> left"
proof -
  define n where "n = min left (length (ch_samples (en_current e)) - en_pos e)"
  have "drop p ys = take n (drop p ys) @ drop (p + n) ys" for p and ys :: "sample list"
    by (metis add.commute append_take_drop_id drop_drop)
  then show ?thesis
    using assms(1) unfolding en_copy_def n_def [symmetric]
    by (auto simp: Let_def en_stream_def en_due_def en_ungated_def n_def)
qed

lemma render_loop_spec:
  assumes "render_loop act now k left e q = (out, full, e', q')" and "act = (\<lambda>_. t)"
    and "t \<noteq> kNoTurn" and "en_ungated t e"
  shows "out = take left (en_stream t e q) @ replicate (left - length (en_stream t e q)) 0 \<and>
    en_stream t e' q' = drop left (en_stream t e q) \<and>
    en_posts e' @ en_due t e' q' = en_posts e @ en_due t e q \<and> en_ungated t e' \<and>
    (full \<longleftrightarrow> left \<le> length (en_stream t e q)) \<and> (full \<or> en_due t e' q' = [])"
  using assms
proof (induction act now k left e q arbitrary: out full e' q' rule: render_loop.induct)
  case (1 act now k left e q)
  note prems = 1(3-6)
  consider "left = 0"
    | "left \<noteq> 0" "length (ch_samples (en_current e)) \<le> en_pos e"
    | "left \<noteq> 0" "en_pos e < length (ch_samples (en_current e))" by linarith
  then show ?case
  proof cases
    case 1
    with prems(1,4) show ?thesis by (auto simp: render_loop.simps [of act now k 0])
  next
    case 2
    obtain b e1 q1 where r: "en_refill t now left e q = (b, e1, q1)" by (metis prod_cases3)
    note spec = en_refill_ungated [OF 2(2) prems(4,3) r]
    show ?thesis
    proof (cases b)
      case True
      then have "render_loop act now (Suc k) left e1 q1 = (out, full, e', q')"
        using prems(1) 2 r by (simp add: render_loop.simps [of _ now k left] prems(2))
      with "1.IH"(1) [OF 2, of True "(e1, q1)" e1 q1] r True spec prems show ?thesis
        by (auto simp: prems(2))
    next
      case False
      with prems(1) 2 r spec show ?thesis
        by (auto simp: render_loop.simps [of _ now k left] prems(2))
    qed
  next
    case 3
    obtain xs e1 where c: "en_copy left e = (xs, e1)" by (metis surj_pair)
    obtain ys e2 q2 where rec: "render_loop act now k (left - length xs) e1 q = (ys, full, e', q')"
      and out: "out = xs @ ys"
      using prems(1) 3 c by (auto simp: render_loop.simps [of act now k left] split: prod.splits)
    note spec = en_copy_spec [OF c 3(2,1)]
    have "out = take left (xs @ en_stream t e1 q) @ replicate (left - length (xs @ en_stream t e1 q)) 0"
      if "ys = take (left - length xs) (en_stream t e1 q)
            @ replicate (left - length xs - length (en_stream t e1 q)) 0"
      using that spec by (simp add: out)
    moreover have "\<not> length (ch_samples (en_current e)) \<le> en_pos e" using 3(2) by simp
    moreover have "en_ungated t e1" using spec prems(4) by simp
    ultimately show ?thesis
      using "1.IH"(2) [OF 3(1) _ c [symmetric] rec prems(2,3)] spec by auto
  qed
qed

section \<open>Properties\<close>



definition en_strand_queue :: playback_queue where
  "en_strand_queue =
     (pq_new 0)\<lparr>pq_q := [\<lparr>ch_turn = 7, ch_seq = 0, ch_samples = [], ch_eos = True\<rparr>]\<rparr>"

text \<open>
  A turn shorter than the prefill threshold is never played. The gate waits for
  \<open>prefill_target\<close> queued samples and has no other way to open, so the end-of-sentence chunk of a
  turn whose synthesis failed (it carries no samples) stays in the queue for any number of
  callbacks and no \<open>PlaybackFinished\<close> is ever posted: the dialogue state machine waits for it.
\<close>

theorem prefill_strands_short_turn:
  "let (e, q) = foldl (\<lambda>(e, q) (now, frames). snd (render_into (\<lambda>_. 7) now frames e q))
                  (en_new 100 48000 None, en_strand_queue) callbacks
   in q = en_strand_queue \<and> en_posts e = []"
proof -
  define stuck where "stuck = (\<lambda>e :: playback_engine. en_current e = chunk_empty \<and> en_pos e = 0 \<and> en_posts e = [] \<and>
    en_prefill_target e = 4800 \<and> en_primed_turn e = kNoTurn)"
  have step: "stuck (fst (snd (render_into (\<lambda>_. 7) now n e en_strand_queue))) \<and>
      snd (snd (render_into (\<lambda>_. 7) now n e en_strand_queue)) = en_strand_queue" if "stuck e" for now n e
    using that
    by (auto simp: stuck_def render_into_def render_loop.simps [of _ _ _ n] en_refill_def Let_def
        en_finish_current_def chunk_empty_def kNoTurn_def en_strand_queue_def
        pq_pending_samples_for_def pq_new_def)
  have "stuck e \<Longrightarrow> stuck (fst (foldl (\<lambda>(e, q) (now, n). snd (render_into (\<lambda>_. 7) now n e q)) (e, en_strand_queue) cs)) \<and>
      snd (foldl (\<lambda>(e, q) (now, n). snd (render_into (\<lambda>_. 7) now n e q)) (e, en_strand_queue) cs) = en_strand_queue"
    for e and cs :: "(time_point \<times> nat) list"
  proof (induction cs arbitrary: e)
    case (Cons c cs)
    obtain now n where c: "c = (now, n)" by (metis surj_pair)
    obtain out e1 where "render_into (\<lambda>_. 7) now n e en_strand_queue = (out, e1, en_strand_queue)" "stuck e1"
      using step [OF Cons.prems, of now n] by (metis prod.collapse)
    with Cons.IH [of e1] show ?case by (simp add: c)
  qed simp
  moreover have "stuck (en_new 100 48000 None)"
    by (simp add: stuck_def en_new_def)
  ultimately have "stuck (fst r) \<and> snd r = en_strand_queue"
    if "r = foldl (\<lambda>(e, q) (now, n). snd (render_into (\<lambda>_. 7) now n e q))
              (en_new 100 48000 None, en_strand_queue) callbacks" for r
    using that by blast
  then show ?thesis
    unfolding stuck_def by (simp add: case_prod_beta Let_def)
qed

text \<open>
  The reference tap misses silence. A callback that runs out of audio writes silence to the device
  but returns before the tap and the frame counter, so the echo canceller's reference has no
  record of it.
\<close>

theorem underrun_not_tapped:
  "let (out, e, q) = render_into (\<lambda>_. 7) 100 4 (en_new 0 48000 (Some (lb_new 16 48000))) (pq_new 0)
   in out = [0, 0, 0, 0] \<and> en_loopback e = Some (lb_new 16 48000) \<and> en_frames_played e = 0"
proof -
  have "replicate 4 0 = [0, 0, 0, 0 :: sample]" by (simp add: numeral_eq_Suc)
  then show ?thesis
    by (simp add: render_into_def render_loop.simps [of _ _ _ 4] en_refill_def Let_def en_new_def
        en_finish_current_def chunk_empty_def pq_dequeue_active_def pq_new_def maybe_close_timer_def)
qed

end
