(* ===== verification/Spsc_Ring.thy ===== *)
theory Spsc_Ring
  imports Prelude
begin

unbundle bit_operations_syntax

text \<open>
  The lock-free single-producer single-consumer ring of \<open>src/audio/spsc_ring.hpp\<close>, between the
  capture callback and the audio-processing thread. Two models of the same code: \<open>push\<close> and
  \<open>pop\<close> as whole operations, which implement the exact FIFO interface, and their atomic accesses
  as separate steps of a producer and a consumer that interleave freely. The acquire/release
  pairs on \<open>head_\<close> and \<open>tail_\<close> order the slot accesses with the index stores, so the interleaved
  steps are sequentially consistent; each index is written by one side only.
\<close>

record 'a spsc_ring =
  ring_head :: nat
  ring_tail :: nat
  ring_slots :: "'a list"

text \<open>The capacity is the template parameter, here the length of the slot array.\<close>

definition ring_cap :: "'a spsc_ring \<Rightarrow> nat" where
  "ring_cap r = length (ring_slots r)"

definition ring_mask :: "'a spsc_ring \<Rightarrow> nat" where
  "ring_mask r = ring_cap r - 1"

definition ring_new :: "nat \<Rightarrow> 'a \<Rightarrow> 'a spsc_ring" where
  "ring_new capacity fill = \<lparr>ring_head = 0, ring_tail = 0, ring_slots = replicate capacity fill\<rparr>"

definition ring_push :: "'a \<Rightarrow> 'a spsc_ring \<Rightarrow> bool \<times> 'a spsc_ring" where
  "ring_push v r =
     (let tail = ring_tail r; next_tail = (tail + 1) AND ring_mask r
      in if next_tail = ring_head r then (False, r)
         else (True, r\<lparr>ring_slots := (ring_slots r)[tail := v], ring_tail := next_tail\<rparr>))"

definition ring_pop :: "'a spsc_ring \<Rightarrow> 'a option \<times> 'a spsc_ring" where
  "ring_pop r =
     (let head = ring_head r
      in if head = ring_tail r then (None, r)
         else (Some (ring_slots r ! head), r\<lparr>ring_head := (head + 1) AND ring_mask r\<rparr>))"

definition ring_empty :: "'a spsc_ring \<Rightarrow> bool" where
  "ring_empty r \<longleftrightarrow> ring_head r = ring_tail r"

text \<open>\<open>(t - h) & kMask\<close> on \<open>std::size_t\<close>: the subtraction wraps at \<open>2 ^ 64\<close>.\<close>

definition ring_size :: "'a spsc_ring \<Rightarrow> nat" where
  "ring_size r = (ring_tail r + 2 ^ 64 - ring_head r) AND ring_mask r"

definition ring_capacity :: "'a spsc_ring \<Rightarrow> nat" where
  "ring_capacity r = ring_cap r - 1"

section \<open>Atomic steps of the two sides\<close>

datatype 'a producer_pc = PIdle | PWrite 'a | PStore 'a
datatype 'a consumer_pc = CIdle | CMove | CStore 'a

record 'a ring_sys =
  rs_ring :: "'a spsc_ring"
  rs_producer :: "'a producer_pc"
  rs_consumer :: "'a consumer_pc"
  rs_pushed :: "'a list"  \<comment> \<open>values whose \<open>push\<close> returned true\<close>
  rs_popped :: "'a list"  \<comment> \<open>values \<open>pop\<close> returned\<close>

definition rs_new :: "nat \<Rightarrow> 'a \<Rightarrow> 'a ring_sys" where
  "rs_new capacity fill =
     \<lparr>rs_ring = ring_new capacity fill, rs_producer = PIdle, rs_consumer = CIdle,
      rs_pushed = [], rs_popped = []\<rparr>"

definition producer_step :: "'a \<Rightarrow> 'a ring_sys \<Rightarrow> 'a ring_sys" where
  "producer_step v s =
     (let r = rs_ring s; next_tail = (ring_tail r + 1) AND ring_mask r
      in case rs_producer s of
           PIdle \<Rightarrow> (if next_tail = ring_head r then s else s\<lparr>rs_producer := PWrite v\<rparr>)
         | PWrite x \<Rightarrow>
             s\<lparr>rs_ring := r\<lparr>ring_slots := (ring_slots r)[ring_tail r := x]\<rparr>,
               rs_producer := PStore x\<rparr>
         | PStore x \<Rightarrow>
             s\<lparr>rs_ring := r\<lparr>ring_tail := next_tail\<rparr>, rs_producer := PIdle,
               rs_pushed := rs_pushed s @ [x]\<rparr>)"

definition consumer_step :: "'a ring_sys \<Rightarrow> 'a ring_sys" where
  "consumer_step s =
     (let r = rs_ring s
      in case rs_consumer s of
           CIdle \<Rightarrow> (if ring_head r = ring_tail r then s else s\<lparr>rs_consumer := CMove\<rparr>)
         | CMove \<Rightarrow> s\<lparr>rs_consumer := CStore (ring_slots r ! ring_head r)\<rparr>
         | CStore x \<Rightarrow>
             s\<lparr>rs_ring := r\<lparr>ring_head := (ring_head r + 1) AND ring_mask r\<rparr>,
               rs_consumer := CIdle, rs_popped := rs_popped s @ [x]\<rparr>)"

text \<open>One scheduling decision: the producer (with the value of its next push) or the consumer.\<close>

definition ring_sys_step :: "'a ring_sys \<Rightarrow> 'a option \<Rightarrow> 'a ring_sys" where
  "ring_sys_step s c = (case c of Some v \<Rightarrow> producer_step v s | None \<Rightarrow> consumer_step s)"

section \<open>The ring as a list\<close>

definition ring_wf :: "'a spsc_ring \<Rightarrow> bool" where
  "ring_wf r \<longleftrightarrow>
     (\<exists>k. 0 < k \<and> k \<le> 64 \<and> ring_cap r = 2 ^ k) \<and> ring_head r < ring_cap r \<and> ring_tail r < ring_cap r"

definition ring_count :: "'a spsc_ring \<Rightarrow> nat" where
  "ring_count r =
     (if ring_head r \<le> ring_tail r then ring_tail r - ring_head r
      else ring_tail r + ring_cap r - ring_head r)"

definition ring_items :: "'a spsc_ring \<Rightarrow> 'a list" where
  "ring_items r = map (\<lambda>i. ring_slots r ! ((ring_head r + i) mod ring_cap r)) [0..<ring_count r]"

lemma and_mask_mod: "c = 2 ^ k \<Longrightarrow> (x :: nat) AND (c - 1) = x mod c"
  by (metis take_bit_eq_mask take_bit_eq_mod mask_eq_exp_minus_1)

lemma ring_wf_mask: "ring_wf r \<Longrightarrow> x AND ring_mask r = x mod ring_cap r"
  unfolding ring_wf_def ring_mask_def by (metis and_mask_mod)

lemma ring_wf_bounds: "ring_wf r \<Longrightarrow> 1 < ring_cap r \<and> ring_head r < ring_cap r \<and> ring_tail r < ring_cap r"
  unfolding ring_wf_def by (metis one_less_power less_2_cases_iff nat_1_add_1 one_less_numeral_iff
      semiring_norm(76))

lemma mod_next: "t < c \<Longrightarrow> Suc t mod c = (if Suc t = c then 0 else Suc t)" for t c :: nat
  by (simp add: mod_Suc)

text \<open>\<open>size()\<close> is the number of queued elements although its subtraction may wrap.\<close>

lemma ring_size_count:
  assumes "ring_wf r"
  shows "ring_size r = ring_count r"
proof -
  from assms obtain k where k: "ring_cap r = 2 ^ k" "k \<le> 64"
    by (auto simp: ring_wf_def)
  have dvd: "ring_cap r dvd 2 ^ 64" unfolding k(1) using k(2) by (rule le_imp_power_dvd)
  have b: "ring_head r < ring_cap r" "ring_tail r < ring_cap r"
    using assms by (auto simp: ring_wf_def)
  have "ring_cap r \<le> 2 ^ 64" using dvd by (simp add: dvd_imp_le)
  then have "(ring_tail r + 2 ^ 64 - ring_head r) mod ring_cap r
      = (ring_tail r + ring_cap r - ring_head r + (2 ^ 64 - ring_cap r)) mod ring_cap r"
    using b by (simp add: algebra_simps)
  also have "\<dots> = (ring_tail r + ring_cap r - ring_head r) mod ring_cap r"
    using dvd by (metis dvd_diff_nat dvd_refl mod_add_right_eq add.right_neutral dvd_imp_mod_0)
  also have "\<dots> = ring_count r"
    using b by (simp add: ring_count_def mod_if)
  finally show ?thesis
    using assms by (simp add: ring_size_def ring_wf_mask)
qed

lemma ring_cap_update [simp]: "ring_cap (r\<lparr>ring_slots := (ring_slots r)[i := v]\<rparr>) = ring_cap r"
  and ring_cap_tail [simp]: "ring_cap (r\<lparr>ring_tail := x\<rparr>) = ring_cap r"
  and ring_cap_head [simp]: "ring_cap (r\<lparr>ring_head := x\<rparr>) = ring_cap r"
  by (simp_all add: ring_cap_def)

lemma ring_count_update [simp]:
  "ring_count (r\<lparr>ring_slots := (ring_slots r)[i := v]\<rparr>) = ring_count r"
  by (simp add: ring_count_def)

lemma length_ring_items [simp]: "length (ring_items r) = ring_count r"
  by (simp add: ring_items_def)

text \<open>Writing the free slot at the tail does not disturb the queued elements.\<close>

lemma ring_items_write:
  assumes "ring_wf r" and "(ring_tail r + 1) mod ring_cap r \<noteq> ring_head r"
  shows "ring_items (r\<lparr>ring_slots := (ring_slots r)[ring_tail r := v]\<rparr>) = ring_items r"
proof (rule nth_equalityI)
  fix i assume "i < length (ring_items (r\<lparr>ring_slots := (ring_slots r)[ring_tail r := v]\<rparr>))"
  then have i: "i < ring_count r" by simp
  have b: "ring_head r < ring_cap r" "ring_tail r < ring_cap r"
    using assms by (auto simp: ring_wf_def)
  have "ring_count r < ring_cap r" using b by (auto simp: ring_count_def)
  then have "(ring_head r + i) mod ring_cap r \<noteq> ring_tail r"
    using i b by (auto simp: mod_shift ring_count_def split: if_splits)
  with i show "ring_items (r\<lparr>ring_slots := (ring_slots r)[ring_tail r := v]\<rparr>) ! i = ring_items r ! i"
    by (simp add: ring_items_def)
qed simp

text \<open>Publishing the slot appends its value; advancing the head removes the first element.\<close>

lemma ring_count_advance_tail:
  assumes "ring_wf r" and "(ring_tail r + 1) mod ring_cap r \<noteq> ring_head r"
  shows "ring_count (r\<lparr>ring_tail := (ring_tail r + 1) mod ring_cap r\<rparr>) = Suc (ring_count r)"
  using ring_wf_bounds [OF assms(1)] assms(2) by (auto simp: ring_count_def mod_next split: if_splits)

lemma ring_index_count:
  "ring_wf r \<Longrightarrow> (ring_head r + ring_count r) mod ring_cap r = ring_tail r"
  by (auto simp: ring_wf_def ring_count_def)

lemma ring_items_advance_tail:
  assumes "ring_wf r" and "(ring_tail r + 1) mod ring_cap r \<noteq> ring_head r"
  shows "ring_items (r\<lparr>ring_tail := (ring_tail r + 1) mod ring_cap r\<rparr>)
      = ring_items r @ [ring_slots r ! ring_tail r]"
  using ring_count_advance_tail [OF assms] ring_index_count [OF assms(1)]
  by (simp add: ring_items_def)

lemma ring_count_advance_head:
  assumes "ring_wf r" and "ring_head r \<noteq> ring_tail r"
  shows "ring_count r = Suc (ring_count (r\<lparr>ring_head := (ring_head r + 1) mod ring_cap r\<rparr>))"
  using ring_wf_bounds [OF assms(1)] assms(2) by (auto simp: ring_count_def mod_next split: if_splits)

lemma ring_items_advance_head:
  assumes "ring_wf r" and "ring_head r \<noteq> ring_tail r"
  shows "ring_items r
      = ring_slots r ! ring_head r # ring_items (r\<lparr>ring_head := (ring_head r + 1) mod ring_cap r\<rparr>)"
proof -
  have "ring_head r < ring_cap r" using assms by (simp add: ring_wf_def)
  moreover have "map f [0..<Suc n] = f 0 # map (\<lambda>i. f (Suc i)) [0..<n]" for f :: "nat \<Rightarrow> 'a" and n
    by (rule map_upt_Suc)
  ultimately show ?thesis
    by (simp add: ring_items_def ring_count_advance_head [OF assms] mod_simps
        del: upt_Suc)
qed

lemma ring_wf_updates:
  "ring_wf r \<Longrightarrow> ring_wf (r\<lparr>ring_slots := (ring_slots r)[i := v]\<rparr>)"
  "ring_wf r \<Longrightarrow> ring_wf (r\<lparr>ring_tail := x mod ring_cap r\<rparr>)"
  "ring_wf r \<Longrightarrow> ring_wf (r\<lparr>ring_head := x mod ring_cap r\<rparr>)"
  by (auto simp: ring_wf_def ring_cap_def)

lemma ring_wf_new: "0 < k \<Longrightarrow> k \<le> 64 \<Longrightarrow> ring_wf (ring_new (2 ^ k) fill)"
  by (auto simp: ring_wf_def ring_new_def ring_cap_def)

lemma ring_items_new: "ring_items (ring_new n fill) = []"
  by (simp add: ring_items_def ring_count_def ring_new_def)

section \<open>Whole operations: an exact FIFO\<close>

lemma ring_push_wf: "ring_wf r \<Longrightarrow> ring_push v r = (b, r') \<Longrightarrow> ring_wf r'"
  using ring_wf_updates(2) [of "r\<lparr>ring_slots := (ring_slots r)[ring_tail r := v]\<rparr>" "ring_tail r + 1"]
  by (auto simp: ring_push_def Let_def ring_wf_mask ring_wf_updates(1) ring_cap_def split: if_splits)

lemma ring_push_items:
  assumes "ring_wf r" and "ring_push v r = (True, r')"
  shows "ring_items r' = ring_items r @ [v]"
proof -
  let ?w = "r\<lparr>ring_slots := (ring_slots r)[ring_tail r := v]\<rparr>"
  from assms have ne: "(ring_tail r + 1) mod ring_cap r \<noteq> ring_head r"
    and r': "r' = ?w\<lparr>ring_tail := (ring_tail ?w + 1) mod ring_cap ?w\<rparr>"
    by (auto simp: ring_push_def Let_def ring_wf_mask ring_cap_def split: if_splits)
  have "ring_items r' = ring_items ?w @ [ring_slots ?w ! ring_tail ?w]"
    unfolding r' using ne
    by (intro ring_items_advance_tail ring_wf_updates assms) (simp add: ring_cap_def)
  with ring_items_write [OF assms(1) ne, of v] show ?thesis
    using assms(1) by (simp add: ring_wf_def ring_cap_def)
qed

lemma ring_pop_wf: "ring_wf r \<Longrightarrow> ring_pop r = (x, r') \<Longrightarrow> ring_wf r'"
  by (auto simp: ring_pop_def Let_def ring_wf_mask intro: ring_wf_updates split: if_splits)

lemma ring_pop_items: "ring_wf r \<Longrightarrow> ring_pop r = (Some x, r') \<Longrightarrow> ring_items r = x # ring_items r'"
  using ring_items_advance_head [of r]
  by (auto simp: ring_pop_def Let_def ring_wf_mask split: if_splits)

interpretation ring: strict_fifo ring_wf ring_items
  "\<lambda>v r. Done (ring_push v r)" "\<lambda>r. Done (ring_pop r)"
proof unfold_locales
  fix r r' :: "'a spsc_ring" and x
  assume "ring_wf r" "Done (ring_push x r) = Done (True, r')"
  then have "ring_items r' = drop 0 (ring_items r) @ [x]" by (simp add: ring_push_items)
  then show "\<exists>k. ring_items r' = drop k (ring_items r) @ [x]" ..
next
  fix r r' :: "'a spsc_ring" and x
  assume "ring_wf r" "Done (ring_pop r) = Done (Some x, r')"
  then have "drop 0 (ring_items r) = x # ring_items r'" by (simp add: ring_pop_items)
  then show "\<exists>k. drop k (ring_items r) = x # ring_items r'" ..
next
  fix r r' :: "'a spsc_ring"
  assume "Done (ring_pop r) = Done (None, r')"
  then have "ring_items r' = drop 0 (ring_items r)"
    by (auto simp: ring_pop_def Let_def split: if_splits)
  then show "\<exists>k. ring_items r' = drop k (ring_items r)" ..
qed (auto dest: ring_push_wf ring_pop_wf ring_push_items ring_pop_items
    simp: ring_push_def ring_pop_def Let_def split: if_splits)

section \<open>Interleaved steps\<close>

definition rs_inv :: "'a ring_sys \<Rightarrow> bool" where
  "rs_inv s \<longleftrightarrow>
     (let r = rs_ring s in
        ring_wf r \<and> rs_popped s @ ring_items r = rs_pushed s \<and>
        (rs_producer s \<noteq> PIdle \<longrightarrow> (ring_tail r + 1) mod ring_cap r \<noteq> ring_head r) \<and>
        (\<forall>x. rs_producer s = PStore x \<longrightarrow> ring_slots r ! ring_tail r = x) \<and>
        (rs_consumer s \<noteq> CIdle \<longrightarrow> ring_head r \<noteq> ring_tail r) \<and>
        (\<forall>x. rs_consumer s = CStore x \<longrightarrow> ring_slots r ! ring_head r = x))"

lemma rs_new_inv: "0 < k \<Longrightarrow> k \<le> 64 \<Longrightarrow> rs_inv (rs_new (2 ^ k) fill)"
  by (simp add: rs_inv_def rs_new_def ring_wf_new ring_items_new Let_def)

lemma producer_step_inv:
  assumes inv: "rs_inv s"
  shows "rs_inv (producer_step v s)"
proof (cases "rs_producer s")
  case PIdle
  with inv show ?thesis
    by (auto simp: producer_step_def rs_inv_def Let_def ring_wf_mask)
next
  case (PWrite x)
  let ?r = "rs_ring s"
  have wf: "ring_wf ?r" and ne: "(ring_tail ?r + 1) mod ring_cap ?r \<noteq> ring_head ?r"
    using inv PWrite by (auto simp: rs_inv_def Let_def)
  have keep: "(ring_slots ?r)[ring_tail ?r := x] ! ring_head ?r = ring_slots ?r ! ring_head ?r"
    if "ring_head ?r \<noteq> ring_tail ?r" using that by simp
  from inv PWrite wf ne keep show ?thesis
    using ring_items_write [OF wf ne, of x] ring_wf_updates(1) [OF wf, of "ring_tail ?r" x]
    by (auto simp: producer_step_def rs_inv_def Let_def ring_cap_def ring_wf_def)
next
  case (PStore x)
  let ?r = "rs_ring s"
  have wf: "ring_wf ?r" and ne: "(ring_tail ?r + 1) mod ring_cap ?r \<noteq> ring_head ?r"
    using inv PStore by (auto simp: rs_inv_def Let_def)
  from inv PStore wf ne show ?thesis
    using ring_items_advance_tail [OF wf ne] ring_wf_updates(2) [OF wf, of "ring_tail ?r + 1"]
    by (auto simp: producer_step_def rs_inv_def Let_def ring_wf_mask simp flip: append_assoc)
qed

lemma consumer_step_inv:
  assumes inv: "rs_inv s"
  shows "rs_inv (consumer_step s)"
proof (cases "rs_consumer s")
  case (CStore x)
  let ?r = "rs_ring s"
  have wf: "ring_wf ?r" and ne: "ring_head ?r \<noteq> ring_tail ?r"
    using inv CStore by (auto simp: rs_inv_def Let_def)
  have full: "(ring_tail ?r + 1) mod ring_cap ?r \<noteq> (ring_head ?r + 1) mod ring_cap ?r"
    using ring_wf_bounds [OF wf] ne by (auto simp: mod_next split: if_splits)
  from inv CStore wf ne full show ?thesis
    using ring_items_advance_head [OF wf ne] ring_wf_updates(3) [OF wf, of "ring_head ?r + 1"]
    by (auto simp: consumer_step_def rs_inv_def Let_def ring_wf_mask)
qed (use inv in \<open>auto simp: consumer_step_def rs_inv_def Let_def\<close>)

lemma ring_sys_step_inv: "rs_inv s \<Longrightarrow> rs_inv (ring_sys_step s c)"
  by (cases c) (simp_all add: ring_sys_step_def producer_step_inv consumer_step_inv)

interpretation rsys: step_machine ring_sys_step rs_inv
  by unfold_locales (rule ring_sys_step_inv)

section \<open>Properties\<close>

text \<open>
  C19. The lock-free ring is a FIFO under every interleaving. Starting from an empty ring whose
  capacity is a power of two, for every schedule of the producer's and the consumer's atomic
  accesses, the values returned by \<open>pop\<close> followed by the values still in the ring are exactly the
  values whose \<open>push\<close> returned true, in that order: nothing is lost, duplicated, reordered or
  read half-written; and the ring holds at most \<open>Capacity - 1\<close> values.
\<close>

theorem spsc_ring_linear:
  assumes "0 < k" and "k \<le> 64"
  shows "let s = foldl ring_sys_step (rs_new (2 ^ k) fill) schedule in
    rs_popped s @ ring_items (rs_ring s) = rs_pushed s \<and>
    ring_size (rs_ring s) = length (ring_items (rs_ring s)) \<and>
    ring_size (rs_ring s) \<le> ring_capacity (rs_ring s)"
proof -
  let ?s = "foldl ring_sys_step (rs_new (2 ^ k) fill) schedule"
  have inv: "rs_inv ?s" by (rule rsys.run_inv [OF rs_new_inv [OF assms]])
  then have wf: "ring_wf (rs_ring ?s)" by (simp add: rs_inv_def Let_def)
  moreover have "ring_count (rs_ring ?s) \<le> ring_cap (rs_ring ?s) - 1"
    using ring_wf_bounds [OF wf] by (auto simp: ring_count_def)
  ultimately show ?thesis
    using inv by (simp add: rs_inv_def Let_def ring_size_count ring_capacity_def)
qed

theorem spsc_ring_linear_witness:
  "let s = foldl ring_sys_step (rs_new (2 ^ 1) 0)
             [Some (7::nat), None, Some 0, Some 0, None, Some 8, None, None]
   in rs_pushed s = [7] \<and> rs_popped s = [7] \<and> ring_items (rs_ring s) = []"
proof -
  let ?sch = "[Some (7::nat), None, Some 0, Some 0, None, Some 8, None, None]"
  have "rs_pushed (foldl ring_sys_step (rs_new (2 ^ 1) 0) ?sch) = [7]"
    "rs_popped (foldl ring_sys_step (rs_new (2 ^ 1) 0) ?sch) = [7]"
    by code_simp+
  with spsc_ring_linear [of 1 0 ?sch] show ?thesis
    by (simp add: Let_def)
qed

end
