(* ===== verification/Endpointer.thy ===== *)
theory Endpointer
  imports Prelude
begin

text \<open>
  The utterance endpoint detector of \<open>src/audio/endpointer.hpp\<close> and \<open>src/audio/endpointer.cpp\<close>
  and the half-duplex microphone gate of \<open>src/audio/half_duplex_gate.hpp\<close>. The per-frame
  probability is an IEEE value (comparisons with NaN fail, which lands in the hysteresis band).
\<close>

record endpointer_config =
  ec_onset :: cfloat        \<comment> \<open>\<open>onset_threshold\<close>\<close>
  ec_offset :: cfloat       \<comment> \<open>\<open>offset_threshold\<close>\<close>
  ec_min_speech :: millis   \<comment> \<open>\<open>min_speech_ms\<close>\<close>
  ec_hangover :: millis     \<comment> \<open>\<open>hangover_ms\<close>\<close>

datatype endpointer_state = EpQuiet | EpOnset | EpSpeaking | EpEndpoint

datatype frame_outcome = FoNone | FoSpeechStarted | FoFalseStart | FoSpeechEnded

record endpointer =
  ep_cfg :: endpointer_config
  ep_state :: endpointer_state
  ep_speech_dur :: millis
  ep_quiet_dur :: millis
  ep_started_at :: time_point
  ep_ended_at :: time_point

definition ep_new :: "endpointer_config \<Rightarrow> endpointer" where
  "ep_new cfg = \<lparr>ep_cfg = cfg, ep_state = EpQuiet, ep_speech_dur = 0, ep_quiet_dur = 0,
     ep_started_at = 0, ep_ended_at = 0\<rparr>"

definition ep_reset :: "endpointer \<Rightarrow> endpointer" where
  "ep_reset ep = ep\<lparr>ep_state := EpQuiet, ep_speech_dur := 0, ep_quiet_dur := 0,
     ep_started_at := 0, ep_ended_at := 0\<rparr>"

definition ep_on_frame ::
  "cfloat \<Rightarrow> millis \<Rightarrow> time_point \<Rightarrow> endpointer \<Rightarrow> frame_outcome \<times> endpointer" where
  "ep_on_frame p dur t ep =
     (let above_onset = cfloat_ge p (ec_onset (ep_cfg ep));
          below_offset = cfloat_lt p (ec_offset (ep_cfg ep));
          speech = ep_speech_dur ep + dur;
          quiet = ep_quiet_dur ep + dur
      in case ep_state ep of
        EpQuiet \<Rightarrow>
          (if above_onset
           then (FoNone, ep\<lparr>ep_state := EpOnset, ep_speech_dur := dur, ep_quiet_dur := 0,
                            ep_started_at := t\<rparr>)
           else (FoNone, ep))
      | EpOnset \<Rightarrow>
          (if above_onset
           then if ec_min_speech (ep_cfg ep) \<le> speech
                then (FoSpeechStarted, ep\<lparr>ep_speech_dur := speech, ep_state := EpSpeaking,
                                          ep_quiet_dur := 0\<rparr>)
                else (FoNone, ep\<lparr>ep_speech_dur := speech\<rparr>)
           else if below_offset
           then (FoFalseStart, ep\<lparr>ep_state := EpQuiet, ep_speech_dur := 0, ep_quiet_dur := 0,
                                  ep_started_at := 0\<rparr>)
           else (FoNone, ep))
      | EpSpeaking \<Rightarrow>
          (if above_onset
           then (FoNone, ep\<lparr>ep_speech_dur := speech, ep_quiet_dur := 0\<rparr>)
           else if below_offset
           then (FoNone, ep\<lparr>ep_state := EpEndpoint, ep_quiet_dur := dur, ep_ended_at := t\<rparr>)
           else (FoNone, ep\<lparr>ep_speech_dur := speech\<rparr>))
      | EpEndpoint \<Rightarrow>
          (if above_onset
           then (FoNone, ep\<lparr>ep_state := EpSpeaking, ep_speech_dur := speech, ep_quiet_dur := 0,
                            ep_ended_at := 0\<rparr>)
           else if below_offset
           then if ec_hangover (ep_cfg ep) \<le> quiet
                then (FoSpeechEnded, ep\<lparr>ep_quiet_dur := quiet, ep_state := EpQuiet\<rparr>)
                else (FoNone, ep\<lparr>ep_quiet_dur := quiet\<rparr>)
           else if ec_hangover (ep_cfg ep) \<le> quiet
                then (FoSpeechEnded, ep\<lparr>ep_quiet_dur := quiet, ep_state := EpQuiet\<rparr>)
                else (FoNone, ep\<lparr>ep_quiet_dur := quiet\<rparr>)))"

definition ep_force_endpoint :: "time_point \<Rightarrow> endpointer \<Rightarrow> frame_outcome \<times> endpointer" where
  "ep_force_endpoint now ep =
     (case ep_state ep of
        EpSpeaking \<Rightarrow> (FoSpeechEnded, ep\<lparr>ep_ended_at := now, ep_state := EpQuiet\<rparr>)
      | EpEndpoint \<Rightarrow> (FoSpeechEnded, ep\<lparr>ep_ended_at := now, ep_state := EpQuiet\<rparr>)
      | EpOnset \<Rightarrow> (FoFalseStart, ep\<lparr>ep_state := EpQuiet\<rparr>)
      | EpQuiet \<Rightarrow> (FoNone, ep))"

text \<open>The calls a client makes, and the outcomes of a series of them.\<close>

datatype ep_call = EpFrame cfloat millis time_point | EpForce time_point

fun ep_do :: "endpointer \<Rightarrow> ep_call \<Rightarrow> frame_outcome \<times> endpointer" where
  "ep_do ep (EpFrame p d t) = ep_on_frame p d t ep"
| "ep_do ep (EpForce t) = ep_force_endpoint t ep"

fun ep_run :: "endpointer \<Rightarrow> ep_call list \<Rightarrow> frame_outcome list \<times> endpointer" where
  "ep_run ep [] = ([], ep)"
| "ep_run ep (c # cs) =
     (case ep_do ep c of (r, ep1) \<Rightarrow> case ep_run ep1 cs of (rs, ep2) \<Rightarrow> (r # rs, ep2))"

definition ep_in_utterance :: "endpointer \<Rightarrow> bool" where
  "ep_in_utterance ep \<longleftrightarrow> ep_state ep = EpSpeaking \<or> ep_state ep = EpEndpoint"

section \<open>The half-duplex gate\<close>

record half_duplex_gate =
  hd_speaking :: bool
  hd_in_hangover :: bool
  hd_ended_at :: time_point
  hd_hangover :: millis

definition hd_new :: "millis \<Rightarrow> half_duplex_gate" where
  "hd_new hangover =
     \<lparr>hd_speaking = False, hd_in_hangover = False, hd_ended_at = 0, hd_hangover = hangover\<rparr>"

definition hd_set_speaking :: "time_point \<Rightarrow> bool \<Rightarrow> half_duplex_gate \<Rightarrow> half_duplex_gate" where
  "hd_set_speaking now active g =
     (let prev = hd_speaking g; g' = g\<lparr>hd_speaking := active\<rparr>
      in if prev \<and> \<not> active then g'\<lparr>hd_ended_at := now, hd_in_hangover := True\<rparr>
         else if \<not> prev \<and> active then g'\<lparr>hd_in_hangover := False\<rparr>
         else g')"

definition hd_should_drop :: "time_point \<Rightarrow> half_duplex_gate \<Rightarrow> bool" where
  "hd_should_drop now g \<longleftrightarrow>
     hd_speaking g \<or> hd_in_hangover g \<and> to_millis (now - hd_ended_at g) < hd_hangover g"

section \<open>Evidence carried by the endpointer state\<close>

text \<open>How a frame is classified: the onset test comes first.\<close>

definition frame_hi :: "endpointer_config \<Rightarrow> cfloat \<times> millis \<Rightarrow> bool" where
  "frame_hi cfg f \<longleftrightarrow> cfloat_ge (fst f) (ec_onset cfg)"

definition frame_lo :: "endpointer_config \<Rightarrow> cfloat \<times> millis \<Rightarrow> bool" where
  "frame_lo cfg f \<longleftrightarrow> \<not> frame_hi cfg f \<and> cfloat_lt (fst f) (ec_offset cfg)"

text \<open>
  Frames \<open>gs\<close> that make an onset: they open above the onset threshold and none falls below the
  offset threshold. Frames that make a hangover: they open below the offset threshold and none
  rises above the onset threshold.
\<close>

definition onset_frames :: "endpointer_config \<Rightarrow> (cfloat \<times> millis) list \<Rightarrow> bool" where
  "onset_frames cfg gs \<longleftrightarrow> gs \<noteq> [] \<and> frame_hi cfg (hd gs) \<and> list_all (\<lambda>g. \<not> frame_lo cfg g) gs"

definition hangover_frames :: "endpointer_config \<Rightarrow> (cfloat \<times> millis) list \<Rightarrow> bool" where
  "hangover_frames cfg gs \<longleftrightarrow> gs \<noteq> [] \<and> frame_lo cfg (hd gs) \<and> list_all (\<lambda>g. \<not> frame_hi cfg g) gs"

definition speech_time :: "endpointer_config \<Rightarrow> (cfloat \<times> millis) list \<Rightarrow> millis" where
  "speech_time cfg gs = sum_list (map snd (filter (frame_hi cfg) gs))"

definition total_time :: "(cfloat \<times> millis) list \<Rightarrow> millis" where
  "total_time gs = sum_list (map snd gs)"

definition ep_evidence :: "(cfloat \<times> millis) list \<Rightarrow> endpointer \<Rightarrow> bool" where
  "ep_evidence hist ep \<longleftrightarrow>
     (case ep_state ep of
        EpOnset \<Rightarrow> \<exists>gs. suffix gs hist \<and> onset_frames (ep_cfg ep) gs
                       \<and> ep_speech_dur ep = speech_time (ep_cfg ep) gs
      | EpEndpoint \<Rightarrow> \<exists>gs. suffix gs hist \<and> hangover_frames (ep_cfg ep) gs
                       \<and> ep_quiet_dur ep = total_time gs
      | _ \<Rightarrow> True)"

definition ep_feed :: "endpointer \<Rightarrow> (cfloat \<times> millis) \<times> time_point \<Rightarrow> frame_outcome \<times> endpointer" where
  "ep_feed ep f = ep_on_frame (fst (fst f)) (snd (fst f)) (snd f) ep"

text \<open>What an outcome must be backed by, given every frame up to and including this one.\<close>

definition outcome_evidence ::
  "endpointer_config \<Rightarrow> (cfloat \<times> millis) list \<Rightarrow> frame_outcome \<Rightarrow> bool" where
  "outcome_evidence cfg hist r \<longleftrightarrow>
     (case r of
        FoSpeechStarted \<Rightarrow> \<exists>gs. suffix gs hist \<and> 2 \<le> length gs \<and> onset_frames cfg gs
                              \<and> ec_min_speech cfg \<le> speech_time cfg gs
      | FoSpeechEnded \<Rightarrow> \<exists>gs. suffix gs hist \<and> 2 \<le> length gs \<and> hangover_frames cfg gs
                              \<and> ec_hangover cfg \<le> total_time gs
      | _ \<Rightarrow> True)"

lemma ep_cfg_on_frame [simp]: "ep_cfg (snd (ep_on_frame p d t ep)) = ep_cfg ep"
  by (auto simp: ep_on_frame_def Let_def split: endpointer_state.splits)

declare suffix_snoc [simp del]

lemma suffix_snocI: "suffix gs hist \<Longrightarrow> suffix (gs @ [f]) (hist @ [f])"
  by (auto simp: suffix_def)

lemma suffix_last [simp]: "suffix [f] (hist @ [f])"
  by (simp add: suffix_def)

lemmas ep_frame_defs = ep_feed_def ep_on_frame_def Let_def ep_evidence_def outcome_evidence_def

text \<open>Growing an onset by a frame that is not low, and a hangover by a frame that is not high.\<close>

lemma onset_grow:
  "onset_frames cfg gs \<Longrightarrow> \<not> frame_lo cfg f \<Longrightarrow>
     onset_frames cfg (gs @ [f]) \<and> 2 \<le> length (gs @ [f]) \<and>
     speech_time cfg (gs @ [f]) = speech_time cfg gs + (if frame_hi cfg f then snd f else 0)"
  by (cases gs) (auto simp: onset_frames_def speech_time_def)

lemma hangover_grow:
  "hangover_frames cfg gs \<Longrightarrow> \<not> frame_hi cfg f \<Longrightarrow>
     hangover_frames cfg (gs @ [f]) \<and> 2 \<le> length (gs @ [f]) \<and>
     total_time (gs @ [f]) = total_time gs + snd f"
  by (cases gs) (auto simp: hangover_frames_def total_time_def)

lemma onset_start: "frame_hi cfg f \<Longrightarrow> onset_frames cfg [f] \<and> speech_time cfg [f] = snd f"
  by (auto simp: onset_frames_def speech_time_def frame_lo_def)

lemma hangover_start: "frame_lo cfg f \<Longrightarrow> hangover_frames cfg [f] \<and> total_time [f] = snd f"
  by (auto simp: hangover_frames_def total_time_def frame_lo_def)

lemma ep_feed_onset:
  assumes "ep_state ep = EpOnset" and "ep_evidence hist ep" and "ep_feed ep f = (r, ep')"
  shows "ep_evidence (hist @ [fst f]) ep' \<and> outcome_evidence (ep_cfg ep) (hist @ [fst f]) r"
proof -
  let ?c = "ep_cfg ep"
  obtain gs where gs: "suffix gs hist" "onset_frames ?c gs" "ep_speech_dur ep = speech_time ?c gs"
    using assms(1,2) by (auto simp: ep_evidence_def)
  show ?thesis
  proof (cases "frame_lo ?c (fst f)")
    case True
    with assms show ?thesis
      by (auto simp: ep_frame_defs frame_lo_def frame_hi_def)
  next
    case False
    note grow = onset_grow [OF gs(2) False] suffix_snocI [OF gs(1), of "fst f"]
    show ?thesis
      using assms(1,3) False gs(3) grow
      by (auto simp: ep_frame_defs frame_lo_def frame_hi_def split: if_splits
          intro!: exI [of _ "gs @ [fst f]"])
  qed
qed

lemma ep_feed_endpoint:
  assumes "ep_state ep = EpEndpoint" and "ep_evidence hist ep" and "ep_feed ep f = (r, ep')"
  shows "ep_evidence (hist @ [fst f]) ep' \<and> outcome_evidence (ep_cfg ep) (hist @ [fst f]) r"
proof -
  let ?c = "ep_cfg ep"
  obtain gs where gs: "suffix gs hist" "hangover_frames ?c gs" "ep_quiet_dur ep = total_time gs"
    using assms(1,2) by (auto simp: ep_evidence_def)
  show ?thesis
  proof (cases "frame_hi ?c (fst f)")
    case True
    with assms show ?thesis
      by (auto simp: ep_frame_defs frame_hi_def)
  next
    case False
    note grow = hangover_grow [OF gs(2) False] suffix_snocI [OF gs(1), of "fst f"]
    show ?thesis
      using assms(1,3) False gs(3) grow
      by (auto simp: ep_frame_defs frame_hi_def split: if_splits
          intro!: exI [of _ "gs @ [fst f]"])
  qed
qed

lemma ep_feed_evidence:
  assumes "ep_evidence hist ep" and "ep_feed ep f = (r, ep')"
  shows "ep_evidence (hist @ [fst f]) ep' \<and> outcome_evidence (ep_cfg ep) (hist @ [fst f]) r"
proof (cases "ep_state ep")
  case EpQuiet
  with assms onset_start [of "ep_cfg ep" "fst f"] show ?thesis
    by (auto simp: ep_frame_defs frame_hi_def split: if_splits intro!: exI [of _ "[fst f]"])
next
  case EpSpeaking
  with assms hangover_start [of "ep_cfg ep" "fst f"] show ?thesis
    by (auto simp: ep_frame_defs frame_lo_def frame_hi_def split: if_splits
        intro!: exI [of _ "[fst f]"])
qed (use assms ep_feed_onset ep_feed_endpoint in blast)+

definition ep_feed_all :: "endpointer \<Rightarrow> ((cfloat \<times> millis) \<times> time_point) list \<Rightarrow> endpointer" where
  "ep_feed_all = foldl (\<lambda>ep f. snd (ep_feed ep f))"

lemma ep_feed_all_evidence:
  "ep_evidence (map fst fs) (ep_feed_all (ep_new cfg) fs) \<and>
     ep_cfg (ep_feed_all (ep_new cfg) fs) = cfg"
proof (induction fs rule: rev_induct)
  case Nil
  then show ?case by (simp add: ep_feed_all_def ep_evidence_def ep_new_def)
next
  case (snoc f fs)
  obtain r ep' where "ep_feed (ep_feed_all (ep_new cfg) fs) f = (r, ep')"
    by (meson surj_pair)
  with snoc ep_feed_evidence [OF _ this] show ?case
    by (auto simp: ep_feed_all_def ep_feed_def dest: arg_cong [of _ _ "\<lambda>x. ep_cfg (snd x)"])
qed

section \<open>Alternation\<close>

fun outcomes_alternate :: "bool \<Rightarrow> frame_outcome list \<Rightarrow> bool" where
  "outcomes_alternate inside [] = True"
| "outcomes_alternate inside (FoSpeechStarted # rs) = (\<not> inside \<and> outcomes_alternate True rs)"
| "outcomes_alternate inside (FoSpeechEnded # rs) = (inside \<and> outcomes_alternate False rs)"
| "outcomes_alternate inside (FoFalseStart # rs) = (\<not> inside \<and> outcomes_alternate inside rs)"
| "outcomes_alternate inside (FoNone # rs) = outcomes_alternate inside rs"

lemma ep_do_alternate:
  "ep_do ep c = (r, ep') \<Longrightarrow>
     outcomes_alternate (ep_in_utterance ep) (r # rs) =
       outcomes_alternate (ep_in_utterance ep') rs"
  by (cases c)
    (auto simp: ep_on_frame_def ep_force_endpoint_def ep_in_utterance_def Let_def
      split: endpointer_state.splits if_splits)

lemma ep_run_alternate:
  "outcomes_alternate (ep_in_utterance ep) (fst (ep_run ep cs))"
proof (induction cs arbitrary: ep)
  case (Cons c cs)
  obtain r ep1 where "ep_do ep c = (r, ep1)" by (meson surj_pair)
  with Cons.IH [of ep1] ep_do_alternate [OF this] show ?case
    by (cases "ep_run ep1 cs") simp
qed simp

section \<open>Properties\<close>

text \<open>
  Utterances are well bracketed. Whatever probabilities (NaN included), durations and forced
  endpoints a fresh endpointer is given, speech-started and speech-ended outcomes strictly
  alternate, beginning with a start, and a false start is never reported inside an utterance.
\<close>

theorem endpointer_alternates:
  "outcomes_alternate False (fst (ep_run (ep_new cfg) cs))"
  using ep_run_alternate [of "ep_new cfg" cs] by (simp add: ep_new_def ep_in_utterance_def)

text \<open>
  C26. Every boundary is backed by evidence. After any frames, a frame that starts an utterance
  closes a stretch of at least two frames that opened above the onset threshold, never fell below
  the offset threshold and whose above-onset frames last at least \<open>min_speech_ms\<close>; a frame that
  ends one closes a stretch of at least two frames that opened below the offset threshold, never
  rose above the onset threshold and lasts at least \<open>hangover_ms\<close>.
\<close>

theorem endpointer_evidence:
  "outcome_evidence cfg (map fst (fs @ [f])) (fst (ep_feed (ep_feed_all (ep_new cfg) fs) f))"
proof -
  obtain r ep' where "ep_feed (ep_feed_all (ep_new cfg) fs) f = (r, ep')"
    by (meson surj_pair)
  with ep_feed_evidence [OF conjunct1 [OF ep_feed_all_evidence] this] ep_feed_all_evidence
  show ?thesis by simp
qed

text \<open>The stretch that ends an utterance, run from inside the hangover.\<close>

lemma ep_hangover_elapses:
  assumes "ep_state ep = EpEndpoint" and "gs \<noteq> []"
    and "list_all (\<lambda>g. \<not> frame_hi (ep_cfg ep) g) (map fst gs)"
    and "ec_hangover (ep_cfg ep) \<le> ep_quiet_dur ep + total_time (map fst gs)"
  shows "FoSpeechEnded \<in> set (fst (ep_run ep (map (\<lambda>f. EpFrame (fst (fst f)) (snd (fst f)) (snd f)) gs)))"
  using assms
proof (induction gs arbitrary: ep)
  case (Cons g gs)
  let ?q = "ep_quiet_dur ep + snd (fst g)"
  show ?case
  proof (cases "ec_hangover (ep_cfg ep) \<le> ?q")
    case True
    with Cons.prems show ?thesis
      by (auto simp: ep_on_frame_def Let_def frame_hi_def split: prod.splits)
  next
    case False
    then have "gs \<noteq> []" using Cons.prems(4) by (auto simp: total_time_def)
    with False Cons.prems Cons.IH [of "ep\<lparr>ep_quiet_dur := ?q\<rparr>"] show ?thesis
      by (auto simp: ep_on_frame_def Let_def frame_hi_def total_time_def split: prod.splits)
  qed
qed simp

text \<open>
  Silence ends an utterance. From the speaking state, any stretch of at least two frames that
  opens below the offset threshold, never rises above the onset threshold and lasts
  \<open>hangover_ms\<close> produces a speech-ended outcome, whether its frames are quiet or undecided.
\<close>

theorem endpointer_closes:
  assumes "ep_state ep = EpSpeaking" and "2 \<le> length gs"
    and "hangover_frames (ep_cfg ep) (map fst gs)"
    and "ec_hangover (ep_cfg ep) \<le> total_time (map fst gs)"
  shows "FoSpeechEnded \<in> set (fst (ep_run ep (map (\<lambda>f. EpFrame (fst (fst f)) (snd (fst f)) (snd f)) gs)))"
proof (cases gs)
  case (Cons g hs)
  define ep1 where "ep1 = ep\<lparr>ep_state := EpEndpoint, ep_quiet_dur := snd (fst g), ep_ended_at := snd g\<rparr>"
  have step: "ep_on_frame (fst (fst g)) (snd (fst g)) (snd g) ep = (FoNone, ep1)"
    using assms(1,3) Cons
    by (simp add: ep_on_frame_def Let_def hangover_frames_def frame_lo_def frame_hi_def ep1_def)
  have "FoSpeechEnded \<in> set (fst (ep_run ep1 (map (\<lambda>f. EpFrame (fst (fst f)) (snd (fst f)) (snd f)) hs)))"
    using assms(2-) Cons
    by (intro ep_hangover_elapses) (auto simp: ep1_def hangover_frames_def total_time_def)
  with step Cons show ?thesis by (auto split: prod.splits)
qed (use assms in simp)

theorem endpointer_closes_witness:
  "let cfg = \<lparr>ec_onset = Fin (1/2), ec_offset = Fin (1/4), ec_min_speech = 200, ec_hangover = 600\<rparr>;
       ep = (ep_new cfg)\<lparr>ep_state := EpSpeaking\<rparr>
   in FoSpeechEnded \<in> set (fst (ep_run ep
        (map (\<lambda>f. EpFrame (fst (fst f)) (snd (fst f)) (snd f))
          [((Fin 0, 320), 5), ((Fin (3/8), 320), 6)])))"
  unfolding Let_def
  by (rule endpointer_closes)
    (simp_all add: ep_new_def hangover_frames_def frame_lo_def frame_hi_def total_time_def)

lemma hd_set_same [simp]: "hd_speaking g = b \<Longrightarrow> hd_set_speaking t b g = g"
  by (cases g) (auto simp: hd_set_speaking_def Let_def)

lemma hd_set_repeat [simp]:
  "foldl (\<lambda>g t. hd_set_speaking t b g) (hd_set_speaking s b g) ts = hd_set_speaking s b g"
proof (induction ts)
  case (Cons t ts)
  have "hd_speaking (hd_set_speaking s b g) = b" by (simp add: hd_set_speaking_def Let_def)
  with Cons show ?case by simp
qed simp

text \<open>
  The half-duplex gate covers the assistant's speech and its tail. Once speaking has been
  switched on and later off at time \<open>e\<close> (repeated identical calls at any times in between and
  after), samples are dropped at every instant while speaking, and after \<open>e\<close> exactly until
  \<open>hangover\<close> milliseconds have passed.
\<close>

theorem half_duplex_window:
  "let on = foldl (\<lambda>g t. hd_set_speaking t True g) (hd_set_speaking s True g) ts;
       off = foldl (\<lambda>g t. hd_set_speaking t False g) (hd_set_speaking e False on) us
   in hd_should_drop now on \<and>
      (hd_should_drop now off \<longleftrightarrow> to_millis (now - e) < hd_hangover g)"
  unfolding Let_def hd_set_repeat
  by (simp add: hd_set_speaking_def hd_should_drop_def Let_def)

end
