(* ===== verification/Capture.thy ===== *)
theory Capture
  imports Spsc_Ring Endpointer
begin

text \<open>
  The capture side of the audio path: the monotonic clock of \<open>src/audio/clock.cpp\<close>, the frame of
  \<open>src/audio/frame.hpp\<close> and the audio-callback entry point of \<open>src/audio/capture.cpp\<close>, which
  consults the half-duplex gate, pushes a frame onto the ring and ticks the clock. The device
  handling of PortAudio is not part of the model; the callback's arguments are.
\<close>

section \<open>The clock\<close>

record audio_clock =
  mc_total :: counter
  mc_rate :: nat
  mc_anchor_frame :: counter
  mc_anchor_ns :: int
  mc_anchored :: bool

definition mc_new :: audio_clock where
  "mc_new = \<lparr>mc_total = 0, mc_rate = 0, mc_anchor_frame = 0, mc_anchor_ns = 0, mc_anchored = False\<rparr>"

definition on_capture_frames :: "time_point \<Rightarrow> counter \<Rightarrow> nat \<Rightarrow> audio_clock \<Rightarrow> audio_clock" where
  "on_capture_frames now frame_count rate clk =
     (if rate = 0 \<or> frame_count = 0 then clk
      else if \<not> mc_anchored clk
      then clk\<lparr>mc_rate := rate, mc_anchor_frame := 0, mc_anchor_ns := now, mc_total := frame_count,
               mc_anchored := True\<rparr>
      else let new_total = mc_total clk + frame_count
           in clk\<lparr>mc_total := new_total, mc_anchor_frame := new_total, mc_anchor_ns := now\<rparr>)"

definition steady_for :: "counter \<Rightarrow> audio_clock \<Rightarrow> time_point" where
  "steady_for frame_index clk =
     (if \<not> mc_anchored clk then 0
      else if mc_rate clk = 0 then 0
      else let delta_frames = sint frame_index - sint (mc_anchor_frame clk);
               ns_per_frame = trunc_div 1000000000 (int (mc_rate clk))
           in mc_anchor_ns clk + delta_frames * ns_per_frame)"

definition frames_at :: "time_point \<Rightarrow> audio_clock \<Rightarrow> counter" where
  "frames_at tp clk =
     (if \<not> mc_anchored clk then 0
      else if mc_rate clk = 0 then 0
      else let delta_ns = tp - mc_anchor_ns clk;
               delta_frames = trunc_div (delta_ns * int (mc_rate clk)) 1000000000;
               result = sint (mc_anchor_frame clk) + delta_frames
           in if result < 0 then 0 else word_of_int result)"

section \<open>The capture callback\<close>

definition kMaxCaptureSamples :: nat where
  "kMaxCaptureSamples = 1024"

definition kCaptureRingCapacity :: nat where
  "kCaptureRingCapacity = 256"

text \<open>The valid part of the fixed slot array is the sample list; \<open>count\<close> is its length.\<close>

record audio_frame =
  af_index :: counter
  af_captured_at :: time_point
  af_samples :: "sample list"

record capture_engine =
  ce_ring :: "audio_frame spsc_ring"
  ce_clock :: audio_clock
  ce_rate :: nat
  ce_captured :: counter
  ce_overruns :: counter
  ce_gated :: counter

definition ce_new :: "nat \<Rightarrow> capture_engine" where
  "ce_new rate =
     \<lparr>ce_ring = ring_new kCaptureRingCapacity \<lparr>af_index = 0, af_captured_at = 0, af_samples = []\<rparr>,
      ce_clock = mc_new, ce_rate = rate, ce_captured = 0, ce_overruns = 0, ce_gated = 0\<rparr>"

text \<open>
  One callback at time \<open>now\<close> (the clock is read again when it is ticked, at time \<open>tick\<close>) with the
  gate installed at that moment (\<open>None\<close> for full duplex) and the input buffer (\<open>None\<close> for a null
  pointer).
\<close>

definition on_input ::
  "time_point \<Rightarrow> time_point \<Rightarrow> half_duplex_gate option \<Rightarrow> sample list option \<Rightarrow>
     capture_engine \<Rightarrow> capture_engine" where
  "on_input now tick gate input ce =
     (case input of
        None \<Rightarrow> ce
      | Some buf \<Rightarrow>
          (if buf = [] then ce
           else
             let xs = take kMaxCaptureSamples buf; n = word_of_nat (length xs) :: counter;
                 clock' = on_capture_frames tick n (ce_rate ce) (ce_clock ce)
             in if (case gate of Some g \<Rightarrow> hd_should_drop now g | None \<Rightarrow> False)
                then ce\<lparr>ce_gated := ce_gated ce + n, ce_clock := clock'\<rparr>
                else
                  let frame = \<lparr>af_index = mc_total (ce_clock ce), af_captured_at = now,
                               af_samples = xs\<rparr>;
                      (ok, ring') = ring_push frame (ce_ring ce)
                  in ce\<lparr>ce_ring := ring',
                        ce_overruns := (if ok then ce_overruns ce else ce_overruns ce + 1),
                        ce_captured := ce_captured ce + n, ce_clock := clock'\<rparr>))"

section \<open>The timeline\<close>

datatype cap_op = CapInput time_point time_point "half_duplex_gate option" "sample list option" | CapPop

text \<open>A run of callbacks and consumer pops, with the frames handed to the consumer.\<close>

fun cap_run :: "capture_engine \<Rightarrow> cap_op list \<Rightarrow> audio_frame list \<times> capture_engine" where
  "cap_run ce [] = ([], ce)"
| "cap_run ce (CapInput now tick g i # ops) = cap_run (on_input now tick g i ce) ops"
| "cap_run ce (CapPop # ops) =
     (case ring_pop (ce_ring ce) of
        (r, ring') \<Rightarrow>
          (case cap_run (ce\<lparr>ce_ring := ring'\<rparr>) ops of
             (out, ce') \<Rightarrow> ((case r of Some f \<Rightarrow> f # out | None \<Rightarrow> out), ce')))"

text \<open>
  The specification: every callback contributes its first \<open>kMaxCaptureSamples\<close> samples to one
  continuous timeline, and the frames offered to the consumer carry their position on it.
\<close>

fun cap_len :: "cap_op \<Rightarrow> nat" where
  "cap_len (CapInput _ _ _ (Some buf)) = min kMaxCaptureSamples (length buf)"
| "cap_len _ = 0"

fun cap_offered :: "counter \<Rightarrow> cap_op list \<Rightarrow> audio_frame list" where
  "cap_offered pos [] = []"
| "cap_offered pos (CapInput now tick g (Some buf) # ops) =
     (if buf = [] \<or> (case g of Some g \<Rightarrow> hd_should_drop now g | None \<Rightarrow> False) then []
      else [\<lparr>af_index = pos, af_captured_at = now, af_samples = take kMaxCaptureSamples buf\<rparr>])
     @ cap_offered (pos + word_of_nat (min kMaxCaptureSamples (length buf))) ops"
| "cap_offered pos (_ # ops) = cap_offered pos ops"

definition ce_inv :: "capture_engine \<Rightarrow> bool" where
  "ce_inv ce \<longleftrightarrow> ring_wf (ce_ring ce) \<and> ce_rate ce \<noteq> 0 \<and>
     mc_total (ce_clock ce) = ce_captured ce + ce_gated ce \<and>
     (mc_anchored (ce_clock ce) \<or> mc_total (ce_clock ce) = 0)"

lemma ce_inv_new: "rate \<noteq> 0 \<Longrightarrow> ce_inv (ce_new rate)"
  using ring_wf_new [of 8] by (simp add: ce_inv_def ce_new_def mc_new_def kCaptureRingCapacity_def)

lemma mc_total_tick:
  "rate \<noteq> 0 \<Longrightarrow> mc_anchored clk \<or> mc_total clk = 0 \<Longrightarrow>
     mc_total (on_capture_frames t n rate clk) = mc_total clk + n \<and>
     (mc_anchored (on_capture_frames t n rate clk) \<or> mc_total (on_capture_frames t n rate clk) = 0)"
  by (auto simp: on_capture_frames_def Let_def)

text \<open>One callback: the invariant, the clock and the ring contents.\<close>

lemma on_input_step:
  assumes "ce_inv ce"
  shows "ce_inv (on_input now tick g (Some buf) ce) \<and>
    mc_total (ce_clock (on_input now tick g (Some buf) ce))
      = mc_total (ce_clock ce) + word_of_nat (min kMaxCaptureSamples (length buf)) \<and>
    (\<exists>fs. subseq fs (cap_offered (mc_total (ce_clock ce)) [CapInput now tick g (Some buf)]) \<and>
       ring_items (ce_ring (on_input now tick g (Some buf) ce)) = ring_items (ce_ring ce) @ fs)"
proof (cases "buf = []")
  case True
  with assms show ?thesis by (auto simp: on_input_def)
next
  case False
  let ?xs = "take kMaxCaptureSamples buf"
  let ?f = "\<lparr>af_index = mc_total (ce_clock ce), af_captured_at = now, af_samples = ?xs\<rparr>"
  let ?n = "word_of_nat (min kMaxCaptureSamples (length buf)) :: counter"
  have len: "word_of_nat (length ?xs) = ?n" by (simp add: min.commute)
  obtain ok r where push: "ring_push ?f (ce_ring ce) = (ok, r)"
    by (meson surj_pair)
  have wf: "ring_wf r" and items: "ring_items r = ring_items (ce_ring ce) @ (if ok then [?f] else [])"
    using assms push ring_push_wf ring_push_items ring.push_reject
    by (auto simp: ce_inv_def split: if_splits)
  note tick = mc_total_tick [of "ce_rate ce" "ce_clock ce" tick ?n]
  show ?thesis
  proof (cases "case g of Some g \<Rightarrow> hd_should_drop now g | None \<Rightarrow> False")
    case gated: True
    have "on_input now tick g (Some buf) ce =
        ce\<lparr>ce_gated := ce_gated ce + ?n,
           ce_clock := on_capture_frames tick ?n (ce_rate ce) (ce_clock ce)\<rparr>"
      using False gated by (simp only: on_input_def Let_def len option.case if_False if_True)
    with assms tick show ?thesis by (auto simp: ce_inv_def)
  next
    case open_gate: False
    have "on_input now tick g (Some buf) ce =
        ce\<lparr>ce_ring := r, ce_overruns := (if ok then ce_overruns ce else ce_overruns ce + 1),
           ce_captured := ce_captured ce + ?n,
           ce_clock := on_capture_frames tick ?n (ce_rate ce) (ce_clock ce)\<rparr>"
      using False open_gate
      by (simp only: on_input_def Let_def len option.case if_False push prod.case)
    with assms False open_gate wf items tick show ?thesis by (auto simp: ce_inv_def)
  qed
qed

lemma on_input_null [simp]: "on_input now tick g None ce = ce"
  by (simp add: on_input_def)

lemma cap_offered_Cons:
  "cap_offered pos (op # ops) = cap_offered pos [op] @ cap_offered (pos + word_of_nat (cap_len op)) ops"
  by (cases op; cases "case op of CapInput _ _ _ i \<Rightarrow> i | _ \<Rightarrow> None") auto

lemma cap_run_timeline:
  assumes "ce_inv ce" and "cap_run ce ops = (out, ce')"
  shows "ce_inv ce' \<and>
    mc_total (ce_clock ce') = mc_total (ce_clock ce) + word_of_nat (sum_list (map cap_len ops)) \<and>
    subseq (out @ ring_items (ce_ring ce'))
      (ring_items (ce_ring ce) @ cap_offered (mc_total (ce_clock ce)) ops)"
  using assms
proof (induction ops arbitrary: ce out)
  case (Cons op ops)
  show ?case
  proof (cases op)
    case CapPop
    obtain r ring' where pop: "ring_pop (ce_ring ce) = (r, ring')" by (meson surj_pair)
    let ?ce = "ce\<lparr>ce_ring := ring'\<rparr>"
    obtain out1 where run: "cap_run ?ce ops = (out1, ce')"
      and out: "out = (case r of Some f \<Rightarrow> f # out1 | None \<Rightarrow> out1)"
      using Cons.prems(2) CapPop pop by (auto split: prod.splits)
    have wf: "ring_wf ring'" and items: "ring_items (ce_ring ce) =
        (case r of Some f \<Rightarrow> f # ring_items ring' | None \<Rightarrow> ring_items ring')"
      using Cons.prems(1) pop ring_pop_wf ring_pop_items ring.pop_idle [of "ce_ring ce" ring']
      by (auto simp: ce_inv_def split: option.splits)
    have "ce_inv ?ce" using Cons.prems(1) wf by (auto simp: ce_inv_def)
    from Cons.IH [OF this run] items out CapPop show ?thesis
      by (auto split: option.splits)
  next
    case (CapInput now tick g i)
    show ?thesis
    proof (cases i)
      case None
      with Cons CapInput show ?thesis by auto
    next
      case (Some buf)
      let ?ce = "on_input now tick g (Some buf) ce"
      from on_input_step [OF Cons.prems(1), of now tick g buf] obtain fs where
        step: "ce_inv ?ce" "mc_total (ce_clock ?ce) = mc_total (ce_clock ce) + word_of_nat (cap_len op)"
          "subseq fs (cap_offered (mc_total (ce_clock ce)) [op])"
          "ring_items (ce_ring ?ce) = ring_items (ce_ring ce) @ fs"
        using CapInput Some by auto
      have run: "cap_run ?ce ops = (out, ce')" using Cons.prems(2) CapInput Some by simp
      let ?rest = "cap_offered (mc_total (ce_clock ce) + word_of_nat (cap_len op)) ops"
      have ih: "ce_inv ce'"
        "mc_total (ce_clock ce') = mc_total (ce_clock ?ce) + word_of_nat (sum_list (map cap_len ops))"
        "subseq (out @ ring_items (ce_ring ce')) (ring_items (ce_ring ce) @ fs @ ?rest)"
        using Cons.IH [OF step(1) run] step by (auto simp: step)
      have "subseq (fs @ ?rest) (cap_offered (mc_total (ce_clock ce)) [op] @ ?rest)"
        using step(3) by (rule list_emb_append_mono) simp
      then have "subseq (ring_items (ce_ring ce) @ fs @ ?rest)
          (ring_items (ce_ring ce) @ cap_offered (mc_total (ce_clock ce)) (op # ops))"
        unfolding cap_offered_Cons [of _ op ops] by (rule subseq_appendI)
      with ih step(2) show ?thesis
        by (auto simp: add.assoc intro: subseq_order.trans)
    qed
  qed
qed simp

lemma trunc_div_mult: "0 < b \<Longrightarrow> trunc_div (a * b) b = a"
  by (simp add: trunc_div_def abs_mult sgn_mult sgn_mult_abs)

section \<open>Properties\<close>

text \<open>
  The capture timeline is continuous. For any callbacks (gated by the half-duplex gate,
  truncated, or refused by a full ring) and any pops in between, the frames the consumer gets or
  will get are, in order, frames of the timeline in which every callback occupies its samples
  whether or not they were kept: their \<open>frame_index\<close> is the number of samples before them, the
  clock's total is that of all callbacks and equals captured plus gated samples.
\<close>

theorem capture_timeline:
  assumes "rate \<noteq> 0" and "cap_run (ce_new rate) ops = (out, ce)"
  shows "subseq (out @ ring_items (ce_ring ce)) (cap_offered 0 ops) \<and>
    mc_total (ce_clock ce) = word_of_nat (sum_list (map cap_len ops)) \<and>
    mc_total (ce_clock ce) = ce_captured ce + ce_gated ce"
  using cap_run_timeline [OF ce_inv_new [OF assms(1)] assms(2)]
  by (auto simp: ce_inv_def ce_new_def mc_new_def ring_items_new)

theorem capture_timeline_witness:
  "let ops = [CapInput 5 6 None (Some [1, 2]), CapPop,
              CapInput 7 8 (Some (hd_set_speaking 0 True (hd_new 100))) (Some [3]),
              CapInput 9 10 None (Some [4])];
       (out, ce) = cap_run (ce_new 48000) ops
   in mc_total (ce_clock ce) = word_of_nat (sum_list (map cap_len ops)) \<and>
      map af_index (cap_offered 0 ops) = [0, 3]"
proof -
  let ?ops = "[CapInput 5 6 None (Some [1, 2]), CapPop,
              CapInput 7 8 (Some (hd_set_speaking 0 True (hd_new 100))) (Some [3]),
              CapInput 9 10 None (Some [4])]"
  obtain out ce where run: "cap_run (ce_new 48000) ?ops = (out, ce)" by (meson surj_pair)
  have "map af_index (cap_offered 0 ?ops) = [0, 3]"
    by (simp add: hd_should_drop_def hd_set_speaking_def hd_new_def Let_def kMaxCaptureSamples_def)
  with capture_timeline [OF _ run] show ?thesis
    unfolding Let_def run by simp
qed

text \<open>
  The two clock projections are inverse where a frame is a whole number of nanoseconds. When
  the rate divides \<open>10 ^ 9\<close>, converting a frame index to an instant and back gives the index.
\<close>

theorem clock_roundtrip:
  assumes "mc_anchored clk" and "mc_rate clk dvd 1000000000" and "0 \<le> sint i"
  shows "frames_at (steady_for i clk) clk = i"
proof -
  let ?r = "int (mc_rate clk)" and ?d = "sint i - sint (mc_anchor_frame clk)"
  have r: "0 < ?r" "?r dvd 1000000000" "mc_rate clk \<noteq> 0"
    using assms(2) by (auto intro!: Nat.gr0I)
      (metis int_dvd_int_iff of_nat_numeral)
  have "trunc_div 1000000000 ?r = 1000000000 div ?r"
    using r by (simp add: trunc_div_def)
  moreover have "1000000000 div ?r * ?r = 1000000000" using r(2) by simp
  ultimately have "?d * trunc_div 1000000000 ?r * ?r = ?d * 1000000000"
    by (simp add: mult.assoc)
  moreover have "trunc_div (?d * 1000000000) 1000000000 = ?d"
    by (rule trunc_div_mult) simp
  ultimately show ?thesis
    using assms r(3) by (simp add: frames_at_def steady_for_def Let_def)
qed

theorem clock_roundtrip_witness:
  "let clk = on_capture_frames 77 160 16000 mc_new
   in frames_at (steady_for 12345 clk) clk = 12345"
proof -
  let ?clk = "on_capture_frames 77 160 16000 mc_new"
  have "mc_anchored ?clk" "mc_rate ?clk dvd 1000000000"
    by (simp_all add: on_capture_frames_def mc_new_def)
  from clock_roundtrip [OF this, of 12345] show ?thesis by simp
qed

text \<open>
  At the default capture rate they are not inverse. A frame at 48 kHz lasts \<open>20833.3\<close> ns and
  the code projects with \<open>20833\<close>, so after a million frames the round trip is 16 frames off.
\<close>

theorem clock_drifts_at_48k:
  "let clk = on_capture_frames 77 480 48000 mc_new
   in frames_at (steady_for 1000000 clk) clk = 999984"
  by (simp add: on_capture_frames_def mc_new_def frames_at_def steady_for_def trunc_div_def)

end
