(* ===== verification/Utterance.thy ===== *)
theory Utterance
  imports Events
begin

text \<open>
  The utterance buffer of \<open>src/audio/utterance.hpp\<close> and \<open>src/audio/utterance.cpp\<close>: the rolling
  pre-buffer, the active recording with its duration cap, the finished slice and the tracker of
  slices still held by consumers. A tracked slice is a handle; whether its last reference is gone
  (\<open>weak_ptr::expired\<close>) is an argument of the operation that asks.
\<close>

text \<open>\<open>AudioSlice::duration\<close>, with the product in \<open>uint64_t\<close>.\<close>

definition slice_duration :: "audio_slice \<Rightarrow> millis" where
  "slice_duration sl =
     (if slice_rate sl = 0 then 0
      else int (unat (word_of_nat (length (slice_samples sl)) * (1000 :: 64 word)) div slice_rate sl))"

text \<open>Samples in \<open>ms\<close> milliseconds: \<open>size_t(rate) * size_t(ms) / 1000\<close>, a negative duration wraps.\<close>

definition samples_for :: "nat \<Rightarrow> millis \<Rightarrow> nat" where
  "samples_for rate ms = unat ((word_of_nat rate :: 64 word) * word_of_int ms) div 1000"

record utterance_buffer =
  ub_rate :: nat
  ub_post_padding :: millis
  ub_max_duration :: millis
  ub_max_in_flight :: nat
  ub_pre_capacity :: nat
  ub_pre :: "sample list"
  ub_recording :: bool
  ub_active :: "sample list"
  ub_started_at :: time_point
  ub_speech_started_at :: time_point
  ub_in_flight :: "nat list"
  ub_drops :: counter
  ub_issued :: nat  \<comment> \<open>handle of the next slice\<close>

definition ub_new :: "nat \<Rightarrow> millis \<Rightarrow> millis \<Rightarrow> nat \<Rightarrow> millis \<Rightarrow> utterance_buffer" where
  "ub_new rate pre_ms post_ms max_in_flight max_ms =
     \<lparr>ub_rate = rate, ub_post_padding = post_ms, ub_max_duration = max_ms,
      ub_max_in_flight = max_in_flight, ub_pre_capacity = samples_for rate pre_ms, ub_pre = [],
      ub_recording = False, ub_active = [], ub_started_at = 0, ub_speech_started_at = 0,
      ub_in_flight = [], ub_drops = 0, ub_issued = 0\<rparr>"

definition ub_trim_pre :: "utterance_buffer \<Rightarrow> utterance_buffer" where
  "ub_trim_pre ub = ub\<lparr>ub_pre := take_last (ub_pre_capacity ub) (ub_pre ub)\<rparr>"

definition ub_append :: "sample list \<Rightarrow> utterance_buffer \<Rightarrow> utterance_buffer" where
  "ub_append xs ub =
     (if xs = [] then ub
      else if ub_recording ub
      then let active = ub_active ub @ xs;
               cap_samples = samples_for (ub_rate ub) (ub_max_duration ub)
           in if 0 < cap_samples \<and> cap_samples < length active
              then let dropped = length active - cap_samples
                   in ub\<lparr>ub_active := drop dropped active,
                         ub_started_at := ub_started_at ub
                           + 1000000 * trunc_div (int dropped * 1000) (int (ub_rate ub))\<rparr>
              else ub\<lparr>ub_active := active\<rparr>
      else ub_trim_pre (ub\<lparr>ub_pre := ub_pre ub @ xs\<rparr>))"

definition ub_speech_started :: "time_point \<Rightarrow> time_point \<Rightarrow> utterance_buffer \<Rightarrow> utterance_buffer" where
  "ub_speech_started pre_pad_start speech_started_at ub =
     ub\<lparr>ub_recording := True, ub_speech_started_at := speech_started_at,
        ub_started_at := pre_pad_start, ub_active := ub_pre ub, ub_pre := []\<rparr>"

definition ub_target_samples :: "time_point \<Rightarrow> utterance_buffer \<Rightarrow> nat" where
  "ub_target_samples ended_at ub =
     samples_for (ub_rate ub) (to_millis (ended_at - ub_started_at ub) + ub_post_padding ub)"

text \<open>
  Popping an empty tracker (no slice may be in flight at all) is undefined behaviour of
  \<open>std::deque\<close>.
\<close>

definition ub_track :: "(nat \<Rightarrow> bool) \<Rightarrow> utterance_buffer \<Rightarrow> utterance_buffer exec" where
  "ub_track expired ub =
     (let live = filter (\<lambda>h. \<not> expired h) (ub_in_flight ub); h = ub_issued ub
      in if ub_max_in_flight ub \<le> length live
         then case live of
             [] \<Rightarrow> UB
           | _ # rest \<Rightarrow> Done (ub\<lparr>ub_in_flight := rest @ [h], ub_drops := ub_drops ub + 1,
                                 ub_issued := h + 1\<rparr>)
         else Done (ub\<lparr>ub_in_flight := live @ [h], ub_issued := h + 1\<rparr>))"

definition ub_speech_ended ::
  "(nat \<Rightarrow> bool) \<Rightarrow> time_point \<Rightarrow> utterance_buffer \<Rightarrow> (audio_slice option \<times> utterance_buffer) exec" where
  "ub_speech_ended expired ended_at ub =
     (if \<not> ub_recording ub then Done (None, ub)
      else
        let target = ub_target_samples ended_at ub;
            samples = (if 0 < target \<and> target < length (ub_active ub)
                       then take target (ub_active ub) else ub_active ub);
            slice = \<lparr>slice_samples = samples, slice_rate = ub_rate ub,
                     slice_started_at = ub_started_at ub, slice_ended_at = ended_at\<rparr>
        in case ub_track expired (ub\<lparr>ub_active := [], ub_recording := False\<rparr>) of
             Done ub' \<Rightarrow> Done (Some slice, ub')
           | Blocked \<Rightarrow> Blocked
           | UB \<Rightarrow> UB)"

definition ub_abort_active :: "utterance_buffer \<Rightarrow> utterance_buffer" where
  "ub_abort_active ub =
     (if \<not> ub_recording ub then ub
      else ub\<lparr>ub_active := [], ub_recording := False, ub_started_at := 0, ub_speech_started_at := 0\<rparr>)"

definition ub_live_count :: "(nat \<Rightarrow> bool) \<Rightarrow> utterance_buffer \<Rightarrow> nat" where
  "ub_live_count expired ub = length (filter (\<lambda>h. \<not> expired h) (ub_in_flight ub))"

section \<open>Series of appends\<close>

definition ub_append_all :: "sample list list \<Rightarrow> utterance_buffer \<Rightarrow> utterance_buffer" where
  "ub_append_all xss ub = foldl (\<lambda>ub xs. ub_append xs ub) ub xss"

text \<open>At most the last \<open>cap\<close> samples, where a cap of zero is no cap.\<close>

definition keep_last :: "nat \<Rightarrow> 'a list \<Rightarrow> 'a list" where
  "keep_last cap xs = (if cap = 0 then xs else take_last cap xs)"

lemma keep_last_append: "keep_last cap (keep_last cap xs @ ys) = keep_last cap (xs @ ys)"
  by (simp add: keep_last_def take_last_append)

lemma ub_append_idle:
  "\<not> ub_recording ub \<Longrightarrow> length (ub_pre ub) \<le> ub_pre_capacity ub \<Longrightarrow>
     ub_append xs ub = ub\<lparr>ub_pre := take_last (ub_pre_capacity ub) (ub_pre ub @ xs)\<rparr>"
  by (cases "xs = []") (simp_all add: ub_append_def ub_trim_pre_def)

lemma ub_append_all_idle:
  "\<not> ub_recording ub \<Longrightarrow> length (ub_pre ub) \<le> ub_pre_capacity ub \<Longrightarrow>
     ub_append_all xss ub = ub\<lparr>ub_pre := take_last (ub_pre_capacity ub) (ub_pre ub @ concat xss)\<rparr>"
proof (induction xss arbitrary: ub)
  case (Cons xs xss)
  define ub1 where "ub1 = ub_append xs ub"
  have ub1: "ub1 = ub\<lparr>ub_pre := take_last (ub_pre_capacity ub) (ub_pre ub @ xs)\<rparr>"
    using Cons.prems by (simp add: ub1_def ub_append_idle)
  have "ub_append_all (xs # xss) ub = ub_append_all xss ub1"
    by (simp add: ub_append_all_def ub1_def)
  also have "\<dots> = ub1\<lparr>ub_pre := take_last (ub_pre_capacity ub1) (ub_pre ub1 @ concat xss)\<rparr>"
    using Cons.prems by (intro Cons.IH) (simp_all add: ub1)
  finally show ?case
    by (simp add: ub1 take_last_append)
qed (simp add: ub_append_all_def)

text \<open>While recording, an append keeps the last samples under the cap and touches no setting.\<close>

definition ub_cap :: "utterance_buffer \<Rightarrow> nat" where
  "ub_cap ub = samples_for (ub_rate ub) (ub_max_duration ub)"

lemma ub_append_active:
  assumes "ub_recording ub" and "xs \<noteq> []"
  shows "ub_active (ub_append xs ub) = keep_last (ub_cap ub) (ub_active ub @ xs)"
    and "ub_recording (ub_append xs ub)" and "ub_cap (ub_append xs ub) = ub_cap ub"
    and "ub_in_flight (ub_append xs ub) = ub_in_flight ub"
    and "ub_max_in_flight (ub_append xs ub) = ub_max_in_flight ub"
    and "ub_rate (ub_append xs ub) = ub_rate ub"
  using assms by (auto simp: ub_append_def ub_cap_def keep_last_def take_last_def Let_def)

lemma ub_append_all_active:
  assumes "ub_recording ub" and "list_all (\<lambda>xs. xs \<noteq> []) xss" and "xss \<noteq> []"
  shows "ub_active (ub_append_all xss ub) = keep_last (ub_cap ub) (ub_active ub @ concat xss)
    \<and> ub_recording (ub_append_all xss ub)
    \<and> ub_in_flight (ub_append_all xss ub) = ub_in_flight ub
    \<and> ub_max_in_flight (ub_append_all xss ub) = ub_max_in_flight ub
    \<and> ub_rate (ub_append_all xss ub) = ub_rate ub"
  using assms
proof (induction xss arbitrary: ub)
  case (Cons xs xss)
  show ?case
  proof (cases "xss = []")
    case True
    with Cons.prems ub_append_active [of ub xs] show ?thesis
      by (simp add: ub_append_all_def)
  next
    case False
    with Cons.prems ub_append_active [of ub xs] Cons.IH [of "ub_append xs ub"] show ?thesis
      by (simp add: ub_append_all_def keep_last_append)
  qed
qed simp

section \<open>The tracker\<close>

definition ub_inv :: "utterance_buffer \<Rightarrow> bool" where
  "ub_inv ub \<longleftrightarrow>
     length (ub_pre ub) \<le> ub_pre_capacity ub \<and>
     (ub_max_in_flight ub = 0 \<or> length (ub_in_flight ub) \<le> ub_max_in_flight ub) \<and>
     sorted_wrt (<) (ub_in_flight ub) \<and> list_all (\<lambda>h. h < ub_issued ub) (ub_in_flight ub)"

lemma ub_inv_new: "ub_inv (ub_new rate pre post mif mx)"
  by (simp add: ub_inv_def ub_new_def)

lemma ub_inv_append: "ub_inv ub \<Longrightarrow> ub_inv (ub_append xs ub)"
  by (auto simp: ub_inv_def ub_append_def ub_trim_pre_def Let_def)

lemma ub_inv_started: "ub_inv ub \<Longrightarrow> ub_inv (ub_speech_started p s ub)"
  by (auto simp: ub_inv_def ub_speech_started_def)

lemma ub_inv_abort: "ub_inv ub \<Longrightarrow> ub_inv (ub_abort_active ub)"
  by (auto simp: ub_inv_def ub_abort_active_def)

lemma ub_track_defined:
  "0 < ub_max_in_flight ub \<Longrightarrow> \<exists>ub'. ub_track expired ub = Done ub'"
  by (auto simp: ub_track_def Let_def split: list.splits)

lemma ub_inv_track:
  assumes "ub_inv ub" and "0 < ub_max_in_flight ub" and "ub_track expired ub = Done ub'"
  shows "ub_inv ub'"
proof -
  let ?live = "filter (\<lambda>h. \<not> expired h) (ub_in_flight ub)"
  have live: "sorted_wrt (<) ?live" "list_all (\<lambda>h. h < ub_issued ub) ?live"
      "length ?live \<le> length (ub_in_flight ub)"
    using assms(1) by (auto simp: ub_inv_def sorted_wrt_filter list_all_iff)
  then show ?thesis
    using assms
    by (cases ?live) (auto simp: ub_inv_def ub_track_def Let_def sorted_wrt_append list_all_iff
        less_Suc_eq split: if_splits)
qed

lemma ub_inv_ended:
  assumes "ub_inv ub" and "0 < ub_max_in_flight ub" and "ub_speech_ended expired t ub = Done (r, ub')"
  shows "ub_inv ub'"
proof -
  have "ub_inv (ub\<lparr>ub_active := [], ub_recording := False\<rparr>)"
    using assms(1) by (simp add: ub_inv_def)
  note track = ub_inv_track [OF this]
  show ?thesis
    using assms track
    by (auto simp: ub_speech_ended_def Let_def split: if_splits exec.splits)
qed

section \<open>Properties\<close>



end
