(* ===== verification/Resampler.thy ===== *)
theory Resampler
  imports Prelude
begin

text \<open>
  The resampler wrapper of \<open>src/audio/resampler.hpp\<close> and \<open>src/audio/resampler.cpp\<close>, used by the
  capture worker and by the TTS bridge. The soxr library behind it is a parameter: a record of
  three functions over its own state. The output buffer the wrapper hands to the library is taken
  to be large enough, as its size estimate intends.
\<close>

section \<open>Outcomes\<close>

text \<open>
  A value, an exception that leaves the function, an operation with undefined behaviour, or a loop
  that does not end.
\<close>

datatype 'a outcome = Ok 'a | Throw | Undefined | Diverge

fun bind_outcome :: "'a outcome \<Rightarrow> ('a \<Rightarrow> 'b outcome) \<Rightarrow> 'b outcome" where
  "bind_outcome (Ok x) f = f x"
| "bind_outcome Throw f = Throw"
| "bind_outcome Undefined f = Undefined"
| "bind_outcome Diverge f = Diverge"

lemma bind_outcome_Ok: "bind_outcome m f = Ok y \<longleftrightarrow> (\<exists>x. m = Ok x \<and> f x = Ok y)"
  by (cases m) auto

section \<open>The library and the wrapper\<close>

text \<open>
  \<^item> \<open>soxr_create\<close>: input and output rate to a fresh state, or an error;
  \<^item> \<open>soxr_process\<close>: an input chunk to the number of samples consumed, the output chunk and the
    new state, or an error;
  \<^item> \<open>soxr_drain\<close>: the call with a null input, which returns the next buffered samples.
\<close>

record 's soxr =
  soxr_create :: "nat \<Rightarrow> nat \<Rightarrow> 's option"
  soxr_process :: "sample list \<Rightarrow> 's \<Rightarrow> (nat \<times> sample list \<times> 's) option"
  soxr_drain :: "'s \<Rightarrow> (sample list \<times> 's) option"

record 's resampler =
  rs_soxr :: 's
  rs_in :: counter
  rs_out :: counter

definition resampler_new :: "('s, 'z) soxr_scheme \<Rightarrow> nat \<Rightarrow> nat \<Rightarrow> 's resampler outcome" where
  "resampler_new sx in_rate out_rate =
     (if in_rate = 0 \<or> out_rate = 0 then Throw
      else case soxr_create sx in_rate out_rate of
          None \<Rightarrow> Throw
        | Some s \<Rightarrow> Ok \<lparr>rs_soxr = s, rs_in = 0, rs_out = 0\<rparr>)"

definition resampler_process ::
  "('s, 'z) soxr_scheme \<Rightarrow> sample list \<Rightarrow> 's resampler \<Rightarrow> (sample list \<times> 's resampler) outcome" where
  "resampler_process sx xs r =
     (if xs = [] then Ok ([], r)
      else case soxr_process sx xs (rs_soxr r) of
          None \<Rightarrow> Throw
        | Some (idone, out, s) \<Rightarrow>
            Ok (out, r\<lparr>rs_soxr := s, rs_in := rs_in r + word_of_nat idone,
                        rs_out := rs_out r + word_of_nat (length out)\<rparr>))"

text \<open>One round of the loop of \<open>flush\<close>: the samples pulled, none when the library is empty.\<close>

definition resampler_pull :: "('s, 'z) soxr_scheme \<Rightarrow> 's resampler \<Rightarrow> (sample list \<times> 's resampler) outcome" where
  "resampler_pull sx r =
     (case soxr_drain sx (rs_soxr r) of
        None \<Rightarrow> Throw
      | Some (out, s) \<Rightarrow>
          (if out = [] then Ok ([], r\<lparr>rs_soxr := s\<rparr>)
           else Ok (out, r\<lparr>rs_soxr := s, rs_out := rs_out r + word_of_nat (length out)\<rparr>)))"

text \<open>The whole loop: \<open>None\<close> when the library never runs empty.\<close>

partial_function (option) resampler_flush ::
  "('s, 'z) soxr_scheme \<Rightarrow> sample list \<Rightarrow> 's resampler \<Rightarrow> (sample list \<times> 's resampler) outcome option" where
  "resampler_flush sx acc r =
     (case resampler_pull sx r of
        Ok (out, r') \<Rightarrow> if out = [] then Some (Ok (acc, r')) else resampler_flush sx (acc @ out) r'
      | _ \<Rightarrow> Some Throw)"

declare resampler_flush.simps [code]

text \<open>Chunk after chunk through one resampler, or straight through when there is none.\<close>

fun resampler_stream ::
  "('s, 'z) soxr_scheme \<Rightarrow> 's resampler option \<Rightarrow> sample list list \<Rightarrow>
     (sample list list \<times> 's resampler option) outcome" where
  "resampler_stream sx None css = Ok (css, None)"
| "resampler_stream sx (Some r) [] = Ok ([], Some r)"
| "resampler_stream sx (Some r) (c # css) =
     bind_outcome (resampler_process sx c r) (\<lambda>(out, r').
       bind_outcome (resampler_stream sx (Some r') css) (\<lambda>(outs, r''). Ok (out # outs, r'')))"

end
