(* ===== verification/Audio_Pipeline.thy ===== *)
theory Audio_Pipeline
  imports Capture Utterance Loopback Resampler
begin

text \<open>
  The capture worker: \<open>AudioPipeline::process_frame\<close> of \<open>src/audio/pipeline.cpp\<close> with the
  wrappers it calls, \<open>Apm::process\<close> (\<open>src/audio/apm.cpp\<close>) and \<open>SileroVad::push_frame\<close> (\<open>src/audio/vad.cpp\<close>). The three signal
  libraries behind them (soxr, WebRTC audio processing, ONNX Runtime) are parameters: a record of
  functions over their own states.
\<close>

section \<open>External engines\<close>

text \<open>
  \<^item> the resampling library (\<open>Resampler\<close>), extended by
  \<^item> \<open>webrtc_stream\<close>: reference window, then microphone frame, to the cleaned frame;
  \<^item> \<open>onnx_run\<close>: one window of samples to a probability and the next hidden state.
\<close>

record ('s, 'w, 'v) engines = "'s soxr" +
  webrtc_stream :: "int \<Rightarrow> sample list \<Rightarrow> sample list \<Rightarrow> 'w \<Rightarrow> sample list \<times> 'w"
  onnx_run :: "real list \<Rightarrow> 'v \<Rightarrow> cfloat \<times> 'v"

section \<open>Voice activity detection\<close>

definition kWindowSamples16k :: nat where
  "kWindowSamples16k = 512"

record 'v silero_vad =
  vad_state :: 'v
  vad_scratch :: "real list"
  vad_last_p :: cfloat

definition vad_reset :: "'v \<Rightarrow> 'v silero_vad \<Rightarrow> 'v silero_vad" where
  "vad_reset zero v = v\<lparr>vad_state := zero, vad_scratch := [], vad_last_p := Fin 0\<rparr>"

definition vad_run :: "('s, 'w, 'v) engines \<Rightarrow> 'v silero_vad \<Rightarrow> 'v silero_vad" where
  "vad_run eng v =
     (case onnx_run eng (take kWindowSamples16k (vad_scratch v)) (vad_state v) of
        (p, st) \<Rightarrow> v\<lparr>vad_last_p := p, vad_state := st\<rparr>)"

lemma kWindow_pos [simp]: "0 < kWindowSamples16k"
  by (simp add: kWindowSamples16k_def)

lemma vad_run_scratch [simp]: "vad_scratch (vad_run eng v) = vad_scratch v"
  by (simp add: vad_run_def split: prod.splits)

text \<open>The loop over full windows.\<close>

function vad_windows :: "('s, 'w, 'v) engines \<Rightarrow> 'v silero_vad \<Rightarrow> 'v silero_vad" where
  "vad_windows eng v =
     (if kWindowSamples16k \<le> length (vad_scratch v)
      then let v' = vad_run eng v
           in vad_windows eng (v'\<lparr>vad_scratch := drop kWindowSamples16k (vad_scratch v')\<rparr>)
      else v)"
  by pat_completeness auto
termination
  by (relation "measure (\<lambda>(_, v). length (vad_scratch v))")
    (auto simp: kWindowSamples16k_def)

declare vad_windows.simps [simp del]

definition vad_push_frame ::
  "('s, 'w, 'v) engines \<Rightarrow> sample list \<Rightarrow> 'v silero_vad \<Rightarrow> cfloat \<times> 'v silero_vad" where
  "vad_push_frame eng xs v =
     (if xs = [] then (vad_last_p v, v)
      else
        let v' = vad_windows eng
              (v\<lparr>vad_scratch := vad_scratch v @ map (\<lambda>x. real_of_int (sint x) * (1 / 32768)) xs\<rparr>)
        in (vad_last_p v', v'))"

section \<open>Echo cancellation\<close>

record ('s, 'w) apm =
  apm_aec_enabled :: bool
  apm_active :: bool
  apm_near_rate :: nat
  apm_reverse_rate :: nat
  apm_delay :: int
  apm_webrtc :: 'w
  apm_ref :: "'s resampler"
  apm_frames :: counter

definition samples_per_chunk :: "nat \<Rightarrow> nat" where
  "samples_per_chunk rate = rate * 10 div 1000"

definition aec_active :: "('s, 'w) apm \<Rightarrow> bool" where
  "aec_active a \<longleftrightarrow> apm_active a \<and> apm_aec_enabled a"

text \<open>Exactly \<open>n\<close> samples: the head when there are more, zero padding when there are fewer.\<close>

definition fit_window :: "nat \<Rightarrow> sample list \<Rightarrow> sample list" where
  "fit_window n xs = (if n \<le> length xs then take n xs else xs @ replicate (n - length xs) 0)"

definition apm_process ::
  "('s, 'w, 'v) engines \<Rightarrow> loopback option \<Rightarrow> sample list \<Rightarrow> time_point \<Rightarrow> ('s, 'w) apm \<Rightarrow>
     (sample list \<times> ('s, 'w) apm) outcome" where
  "apm_process eng lb mic t a0 =
     (let a = a0\<lparr>apm_frames := apm_frames a0 + 1\<rparr>;
          expected = samples_per_chunk (apm_near_rate a)
      in if length mic \<noteq> expected \<or> \<not> apm_active a then Ok (mic, a)
         else
           let n = samples_per_chunk (apm_reverse_rate a);
               ref = (case lb of Some l \<Rightarrow> lb_aligned t n l | None \<Rightarrow> replicate n 0)
           in bind_outcome (resampler_process eng ref (apm_ref a)) (\<lambda>(ref16, rs).
                case webrtc_stream eng (apm_delay a) (fit_window expected ref16) mic (apm_webrtc a) of
                  (out, w) \<Rightarrow> Ok (out, a\<lparr>apm_ref := rs, apm_webrtc := w\<rparr>)))"

text \<open>
  The loop that pulls complete blocks of \<open>n\<close> samples out of the carry buffer. With \<open>n = 0\<close> (an
  output rate below 100 Hz) its condition never becomes false.
\<close>

function apm_blocks ::
  "('s, 'w, 'v) engines \<Rightarrow> loopback option \<Rightarrow> time_point \<Rightarrow> nat \<Rightarrow> sample list \<Rightarrow> ('s, 'w) apm \<Rightarrow>
     (sample list \<times> sample list \<times> ('s, 'w) apm) outcome" where
  "apm_blocks eng lb t n carry a =
     (if n = 0 then Diverge
      else if n \<le> length carry
      then bind_outcome (apm_process eng lb (take n carry) t a) (\<lambda>(out, a1).
             bind_outcome (apm_blocks eng lb t n (drop n carry) a1) (\<lambda>(cleaned, rest, a2).
               Ok (out @ cleaned, rest, a2)))
      else Ok ([], carry, a))"
  by pat_completeness auto
termination
  by (relation "measure (\<lambda>(_, _, _, _, carry, _). length carry)") auto

declare apm_blocks.simps [simp del]

section \<open>The pipeline\<close>

record pipeline_config =
  pc_output_rate :: nat
  pc_pre_padding :: millis
  pc_min_rms :: nat

record ('s, 'w, 'v) pipeline =
  pl_cfg :: pipeline_config
  pl_resampler :: "'s resampler"
  pl_vad :: "'v silero_vad option"
  pl_apm :: "('s, 'w) apm option"
  pl_ep :: endpointer
  pl_ub :: utterance_buffer
  pl_frames_processed :: counter
  pl_utterances :: counter
  pl_false_starts :: counter
  pl_low_rms_drops :: counter
  pl_last_p :: cfloat
  pl_apm_carry :: "sample list"
  pl_test_p :: cfloat
  pl_live_sink :: bool  \<comment> \<open>a streaming sink is installed\<close>
  pl_in_speech :: bool

text \<open>What one frame sends out: published events and chunks handed to the streaming sink.\<close>

record pl_output =
  po_events :: "event list"
  po_live :: "sample list list"

definition sum_sq :: "sample list \<Rightarrow> nat" where
  "sum_sq xs = sum_list (map (\<lambda>x. nat (sint x * sint x)) xs)"

text \<open>The loudness gate, in exact arithmetic.\<close>

definition rms_below :: "nat \<Rightarrow> sample list \<Rightarrow> bool" where
  "rms_below min_rms xs \<longleftrightarrow>
     0 < min_rms \<and> xs \<noteq> [] \<and> sqrt (real (sum_sq xs) / real (length xs)) < real min_rms"

text \<open>The echo-cancellation stage: the chunk that goes on, or \<open>None\<close> when none is complete.\<close>

definition pl_aec_stage ::
  "('s, 'w, 'v) engines \<Rightarrow> loopback option \<Rightarrow> time_point \<Rightarrow> sample list \<Rightarrow> ('s, 'w, 'v) pipeline \<Rightarrow>
     (sample list option \<times> ('s, 'w, 'v) pipeline) outcome" where
  "pl_aec_stage eng lb t resampled pl =
     (case pl_apm pl of
        None \<Rightarrow> Ok (Some resampled, pl)
      | Some a \<Rightarrow>
          (if \<not> aec_active a then Ok (Some resampled, pl)
           else bind_outcome
             (apm_blocks eng lb t (pc_output_rate (pl_cfg pl) div 100) (pl_apm_carry pl @ resampled) a)
             (\<lambda>(cleaned, rest, a').
                Ok (if cleaned = [] then None else Some cleaned,
                    pl\<lparr>pl_apm := Some a', pl_apm_carry := rest\<rparr>))))"

definition pl_probability ::
  "('s, 'w, 'v) engines \<Rightarrow> sample list \<Rightarrow> ('s, 'w, 'v) pipeline \<Rightarrow> ('s, 'w, 'v) pipeline" where
  "pl_probability eng xs pl =
     (let pl1 = (case pl_vad pl of
                   None \<Rightarrow> pl
                 | Some v \<Rightarrow> (case vad_push_frame eng xs v of
                                (p, v') \<Rightarrow> pl\<lparr>pl_vad := Some v', pl_last_p := p\<rparr>))
      in if cfloat_ge (pl_test_p pl1) (Fin 0) then pl1\<lparr>pl_last_p := pl_test_p pl1\<rparr> else pl1)"

definition pl_speech_started ::
  "time_point \<Rightarrow> sample list \<Rightarrow> pl_output \<Rightarrow> ('s, 'w, 'v) pipeline \<Rightarrow>
     pl_output \<times> ('s, 'w, 'v) pipeline" where
  "pl_speech_started t xs out pl =
     (let pre_pad_start = t - 1000000 * pc_pre_padding (pl_cfg pl);
          pre_pad = ub_pre (pl_ub pl);
          live = (if pl_live_sink pl then (if pre_pad = [] then [] else [pre_pad]) @ [xs] else [])
      in (out\<lparr>po_live := po_live out @ live, po_events := po_events out @ [SpeechStarted kNoTurn t]\<rparr>,
          pl\<lparr>pl_ub := ub_speech_started pre_pad_start t (pl_ub pl), pl_in_speech := True\<rparr>))"

definition pl_speech_ended ::
  "(nat \<Rightarrow> bool) \<Rightarrow> time_point \<Rightarrow> pl_output \<Rightarrow> ('s, 'w, 'v) pipeline \<Rightarrow>
     (pl_output \<times> ('s, 'w, 'v) pipeline) outcome" where
  "pl_speech_ended expired t out pl =
     (case ub_speech_ended expired t (pl_ub pl) of
        UB \<Rightarrow> Undefined
      | Blocked \<Rightarrow> Diverge
      | Done (finished, ub') \<Rightarrow>
          (let pl1 = pl\<lparr>pl_ub := ub', pl_in_speech := False\<rparr>;
               out1 = out\<lparr>po_events := po_events out @ [SpeechEnded kNoTurn t]\<rparr>
           in case finished of
                None \<Rightarrow> Ok (out1, pl1)
              | Some s \<Rightarrow>
                  (if rms_below (pc_min_rms (pl_cfg pl)) (slice_samples s)
                   then Ok (out1, pl1\<lparr>pl_low_rms_drops := pl_low_rms_drops pl1 + 1\<rparr>)
                   else Ok (out1\<lparr>po_events := po_events out1 @ [UtteranceReady kNoTurn (Some s)]\<rparr>,
                            pl1\<lparr>pl_utterances := pl_utterances pl1 + 1\<rparr>))))"

text \<open>The part of \<open>process_frame\<close> after the chunk is ready.\<close>

definition pl_endpoint_stage ::
  "('s, 'w, 'v) engines \<Rightarrow> (nat \<Rightarrow> bool) \<Rightarrow> time_point \<Rightarrow> sample list \<Rightarrow> ('s, 'w, 'v) pipeline \<Rightarrow>
     (pl_output \<times> ('s, 'w, 'v) pipeline) outcome" where
  "pl_endpoint_stage eng expired t xs pl0 =
     (let pl1 = pl0\<lparr>pl_ub := ub_append xs (pl_ub pl0)\<rparr>;
          out = \<lparr>po_events = [], po_live = (if pl_in_speech pl1 \<and> pl_live_sink pl1 then [xs] else [])\<rparr>;
          pl2 = pl_probability eng xs pl1;
          frame_dur = trunc_div (int (length xs) * 1000) (int (pc_output_rate (pl_cfg pl2)));
          (r, ep') = ep_on_frame (pl_last_p pl2) frame_dur t (pl_ep pl2);
          pl3 = pl2\<lparr>pl_ep := ep'\<rparr>
      in case r of
           FoNone \<Rightarrow> Ok (out, pl3)
         | FoSpeechStarted \<Rightarrow> Ok (pl_speech_started t xs out pl3)
         | FoFalseStart \<Rightarrow> Ok (out, pl3\<lparr>pl_false_starts := pl_false_starts pl3 + 1\<rparr>)
         | FoSpeechEnded \<Rightarrow> pl_speech_ended expired t out pl3)"

definition process_frame ::
  "('s, 'w, 'v) engines \<Rightarrow> loopback option \<Rightarrow> (nat \<Rightarrow> bool) \<Rightarrow> audio_frame \<Rightarrow>
     ('s, 'w, 'v) pipeline \<Rightarrow> (pl_output \<times> ('s, 'w, 'v) pipeline) outcome" where
  "process_frame eng lb expired frame pl =
     (let pl1 = pl\<lparr>pl_frames_processed := pl_frames_processed pl + 1\<rparr>; t = af_captured_at frame
      in bind_outcome (resampler_process eng (af_samples frame) (pl_resampler pl1)) (\<lambda>(resampled, rs).
           let pl2 = pl1\<lparr>pl_resampler := rs\<rparr>; none = \<lparr>po_events = [], po_live = []\<rparr>
           in if resampled = [] then Ok (none, pl2)
              else bind_outcome (pl_aec_stage eng lb t resampled pl2) (\<lambda>(chunk, pl3).
                     case chunk of
                       None \<Rightarrow> Ok (none, pl3)
                     | Some xs \<Rightarrow> pl_endpoint_stage eng expired t xs pl3)))"

section \<open>Windows of the activity detector\<close>

text \<open>Running the full windows of \<open>s\<close> first and then appending \<open>t\<close> changes nothing.\<close>

lemma vad_windows_append:
  "vad_windows eng ((vad_windows eng v)\<lparr>vad_scratch := vad_scratch (vad_windows eng v) @ t\<rparr>)
     = vad_windows eng (v\<lparr>vad_scratch := vad_scratch v @ t\<rparr>)"
proof (induction eng v rule: vad_windows.induct)
  case (1 eng v)
  show ?case
  proof (cases "kWindowSamples16k \<le> length (vad_scratch v)")
    case True
    define v1 where "v1 = (vad_run eng v)\<lparr>vad_scratch := drop kWindowSamples16k (vad_scratch v)\<rparr>"
    have step: "vad_windows eng v = vad_windows eng v1"
      using True by (subst vad_windows.simps) (simp add: v1_def)
    have run: "vad_run eng (v\<lparr>vad_scratch := vad_scratch v @ t\<rparr>) =
        (vad_run eng v)\<lparr>vad_scratch := vad_scratch v @ t\<rparr>"
      using True by (simp add: vad_run_def split: prod.splits)
    have "vad_windows eng (v\<lparr>vad_scratch := vad_scratch v @ t\<rparr>) =
        vad_windows eng (v1\<lparr>vad_scratch := vad_scratch v1 @ t\<rparr>)"
      using True by (subst vad_windows.simps) (simp add: run v1_def)
    with 1 [OF True refl] step show ?thesis
      by (simp add: v1_def)
  next
    case False
    then have "vad_windows eng v = v" by (subst vad_windows.simps) simp
    then show ?thesis by simp
  qed
qed

text \<open>
  The activity detector sees the signal, not its chunks. Pushing two chunks one after the
  other leaves the detector (hidden state, pending samples and last probability) exactly as
  pushing their concatenation does, for any model.
\<close>

theorem vad_chunking:
  "snd (vad_push_frame eng ys (snd (vad_push_frame eng xs v))) = snd (vad_push_frame eng (xs @ ys) v)"
proof -
  define sc where "sc = map (\<lambda>x::sample. real_of_int (sint x) * (1 / 32768))"
  have eq: "snd (vad_push_frame eng xs v) =
      (if xs = [] then v else vad_windows eng (v\<lparr>vad_scratch := vad_scratch v @ sc xs\<rparr>))" for xs v
    by (simp add: vad_push_frame_def sc_def Let_def)
  define w where "w = v\<lparr>vad_scratch := vad_scratch v @ sc xs\<rparr>"
  have "vad_windows eng ((vad_windows eng w)\<lparr>vad_scratch := vad_scratch (vad_windows eng w) @ sc ys\<rparr>)
      = vad_windows eng (w\<lparr>vad_scratch := vad_scratch w @ sc ys\<rparr>)"
    by (rule vad_windows_append)
  then show ?thesis
    unfolding eq by (auto simp: w_def sc_def)
qed

section \<open>Framing for the echo canceller\<close>

definition webrtc_keeps_length :: "('s, 'w, 'v) engines \<Rightarrow> bool" where
  "webrtc_keeps_length eng \<longleftrightarrow> (\<forall>d r m w. length (fst (webrtc_stream eng d r m w)) = length m)"

lemma apm_process_length:
  assumes "webrtc_keeps_length eng" and "apm_process eng lb mic t a = Ok (out, a')"
  shows "length out = length mic"
proof (cases "length mic \<noteq> samples_per_chunk (apm_near_rate a) \<or> \<not> apm_active a")
  case True
  with assms(2) show ?thesis by (auto simp: apm_process_def Let_def)
next
  case False
  with assms(2) obtain d r w where "out = fst (webrtc_stream eng d r mic w)"
    by (auto simp: apm_process_def Let_def bind_outcome_Ok case_prod_unfold)
  with assms(1) show ?thesis
    unfolding webrtc_keeps_length_def by blast
qed

lemma apm_blocks_shape:
  assumes "webrtc_keeps_length eng" and "apm_blocks eng lb t n carry a = Ok (cleaned, rest, a')"
  shows "rest = drop (n * (length carry div n)) carry \<and> length cleaned = n * (length carry div n)"
  using assms
proof (induction eng lb t n carry a arbitrary: cleaned rest a' rule: apm_blocks.induct)
  case (1 eng lb t n carry a)
  show ?case
  proof (cases "n \<le> length carry")
    case True
    from 1(3) True obtain out a1 cl a2 where n: "n \<noteq> 0"
      and p: "apm_process eng lb (take n carry) t a = Ok (out, a1)"
      and r: "apm_blocks eng lb t n (drop n carry) a1 = Ok (cl, rest, a2)"
      and cl: "cleaned = out @ cl"
      by (subst (asm) apm_blocks.simps) (auto simp: bind_outcome_Ok split: if_splits)
    have "length out = n" using apm_process_length [OF 1(2) p] True by simp
    moreover have "rest = drop (n * ((length carry - n) div n)) (drop n carry)"
        "length cl = n * ((length carry - n) div n)"
      using 1(1) [OF n True 1(2) r] by auto
    moreover have "length carry div n = Suc ((length carry - n) div n)"
      using n True by (simp add: le_div_geq)
    ultimately show ?thesis by (simp add: cl add.commute)
  next
    case False
    with 1(3) show ?thesis
      by (subst (asm) apm_blocks.simps) (auto split: if_splits)
  qed
qed

text \<open>
  The echo-cancellation stage loses and invents no audio. With an engine that returns as many
  samples as it is given, the samples that go on and the samples kept in the carry buffer add up
  to the old carry plus the new chunk, the kept ones are its unprocessed tail, and less than one
  10 ms block is kept; the loop ends at every rate of at least 100 Hz.
\<close>

theorem aec_stage_conserves:
  assumes "webrtc_keeps_length eng" and "100 \<le> pc_output_rate (pl_cfg pl)"
    and "pl_apm pl = Some a" and "aec_active a"
    and "pl_aec_stage eng lb t xs pl = Ok (chunk, pl')"
  shows "let out = (case chunk of Some ys \<Rightarrow> length ys | None \<Rightarrow> 0); carry = pl_apm_carry pl @ xs
         in out + length (pl_apm_carry pl') = length carry \<and>
            pl_apm_carry pl' = drop out carry \<and>
            length (pl_apm_carry pl') < pc_output_rate (pl_cfg pl) div 100"
proof -
  define n c where "n = pc_output_rate (pl_cfg pl) div 100" and "c = pl_apm_carry pl @ xs"
  obtain cleaned rest a' where b: "apm_blocks eng lb t n c a = Ok (cleaned, rest, a')"
    and chunk: "chunk = (if cleaned = [] then None else Some cleaned)" and pl': "pl_apm_carry pl' = rest"
    using assms(3-) by (auto simp: pl_aec_stage_def bind_outcome_Ok n_def c_def)
  have n: "0 < n" using assms(2) by (simp add: n_def div_greater_zero_iff)
  note shape = apm_blocks_shape [OF assms(1) b]
  have "length c - n * (length c div n) < n"
    using n by (metis minus_mult_div_eq_mod mod_less_divisor)
  moreover have "(case chunk of Some ys \<Rightarrow> length ys | None \<Rightarrow> 0) = n * (length c div n)"
    using shape by (auto simp: chunk)
  moreover have "n * (length c div n) \<le> length c" by simp
  ultimately show ?thesis
    using shape unfolding n_def [symmetric] c_def [symmetric] by (simp add: pl' Let_def)
qed

section \<open>Brackets\<close>

text \<open>The phase of the speech events on the bus.\<close>

datatype speech_phase = PhOutside | PhInside | PhEnded

fun phase_event :: "speech_phase \<Rightarrow> event \<Rightarrow> speech_phase option" where
  "phase_event PhInside (SpeechEnded _ _) = Some PhEnded"
| "phase_event PhOutside (SpeechStarted _ _) = Some PhInside"
| "phase_event PhEnded (SpeechStarted _ _) = Some PhInside"
| "phase_event PhEnded (UtteranceReady _ (Some _)) = Some PhOutside"
| "phase_event _ _ = None"

fun phase_run :: "speech_phase \<Rightarrow> event list \<Rightarrow> speech_phase option" where
  "phase_run ph [] = Some ph"
| "phase_run ph (e # es) = Option.bind (phase_event ph e) (\<lambda>ph'. phase_run ph' es)"

lemma phase_run_append:
  "phase_run ph (es @ fs) = Option.bind (phase_run ph es) (\<lambda>ph'. phase_run ph' fs)"
  by (induction es arbitrary: ph) (auto simp: Option.bind_assoc)

definition pl_inv :: "('s, 'w, 'v) pipeline \<Rightarrow> bool" where
  "pl_inv pl \<longleftrightarrow> pl_in_speech pl = ub_recording (pl_ub pl) \<and>
     pl_in_speech pl = ep_in_utterance (pl_ep pl) \<and> 0 < ub_max_in_flight (pl_ub pl)"

text \<open>What a step of the pipeline guarantees: invariant, phase, and no undefined behaviour.\<close>

definition pl_step_ok ::
  "speech_phase \<Rightarrow> (pl_output \<times> ('s, 'w, 'v) pipeline) outcome \<Rightarrow> bool" where
  "pl_step_ok ph r \<longleftrightarrow>
     (case r of
        Ok (out, pl) \<Rightarrow> pl_inv pl \<and>
          (\<exists>ph'. phase_run ph (po_events out) = Some ph' \<and> (pl_in_speech pl \<longleftrightarrow> ph' = PhInside))
      | Undefined \<Rightarrow> False
      | _ \<Rightarrow> True)"

lemma ub_append_keeps [simp]:
  "ub_recording (ub_append xs ub) = ub_recording ub"
  "ub_max_in_flight (ub_append xs ub) = ub_max_in_flight ub"
  by (auto simp: ub_append_def ub_trim_pre_def Let_def)

lemma pl_probability_keeps [simp]:
  "pl_in_speech (pl_probability eng xs pl) = pl_in_speech pl"
  "pl_ub (pl_probability eng xs pl) = pl_ub pl"
  "pl_ep (pl_probability eng xs pl) = pl_ep pl"
  by (auto simp: pl_probability_def Let_def split: option.splits prod.splits)

lemma pl_aec_stage_keeps:
  "pl_aec_stage eng lb t xs pl = Ok (chunk, pl') \<Longrightarrow>
     pl_in_speech pl' = pl_in_speech pl \<and> pl_ub pl' = pl_ub pl \<and> pl_ep pl' = pl_ep pl"
  by (auto simp: pl_aec_stage_def bind_outcome_Ok split: option.splits if_splits)

lemma ep_on_frame_phase:
  "ep_on_frame p d t ep = (r, ep') \<Longrightarrow>
     ep_in_utterance ep' = (case r of FoSpeechStarted \<Rightarrow> True | FoSpeechEnded \<Rightarrow> False
                             | _ \<Rightarrow> ep_in_utterance ep) \<and>
     (r = FoSpeechStarted \<longrightarrow> \<not> ep_in_utterance ep) \<and> (r = FoSpeechEnded \<longrightarrow> ep_in_utterance ep)"
  by (auto simp: ep_on_frame_def ep_in_utterance_def Let_def
      split: endpointer_state.splits if_splits)

lemma ub_speech_ended_recording:
  assumes "ub_recording ub" and "0 < ub_max_in_flight ub"
  shows "\<exists>sl ub'. ub_speech_ended expired t ub = Done (Some sl, ub') \<and> \<not> ub_recording ub' \<and>
    ub_max_in_flight ub' = ub_max_in_flight ub"
proof -
  obtain ub' where track: "ub_track expired (ub\<lparr>ub_active := [], ub_recording := False\<rparr>) = Done ub'"
    using ub_track_defined [of "ub\<lparr>ub_active := [], ub_recording := False\<rparr>"] assms(2) by auto
  then have "\<not> ub_recording ub' \<and> ub_max_in_flight ub' = ub_max_in_flight ub"
    by (auto simp: ub_track_def Let_def split: if_splits list.splits)
  with track assms(1) show ?thesis by (auto simp: ub_speech_ended_def Let_def)
qed

lemma pl_speech_ended_ok:
  assumes "ub_recording (pl_ub pl)" and "0 < ub_max_in_flight (pl_ub pl)"
    and "\<not> ep_in_utterance (pl_ep pl)" and "po_events out = []"
  shows "pl_step_ok PhInside (pl_speech_ended expired t out pl)"
proof -
  from ub_speech_ended_recording [OF assms(1,2)] obtain sl ub' where
    "ub_speech_ended expired t (pl_ub pl) = Done (Some sl, ub')" "\<not> ub_recording ub'"
    "ub_max_in_flight ub' = ub_max_in_flight (pl_ub pl)" by blast
  with assms show ?thesis
    by (simp add: pl_speech_ended_def Let_def pl_step_ok_def pl_inv_def)
qed

lemma pl_endpoint_stage_ok:
  assumes "pl_inv pl" and "pl_in_speech pl \<longleftrightarrow> ph = PhInside"
  shows "pl_step_ok ph (pl_endpoint_stage eng expired t xs pl)"
proof -
  define pl2 where "pl2 = pl_probability eng xs (pl\<lparr>pl_ub := ub_append xs (pl_ub pl)\<rparr>)"
  define dur where "dur = trunc_div (int (length xs) * 1000) (int (pc_output_rate (pl_cfg pl2)))"
  obtain r ep' where ep: "ep_on_frame (pl_last_p pl2) dur t (pl_ep pl2) = (r, ep')"
    by (meson surj_pair)
  have pl2: "pl_in_speech pl2 = pl_in_speech pl" "pl_ub pl2 = ub_append xs (pl_ub pl)"
      "pl_ep pl2 = pl_ep pl"
    by (simp_all add: pl2_def)
  note phase = ep_on_frame_phase [OF ep]
  define pl3 where "pl3 = pl2\<lparr>pl_ep := ep'\<rparr>"
  define out where "out = \<lparr>po_events = [],
    po_live = (if pl_in_speech pl \<and> pl_live_sink pl then [xs] else [])\<rparr>"
  have stage: "pl_endpoint_stage eng expired t xs pl = (case r of
      FoNone \<Rightarrow> Ok (out, pl3)
    | FoSpeechStarted \<Rightarrow> Ok (pl_speech_started t xs out pl3)
    | FoFalseStart \<Rightarrow> Ok (out, pl3\<lparr>pl_false_starts := pl_false_starts pl3 + 1\<rparr>)
    | FoSpeechEnded \<Rightarrow> pl_speech_ended expired t out pl3)"
    using ep by (cases r) (simp_all add: pl_endpoint_stage_def Let_def pl2_def dur_def pl3_def out_def)
  show ?thesis
  proof (cases r)
    case FoSpeechEnded
    with assms phase have "ph = PhInside" by (auto simp: pl2 pl_inv_def)
    moreover have "pl_step_ok PhInside (pl_speech_ended expired t out pl3)"
      using assms phase FoSpeechEnded
      by (intro pl_speech_ended_ok) (auto simp: pl2 pl3_def out_def pl_inv_def)
    ultimately show ?thesis by (simp add: stage FoSpeechEnded)
  next
    case FoSpeechStarted
    with assms phase have "ph \<noteq> PhInside" by (auto simp: pl2 pl_inv_def)
    with FoSpeechStarted assms phase show ?thesis
      by (cases ph) (auto simp: stage pl_speech_started_def Let_def pl_step_ok_def pl_inv_def pl2
          pl3_def out_def ub_speech_started_def)
  qed (use assms phase in \<open>auto simp: stage pl_step_ok_def pl_inv_def pl2 pl3_def out_def\<close>)
qed

lemma bind_outcome_Undefined:
  "bind_outcome m f = Undefined \<longleftrightarrow> m = Undefined \<or> (\<exists>x. m = Ok x \<and> f x = Undefined)"
  by (cases m) auto

lemma resampler_defined: "resampler_process eng xs r \<noteq> Undefined"
  by (auto simp: resampler_process_def split: option.splits)

lemma apm_process_defined: "apm_process eng lb mic t a \<noteq> Undefined"
  by (auto simp: apm_process_def Let_def bind_outcome_Undefined resampler_defined split: prod.splits)

lemma apm_blocks_defined: "apm_blocks eng lb t n carry a \<noteq> Undefined"
proof (induction eng lb t n carry a rule: apm_blocks.induct)
  case (1 eng lb t n carry a)
  show ?case
    by (subst apm_blocks.simps)
      (auto simp: bind_outcome_Undefined apm_process_defined 1)
qed

lemma pl_aec_stage_defined: "pl_aec_stage eng lb t xs pl \<noteq> Undefined"
  by (auto simp: pl_aec_stage_def bind_outcome_Undefined apm_blocks_defined split: option.splits)

lemma process_frame_ok:
  assumes "pl_inv pl" and "pl_in_speech pl \<longleftrightarrow> ph = PhInside"
  shows "pl_step_ok ph (process_frame eng lb expired frame pl)"
proof -
  have idle: "pl_step_ok ph (Ok (\<lparr>po_events = [], po_live = []\<rparr>, q))"
    if "pl_in_speech q = pl_in_speech pl" "pl_ub q = pl_ub pl" "pl_ep q = pl_ep pl" for q :: "('a, 'b, 'c) pipeline"
    using that assms by (auto simp: pl_step_ok_def pl_inv_def)
  have stage: "pl_step_ok ph (pl_endpoint_stage eng expired t xs q)"
    if "pl_in_speech q = pl_in_speech pl" "pl_ub q = pl_ub pl" "pl_ep q = pl_ep pl"
    for t xs and q :: "('a, 'b, 'c) pipeline"
    using that assms by (intro pl_endpoint_stage_ok) (auto simp: pl_inv_def)
  define pl1 where "pl1 = pl\<lparr>pl_frames_processed := pl_frames_processed pl + 1\<rparr>"
  show ?thesis
  proof (cases "resampler_process eng (af_samples frame) (pl_resampler pl)")
    case (Ok x)
    obtain xs rs where x: "x = (xs, rs)" by (meson surj_pair)
    define pl2 where "pl2 = pl1\<lparr>pl_resampler := rs\<rparr>"
    have pl2: "pl_in_speech pl2 = pl_in_speech pl" "pl_ub pl2 = pl_ub pl" "pl_ep pl2 = pl_ep pl"
      by (simp_all add: pl2_def pl1_def)
    have eq: "process_frame eng lb expired frame pl =
        (if xs = [] then Ok (\<lparr>po_events = [], po_live = []\<rparr>, pl2)
         else bind_outcome (pl_aec_stage eng lb (af_captured_at frame) xs pl2) (\<lambda>(chunk, pl3).
                case chunk of None \<Rightarrow> Ok (\<lparr>po_events = [], po_live = []\<rparr>, pl3)
                | Some ys \<Rightarrow> pl_endpoint_stage eng expired (af_captured_at frame) ys pl3))"
      by (simp add: process_frame_def Let_def Ok x pl2_def pl1_def)
    show ?thesis
    proof (cases "pl_aec_stage eng lb (af_captured_at frame) xs pl2")
      case aec: (Ok y)
      obtain chunk pl3 where y: "y = (chunk, pl3)" by (meson surj_pair)
      from pl_aec_stage_keeps [OF aec [unfolded y]] pl2 idle stage show ?thesis
        by (simp add: eq aec y split: option.split)
    qed (use eq idle [OF pl2] pl_aec_stage_defined [of eng lb "af_captured_at frame" xs pl2] in \<open>auto simp: pl_step_ok_def\<close>)
  qed (simp_all add: process_frame_def Let_def pl_step_ok_def resampler_defined)
qed

text \<open>A fresh pipeline, and a run over frames: the events of the whole run.\<close>

definition pl_new ::
  "pipeline_config \<Rightarrow> endpointer_config \<Rightarrow> millis \<Rightarrow> nat \<Rightarrow> millis \<Rightarrow> 's \<Rightarrow> 'v silero_vad option \<Rightarrow>
     ('s, 'w) apm option \<Rightarrow> bool \<Rightarrow> cfloat \<Rightarrow> ('s, 'w, 'v) pipeline" where
  "pl_new cfg ecfg post max_in_flight max_ms soxr vad apm live test_p =
     \<lparr>pl_cfg = cfg, pl_resampler = \<lparr>rs_soxr = soxr, rs_in = 0, rs_out = 0\<rparr>, pl_vad = vad, pl_apm = apm,
      pl_ep = ep_new ecfg,
      pl_ub = ub_new (pc_output_rate cfg) (pc_pre_padding cfg) post max_in_flight max_ms,
      pl_frames_processed = 0, pl_utterances = 0, pl_false_starts = 0, pl_low_rms_drops = 0,
      pl_last_p = Fin 0, pl_apm_carry = [], pl_test_p = test_p, pl_live_sink = live,
      pl_in_speech = False\<rparr>"

fun pl_run ::
  "('s, 'w, 'v) engines \<Rightarrow> (loopback option \<times> (nat \<Rightarrow> bool) \<times> audio_frame) list \<Rightarrow>
     ('s, 'w, 'v) pipeline \<Rightarrow> (pl_output \<times> ('s, 'w, 'v) pipeline) outcome" where
  "pl_run eng [] pl = Ok (\<lparr>po_events = [], po_live = []\<rparr>, pl)"
| "pl_run eng ((lb, expired, frame) # fs) pl =
     bind_outcome (process_frame eng lb expired frame pl) (\<lambda>(out, pl1).
       bind_outcome (pl_run eng fs pl1) (\<lambda>(outs, pl2).
         Ok (\<lparr>po_events = po_events out @ po_events outs, po_live = po_live out @ po_live outs\<rparr>, pl2)))"

lemma pl_run_ok:
  "pl_inv pl \<Longrightarrow> (pl_in_speech pl \<longleftrightarrow> ph = PhInside) \<Longrightarrow> pl_step_ok ph (pl_run eng fs pl)"
proof (induction fs arbitrary: pl ph)
  case Nil
  then show ?case by (simp add: pl_step_ok_def)
next
  case (Cons f fs)
  obtain lb expired frame where f: "f = (lb, expired, frame)" by (metis prod_cases3)
  note ok = process_frame_ok [OF Cons.prems, of eng lb expired frame]
  show ?case
  proof (cases "process_frame eng lb expired frame pl")
    case (Ok x)
    then obtain out pl1 ph1 where x: "x = (out, pl1)" "pl_inv pl1"
        "phase_run ph (po_events out) = Some ph1" "pl_in_speech pl1 \<longleftrightarrow> ph1 = PhInside"
      using ok by (cases x) (auto simp: pl_step_ok_def)
    from Cons.IH [OF x(2,4)] show ?thesis
      by (cases "pl_run eng fs pl1") (auto simp: f Ok x pl_step_ok_def phase_run_append)
  qed (use ok in \<open>auto simp: f pl_step_ok_def\<close>)
qed

section \<open>Properties\<close>

text \<open>
  The worker publishes well-bracketed speech. Over any frames, any engines and any echo
  reference, a pipeline that may have at least one slice in flight never reaches undefined
  behaviour, and its events are a sequence of speech-started, speech-ended pairs in which an
  utterance is published only directly after its speech-ended event; the recording flag, the
  endpointer and the utterance buffer agree at the end of the run.
\<close>

theorem pipeline_brackets:
  "case pl_run eng fs (pl_new cfg ecfg post (Suc k) max_ms soxr vad apm live test_p) of
     Ok (out, pl) \<Rightarrow>
       (\<exists>ph. phase_run PhOutside (po_events out) = Some ph \<and>
          (pl_in_speech pl \<longleftrightarrow> ph = PhInside) \<and>
          (ub_recording (pl_ub pl) \<longleftrightarrow> ph = PhInside) \<and> (ep_in_utterance (pl_ep pl) \<longleftrightarrow> ph = PhInside))
   | Undefined \<Rightarrow> False
   | _ \<Rightarrow> True"
proof -
  let ?pl = "pl_new cfg ecfg post (Suc k) max_ms soxr vad apm live test_p"
  have "pl_inv ?pl" "pl_in_speech ?pl \<longleftrightarrow> PhOutside = PhInside"
    by (simp_all add: pl_inv_def pl_new_def ub_new_def ep_new_def ep_in_utterance_def)
  from pl_run_ok [OF this, of eng fs] show ?thesis
    by (cases "pl_run eng fs ?pl") (auto simp: pl_step_ok_def pl_inv_def)
qed

text \<open>A 1 kHz pipeline with an echo canceller, for the witness: 12 samples make one block of 10.\<close>

definition demo_engines :: "(unit, unit, unit) engines" where
  "demo_engines = \<lparr>soxr_create = \<lambda>_ _. Some (), soxr_process = \<lambda>xs s. Some (length xs, xs, s),
     soxr_drain = \<lambda>s. Some ([], s), webrtc_stream = \<lambda>_ _ m w. (m, w),
     onnx_run = \<lambda>_ v. (Fin 0, v)\<rparr>"

definition demo_apm :: "(unit, unit) apm" where
  "demo_apm = \<lparr>apm_aec_enabled = True, apm_active = True, apm_near_rate = 1000, apm_reverse_rate = 1000,
     apm_delay = 50, apm_webrtc = (), apm_ref = \<lparr>rs_soxr = (), rs_in = 0, rs_out = 0\<rparr>, apm_frames = 0\<rparr>"

definition demo_pipeline :: "(unit, unit, unit) pipeline" where
  "demo_pipeline = pl_new \<lparr>pc_output_rate = 1000, pc_pre_padding = 300, pc_min_rms = 0\<rparr>
     \<lparr>ec_onset = Fin (1/2), ec_offset = Fin (1/4), ec_min_speech = 40, ec_hangover = 600\<rparr>
     100 3 60000 () None (Some demo_apm) False (Fin 1)"

theorem aec_stage_conserves_witness:
  "\<exists>chunk pl'. pl_aec_stage demo_engines None 0 [1,2,3,4,5,6,7,8,9,10,11,12] demo_pipeline = Ok (chunk, pl') \<and>
     length (pl_apm_carry pl') < 10 \<and> (case chunk of Some ys \<Rightarrow> length ys | None \<Rightarrow> 0) + length (pl_apm_carry pl') = 12"
proof -
  let ?xs = "[1,2,3,4,5,6,7,8,9,10,11,12 :: sample]"
  have "webrtc_keeps_length demo_engines"
    by (simp add: webrtc_keeps_length_def demo_engines_def)
  moreover have "pl_apm demo_pipeline = Some demo_apm" "aec_active demo_apm"
      "100 \<le> pc_output_rate (pl_cfg demo_pipeline)" "pl_apm_carry demo_pipeline = []"
      "pc_output_rate (pl_cfg demo_pipeline) = 1000"
    by (simp_all add: demo_pipeline_def pl_new_def demo_apm_def aec_active_def)
  moreover have "\<exists>chunk pl'. pl_aec_stage demo_engines None 0 ?xs demo_pipeline = Ok (chunk, pl')"
    by (simp add: pl_aec_stage_def demo_pipeline_def pl_new_def demo_apm_def aec_active_def
        apm_blocks.simps apm_process_def samples_per_chunk_def demo_engines_def resampler_process_def)
  ultimately show ?thesis
    using aec_stage_conserves [of demo_engines demo_pipeline demo_apm None 0 ?xs]
    by (fastforce simp: Let_def)
qed

text \<open>
  The chunk on which speech starts reaches the streaming sink twice: \<open>process_frame\<close> appends it to
  the pre-buffer before it takes the snapshot that is replayed, and then sends it again. Here
  two 20 ms chunks at 1 kHz start an utterance; the recording holds the second chunk once.
\<close>

theorem live_sink_repeats_first_chunk:
  fixes soxr :: 's
  defines "eng \<equiv> \<lparr>soxr_create = \<lambda>_ _. Some soxr, soxr_process = \<lambda>xs (s :: 's). Some (length xs, xs, s),
    soxr_drain = \<lambda>s. Some ([], s), webrtc_stream = \<lambda>_ _ m (w :: unit). (m, w),
    onnx_run = \<lambda>_ (v :: unit). (Fin 0, v)\<rparr>"
  defines "a \<equiv> replicate 20 7" and "b \<equiv> replicate 20 9"
  defines "ecfg \<equiv> \<lparr>ec_onset = Fin (1/2), ec_offset = Fin (1/4), ec_min_speech = 40, ec_hangover = 600\<rparr>"
  defines "cfg \<equiv> \<lparr>pc_output_rate = 1000, pc_pre_padding = 300, pc_min_rms = 0\<rparr>"
  shows "\<exists>out pl. pl_run eng
      [(None, \<lambda>_. False, \<lparr>af_index = 0, af_captured_at = 20000000, af_samples = a\<rparr>),
       (None, \<lambda>_. False, \<lparr>af_index = 20, af_captured_at = 40000000, af_samples = b\<rparr>)]
      (pl_new cfg ecfg 100 3 60000 soxr None None True (Fin 1)) = Ok (out, pl) \<and>
    concat (po_live out) = a @ b @ b \<and> ub_active (pl_ub pl) = a @ b"
  by (simp add: assms process_frame_def pl_aec_stage_def pl_endpoint_stage_def pl_probability_def
      pl_speech_started_def resampler_process_def pl_new_def ub_new_def ub_append_def ub_trim_pre_def
      ub_speech_started_def ep_new_def ep_on_frame_def samples_for_def trunc_div_def Let_def)

end
