(* ===== verification/Wav.thy ===== *)
theory Wav
  imports Prelude
begin

unbundle bit_operations_syntax

text \<open>
  The WAV writer and reader of \<open>src/audio/wav.cpp\<close>, on byte lists (the file's contents; \<open>None\<close>
  for a file that cannot be opened). The machine is little-endian, as the raw copies between
  samples and bytes require. The reader's chunk walk is a partial function: not returning is
  \<open>None\<close>. Its 32-bit arithmetic wraps as in the source.
\<close>

type_synonym byte = "8 word"

definition u32le :: "32 word \<Rightarrow> byte list" where
  "u32le v = map (\<lambda>i. ucast (drop_bit (i * 8) v AND 0xFF)) [0, 1, 2, 3]"

definition u16le :: "16 word \<Rightarrow> byte list" where
  "u16le v = [ucast (v AND 0xFF), ucast (drop_bit 8 v AND 0xFF)]"

definition read_u32le :: "byte list \<Rightarrow> nat \<Rightarrow> 32 word" where
  "read_u32le p i = ucast (p ! i) OR push_bit 8 (ucast (p ! (i + 1)))
     OR push_bit 16 (ucast (p ! (i + 2))) OR push_bit 24 (ucast (p ! (i + 3)))"

definition read_u16le :: "byte list \<Rightarrow> nat \<Rightarrow> 16 word" where
  "read_u16le p i = ucast (p ! i) OR push_bit 8 (ucast (p ! (i + 1)))"

definition tag_bytes :: "string \<Rightarrow> byte list" where
  "tag_bytes s = map of_char s"

definition make_wav :: "sample list \<Rightarrow> 32 word \<Rightarrow> byte list" where
  "make_wav samples sample_rate_hz =
     (let kBytesPerSample = (2 :: 32 word); kChannels = (1 :: 32 word);
          data_bytes = word_of_nat (length samples) * kBytesPerSample;
          fmt_chunk = 16;
          riff_payload = 4 + 8 + fmt_chunk + 8 + data_bytes
      in tag_bytes ''RIFF'' @ u32le riff_payload @ tag_bytes ''WAVE'' @
         tag_bytes ''fmt '' @ u32le fmt_chunk @ u16le 1 @ u16le (ucast kChannels) @
         u32le sample_rate_hz @ u32le (sample_rate_hz * kChannels * kBytesPerSample) @
         u16le (ucast (kChannels * kBytesPerSample)) @ u16le (ucast (kBytesPerSample * 8)) @
         tag_bytes ''data'' @ u32le data_bytes @
         take (unat data_bytes) (concat (map u16le samples)))"

record wav_hdr =
  wh_channels :: "16 word"
  wh_bits :: "16 word"
  wh_rate :: "32 word"
  wh_data_off :: nat
  wh_data_bytes :: nat

definition tag_at :: "byte list \<Rightarrow> nat \<Rightarrow> string \<Rightarrow> bool" where
  "tag_at buf pos tag \<longleftrightarrow> take (length tag) (drop pos buf) = tag_bytes tag"

text \<open>The increment of the walk is computed in \<open>uint32_t\<close>.\<close>

definition chunk_step :: "32 word \<Rightarrow> 32 word" where
  "chunk_step sz = 8 + sz + (sz AND 1)"

text \<open>
  The chunk walk: \<open>None\<close> when it never ends, \<open>Some None\<close> when it leaves with an empty result,
  \<open>Some (Some h)\<close> when it falls out of the loop with header \<open>h\<close>.
\<close>

partial_function (option) wav_walk ::
  "byte list \<Rightarrow> nat \<Rightarrow> wav_hdr \<Rightarrow> wav_hdr option option" where
  "wav_walk buf pos h =
     (if pos + 8 \<le> length buf
      then let sz = read_u32le buf (pos + 4); next = pos + unat (chunk_step sz)
           in if tag_at buf pos ''fmt ''
              then if length buf < pos + 8 + 16 then Some None
                   else if read_u16le buf (pos + 8) \<noteq> 1 then Some None
                   else wav_walk buf next
                          (h\<lparr>wh_channels := read_u16le buf (pos + 10),
                             wh_rate := read_u32le buf (pos + 12),
                             wh_bits := read_u16le buf (pos + 22)\<rparr>)
              else if tag_at buf pos ''data''
              then Some (Some (h\<lparr>wh_data_off := pos + 8, wh_data_bytes := unat sz\<rparr>))
              else wav_walk buf next h
      else Some (Some h))"

fun bytes_samples :: "byte list \<Rightarrow> sample list" where
  "bytes_samples (a # b # bs) = read_u16le [a, b] 0 # bytes_samples bs"
| "bytes_samples _ = []"

text \<open>
  \<open>read_wav_file\<close>: the outer option is non-termination, an empty result is \<open>Done None\<close>, and the
  final \<open>memcpy\<close> of \<open>data_bytes\<close> bytes into a vector of \<open>data_bytes / 2\<close> samples is undefined
  when it is longer than that vector.
\<close>

definition read_wav_file :: "byte list option \<Rightarrow> (sample list \<times> 32 word) option exec option" where
  "read_wav_file file =
     (case file of
        None \<Rightarrow> Some (Done None)
      | Some buf \<Rightarrow>
          (if length buf < 44 then Some (Done None)
           else if \<not> tag_at buf 0 ''RIFF'' then Some (Done None)
           else if \<not> tag_at buf 8 ''WAVE'' then Some (Done None)
           else case wav_walk buf 12 \<lparr>wh_channels = 0, wh_bits = 0, wh_rate = 0, wh_data_off = 0,
                                      wh_data_bytes = 0\<rparr> of
               None \<Rightarrow> None
             | Some None \<Rightarrow> Some (Done None)
             | Some (Some h) \<Rightarrow>
                 (if wh_channels h \<noteq> 1 \<or> wh_bits h \<noteq> 16 \<or> wh_rate h = 0 \<or> wh_data_off h = 0
                     \<or> length buf < wh_data_off h + wh_data_bytes h
                  then Some (Done None)
                  else if 2 * (wh_data_bytes h div 2) < wh_data_bytes h then Some UB
                  else Some (Done (Some
                    (bytes_samples (take (wh_data_bytes h) (drop (wh_data_off h) buf)),
                     wh_rate h))))))"

section \<open>Bytes\<close>

lemma ucast_low_byte [simp]: "(ucast (v AND 0xFF) :: byte) = ucast v" for v :: "'a::len word"
proof -
  have "(0xFF :: 'a word) = mask 8" by (simp add: mask_eq_exp_minus_1)
  then have "bit (0xFF :: 'a word) n \<longleftrightarrow> n < min 8 LENGTH('a)" for n
    by (simp only: bit_mask_iff) auto
  then show ?thesis
    by (intro bit_word_eqI) (simp only: bit_unsigned_iff bit_and_iff, auto dest: bit_imp_le_length)
qed

lemma read_u16le_u16le:
  "read_u16le (u16le v) 0 = v"
  by (rule bit_word_eqI) (auto simp: read_u16le_def u16le_def bit_simps)

lemma read_u32le_u32le:
  "read_u32le (u32le v) 0 = v"
proof (rule bit_word_eqI)
  fix n assume "n < LENGTH(32)"
  then consider "n < 8" | "8 \<le> n" "n < 16" | "16 \<le> n" "n < 24" | "24 \<le> n" "n < 32" by force
  then show "bit (read_u32le (u32le v) 0) n = bit v n"
    by cases (auto simp: read_u32le_def u32le_def bit_simps)
qed

lemma length_le [simp]: "length (u32le v) = 4" "length (u16le w) = 2" "length (tag_bytes t) = length t"
  by (simp_all add: u32le_def u16le_def tag_bytes_def)

lemma nth_window: "take n (drop i xs) = ys \<Longrightarrow> length ys = n \<Longrightarrow> k < n \<Longrightarrow> xs ! (i + k) = ys ! k"
  by auto

lemma read_u32le_window:
  assumes "take 4 (drop i p) = u32le v"
  shows "read_u32le p i = v"
proof -
  note nth = nth_window [OF assms length_le(1)]
  have "read_u32le p i = read_u32le (u32le v) 0"
    using nth [of 0] nth [of 1] nth [of 2] nth [of 3] by (simp add: read_u32le_def numeral_2_eq_2)
  then show ?thesis by (simp only: read_u32le_u32le)
qed

lemma read_u16le_window:
  assumes "take 2 (drop i p) = u16le v"
  shows "read_u16le p i = v"
proof -
  note nth = nth_window [OF assms length_le(2)]
  have "read_u16le p i = read_u16le (u16le v) 0"
    using nth [of 0] nth [of 1] by (simp add: read_u16le_def)
  then show ?thesis by (simp only: read_u16le_u16le)
qed

lemma bytes_samples_concat [simp]: "bytes_samples (concat (map u16le xs)) = xs"
proof (induction xs)
  case (Cons x xs)
  with read_u16le_u16le [of x] show ?case by (simp add: u16le_def)
qed simp

lemma length_concat_u16le [simp]: "length (concat (map u16le xs)) = 2 * length xs"
  by (induction xs) auto

section \<open>The chunk walk\<close>

text \<open>A chunk that is neither format nor data and whose step wraps to zero is never left.\<close>

definition wav_stuck :: "byte list \<Rightarrow> nat \<Rightarrow> bool" where
  "wav_stuck buf pos \<longleftrightarrow>
     pos + 8 \<le> length buf \<and> \<not> tag_at buf pos ''fmt '' \<and> \<not> tag_at buf pos ''data'' \<and>
     chunk_step (read_u32le buf (pos + 4)) = 0"

lemma wav_walk_stuck:
  assumes "wav_stuck buf pos"
  shows "wav_walk buf pos h = None"
proof (rule ccontr)
  assume "wav_walk buf pos h \<noteq> None"
  then obtain r where r: "wav_walk buf pos h = Some r" by auto
  have "\<not> wav_stuck buf pos"
    by (rule wav_walk.raw_induct [OF _ r, of "\<lambda>buf pos h r. \<not> wav_stuck buf pos"])
      (fastforce simp: wav_stuck_def Let_def split: if_splits)
  with assms show False by blast
qed

lemma wav_walk_returns:
  assumes "\<And>p. p + 8 \<le> length buf \<Longrightarrow> chunk_step (read_u32le buf (p + 4)) \<noteq> 0"
  shows "\<exists>r. wav_walk buf pos h = Some r"
proof (induction "length buf - pos" arbitrary: pos h rule: less_induct)
  case less
  show ?case
  proof (cases "pos + 8 \<le> length buf")
    case True
    define nxt where "nxt = pos + unat (chunk_step (read_u32le buf (pos + 4)))"
    have "length buf - nxt < length buf - pos"
      using assms [OF True] True by (simp add: nxt_def unat_gt_0 diff_less_mono2)
    from less [OF this] show ?thesis
      by (subst wav_walk.simps) (simp add: Let_def nxt_def)
  qed (subst wav_walk.simps, simp)
qed

text \<open>Where the walk goes on to from a chunk; \<open>None\<close> when it leaves the loop there.\<close>

definition wav_hop :: "byte list \<Rightarrow> nat \<Rightarrow> nat option" where
  "wav_hop buf pos =
     (if pos + 8 \<le> length buf \<and>
         (if tag_at buf pos ''fmt '' then pos + 8 + 16 \<le> length buf \<and> read_u16le buf (pos + 8) = 1
          else \<not> tag_at buf pos ''data'')
      then Some (pos + unat (chunk_step (read_u32le buf (pos + 4)))) else None)"

inductive wav_visits :: "byte list \<Rightarrow> nat \<Rightarrow> nat \<Rightarrow> bool" for buf where
  here: "wav_visits buf pos pos"
| hop: "wav_hop buf pos = Some p \<Longrightarrow> wav_visits buf p q \<Longrightarrow> wav_visits buf pos q"

lemma wav_walk_hop:
  "wav_hop buf pos = None \<Longrightarrow> \<exists>r. wav_walk buf pos h = Some r"
  "wav_hop buf pos = Some p \<Longrightarrow> \<exists>h'. wav_walk buf pos h = wav_walk buf p h'"
  by (subst wav_walk.simps; auto simp: wav_hop_def Let_def split: if_splits)+

lemma wav_walk_fixpoint:
  assumes "wav_hop buf pos = Some pos"
  shows "wav_walk buf pos h = None"
proof (rule ccontr)
  assume "wav_walk buf pos h \<noteq> None"
  then obtain r where r: "wav_walk buf pos h = Some r" by auto
  have "wav_hop buf pos \<noteq> Some pos"
    by (rule wav_walk.raw_induct [OF _ r, of "\<lambda>buf pos h r. wav_hop buf pos \<noteq> Some pos"])
      (fastforce simp: wav_hop_def Let_def split: if_splits)
  with assms show False by blast
qed

lemma wav_visit_hangs: "wav_visits buf pos q \<Longrightarrow> wav_hop buf q = Some q \<Longrightarrow> wav_walk buf pos h = None"
  by (induction arbitrary: h rule: wav_visits.induct) (metis wav_walk_fixpoint wav_walk_hop(2))+

lemma wav_no_visit_returns:
  "(\<And>q. wav_visits buf pos q \<Longrightarrow> wav_hop buf q \<noteq> Some q) \<Longrightarrow> wav_walk buf pos h \<noteq> None"
proof (induction "length buf - pos" arbitrary: pos h rule: less_induct)
  case less
  show ?case
  proof (cases "wav_hop buf pos")
    case None
    then show ?thesis using wav_walk_hop(1) by fastforce
  next
    case (Some p)
    moreover have "p \<noteq> pos" using less.prems[OF wav_visits.here] Some by auto
    ultimately have "pos < p" "pos < length buf" by (auto simp: wav_hop_def split: if_splits)
    then have "wav_walk buf p h' \<noteq> None" for h'
      using less.prems Some by (intro less.hyps) (auto intro: wav_visits.hop)
    then show ?thesis using wav_walk_hop(2)[OF Some] by metis
  qed
qed

section \<open>Properties\<close>

text \<open>The fields of a written file, at the offsets the reader uses.\<close>

lemma make_wav_fields:
  defines "buf \<equiv> \<lambda>xs rate. make_wav xs rate"
  assumes n: "2 * length xs < 2 ^ 32"
  shows "tag_at (buf xs rate) 0 ''RIFF''" "tag_at (buf xs rate) 8 ''WAVE''"
    "tag_at (buf xs rate) 12 ''fmt ''" "\<not> tag_at (buf xs rate) 36 ''fmt ''"
    "tag_at (buf xs rate) 36 ''data''"
    "read_u32le (buf xs rate) 16 = 16" "read_u16le (buf xs rate) 20 = 1"
    "read_u16le (buf xs rate) 22 = 1" "read_u32le (buf xs rate) 24 = rate"
    "read_u16le (buf xs rate) 34 = 16"
    "unat (read_u32le (buf xs rate) 40) = 2 * length xs"
    "length (buf xs rate) = 44 + 2 * length xs"
    "drop 44 (buf xs rate) = concat (map u16le xs)"
proof -
  have u: "unat (word_of_nat (length xs) * 2 :: 32 word) = 2 * length xs"
    using n by (simp add: unat_word_ariths unat_of_nat)
  note defs = buf_def make_wav_def Let_def tag_at_def u
  show "tag_at (buf xs rate) 0 ''RIFF''" "tag_at (buf xs rate) 8 ''WAVE''"
    "tag_at (buf xs rate) 12 ''fmt ''" "tag_at (buf xs rate) 36 ''data''"
    "length (buf xs rate) = 44 + 2 * length xs"
    "drop 44 (buf xs rate) = concat (map u16le xs)"
    by (simp_all add: defs)
  show "\<not> tag_at (buf xs rate) 36 ''fmt ''"
    by (simp add: defs) (simp add: tag_bytes_def)
  show "read_u32le (buf xs rate) 16 = 16" "read_u16le (buf xs rate) 20 = 1"
    "read_u16le (buf xs rate) 22 = 1" "read_u32le (buf xs rate) 24 = rate"
    "read_u16le (buf xs rate) 34 = 16"
    by (rule read_u32le_window read_u16le_window; simp add: defs)+
  have "read_u32le (buf xs rate) 40 = word_of_nat (length xs) * 2"
    by (rule read_u32le_window) (simp add: defs)
  then show "unat (read_u32le (buf xs rate) 40) = 2 * length xs"
    by (simp add: u)
qed

text \<open>
  Reading back what was written. For every mono buffer whose byte size fits the format's
  32-bit size field and every non-zero rate, the reader returns (it terminates and performs no
  out-of-bounds copy) exactly the samples and the rate that \<open>make_wav\<close> was given.
\<close>

theorem wav_roundtrip:
  assumes "2 * length xs < 2 ^ 32" and "rate \<noteq> 0"
  shows "read_wav_file (Some (make_wav xs rate)) = Some (Done (Some (xs, rate)))"
proof -
  define buf where "buf = make_wav xs rate"
  note f = make_wav_fields [OF assms(1), of rate, folded buf_def]
  have "unat (chunk_step 16) = 24" by (simp add: chunk_step_def)
  then have "wav_walk buf 12 h =
      Some (Some (h\<lparr>wh_channels := 1, wh_rate := rate, wh_bits := 16, wh_data_off := 44,
                    wh_data_bytes := 2 * length xs\<rparr>))" for h
    by (subst wav_walk.simps, simp add: f Let_def, subst wav_walk.simps, simp add: f Let_def)
  then show ?thesis
    using assms(2) f by (simp add: read_wav_file_def buf_def [symmetric])
qed

theorem wav_roundtrip_witness:
  "read_wav_file (Some (make_wav [1, -1, 0x1234] 16000)) = Some (Done (Some ([1, -1, 0x1234], 16000)))"
  by (rule wav_roundtrip) simp_all


text \<open>
  The reader can hang. The walk adds \<open>8 + sz + (sz & 1)\<close> in 32 bits, so a chunk that is
  neither format nor data and whose size field is \<open>0xFFFFFFF8\<close> is stepped over by zero bytes: on
  this well-formed-looking 44-byte file \<open>read_wav_file\<close> never returns.
\<close>

theorem wav_reader_hangs:
  "read_wav_file (Some (tag_bytes ''RIFF'' @ u32le 36 @ tag_bytes ''WAVE'' @ tag_bytes ''JUNK'' @
     u32le 0xFFFFFFF8 @ replicate 24 0)) = None"
proof -
  define buf where "buf = tag_bytes ''RIFF'' @ u32le 36 @ tag_bytes ''WAVE'' @ tag_bytes ''JUNK'' @
     u32le 0xFFFFFFF8 @ replicate 24 0"
  have "read_u32le buf 16 = 0xFFFFFFF8"
    by (rule read_u32le_window) (simp add: buf_def)
  moreover have "tag_at buf 0 ''RIFF''" "tag_at buf 8 ''WAVE''" "length buf = 44"
    by (simp_all add: tag_at_def buf_def)
  moreover have "\<not> tag_at buf 12 ''fmt ''" "\<not> tag_at buf 12 ''data''"
    by (simp add: tag_at_def buf_def, simp add: tag_bytes_def)+
  moreover have "chunk_step 0xFFFFFFF8 = 0" by (simp add: chunk_step_def)
  ultimately have "wav_stuck buf 12" by (simp add: wav_stuck_def)
  note stuck = wav_walk_stuck [OF this]
  show ?thesis
    unfolding buf_def [symmetric] using \<open>tag_at buf 0 _\<close> \<open>tag_at buf 8 _\<close> \<open>length buf = 44\<close>
    by (simp add: read_wav_file_def stuck)
qed

text \<open>
  The reader can write past its buffer. A mono 16-bit file whose data chunk has an odd size
  passes every check, and the final copy then writes one byte beyond the sample vector.
\<close>

theorem wav_reader_odd_overflow:
  "read_wav_file (Some (tag_bytes ''RIFF'' @ u32le 37 @ tag_bytes ''WAVE'' @ tag_bytes ''fmt '' @
     u32le 16 @ u16le 1 @ u16le 1 @ u32le 16000 @ u32le 32000 @ u16le 2 @ u16le 16 @
     tag_bytes ''data'' @ u32le 1 @ [0])) = Some UB"
proof -
  define buf where "buf = tag_bytes ''RIFF'' @ u32le 37 @ tag_bytes ''WAVE'' @ tag_bytes ''fmt '' @
     u32le 16 @ u16le 1 @ u16le 1 @ u32le 16000 @ u32le 32000 @ u16le 2 @ u16le 16 @
     tag_bytes ''data'' @ u32le 1 @ [0]"
  have tags: "tag_at buf 0 ''RIFF''" "tag_at buf 8 ''WAVE''" "tag_at buf 12 ''fmt ''"
      "tag_at buf 36 ''data''" "length buf = 45"
    by (simp_all add: tag_at_def buf_def)
  have "\<not> tag_at buf 36 ''fmt ''"
    by (simp add: tag_at_def buf_def, simp add: tag_bytes_def)
  moreover have "read_u32le buf 16 = 16" "read_u16le buf 20 = 1" "read_u16le buf 22 = 1"
    "read_u32le buf 24 = 16000" "read_u16le buf 34 = 16" "read_u32le buf 40 = 1"
    by (rule read_u32le_window read_u16le_window; simp add: buf_def)+
  moreover have "unat (chunk_step 16) = 24" by (simp add: chunk_step_def)
  ultimately have "wav_walk buf 12 h =
      Some (Some (h\<lparr>wh_channels := 1, wh_rate := 16000, wh_bits := 16, wh_data_off := 44,
                    wh_data_bytes := 1\<rparr>))" for h
    by (subst wav_walk.simps, simp add: tags Let_def, subst wav_walk.simps, simp add: tags Let_def)
  then show ?thesis
    unfolding buf_def [symmetric] by (simp add: read_wav_file_def tags)
qed

end
