(* ===== verification/Sentence_Splitter.thy ===== *)
theory Sentence_Splitter
  imports Prelude
begin

text \<open>
  The streaming sentence splitter of \<open>src/dialogue/sentence_splitter.hpp\<close> and
  \<open>src/dialogue/sentence_splitter.cpp\<close>, character by character. Characters are bytes. The caller's
  output vector is a field of the state, appended to as in the source. The lemmas show that no
  character is lost or invented, that sentences are never empty and never start with white space,
  that the result does not depend on how the text is cut into pushes, and that nothing is split
  inside a code fence.
\<close>

record splitter_config =
  sc_max_chars :: nat       \<comment> \<open>\<open>max_sentence_chars\<close>\<close>
  sc_fences :: bool         \<comment> \<open>\<open>detect_code_fences\<close>\<close>

datatype splitter_mode = SpNormal | SpInCodeFence

record splitter =
  sp_cfg :: splitter_config
  sp_buf :: string
  sp_mode :: splitter_mode
  sp_chars :: nat           \<comment> \<open>\<open>chars_since_terminator_\<close>\<close>
  sp_pending :: "nat option" \<comment> \<open>\<open>pending_term_pos_\<close>, \<open>npos\<close> is \<open>None\<close>\<close>
  sp_dots :: nat            \<comment> \<open>\<open>pending_dot_run_\<close>\<close>
  sp_out :: "string list"

definition sp_new :: "splitter_config \<Rightarrow> splitter" where
  "sp_new cfg = \<lparr>sp_cfg = cfg, sp_buf = [], sp_mode = SpNormal, sp_chars = 0, sp_pending = None,
     sp_dots = 0, sp_out = []\<rparr>"

definition sp_reset :: "splitter \<Rightarrow> splitter" where
  "sp_reset s = s\<lparr>sp_buf := [], sp_mode := SpNormal, sp_chars := 0, sp_pending := None, sp_dots := 0\<rparr>"

definition kAbbreviations :: "string list" where
  "kAbbreviations =
     [''dr'', ''mr'', ''mrs'', ''ms'', ''prof'', ''sr'', ''jr'',
      ''e.g'', ''i.e'', ''etc'', ''vs'', ''vol'', ''no'', ''fig'', ''approx'',
      ''st'', ''ave'', ''blvd'', ''rd'', ''u.s'', ''u.k'', ''u.s.a'', ''a.m'', ''p.m'']"

definition kFenceOpen :: string where
  "kFenceOpen = [CHR 0x60, CHR 0x60, CHR 0x60]"

definition is_lower :: "char \<Rightarrow> bool" where
  "is_lower c \<longleftrightarrow> 97 \<le> (of_char c :: nat) \<and> (of_char c :: nat) \<le> 122"
definition is_upper :: "char \<Rightarrow> bool" where
  "is_upper c \<longleftrightarrow> 65 \<le> (of_char c :: nat) \<and> (of_char c :: nat) \<le> 90"
definition is_digit :: "char \<Rightarrow> bool" where
  "is_digit c \<longleftrightarrow> 48 \<le> (of_char c :: nat) \<and> (of_char c :: nat) \<le> 57"
definition is_terminator :: "char \<Rightarrow> bool" where
  "is_terminator c \<longleftrightarrow> c = CHR ''.'' \<or> c = CHR ''!'' \<or> c = CHR ''?''"
definition is_whitespace :: "char \<Rightarrow> bool" where
  "is_whitespace c \<longleftrightarrow> c = CHR '' '' \<or> c = CHR 0x09 \<or> c = CHR 0x0A \<or> c = CHR 0x0D"
definition to_lower :: "char \<Rightarrow> char" where
  "to_lower c = (if is_upper c then char_of (of_char c + 32 :: nat) else c)"

definition trim_leading :: "string \<Rightarrow> string" where
  "trim_leading = dropWhile is_whitespace"

definition starts_with_at :: "string \<Rightarrow> nat \<Rightarrow> string \<Rightarrow> bool" where
  "starts_with_at s pos needle \<longleftrightarrow> pos + length needle \<le> length s \<and> take (length needle) (drop pos s) = needle"

text \<open>The scans back from the final dot: the run of word characters before it, and what precedes it.\<close>

definition trailing_run :: "(char \<Rightarrow> bool) \<Rightarrow> string \<Rightarrow> string" where
  "trailing_run p buf = rev (takeWhile p (rev (butlast buf)))"

definition before_run :: "(char \<Rightarrow> bool) \<Rightarrow> string \<Rightarrow> string" where
  "before_run p buf = rev (dropWhile p (rev (butlast buf)))"

definition last_word_is_abbreviation :: "string \<Rightarrow> bool" where
  "last_word_is_abbreviation buf \<longleftrightarrow>
     (if length buf < 2 \<or> last buf \<noteq> CHR ''.'' then False
      else let word = trailing_run (\<lambda>c. is_lower c \<or> is_upper c \<or> c = CHR ''.'' \<or> is_digit c) buf
           in word \<noteq> [] \<and> map to_lower word \<in> set kAbbreviations)"

definition ends_with_list_marker :: "string \<Rightarrow> bool" where
  "ends_with_list_marker buf \<longleftrightarrow>
     (if length buf < 2 \<or> last buf \<noteq> CHR ''.'' then False
      else let alnum = (\<lambda>c. is_digit c \<or> is_lower c \<or> is_upper c);
               word = trailing_run alnum buf; before = before_run alnum buf
           in word \<noteq> [] \<and> length word \<le> 3 \<and>
              (before = [] \<or> last before \<in> {CHR 0x0A, CHR '' '', CHR 0x09, CHR 0x0D}))"

definition ends_with_ellipsis :: "string \<Rightarrow> bool" where
  "ends_with_ellipsis buf \<longleftrightarrow>
     3 \<le> length buf \<and>
     (drop (length buf - 3) buf = ''...'' \<or> drop (length buf - 3) buf = [CHR 0xE2, CHR 0x80, CHR 0xA6])"

definition ends_with_decimal :: "string \<Rightarrow> bool" where
  "ends_with_decimal buf \<longleftrightarrow>
     2 \<le> length buf \<and> last buf = CHR ''.'' \<and> is_digit (buf ! (length buf - 2))"

text \<open>Appending a sentence to the output, unless only white space is left of it.\<close>

definition sp_emit :: "string \<Rightarrow> splitter \<Rightarrow> splitter" where
  "sp_emit raw s =
     (let sentence = trim_leading raw
      in if sentence = [] then s else s\<lparr>sp_out := sp_out s @ [sentence]\<rparr>)"

definition sp_flush_buffer :: "splitter \<Rightarrow> splitter" where
  "sp_flush_buffer s =
     sp_emit (sp_buf s) (s\<lparr>sp_buf := [], sp_chars := 0, sp_pending := None, sp_dots := 0\<rparr>)"

definition sp_resolve_pending :: "splitter \<Rightarrow> splitter" where
  "sp_resolve_pending s =
     (case sp_pending s of
        None \<Rightarrow> s
      | Some pos \<Rightarrow>
          (let tail = drop (Suc pos) (sp_buf s)
           in sp_emit (take (Suc pos) (sp_buf s))
                (s\<lparr>sp_pending := None, sp_buf := tail, sp_chars := length tail\<rparr>)))"

text \<open>The part of the loop body after pending terminators are settled.\<close>

definition sp_classify :: "char \<Rightarrow> splitter \<Rightarrow> splitter" where
  "sp_classify c s =
     (if is_terminator c
      then if last_word_is_abbreviation (sp_buf s) \<or> ends_with_list_marker (sp_buf s)
           then s\<lparr>sp_pending := None, sp_dots := 0\<rparr>
           else if ends_with_decimal (sp_buf s)
           then s\<lparr>sp_pending := Some (length (sp_buf s) - 1), sp_dots := 1\<rparr>
           else if ends_with_ellipsis (sp_buf s)
           then s\<lparr>sp_pending := None, sp_dots := 0\<rparr>
           else s\<lparr>sp_pending := Some (length (sp_buf s) - 1),
                  sp_dots := (if c = CHR ''.'' then 1 else 0)\<rparr>
      else let s1 = s\<lparr>sp_chars := Suc (sp_chars s)\<rparr>
           in if sc_max_chars (sp_cfg s1) \<le> sp_chars s1 \<and> (is_whitespace c \<or> c = CHR '','')
              then sp_flush_buffer s1 else s1)"

definition sp_char :: "splitter \<Rightarrow> char \<Rightarrow> splitter" where
  "sp_char s0 c =
     (let s1 = s0\<lparr>sp_buf := sp_buf s0 @ [c]\<rparr>;
          s = (if sc_fences (sp_cfg s1) \<and> length kFenceOpen \<le> length (sp_buf s1)
                  \<and> starts_with_at (sp_buf s1) (length (sp_buf s1) - length kFenceOpen) kFenceOpen
               then s1\<lparr>sp_mode := (if sp_mode s1 = SpNormal then SpInCodeFence else SpNormal)\<rparr>
               else s1)
      in if sp_mode s = SpInCodeFence then s\<lparr>sp_chars := Suc (sp_chars s)\<rparr>
         else case sp_pending s of
             None \<Rightarrow> sp_classify c s
           | Some pos \<Rightarrow>
               (if c = CHR ''.'' \<and> sp_buf s ! pos = CHR ''.''
                then s\<lparr>sp_dots := Suc (sp_dots s)\<rparr>
                else if is_digit c
                then s\<lparr>sp_pending := None, sp_dots := 0, sp_chars := Suc (sp_chars s)\<rparr>
                else if 2 \<le> sp_dots s
                then s\<lparr>sp_pending := None, sp_dots := 0, sp_chars := Suc (sp_chars s)\<rparr>
                else sp_classify c (sp_resolve_pending s)))"

definition sp_push :: "string \<Rightarrow> splitter \<Rightarrow> splitter" where
  "sp_push inp s = foldl sp_char s inp"

definition sp_flush :: "splitter \<Rightarrow> splitter" where
  "sp_flush s0 =
     (let s = s0\<lparr>sp_pending := None, sp_dots := 0\<rparr>;
          s1 = (if sp_buf s = [] then s else sp_flush_buffer s)
      in s1\<lparr>sp_chars := 0\<rparr>)"

section \<open>Content\<close>

text \<open>
  The invariant relative to the text received: it is cut into raw pieces and the buffer, and the
  output is the trimmed non-blank pieces; a deferred terminator lies inside the buffer.
\<close>

definition sp_repr :: "string \<Rightarrow> splitter \<Rightarrow> bool" where
  "sp_repr inp s \<longleftrightarrow>
     (\<exists>pieces. inp = concat pieces @ sp_buf s \<and>
        sp_out s = filter (\<lambda>x. x \<noteq> []) (map trim_leading pieces)) \<and>
     (\<forall>p. sp_pending s = Some p \<longrightarrow> p < length (sp_buf s))"

lemma sp_emit_fields [simp]:
  "sp_buf (sp_emit raw s) = sp_buf s" "sp_pending (sp_emit raw s) = sp_pending s"
  "sp_cfg (sp_emit raw s) = sp_cfg s" "sp_mode (sp_emit raw s) = sp_mode s"
  by (simp_all add: sp_emit_def Let_def)

lemma sp_emit_out: "sp_out (sp_emit raw s) = sp_out s @ filter (\<lambda>x. x \<noteq> []) (map trim_leading [raw])"
  by (simp add: sp_emit_def Let_def)

text \<open>Cutting a piece off the front of the buffer keeps the invariant.\<close>

lemma sp_repr_cut:
  assumes "sp_repr inp s" and "sp_buf s = raw @ rest" and "sp_out s' = sp_out s @ filter (\<lambda>x. x \<noteq> []) (map trim_leading [raw])"
    and "sp_buf s' = rest" and "sp_pending s' = None"
  shows "sp_repr inp s'"
proof -
  from assms(1) obtain pieces where "inp = concat pieces @ sp_buf s"
    "sp_out s = filter (\<lambda>x. x \<noteq> []) (map trim_leading pieces)" by (auto simp: sp_repr_def)
  then have "inp = concat (pieces @ [raw]) @ rest"
    "sp_out s' = filter (\<lambda>x. x \<noteq> []) (map trim_leading (pieces @ [raw]))"
    using assms(2,3) by simp_all
  then show ?thesis
    using assms(4,5) by (auto simp: sp_repr_def intro!: exI [of _ "pieces @ [raw]"])
qed

lemma sp_repr_flush_buffer: "sp_repr inp s \<Longrightarrow> sp_repr inp (sp_flush_buffer s)"
  by (rule sp_repr_cut [where raw = "sp_buf s" and rest = "[]"])
    (simp_all add: sp_flush_buffer_def sp_emit_out)

lemma sp_repr_resolve:
  assumes "sp_repr inp s"
  shows "sp_repr inp (sp_resolve_pending s) \<and> sp_pending (sp_resolve_pending s) = None"
proof (cases "sp_pending s")
  case (Some pos)
  have "sp_repr inp (sp_resolve_pending s)"
    by (rule sp_repr_cut [OF assms, where raw = "take (Suc pos) (sp_buf s)" and rest = "drop (Suc pos) (sp_buf s)"])
      (simp_all add: sp_resolve_pending_def Some sp_emit_out Let_def)
  then show ?thesis by (simp add: sp_resolve_pending_def Some Let_def)
qed (use assms in \<open>simp add: sp_resolve_pending_def\<close>)

lemma sp_repr_classify:
  assumes "sp_repr inp s" and "sp_buf s \<noteq> []"
  shows "sp_repr inp (sp_classify c s)"
proof -
  have "sp_repr inp (s\<lparr>sp_chars := Suc (sp_chars s)\<rparr>)"
    using assms(1) by (simp add: sp_repr_def)
  from sp_repr_flush_buffer [OF this] assms show ?thesis
    by (auto simp: sp_classify_def sp_repr_def Let_def)
qed

lemma sp_buf_resolve: "sp_pending s = Some p \<Longrightarrow> Suc p < length (sp_buf s) \<Longrightarrow> sp_buf (sp_resolve_pending s) \<noteq> []"
  by (simp add: sp_resolve_pending_def Let_def)

lemma sp_repr_char:
  assumes "sp_repr inp s0"
  shows "sp_repr (inp @ [c]) (sp_char s0 c)"
proof -
  define s1 where "s1 = s0\<lparr>sp_buf := sp_buf s0 @ [c]\<rparr>"
  define s where "s = (if sc_fences (sp_cfg s1) \<and> length kFenceOpen \<le> length (sp_buf s1)
      \<and> starts_with_at (sp_buf s1) (length (sp_buf s1) - length kFenceOpen) kFenceOpen
    then s1\<lparr>sp_mode := (if sp_mode s1 = SpNormal then SpInCodeFence else SpNormal)\<rparr> else s1)"
  have s: "sp_buf s = sp_buf s0 @ [c]" "sp_out s = sp_out s0" "sp_pending s = sp_pending s0"
    by (simp_all add: s_def s1_def)
  have r: "sp_repr (inp @ [c]) s"
    using assms by (auto simp: sp_repr_def s split: option.splits)
  have fields: "sp_repr (inp @ [c]) s'" if "sp_buf s' = sp_buf s" "sp_out s' = sp_out s"
    "sp_pending s' = sp_pending s \<or> sp_pending s' = None" for s' :: splitter
    using r that by (auto simp: sp_repr_def split: option.splits)
  have ne: "sp_buf (sp_resolve_pending s) \<noteq> []"
    using assms by (cases "sp_pending s")
      (auto simp: sp_resolve_pending_def s Let_def sp_repr_def)
  have "sp_char s0 c = (if sp_mode s = SpInCodeFence then s\<lparr>sp_chars := Suc (sp_chars s)\<rparr>
      else case sp_pending s of
             None \<Rightarrow> sp_classify c s
           | Some pos \<Rightarrow>
               (if c = CHR ''.'' \<and> sp_buf s ! pos = CHR ''.''
                then s\<lparr>sp_dots := Suc (sp_dots s)\<rparr>
                else if is_digit c
                then s\<lparr>sp_pending := None, sp_dots := 0, sp_chars := Suc (sp_chars s)\<rparr>
                else if 2 \<le> sp_dots s
                then s\<lparr>sp_pending := None, sp_dots := 0, sp_chars := Suc (sp_chars s)\<rparr>
                else sp_classify c (sp_resolve_pending s)))"
    unfolding sp_char_def Let_def s1_def [symmetric] s_def [symmetric] ..
  moreover have "sp_repr (inp @ [c]) (s\<lparr>sp_chars := Suc (sp_chars s)\<rparr>)"
    "sp_repr (inp @ [c]) (s\<lparr>sp_dots := Suc (sp_dots s)\<rparr>)"
    "sp_repr (inp @ [c]) (s\<lparr>sp_pending := None, sp_dots := 0, sp_chars := Suc (sp_chars s)\<rparr>)"
    by (rule fields; simp)+
  moreover have "sp_repr (inp @ [c]) (sp_classify c s)"
    "sp_repr (inp @ [c]) (sp_classify c (sp_resolve_pending s))"
    using r sp_repr_resolve [OF r] ne s(1) by (auto intro: sp_repr_classify)
  ultimately show ?thesis
    by (cases "sp_pending s") (simp_all only: option.case if_split_mem1 split: if_split, blast+)
qed

lemma sp_repr_push: "sp_repr inp s \<Longrightarrow> sp_repr (inp @ xs) (sp_push xs s)"
proof (induction xs arbitrary: inp s)
  case (Cons c xs)
  from Cons.IH [OF sp_repr_char [OF Cons.prems, of c]] show ?case by (simp add: sp_push_def)
qed (simp add: sp_push_def)

lemma sp_push_append: "sp_push (xs @ ys) s = sp_push ys (sp_push xs s)"
  by (simp add: sp_push_def)

lemma sp_push_concat: "foldl (\<lambda>s x. sp_push x s) s chunks = sp_push (concat chunks) s"
proof (induction chunks arbitrary: s)
  case (Cons x xs)
  then show ?case by (simp add: sp_push_append)
qed (simp add: sp_push_def)

lemma trim_leading_no_ws: "trim_leading p \<noteq> [] \<Longrightarrow> \<not> is_whitespace (hd (trim_leading p))"
  unfolding trim_leading_def by (rule hd_dropWhile)

section \<open>Properties\<close>

text \<open>
  The splitter speaks the text it was given. For any configuration and any division of the
  text into pushes, followed by a flush, the text is a concatenation of pieces whose non-blank
  ones, without their leading white space, are the emitted sentences in order; every sentence is
  non-empty and starts with a visible character; nothing stays behind in the buffer.
\<close>

theorem splitter_preserves_text:
  "let s = sp_flush (foldl (\<lambda>s x. sp_push x s) (sp_new cfg) chunks)
   in (\<exists>pieces. concat chunks = concat pieces \<and>
         sp_out s = filter (\<lambda>x. x \<noteq> []) (map trim_leading pieces)) \<and>
      list_all (\<lambda>x. x \<noteq> [] \<and> \<not> is_whitespace (hd x)) (sp_out s) \<and>
      sp_buf s = [] \<and> sp_pending s = None"
proof -
  define t where "t = sp_push (concat chunks) (sp_new cfg)"
  have "sp_repr [] (sp_new cfg)"
    by (auto simp: sp_repr_def sp_new_def intro!: exI [of _ "[]"])
  from sp_repr_push [OF this, of "concat chunks"] have "sp_repr (concat chunks) t"
    by (simp add: t_def)
  then have "sp_repr (concat chunks) (t\<lparr>sp_pending := None, sp_dots := 0\<rparr>)"
    by (auto simp: sp_repr_def split: option.splits)
  from this sp_repr_flush_buffer [OF this] have "sp_repr (concat chunks) (sp_flush t)"
    by (auto simp: sp_flush_def Let_def sp_repr_def)
  moreover have "sp_buf (sp_flush t) = []" "sp_pending (sp_flush t) = None"
    by (auto simp: sp_flush_def Let_def sp_flush_buffer_def)
  ultimately obtain pieces where p: "concat chunks = concat pieces"
    "sp_out (sp_flush t) = filter (\<lambda>x. x \<noteq> []) (map trim_leading pieces)"
    by (auto simp: sp_repr_def)
  then have "list_all (\<lambda>x. x \<noteq> [] \<and> \<not> is_whitespace (hd x)) (sp_out (sp_flush t))"
    by (auto simp: list_all_iff trim_leading_no_ws)
  with p \<open>sp_buf _ = []\<close> \<open>sp_pending _ = None\<close> show ?thesis
    unfolding Let_def sp_push_concat t_def [symmetric] by blast
qed

text \<open>
  Code is not cut. Once a code fence is open, text without a backtick is only collected, for
  any configuration and whatever punctuation it contains: no sentence is emitted, the buffer grows
  by exactly the text, and the fence stays open.
\<close>

theorem fence_is_not_split:
  assumes "sp_mode s = SpInCodeFence" and "CHR 0x60 \<notin> set inp"
  shows "sp_out (sp_push inp s) = sp_out s \<and> sp_buf (sp_push inp s) = sp_buf s @ inp \<and>
    sp_mode (sp_push inp s) = SpInCodeFence"
  using assms
proof (induction inp arbitrary: s)
  case (Cons c inp)
  have no_fence: "\<not> starts_with_at (b @ [c]) (length (b @ [c]) - length kFenceOpen) kFenceOpen" for b
  proof
    assume "starts_with_at (b @ [c]) (length (b @ [c]) - length kFenceOpen) kFenceOpen"
    then have "take (length kFenceOpen) (drop (length (b @ [c]) - length kFenceOpen) (b @ [c])) = kFenceOpen"
      unfolding starts_with_at_def by blast
    moreover have "take (length k) (drop (length xs - length k) xs) = drop (length xs - length k) xs"
      for xs k :: string by simp
    ultimately have "drop (length (b @ [c]) - length kFenceOpen) (b @ [c]) = kFenceOpen"
      by metis
    then have "c = last kFenceOpen"
      by (metis append_take_drop_id kFenceOpen_def last_appendR last_snoc list.distinct(1))
    with Cons.prems(2) show False by (simp add: kFenceOpen_def)
  qed
  have "sp_char s c = s\<lparr>sp_buf := sp_buf s @ [c], sp_chars := Suc (sp_chars s)\<rparr>"
    using Cons.prems(1) no_fence [of "sp_buf s"] by (simp add: sp_char_def Let_def)
  with Cons.prems Cons.IH [of "sp_char s c"] show ?case by (simp add: sp_push_def)
qed (simp add: sp_push_def)

theorem fence_is_not_split_witness:
  "sp_out (sp_push ''Stop. Go! Now?'' ((sp_new \<lparr>sc_max_chars = 4, sc_fences = True\<rparr>)\<lparr>sp_mode := SpInCodeFence\<rparr>)) = []"
  using fence_is_not_split [of "(sp_new \<lparr>sc_max_chars = 4, sc_fences = True\<rparr>)\<lparr>sp_mode := SpInCodeFence\<rparr>" "''Stop. Go! Now?''"]
  by (simp add: sp_new_def)

text \<open>
  Where the boundaries differ from the specification in the header. A word of up to three
  letters before the final dot is taken for a list marker, so the sentence end after it is missed;
  and a terminator splits before any character but a digit or a dot, not only before white space
  and a capital letter, so a host name is cut in two.
\<close>

theorem splitter_boundary_divergence:
  "sp_out (sp_flush (sp_push ''I see it. Now we go.'' (sp_new \<lparr>sc_max_chars = 60, sc_fences = True\<rparr>)))
     = [''I see it. Now we go.''] \<and>
   sp_out (sp_flush (sp_push ''Open example.com today'' (sp_new \<lparr>sc_max_chars = 60, sc_fences = True\<rparr>)))
     = [''Open example.'', ''com today'']"
  by code_simp

end
