(* ===== verification/Sse_Parser.thy ===== *)
theory Sse_Parser
  imports Prelude
begin

text \<open>
  The server-sent-events framing of \<open>src/llm/sse_parser.hpp\<close> and \<open>src/llm/sse_parser.cpp\<close>. The
  three callbacks are a log of calls in order. The lemmas show that the calls depend only on the
  bytes received and not on how they were split into reads, and that framing a list of payloads
  is inverted by the parser.
\<close>

datatype sse_call = OnData string | OnDone | OnComment string

record sse_parser =
  sse_buffer :: string
  sse_done_seen :: bool

definition sse_new :: sse_parser where
  "sse_new = \<lparr>sse_buffer = [], sse_done_seen = False\<rparr>"

definition sse_reset :: "sse_parser \<Rightarrow> sse_parser" where
  "sse_reset p = p\<lparr>sse_buffer := [], sse_done_seen := False\<rparr>"

abbreviation newline :: char where
  "newline \<equiv> CHR 0x0A"

definition kDataPrefix :: string where
  "kDataPrefix = ''data:''"

definition kDoneSentinel :: string where
  "kDoneSentinel = ''[DONE]''"

definition trim_leading_space :: "string \<Rightarrow> string" where
  "trim_leading_space s = (if s \<noteq> [] \<and> hd s = CHR '' '' then tl s else s)"

text \<open>\<open>buf.find("\n\n")\<close>: the position of the first blank line.\<close>

fun find_event_boundary :: "string \<Rightarrow> nat option" where
  "find_event_boundary (a # b # s) =
     (if a = newline \<and> b = newline then Some 0
      else map_option Suc (find_event_boundary (b # s)))"
| "find_event_boundary _ = None"

text \<open>One line of an event: the calls it makes, and whether it was the end-of-stream sentinel.\<close>

definition sse_line :: "string \<Rightarrow> sse_call list \<times> bool" where
  "sse_line line =
     (if line = [] then ([], False)
      else if hd line = CHR '':'' then ([OnComment (drop 1 line)], False)
      else if length kDataPrefix \<le> length line \<and> take (length kDataPrefix) line = kDataPrefix
      then let payload = trim_leading_space (drop (length kDataPrefix) line)
           in if payload = kDoneSentinel then ([OnDone], True) else ([OnData payload], False)
      else ([], False))"

text \<open>The line loop of \<open>emit_event\<close>; \<open>text\<close> is what lies at and after the cursor.\<close>

function emit_event :: "string \<Rightarrow> sse_call list \<times> bool" where
  "emit_event text =
     (if text = [] then ([], False)
      else let line = takeWhile (\<lambda>c. c \<noteq> newline) text
           in case sse_line line of
                (calls, True) \<Rightarrow> (calls, True)
              | (calls, False) \<Rightarrow>
                  (case emit_event (drop (Suc (length line)) text) of (cs, d) \<Rightarrow> (calls @ cs, d)))"
  by pat_completeness auto
termination
  by (relation "measure length") auto

declare emit_event.simps [simp del]

text \<open>The loop of \<open>feed\<close> over complete events.\<close>

lemma find_event_boundary_less: "find_event_boundary buf = Some p \<Longrightarrow> p + 2 \<le> length buf"
  by (induction buf arbitrary: p rule: find_event_boundary.induct) (auto split: if_splits)

function sse_drain :: "string \<Rightarrow> sse_call list \<times> string \<times> bool" where
  "sse_drain buf =
     (case find_event_boundary buf of
        None \<Rightarrow> ([], buf, False)
      | Some p \<Rightarrow>
          (case emit_event (take p buf) of
             (calls, True) \<Rightarrow> (calls, [], True)
           | (calls, False) \<Rightarrow>
               (case sse_drain (drop (p + 2) buf) of (cs, rest, d) \<Rightarrow> (calls @ cs, rest, d))))"
  by pat_completeness auto
termination
  by (relation "measure length") (auto dest: find_event_boundary_less)

declare sse_drain.simps [simp del]

definition sse_feed :: "string \<Rightarrow> sse_parser \<Rightarrow> sse_call list \<times> sse_parser" where
  "sse_feed bytes p =
     (if sse_done_seen p then ([], p)
      else case sse_drain (sse_buffer p @ bytes) of
          (calls, rest, d) \<Rightarrow> (calls, p\<lparr>sse_buffer := rest, sse_done_seen := d\<rparr>))"

definition sse_finish :: "sse_parser \<Rightarrow> sse_call list \<times> sse_parser" where
  "sse_finish p =
     (if sse_done_seen p then ([], p)
      else if sse_buffer p = [] then ([], p)
      else case emit_event (sse_buffer p) of
          (calls, d) \<Rightarrow> (calls, p\<lparr>sse_buffer := [], sse_done_seen := d\<rparr>))"

fun sse_feed_all :: "string list \<Rightarrow> sse_parser \<Rightarrow> sse_call list \<times> sse_parser" where
  "sse_feed_all [] p = ([], p)"
| "sse_feed_all (b # bs) p =
     (case sse_feed b p of (cs, p1) \<Rightarrow> case sse_feed_all bs p1 of (ds, p2) \<Rightarrow> (cs @ ds, p2))"

section \<open>Chunking\<close>

lemma find_event_boundary_append:
  "find_event_boundary buf = Some p \<Longrightarrow> find_event_boundary (buf @ xs) = Some p"
  by (induction buf arbitrary: p rule: find_event_boundary.induct) (auto split: if_splits)

lemma sse_drain_append:
  "sse_drain (buf @ xs) =
     (case sse_drain buf of
        (cs, rest, True) \<Rightarrow> (cs, [], True)
      | (cs, rest, False) \<Rightarrow> (case sse_drain (rest @ xs) of (ds, rest', d) \<Rightarrow> (cs @ ds, rest', d)))"
proof (induction buf rule: sse_drain.induct)
  case (1 buf)
  show ?case
  proof (cases "find_event_boundary buf")
    case None
    then show ?thesis by (simp add: sse_drain.simps [of buf] split: prod.splits)
  next
    case (Some p)
    note app = find_event_boundary_append [OF Some, of xs]
    have p: "p + 2 \<le> length buf" by (rule find_event_boundary_less [OF Some])
    obtain calls d where e: "emit_event (take p buf) = (calls, d)" by (meson surj_pair)
    show ?thesis
    proof (cases d)
      case True
      with Some app e p show ?thesis
        by (simp add: sse_drain.simps [of buf] sse_drain.simps [of "buf @ xs"])
    next
      case False
      have "sse_drain (drop (p + 2) buf @ xs) = (case sse_drain (drop (p + 2) buf) of
          (cs, rest, True) \<Rightarrow> (cs, [], True)
        | (cs, rest, False) \<Rightarrow> (case sse_drain (rest @ xs) of (ds, rest', d) \<Rightarrow> (cs @ ds, rest', d)))"
        using "1.IH" [OF Some] e False by simp
      with False Some app e p show ?thesis
        by (simp add: sse_drain.simps [of buf] sse_drain.simps [of "buf @ xs"]
            split: prod.splits bool.splits)
    qed
  qed
qed

lemma sse_drain_done: "sse_drain b = (cs, rest, True) \<Longrightarrow> rest = []"
proof (induction b arbitrary: cs rest rule: sse_drain.induct)
  case (1 b)
  show ?case
  proof (cases "find_event_boundary b")
    case None
    with 1(2) show ?thesis by (simp add: sse_drain.simps [of b])
  next
    case (Some p)
    obtain calls d where e: "emit_event (take p b) = (calls, d)" by (meson surj_pair)
    with Some 1(2) "1.IH" [OF Some e [symmetric]] show ?thesis
      by (cases d) (auto simp: sse_drain.simps [of b] split: prod.splits)
  qed
qed

lemma sse_feed_append:
  "sse_feed (xs @ ys) p =
     (case sse_feed xs p of (cs, p1) \<Rightarrow> case sse_feed ys p1 of (ds, p2) \<Rightarrow> (cs @ ds, p2))"
proof (cases "sse_done_seen p")
  case False
  obtain cs rest d where d: "sse_drain (sse_buffer p @ xs) = (cs, rest, d)" by (metis prod_cases3)
  show ?thesis
    using False d sse_drain_append [of "sse_buffer p @ xs" ys] sse_drain_done [of "sse_buffer p @ xs"]
    by (cases d) (auto simp: sse_feed_def split: prod.splits)
qed (simp add: sse_feed_def)

lemma sse_feed_empty: "sse_feed [] sse_new = ([], sse_new)"
  by (simp add: sse_feed_def sse_new_def sse_drain.simps)

lemma sse_feed_all_concat_gen:
  "sse_feed xs p0 = (cs0, p) \<Longrightarrow>
     sse_feed (xs @ concat bs) p0 = (case sse_feed_all bs p of (cs, p') \<Rightarrow> (cs0 @ cs, p'))"
proof (induction bs arbitrary: xs cs0 p)
  case (Cons b bs)
  obtain cs1 p1 where b: "sse_feed b p = (cs1, p1)" by (meson surj_pair)
  have "sse_feed (xs @ b) p0 = (cs0 @ cs1, p1)"
    using Cons.prems b by (simp add: sse_feed_append)
  from Cons.IH [OF this] b show ?case by (simp split: prod.splits)
qed simp

lemma sse_feed_all_concat: "sse_feed_all bs sse_new = sse_feed (concat bs) sse_new"
  using sse_feed_all_concat_gen [OF sse_feed_empty, of bs] by (simp split: prod.splits)

section \<open>Framing\<close>

definition sse_frame :: "string \<Rightarrow> string" where
  "sse_frame payload = ''data: '' @ payload @ [newline, newline]"

definition sse_plain :: "string \<Rightarrow> bool" where
  "sse_plain payload \<longleftrightarrow> newline \<notin> set payload \<and> payload \<noteq> kDoneSentinel"

lemma find_event_boundary_line:
  "newline \<notin> set s \<Longrightarrow> find_event_boundary (s @ newline # newline # r) = Some (length s)"
proof (induction s)
  case (Cons a s)
  then show ?case by (cases s) auto
qed simp

lemma sse_line_data: "sse_line (''data: '' @ payload) =
    (if payload = kDoneSentinel then ([OnDone], True) else ([OnData payload], False))"
  by (simp add: sse_line_def kDataPrefix_def trim_leading_space_def)

lemma emit_event_data:
  assumes "newline \<notin> set payload"
  shows "emit_event (''data: '' @ payload) =
    (if payload = kDoneSentinel then ([OnDone], True) else ([OnData payload], False))"
proof -
  define t where "t = ''data: '' @ payload"
  have tw: "takeWhile (\<lambda>c. c \<noteq> newline) t = t"
    using assms by (subst takeWhile_eq_all_conv) (auto simp: t_def)
  have "t \<noteq> []" by (simp add: t_def)
  moreover have "emit_event [] = ([], False)" by (subst emit_event.simps) simp
  ultimately have "emit_event t =
      (if payload = kDoneSentinel then ([OnDone], True) else ([OnData payload], False))"
    using sse_line_data [of payload, folded t_def]
    unfolding emit_event.simps [of t] Let_def tw by simp
  then show ?thesis by (simp only: t_def)
qed

lemma sse_drain_frame:
  assumes "newline \<notin> set payload"
  shows "sse_drain (sse_frame payload @ rest) =
    (if payload = kDoneSentinel then ([OnDone], [], True)
     else case sse_drain rest of (cs, r, d) \<Rightarrow> (OnData payload # cs, r, d))"
proof -
  let ?t = "''data: '' @ payload"
  have "find_event_boundary (sse_frame payload @ rest) = Some (length ?t)"
    using find_event_boundary_line [of ?t rest] assms by (simp add: sse_frame_def)
  moreover have "take (length ?t) (sse_frame payload @ rest) = ?t"
      "drop (length ?t + 2) (sse_frame payload @ rest) = rest"
    by (simp_all add: sse_frame_def)
  ultimately show ?thesis
    using emit_event_data [OF assms] by (subst sse_drain.simps) (simp split: prod.splits)
qed

lemma sse_drain_frames:
  "list_all sse_plain ps \<Longrightarrow>
     sse_drain (concat (map sse_frame ps) @ rest) =
       (case sse_drain rest of (cs, r, d) \<Rightarrow> (map OnData ps @ cs, r, d))"
  by (induction ps) (auto simp: sse_plain_def sse_drain_frame split: prod.splits)

lemma framed_stream:
  assumes "list_all sse_plain ps"
    and "concat bs = concat (map sse_frame ps) @ sse_frame kDoneSentinel @ junk"
  shows "sse_feed_all bs sse_new =
    (map OnData ps @ [OnDone], \<lparr>sse_buffer = [], sse_done_seen = True\<rparr>)"
proof -
  have "newline \<notin> set kDoneSentinel" by (simp add: kDoneSentinel_def)
  from sse_drain_frame [OF this] sse_drain_frames [OF assms(1)]
  have "sse_drain (concat bs) = (map OnData ps @ [OnDone], [], True)"
    by (simp add: assms(2))
  then show ?thesis
    unfolding sse_feed_all_concat sse_feed_def by (simp add: sse_new_def)
qed

section \<open>Properties\<close>

text \<open>
  C29. The parser sees the byte stream, not the reads. Feeding the stream in any pieces (cuts
  inside a terminator, a prefix or the sentinel included) makes the same calls in the same order
  and leaves the same state as feeding it at once.
\<close>

theorem sse_chunking:
  "sse_feed_all bs sse_new = sse_feed (concat bs) sse_new"
  by (rule sse_feed_all_concat)

text \<open>
  Parsing inverts framing. When a server frames any payloads without line breaks (empty ones
  and ones with leading spaces included), then the \<open>[DONE]\<close> sentinel, and keeps sending anything,
  the parser, for any division of the stream into reads, delivers exactly the payloads in order,
  then the end of the stream once, and ignores the rest.
\<close>

theorem sse_roundtrip:
  assumes "list_all sse_plain ps"
    and "concat bs = concat (map sse_frame ps) @ sse_frame kDoneSentinel @ junk"
  shows "sse_feed_all bs sse_new =
    (map OnData ps @ [OnDone], \<lparr>sse_buffer = [], sse_done_seen = True\<rparr>)"
  by (rule framed_stream [OF assms])

theorem sse_roundtrip_witness:
  "sse_feed_all [''data: {'', ''}'' @ [newline], [newline] @ ''data: [DO'', ''NE]'' @ [newline, newline] @ ''x''] sse_new
     = ([OnData ''{}'', OnDone], \<lparr>sse_buffer = [], sse_done_seen = True\<rparr>)"
  using sse_roundtrip [of "[''{}'']"
      "[''data: {'', ''}'' @ [newline], [newline] @ ''data: [DO'', ''NE]'' @ [newline, newline] @ ''x'']" "''x''"]
  by (simp add: sse_plain_def kDoneSentinel_def sse_frame_def del: sse_feed_all.simps)

text \<open>Every data line of an event is delivered, not only the last one.\<close>

lemma sse_every_data_line:
  "fst (sse_feed (''data: a'' @ [newline] @ ''data: b'' @ [newline, newline]) sse_new)
     = [OnData ''a'', OnData ''b'']"
  by code_simp

text \<open>A stream with CRLF line ends never completes an event.\<close>

lemma sse_crlf_never_completes:
  "sse_feed (''data: a'' @ [CHR 0x0D, newline, CHR 0x0D, newline]) sse_new
     = ([], \<lparr>sse_buffer = ''data: a'' @ [CHR 0x0D, newline, CHR 0x0D, newline], sse_done_seen = False\<rparr>)"
  by code_simp

end
