(* ===== verification/Supervisor.thy ===== *)
theory Supervisor
  imports Events
begin

text \<open>
  Backend supervision (\<open>src/supervisor/\<close>): the per-service monitor of \<open>service.cpp\<close>, the pipeline
  gate of \<open>supervisor.cpp\<close>, the idle timer of \<open>keep_alive.cpp\<close> and the URL and excerpt helpers of
  \<open>probe.cpp\<close>. A probe's result and the clock readings are arguments; the HTTP client is not part
  of the model. Each monitor's thread applies one result after the other, and each evaluation of
  the gate runs under the supervisor's mutex, so both are steps.
\<close>

section \<open>Probes\<close>

record probe_result =
  pr_ok :: bool
  pr_http_status :: int
  pr_latency :: millis
  pr_excerpt :: string

definition excerpt_char :: "char \<Rightarrow> char" where
  "excerpt_char c =
     (if (of_char c :: nat) < 0x20 \<and> c \<noteq> CHR 0x0A \<and> c \<noteq> CHR 0x09 then CHR ''.'' else c)"

definition excerpt :: "string \<Rightarrow> nat \<Rightarrow> string" where
  "excerpt body max_chars = map excerpt_char (take max_chars body)"

text \<open>\<open>find\<close> of a substring, and of a character from a position on.\<close>

fun find_sub :: "string \<Rightarrow> string \<Rightarrow> nat option" where
  "find_sub needle [] = (if needle = [] then Some 0 else None)"
| "find_sub needle (c # s) =
     (if take (length needle) (c # s) = needle then Some 0 else map_option Suc (find_sub needle s))"

record parsed_url =
  pu_authority :: string
  pu_path :: string

definition parse_url :: "string \<Rightarrow> parsed_url" where
  "parse_url url =
     (case find_sub ''://'' url of
        None \<Rightarrow> \<lparr>pu_authority = [], pu_path = []\<rparr>
      | Some scheme_end \<Rightarrow>
          (let authority_start = scheme_end + 3
           in case find_sub ''/'' (drop authority_start url) of
                None \<Rightarrow> \<lparr>pu_authority = url, pu_path = ''/''\<rparr>
              | Some k \<Rightarrow>
                  (let path_start = authority_start + k
                   in \<lparr>pu_authority = take path_start url, pu_path = drop path_start url\<rparr>)))"

text \<open>A response of the HTTP client: none on a network failure, else the status and the body.\<close>

definition probe_get :: "string \<Rightarrow> (int \<times> string) option \<Rightarrow> string \<Rightarrow> millis \<Rightarrow> probe_result" where
  "probe_get url response neterr latency =
     (if pu_authority (parse_url url) = []
      then \<lparr>pr_ok = False, pr_http_status = 0, pr_latency = 0,
            pr_excerpt = ''probe: invalid url (missing scheme)''\<rparr>
      else case response of
          None \<Rightarrow> \<lparr>pr_ok = False, pr_http_status = 0, pr_latency = latency, pr_excerpt = ''probe: '' @ neterr\<rparr>
        | Some (status, body) \<Rightarrow>
            (if 200 \<le> status \<and> status < 300
             then \<lparr>pr_ok = True, pr_http_status = status, pr_latency = latency, pr_excerpt = []\<rparr>
             else \<lparr>pr_ok = False, pr_http_status = status, pr_latency = latency,
                   pr_excerpt = excerpt body 200\<rparr>))"

section \<open>Monitors\<close>

datatype service_state = SvcNotConfigured | SvcProbing | SvcHealthy | SvcDegraded | SvcUnhealthy

fun service_state_to_string :: "service_state \<Rightarrow> string" where
  "service_state_to_string SvcNotConfigured = ''not_configured''"
| "service_state_to_string SvcProbing = ''probing''"
| "service_state_to_string SvcHealthy = ''healthy''"
| "service_state_to_string SvcDegraded = ''degraded''"
| "service_state_to_string SvcUnhealthy = ''unhealthy''"

fun to_health_state :: "service_state \<Rightarrow> health_state" where
  "to_health_state SvcNotConfigured = HsUnknown"
| "to_health_state SvcProbing = HsUnknown"
| "to_health_state SvcHealthy = HsHealthy"
| "to_health_state SvcDegraded = HsDegraded"
| "to_health_state SvcUnhealthy = HsUnhealthy"

record service_config =
  sv_name :: string
  sv_health_url :: string
  sv_fail_pipeline :: bool
  sv_interval_healthy :: millis
  sv_interval_degraded :: millis
  sv_degraded_max :: "32 word"

record service_monitor =
  sm_cfg :: service_config
  sm_state :: service_state
  sm_last_probe_at :: time_point
  sm_last_ok_at :: time_point
  sm_failures :: "32 word"   \<comment> \<open>\<open>consecutive_failures_\<close>\<close>
  sm_total_probes :: counter
  sm_total_failures :: counter
  sm_http_status :: int
  sm_last_error :: string
  sm_latency :: millis
  sm_probe_seq :: counter
  sm_running :: bool
  sm_events :: "event list"  \<comment> \<open>published\<close>

definition sm_new :: "service_config \<Rightarrow> service_monitor" where
  "sm_new cfg =
     \<lparr>sm_cfg = cfg, sm_state = (if sv_health_url cfg = [] then SvcNotConfigured else SvcProbing),
      sm_last_probe_at = 0, sm_last_ok_at = 0, sm_failures = 0, sm_total_probes = 0,
      sm_total_failures = 0, sm_http_status = 0, sm_last_error = [], sm_latency = 0,
      sm_probe_seq = 0, sm_running = False, sm_events = []\<rparr>"

definition sm_start :: "service_monitor \<Rightarrow> service_monitor" where
  "sm_start m = (if sv_health_url (sm_cfg m) = [] then m else m\<lparr>sm_running := True\<rparr>)"

definition sm_stop :: "service_monitor \<Rightarrow> service_monitor" where
  "sm_stop m = m\<lparr>sm_running := False\<rparr>"

definition sm_current_interval :: "service_monitor \<Rightarrow> millis" where
  "sm_current_interval m =
     (if sm_state m = SvcHealthy then sv_interval_healthy (sm_cfg m) else sv_interval_degraded (sm_cfg m))"

definition sm_publish_if_changed :: "service_state \<Rightarrow> service_monitor \<Rightarrow> service_monitor" where
  "sm_publish_if_changed prev m =
     (if prev = sm_state m then m
      else if to_health_state prev = to_health_state (sm_state m) then m
      else m\<lparr>sm_events := sm_events m @
               [HealthChanged (sv_name (sm_cfg m)) (to_health_state (sm_state m)) (sm_last_error m)]\<rparr>)"

definition sm_apply_result :: "time_point \<Rightarrow> probe_result \<Rightarrow> service_monitor \<Rightarrow> service_monitor" where
  "sm_apply_result now r m0 =
     (let prev = sm_state m0;
          m = m0\<lparr>sm_total_probes := sm_total_probes m0 + 1, sm_last_probe_at := now,
                 sm_http_status := pr_http_status r, sm_latency := pr_latency r,
                 sm_last_error := pr_excerpt r\<rparr>;
          m1 = (if pr_ok r
                then m\<lparr>sm_failures := 0, sm_last_ok_at := now, sm_state := SvcHealthy\<rparr>
                else let f = sm_failures m + 1
                     in m\<lparr>sm_failures := f, sm_total_failures := sm_total_failures m + 1,
                          sm_state := (if sv_degraded_max (sm_cfg m) \<le> f then SvcUnhealthy
                                       else SvcDegraded)\<rparr>);
          m2 = sm_publish_if_changed prev m1
      in m2\<lparr>sm_probe_seq := sm_probe_seq m2 + 1\<rparr>)"

text \<open>
  One round of the probe loop: the probe's result, \<open>None\<close> with a message when it threw. A stop
  that arrived during the probe discards the result.
\<close>

definition sm_round :: "time_point \<Rightarrow> (string, probe_result) sum \<Rightarrow> bool \<Rightarrow> service_monitor \<Rightarrow> service_monitor" where
  "sm_round now outcome stopped m =
     (if \<not> sm_running m then m
      else if stopped then m\<lparr>sm_running := False\<rparr>
      else case outcome of
          Inl msg \<Rightarrow> sm_apply_result now \<lparr>pr_ok = False, pr_http_status = 0, pr_latency = 0, pr_excerpt = msg\<rparr> m
        | Inr r \<Rightarrow> sm_apply_result now r m)"

definition sm_run :: "service_monitor \<Rightarrow> (time_point \<times> probe_result) list \<Rightarrow> service_monitor" where
  "sm_run m rs = foldl (\<lambda>m (t, r). sm_apply_result t r m) m rs"

section \<open>The pipeline gate\<close>

datatype pipeline_state = PipeOk | PipeFailed | PipeNoCritical

record service_snapshot =
  ss_name :: string
  ss_state :: service_state
  ss_fail_pipeline :: bool

definition sm_snapshot :: "service_monitor \<Rightarrow> service_snapshot" where
  "sm_snapshot m =
     \<lparr>ss_name = sv_name (sm_cfg m), ss_state = sm_state m, ss_fail_pipeline = sv_fail_pipeline (sm_cfg m)\<rparr>"

record supervisor =
  su_grace :: int  \<comment> \<open>nanoseconds\<close>
  su_unhealthy_since :: "(string \<times> time_point) list"
  su_state :: pipeline_state
  su_events :: "event list"

definition su_new :: "int \<Rightarrow> supervisor" where
  "su_new grace_seconds =
     \<lparr>su_grace = 1000000000 * grace_seconds, su_unhealthy_since = [], su_state = PipeNoCritical, su_events = []\<rparr>"

text \<open>\<open>find_if\<close>, \<open>push_back\<close> and \<open>erase\<close> on the vector of markers.\<close>

fun erase_first :: "string \<Rightarrow> (string \<times> 'a) list \<Rightarrow> (string \<times> 'a) list" where
  "erase_first n [] = []"
| "erase_first n (x # xs) = (if fst x = n then xs else x # erase_first n xs)"

text \<open>The loop over the monitors: \<open>any_critical\<close>, \<open>any_failed\<close> and the markers.\<close>

fun su_scan ::
  "time_point \<Rightarrow> int \<Rightarrow> service_snapshot list \<Rightarrow> bool \<times> bool \<times> (string \<times> time_point) list \<Rightarrow>
     bool \<times> bool \<times> (string \<times> time_point) list" where
  "su_scan now grace [] acc = acc"
| "su_scan now grace (s # ss) (crit, failed, since) =
     (if \<not> ss_fail_pipeline s \<or> ss_state s = SvcNotConfigured
      then su_scan now grace ss (crit, failed, since)
      else if ss_state s = SvcUnhealthy
      then let since' = (case map_of since (ss_name s) of
                           None \<Rightarrow> since @ [(ss_name s, now)] | Some _ \<Rightarrow> since);
               t = the (map_of since' (ss_name s))
           in su_scan now grace ss (True, failed \<or> grace \<le> now - t, since')
      else su_scan now grace ss (True, failed, erase_first (ss_name s) since))"

definition su_evaluate :: "time_point \<Rightarrow> service_snapshot list \<Rightarrow> supervisor \<Rightarrow> supervisor" where
  "su_evaluate now snaps su =
     (case su_scan now (su_grace su) snaps (False, False, su_unhealthy_since su) of
        (crit, failed, since) \<Rightarrow>
          (let nxt = (if \<not> crit then PipeNoCritical else if failed then PipeFailed else PipeOk)
           in su\<lparr>su_unhealthy_since := since, su_state := nxt,
                 su_events := su_events su @
                   (if su_state su \<noteq> nxt \<and> nxt = PipeFailed
                    then [ErrorEvent ''supervisor'' ''pipeline failed: critical service unhealthy past grace'']
                    else [])\<rparr>))"

definition su_register :: "service_config \<Rightarrow> service_monitor list \<Rightarrow> service_monitor list" where
  "su_register svc ms =
     (if \<exists>m \<in> set ms. sv_name (sm_cfg m) = sv_name svc
      then let i = length (takeWhile (\<lambda>m. sv_name (sm_cfg m) \<noteq> sv_name svc) ms) in ms[i := sm_new svc]
      else ms @ [sm_new svc])"

section \<open>The idle timer\<close>

record keep_alive =
  ka_fired :: counter
  ka_skipped :: counter

text \<open>One expiry of the interval; \<open>None\<close> when \<open>should_fire\<close> throws. An exception of \<open>on_tick\<close> is swallowed.\<close>

definition ka_expiry :: "bool option \<Rightarrow> keep_alive \<Rightarrow> bool \<times> keep_alive" where
  "ka_expiry should_fire k =
     (if should_fire = Some True then (True, k\<lparr>ka_fired := ka_fired k + 1\<rparr>)
      else (False, k\<lparr>ka_skipped := ka_skipped k + 1\<rparr>))"

section \<open>Monitor lemmas\<close>

definition trailing_failures :: "(time_point \<times> probe_result) list \<Rightarrow> nat" where
  "trailing_failures rs = length (takeWhile (\<lambda>(t, r). \<not> pr_ok r) (rev rs))"

definition state_for :: "32 word \<Rightarrow> nat \<Rightarrow> service_state" where
  "state_for max_failures n =
     (if n = 0 then SvcHealthy else if unat max_failures \<le> n then SvcUnhealthy else SvcDegraded)"

text \<open>The states a public observer should be told: every change of a sequence, from a start value.\<close>

fun changes :: "'a \<Rightarrow> 'a list \<Rightarrow> 'a list" where
  "changes prev [] = []"
| "changes prev (x # xs) = (if x = prev then changes x xs else x # changes x xs)"

lemma changes_snoc: "changes p (xs @ [x]) = changes p xs @ (if x = last (p # xs) then [] else [x])"
  by (induction xs arbitrary: p) auto

fun health_of :: "event \<Rightarrow> health_state option" where
  "health_of (HealthChanged _ h _) = Some h"
| "health_of _ = None"

lemma sm_run_snoc: "sm_run m (rs @ [(t, r)]) = sm_apply_result t r (sm_run m rs)"
  by (simp add: sm_run_def)

lemma sm_apply_fields:
  "sm_cfg (sm_apply_result t r m) = sm_cfg m"
  "sm_failures (sm_apply_result t r m) = (if pr_ok r then 0 else sm_failures m + 1)"
  "sm_state (sm_apply_result t r m) = (if pr_ok r then SvcHealthy
     else if sv_degraded_max (sm_cfg m) \<le> sm_failures m + 1 then SvcUnhealthy else SvcDegraded)"
  "map health_of (sm_events (sm_apply_result t r m)) = map health_of (sm_events m) @
     (if to_health_state (sm_state (sm_apply_result t r m)) = to_health_state (sm_state m) then []
      else [Some (to_health_state (sm_state (sm_apply_result t r m)))])"
  by (auto simp: sm_apply_result_def sm_publish_if_changed_def Let_def)

lemma trailing_failures_snoc:
  "trailing_failures (rs @ [(t, r)]) = (if pr_ok r then 0 else Suc (trailing_failures rs))"
  by (simp add: trailing_failures_def)

lemma trailing_failures_le: "trailing_failures rs \<le> length rs"
  unfolding trailing_failures_def by (metis length_rev length_takeWhile_le)

lemma sm_run_state:
  assumes "length rs < 2 ^ 32" and "sv_health_url cfg \<noteq> []"
  shows "sm_cfg (sm_run (sm_new cfg) rs) = cfg \<and>
    sm_failures (sm_run (sm_new cfg) rs) = of_nat (trailing_failures rs) \<and>
    sm_state (sm_run (sm_new cfg) rs) =
      (if rs = [] then SvcProbing else state_for (sv_degraded_max cfg) (trailing_failures rs))"
  using assms(1)
proof (induction rs rule: rev_induct)
  case Nil
  with assms(2) show ?case by (simp add: sm_run_def sm_new_def trailing_failures_def)
next
  case (snoc x rs)
  obtain t r where x: "x = (t, r)" by (meson surj_pair)
  have "Suc (trailing_failures rs) < 2 ^ 32"
    using trailing_failures_le [of rs] snoc.prems by simp
  then have "unat (1 + word_of_nat (trailing_failures rs) :: 32 word) = Suc (trailing_failures rs)"
    by (simp only: of_nat_Suc [symmetric] unat_of_nat) simp
  with snoc show ?case
    by (auto simp: x sm_run_snoc sm_apply_fields trailing_failures_snoc state_for_def word_le_nat_alt add.commute)
qed

definition state_after :: "service_config \<Rightarrow> (time_point \<times> probe_result) list \<Rightarrow> service_state" where
  "state_after cfg rs =
     (if rs = [] then SvcProbing else state_for (sv_degraded_max cfg) (trailing_failures rs))"

lemma sm_run_events:
  assumes "length rs < 2 ^ 32" and "sv_health_url cfg \<noteq> []"
  shows "map health_of (sm_events (sm_run (sm_new cfg) rs)) =
    map Some (changes HsUnknown (map (\<lambda>k. to_health_state (state_after cfg (take (Suc k) rs))) [0..<length rs]))
    \<and> last (HsUnknown # map (\<lambda>k. to_health_state (state_after cfg (take (Suc k) rs))) [0..<length rs])
        = to_health_state (state_after cfg rs)"
  using assms(1)
proof (induction rs rule: rev_induct)
  case Nil
  then show ?case by (simp add: sm_run_def sm_new_def state_after_def)
next
  case (snoc x rs)
  obtain t r where x: "x = (t, r)" by (meson surj_pair)
  let ?h = "\<lambda>rs k. to_health_state (state_after cfg (take (Suc k) rs))"
  have st: "sm_state (sm_run (sm_new cfg) ys) = state_after cfg ys" if "length ys < 2 ^ 32" for ys
    using sm_run_state [OF that assms(2)] by (simp add: state_after_def)
  have pre: "map (?h (rs @ [x])) [0..<length rs] = map (?h rs) [0..<length rs]"
    by simp
  have "map health_of (sm_events (sm_run (sm_new cfg) (rs @ [x]))) =
      map health_of (sm_events (sm_run (sm_new cfg) rs)) @
      (if to_health_state (state_after cfg (rs @ [x])) = to_health_state (state_after cfg rs) then []
       else [Some (to_health_state (state_after cfg (rs @ [x])))])"
    using st [of rs] st [of "rs @ [x]"] snoc.prems
      sm_apply_fields(4) [of t r "sm_run (sm_new cfg) rs"]
    by (simp add: x sm_run_snoc)
  moreover have "map (?h (rs @ [x])) [0..<length (rs @ [x])] =
      map (?h rs) [0..<length rs] @ [to_health_state (state_after cfg (rs @ [x]))]"
    by simp
  ultimately show ?case
    using snoc by (simp only: changes_snoc) auto
qed

section \<open>Gate lemmas\<close>

definition gating :: "service_snapshot \<Rightarrow> bool" where
  "gating s \<longleftrightarrow> ss_fail_pipeline s \<and> ss_state s \<noteq> SvcNotConfigured"

lemma map_of_erase_first:
  "distinct (map fst xs) \<Longrightarrow> map_of (erase_first n xs) = (map_of xs)(n := None) \<and>
     distinct (map fst (erase_first n xs)) \<and> set (map fst (erase_first n xs)) \<subseteq> set (map fst xs)"
  by (induction xs) (auto simp: fun_eq_iff map_of_eq_None_iff)

definition marker_after :: "time_point \<Rightarrow> service_snapshot \<Rightarrow> time_point option \<Rightarrow> time_point option" where
  "marker_after now s prev =
     (if ss_state s = SvcUnhealthy then Some (case prev of None \<Rightarrow> now | Some t \<Rightarrow> t) else None)"

lemma su_scan_spec:
  assumes "su_scan now grace ss (crit, failed, since) = (crit', failed', since')"
    and "distinct (map ss_name ss)" and "distinct (map fst since)"
  shows "distinct (map fst since') \<and>
    (crit' \<longleftrightarrow> crit \<or> (\<exists>s \<in> set ss. gating s)) \<and>
    (\<forall>s \<in> set ss. gating s \<longrightarrow>
       map_of since' (ss_name s) = marker_after now s (map_of since (ss_name s))) \<and>
    (\<forall>n. n \<notin> ss_name ` {s \<in> set ss. gating s} \<longrightarrow> map_of since' n = map_of since n) \<and>
    (failed' \<longleftrightarrow> failed \<or> (\<exists>s \<in> set ss. gating s \<and>
       (\<exists>t. marker_after now s (map_of since (ss_name s)) = Some t \<and> grace \<le> now - t)))"
  using assms
proof (induction ss arbitrary: crit failed since)
  case (Cons s ss)
  have other: "ss_name x \<noteq> ss_name s" if "x \<in> set ss" for x
    using Cons.prems(2) that by (auto simp: image_iff)
  show ?case
  proof (cases "gating s")
    case False
    then have "su_scan now grace ss (crit, failed, since) = (crit', failed', since')"
      using Cons.prems(1) by (auto simp: gating_def split: if_splits)
    from Cons.IH [OF this] Cons.prems False show ?thesis by auto
  next
    case True
    define since1 where "since1 = (if ss_state s = SvcUnhealthy
      then (case map_of since (ss_name s) of None \<Rightarrow> since @ [(ss_name s, now)] | Some _ \<Rightarrow> since)
      else erase_first (ss_name s) since)"
    have m1: "map_of since1 = (map_of since)(ss_name s := marker_after now s (map_of since (ss_name s)))"
      and d1: "distinct (map fst since1)"
      using map_of_erase_first [OF Cons.prems(3), of "ss_name s"] Cons.prems(3)
      by (auto simp: since1_def marker_after_def fun_eq_iff map_add_def map_of_eq_None_iff
          split: option.splits) (metis map_of_eq_None_iff)
    have step: "su_scan now grace ss (True, failed \<or> (\<exists>t. map_of since1 (ss_name s) = Some t \<and> grace \<le> now - t), since1)
        = (crit', failed', since')"
      using Cons.prems(1) True m1
      by (auto simp: gating_def since1_def Let_def marker_after_def split: option.splits if_splits)
    have "map_of since1 n = map_of since n" if "n \<noteq> ss_name s" for n
      using that by (simp add: m1)
    moreover have "map_of since1 (ss_name s) = marker_after now s (map_of since (ss_name s))"
      by (simp add: m1)
    ultimately show ?thesis
      using Cons.IH [OF step _ d1] Cons.prems(2) True other by (auto 4 3 simp: image_iff)
  qed
qed auto

text \<open>
  Services with their configuration (name, critical, has a health URL), the snapshots of an
  evaluation at which the probes' states are \<open>st\<close>, and a run of evaluations.
\<close>

definition svc_snapshots :: "(string \<times> bool \<times> bool) list \<Rightarrow> (string \<Rightarrow> service_state) \<Rightarrow> service_snapshot list" where
  "svc_snapshots svcs st =
     map (\<lambda>(n, critical, configured).
            \<lparr>ss_name = n, ss_state = (if configured then st n else SvcNotConfigured),
             ss_fail_pipeline = critical\<rparr>) svcs"

definition su_run ::
  "(string \<times> bool \<times> bool) list \<Rightarrow> supervisor \<Rightarrow> (time_point \<times> (string \<Rightarrow> service_state)) list \<Rightarrow> supervisor" where
  "su_run svcs su evals = foldl (\<lambda>su (now, st). su_evaluate now (svc_snapshots svcs st) su) su evals"

text \<open>Since when a service has been unhealthy without interruption, looking back from the last evaluation.\<close>

definition unhealthy_since :: "string \<Rightarrow> (time_point \<times> (string \<Rightarrow> service_state)) list \<Rightarrow> time_point option" where
  "unhealthy_since n evals =
     (let streak = takeWhile (\<lambda>(t, st). st n = SvcUnhealthy) (rev evals)
      in if streak = [] then None else Some (fst (last streak)))"

lemma unhealthy_since_snoc:
  "unhealthy_since n (evals @ [(now, st)]) =
     (if st n = SvcUnhealthy then Some (case unhealthy_since n evals of None \<Rightarrow> now | Some t \<Rightarrow> t) else None)"
  by (simp add: unhealthy_since_def Let_def)

lemma gating_snapshots:
  assumes "\<And>n. st n \<noteq> SvcNotConfigured"
  shows "{s \<in> set (svc_snapshots svcs st). gating s} =
    (\<lambda>n. \<lparr>ss_name = n, ss_state = st n, ss_fail_pipeline = True\<rparr>) ` {n. (n, True, True) \<in> set svcs}"
  using assms by (auto simp: svc_snapshots_def gating_def image_iff) force

lemma su_run_markers:
  assumes "distinct (map fst svcs)" and "list_all (\<lambda>(t, st). \<forall>n. st n \<noteq> SvcNotConfigured) evals"
  shows "distinct (map fst (su_unhealthy_since (su_run svcs (su_new g) evals))) \<and>
    su_grace (su_run svcs (su_new g) evals) = 1000000000 * g \<and>
    (\<forall>n. (n, True, True) \<in> set svcs \<longrightarrow>
       map_of (su_unhealthy_since (su_run svcs (su_new g) evals)) n = unhealthy_since n evals)"
  using assms(2)
proof (induction evals rule: rev_induct)
  case Nil
  then show ?case by (simp add: su_run_def su_new_def unhealthy_since_def)
next
  case (snoc e evals)
  obtain now st where e: "e = (now, st)" by (meson surj_pair)
  let ?su = "su_run svcs (su_new g) evals" and ?ss = "svc_snapshots svcs st"
  obtain c f since where scan: "su_scan now (su_grace ?su) ?ss (False, False, su_unhealthy_since ?su) = (c, f, since)"
    by (metis prod_cases3)
  have "map ss_name ?ss = map fst svcs" by (auto simp: svc_snapshots_def)
  with assms(1) have d: "distinct (map ss_name ?ss)" by simp
  have gs: "{s \<in> set ?ss. gating s} =
      (\<lambda>n. \<lparr>ss_name = n, ss_state = st n, ss_fail_pipeline = True\<rparr>) ` {n. (n, True, True) \<in> set svcs}"
    using snoc.prems by (intro gating_snapshots) (simp add: e)
  have ih: "distinct (map fst (su_unhealthy_since ?su))" "su_grace ?su = 1000000000 * g"
    "\<And>n. (n, True, True) \<in> set svcs \<Longrightarrow> map_of (su_unhealthy_since ?su) n = unhealthy_since n evals"
    using snoc by auto
  note spec = su_scan_spec [OF scan d ih(1)]
  have "map_of since n = unhealthy_since n (evals @ [e])" if "(n, True, True) \<in> set svcs" for n
  proof -
    have "\<lparr>ss_name = n, ss_state = st n, ss_fail_pipeline = True\<rparr> \<in> {s \<in> set ?ss. gating s}"
      unfolding gs using that by blast
    then show ?thesis
      using spec ih(3) [OF that] by (auto simp: e unhealthy_since_snoc marker_after_def)
  qed
  with spec ih(2) scan show ?case
    by (simp add: su_run_def e su_evaluate_def Let_def)
qed

section \<open>Properties\<close>

text \<open>
  A monitor tells what the probes say. After any series of fewer than \<open>2 ^ 32\<close> probe results, a
  configured monitor's state is determined by the failures since the last success (healthy,
  degraded below the limit, unhealthy from the limit on), and the \<open>HealthChanged\<close> events it has
  published are exactly the changes of the public state, in order, starting from unknown.
\<close>

theorem monitor_reports_changes:
  assumes "length rs < 2 ^ 32" and "sv_health_url cfg \<noteq> []"
  shows "sm_state (sm_run (sm_new cfg) rs) = state_after cfg rs \<and>
    map health_of (sm_events (sm_run (sm_new cfg) rs)) =
      map Some (changes HsUnknown
        (map (\<lambda>k. to_health_state (state_after cfg (take (Suc k) rs))) [0..<length rs]))"
  using sm_run_state [OF assms] sm_run_events [OF assms] by (simp add: state_after_def)

theorem monitor_reports_changes_witness:
  "let cfg = \<lparr>sv_name = ''llm'', sv_health_url = ''http://h/'', sv_fail_pipeline = True,
              sv_interval_healthy = 5000, sv_interval_degraded = 1000, sv_degraded_max = 2\<rparr>;
       ok = \<lparr>pr_ok = True, pr_http_status = 200, pr_latency = 1, pr_excerpt = []\<rparr>;
       bad = \<lparr>pr_ok = False, pr_http_status = 500, pr_latency = 1, pr_excerpt = ''x''\<rparr>;
       m = sm_run (sm_new cfg) [(1, ok), (2, bad), (3, bad), (4, bad), (5, ok)]
   in sm_state m = SvcHealthy \<and>
      map health_of (sm_events m) = map Some [HsHealthy, HsDegraded, HsUnhealthy, HsHealthy]"
proof -
  let ?cfg = "\<lparr>sv_name = ''llm'', sv_health_url = ''http://h/'', sv_fail_pipeline = True,
              sv_interval_healthy = 5000, sv_interval_degraded = 1000, sv_degraded_max = 2\<rparr>"
  let ?ok = "\<lparr>pr_ok = True, pr_http_status = 200, pr_latency = 1, pr_excerpt = []\<rparr>"
  let ?bad = "\<lparr>pr_ok = False, pr_http_status = 500, pr_latency = 1, pr_excerpt = ''x''\<rparr>"
  have "[0..<5] = [0, 1, 2, 3, 4 :: nat]" by (simp add: upt_rec)
  with monitor_reports_changes [of "[(1, ?ok), (2, ?bad), (3, ?bad), (4, ?bad), (5, ?ok)]" ?cfg]
  show ?thesis
    by (simp add: Let_def state_after_def trailing_failures_def state_for_def)
qed

text \<open>
  The gate fails exactly on a critical service that stays down. After any evaluations over
  services with distinct names, the pipeline is failed if and only if some critical configured
  service has been unhealthy at every evaluation back to an instant at least the grace period
  before the last one; it reports no critical service if and only if there is none.
\<close>

theorem pipeline_gate:
  assumes "distinct (map fst svcs)"
    and "list_all (\<lambda>(t, st). \<forall>n. st n \<noteq> SvcNotConfigured) (evals @ [(now, st)])"
  shows "let su = su_run svcs (su_new g) (evals @ [(now, st)]) in
    (su_state su = PipeFailed \<longleftrightarrow>
       (\<exists>n t. (n, True, True) \<in> set svcs \<and> unhealthy_since n (evals @ [(now, st)]) = Some t \<and>
          1000000000 * g \<le> now - t)) \<and>
    (su_state su = PipeNoCritical \<longleftrightarrow> (\<forall>n. (n, True, True) \<notin> set svcs))"
proof -
  let ?su = "su_run svcs (su_new g) evals" and ?ss = "svc_snapshots svcs st"
  obtain c f since where scan: "su_scan now (su_grace ?su) ?ss (False, False, su_unhealthy_since ?su) = (c, f, since)"
    by (metis prod_cases3)
  have "map ss_name ?ss = map fst svcs" by (auto simp: svc_snapshots_def)
  with assms(1) have d: "distinct (map ss_name ?ss)" by simp
  have gs: "{s \<in> set ?ss. gating s} =
      (\<lambda>n. \<lparr>ss_name = n, ss_state = st n, ss_fail_pipeline = True\<rparr>) ` {n. (n, True, True) \<in> set svcs}"
    using assms(2) by (intro gating_snapshots) simp
  have ih: "distinct (map fst (su_unhealthy_since ?su))" "su_grace ?su = 1000000000 * g"
    "\<And>n. (n, True, True) \<in> set svcs \<Longrightarrow> map_of (su_unhealthy_since ?su) n = unhealthy_since n evals"
    using su_run_markers [OF assms(1), of evals g] assms(2) by auto
  note spec = su_scan_spec [OF scan d ih(1)]
  have "c \<longleftrightarrow> {s \<in> set ?ss. gating s} \<noteq> {}"
    using spec [THEN conjunct2, THEN conjunct1] by auto
  then have c: "c \<longleftrightarrow> (\<exists>n. (n, True, True) \<in> set svcs)"
    unfolding gs by simp
  have "f \<longleftrightarrow> (\<exists>s \<in> {s \<in> set ?ss. gating s}.
      \<exists>t. marker_after now s (map_of (su_unhealthy_since ?su) (ss_name s)) = Some t \<and> su_grace ?su \<le> now - t)"
    using spec [THEN conjunct2, THEN conjunct2, THEN conjunct2, THEN conjunct2] by blast
  then have "f \<longleftrightarrow> (\<exists>n \<in> {n. (n, True, True) \<in> set svcs}. \<exists>t.
      marker_after now \<lparr>ss_name = n, ss_state = st n, ss_fail_pipeline = True\<rparr>
        (map_of (su_unhealthy_since ?su) n) = Some t \<and> su_grace ?su \<le> now - t)"
    unfolding gs by simp
  moreover have "marker_after now \<lparr>ss_name = n, ss_state = st n, ss_fail_pipeline = True\<rparr>
      (map_of (su_unhealthy_since ?su) n) = unhealthy_since n (evals @ [(now, st)])"
    if "n \<in> {n. (n, True, True) \<in> set svcs}" for n
    using ih(3) that by (simp add: unhealthy_since_snoc marker_after_def)
  ultimately have f: "f \<longleftrightarrow> (\<exists>n t. (n, True, True) \<in> set svcs \<and>
      unhealthy_since n (evals @ [(now, st)]) = Some t \<and> 1000000000 * g \<le> now - t)"
    using ih(2) by auto
  have "su_state (su_run svcs (su_new g) (evals @ [(now, st)])) =
      (if \<not> c then PipeNoCritical else if f then PipeFailed else PipeOk)"
    using scan by (simp add: su_run_def su_evaluate_def Let_def)
  then show ?thesis
    unfolding Let_def using c f by auto
qed

theorem pipeline_gate_witness:
  "su_state (su_run [(''llm'', True, True)] (su_new 2)
     ([(1000000000, \<lambda>_. SvcUnhealthy)] @ [(3000000000, \<lambda>_. SvcUnhealthy)])) = PipeFailed"
  using pipeline_gate [of "[(''llm'', True, True)]" "[(1000000000, \<lambda>_. SvcUnhealthy)]" 3000000000
      "\<lambda>_. SvcUnhealthy" 2]
  by (simp add: Let_def unhealthy_since_def)

end
