(* ===== verification/Tts_Bridge.thy ===== *)
theory Tts_Bridge
  imports Playback_Queue Resampler
begin

text \<open>
  The TTS bridge of \<open>src/dialogue/tts_bridge.hpp\<close> and \<open>src/dialogue/tts_bridge.cpp\<close>: the bus thread
  that queues synthesis jobs and reacts to interruptions, and the I/O thread that takes one job at
  a time, calls the TTS client, resamples what comes back and fills the playback queue. The two
  threads interleave: a step is one critical section, one queue operation or one publication of
  the I/O thread, one callback of the client, one stage of a bus handler, or one dequeue by the
  audio thread. The TTS client is the environment that fires the callbacks; soxr is a parameter.
\<close>

section \<open>State\<close>

record job =
  jb_sentence :: llm_sentence
  jb_cancel :: token

text \<open>The locals of \<open>run_one\<close> that its callbacks share (the error text is only logged).\<close>

record 's synth =
  sy_job :: job
  sy_resampler :: "'s resampler option"
  sy_got_format :: bool
  sy_got_error :: bool
  sy_native_rate :: nat
  sy_captured :: "sample list"   \<comment> \<open>\<open>self_listen_samples\<close>\<close>

text \<open>Where the I/O thread is.\<close>

datatype 's io_pc =
    IoWait                            \<comment> \<open>on the condition variable\<close>
  | IoPicked job                      \<comment> \<open>before the first look at the token\<close>
  | IoStart job                       \<comment> \<open>before publishing \<open>TtsStarted\<close>\<close>
  | IoSubmit "'s synth"               \<comment> \<open>inside the client\<close>
  | IoEnqueue "'s synth" audio_chunk  \<comment> \<open>in \<open>on_audio\<close>, past the token check\<close>
  | IoAnnounce "'s synth" nat         \<comment> \<open>before publishing \<open>TtsAudioChunk\<close>\<close>
  | IoFlush "'s synth" "sample list"  \<comment> \<open>in the loop of \<open>flush\<close>\<close>
  | IoEos "'s synth" "sample list"    \<comment> \<open>before the second look at the token\<close>
  | IoPush "'s synth" audio_chunk     \<comment> \<open>polling in \<open>enqueue_blocking\<close>\<close>
  | IoAnnounceTail "'s synth" nat
  | IoCheck "'s synth"                \<comment> \<open>before the final look at the token\<close>
  | IoFinish "'s synth"               \<comment> \<open>counted, before publishing \<open>TtsFinished\<close>\<close>
  | IoRelease                         \<comment> \<open>before \<open>in_flight_.reset()\<close>\<close>
  | IoExited
  | IoCrashed                         \<comment> \<open>an exception left the thread function\<close>

text \<open>Where the bus thread is in \<open>on_user_interrupted\<close>.\<close>

datatype bus_pc = BusIdle | BusCancel "token list" | BusClear

text \<open>A self-listen hand-over: turn, sequence number, text, language, rate, samples.\<close>

type_synonym heard = "turn_id \<times> seq_no \<times> string \<times> string \<times> nat \<times> sample list"

record 's tts_bridge =
  tb_device_rate :: nat
  tb_self_listen :: bool
  tb_subscribed :: bool
  tb_pending :: "job list"
  tb_stopping :: bool
  tb_tokens :: "turn_id \<rightharpoonup> token"
  tb_in_flight :: "token option"
  tb_synthesized :: counter
  tb_cancelled :: counter
  tb_errored :: counter
  tb_heap :: heap
  tb_queue :: playback_queue
  tb_published :: "event list"
  tb_heard :: "heard list"
  tb_io :: "'s io_pc"
  tb_bus :: bus_pc

definition tb_new :: "nat \<Rightarrow> bool \<Rightarrow> playback_queue \<Rightarrow> 's tts_bridge" where
  "tb_new device_rate self_listen q =
     \<lparr>tb_device_rate = device_rate, tb_self_listen = self_listen, tb_subscribed = False,
      tb_pending = [], tb_stopping = False, tb_tokens = Map.empty, tb_in_flight = None,
      tb_synthesized = 0, tb_cancelled = 0, tb_errored = 0, tb_heap = [], tb_queue = q,
      tb_published = [], tb_heard = [], tb_io = IoExited, tb_bus = BusIdle\<rparr>"

text \<open>\<open>start\<close>; the previous \<open>stop\<close> has joined the I/O thread.\<close>

definition tb_start :: "'s tts_bridge \<Rightarrow> 's tts_bridge" where
  "tb_start s =
     (if tb_subscribed s \<or> tb_io s \<noteq> IoExited then s
      else s\<lparr>tb_stopping := False, tb_io := IoWait, tb_subscribed := True\<rparr>)"

text \<open>\<open>stop\<close> up to the join: unsubscribe (which waits for a running handler), cancel, signal.\<close>

definition cancel_opt :: "token option \<Rightarrow> heap \<Rightarrow> heap" where
  "cancel_opt t h = (case t of None \<Rightarrow> h | Some k \<Rightarrow> cancel_token k h)"

definition tb_stop :: "'s tts_bridge \<Rightarrow> 's tts_bridge" where
  "tb_stop s =
     (if tb_bus s \<noteq> BusIdle then s
      else s\<lparr>tb_subscribed := False, tb_heap := cancel_opt (tb_in_flight s) (tb_heap s), tb_stopping := True\<rparr>)"

definition tb_pending_size :: "'s tts_bridge \<Rightarrow> nat" where
  "tb_pending_size s = length (tb_pending s)"

section \<open>Bus handlers\<close>

definition tb_token_for :: "turn_id \<Rightarrow> 's tts_bridge \<Rightarrow> token \<times> 's tts_bridge" where
  "tb_token_for t s =
     (case tb_tokens s t of
        Some k \<Rightarrow> (k, s)
      | None \<Rightarrow> (case new_token (tb_heap s) of
                   (k, h) \<Rightarrow> (k, s\<lparr>tb_heap := h, tb_tokens := (tb_tokens s)(t \<mapsto> k)\<rparr>)))"

definition tb_llm_started :: "turn_id \<Rightarrow> 's tts_bridge \<Rightarrow> 's tts_bridge" where
  "tb_llm_started t s =
     (case new_token (tb_heap s) of
        (k, h) \<Rightarrow> s\<lparr>tb_heap := h, tb_tokens := (tb_tokens s)(t \<mapsto> k)\<rparr>)"

definition tb_llm_sentence :: "llm_sentence \<Rightarrow> 's tts_bridge \<Rightarrow> 's tts_bridge" where
  "tb_llm_sentence x s =
     (case tb_token_for (ls_turn x) s of
        (k, s1) \<Rightarrow>
          (if is_cancelled (tb_heap s1) k then s1\<lparr>tb_cancelled := tb_cancelled s1 + 1\<rparr>
           else s1\<lparr>tb_pending := tb_pending s1 @ [\<lparr>jb_sentence = x, jb_cancel = k\<rparr>]\<rparr>))"

definition tb_llm_finished :: "turn_id \<Rightarrow> 's tts_bridge \<Rightarrow> 's tts_bridge" where
  "tb_llm_finished t s = s\<lparr>tb_tokens := (tb_tokens s)(t := None)\<rparr>"

text \<open>The critical section of \<open>on_user_interrupted\<close>; \<open>tb_bus_step\<close> does what follows it.\<close>

definition tb_interrupt_lock :: "turn_id \<Rightarrow> 's tts_bridge \<Rightarrow> 's tts_bridge" where
  "tb_interrupt_lock t s =
     (let (own, s1) =
            (case tb_tokens s t of
               Some k \<Rightarrow> ([k], s)
             | None \<Rightarrow> (case new_token (tb_heap s) of
                          (k, h) \<Rightarrow> ([], s\<lparr>tb_heap := cancel_token k h,
                                          tb_tokens := (tb_tokens s)(t \<mapsto> k)\<rparr>)));
          stale = filter (\<lambda>j. ls_turn (jb_sentence j) = t) (tb_pending s1);
          kept = filter (\<lambda>j. ls_turn (jb_sentence j) \<noteq> t) (tb_pending s1)
      in s1\<lparr>tb_cancelled := tb_cancelled s1 + of_nat (length stale), tb_pending := kept,
            tb_bus := BusCancel (own @ (case tb_in_flight s1 of None \<Rightarrow> [] | Some k \<Rightarrow> [k]))\<rparr>)"

definition tb_bus_step :: "'s tts_bridge \<Rightarrow> 's tts_bridge" where
  "tb_bus_step s =
     (case tb_bus s of
        BusIdle \<Rightarrow> s
      | BusCancel (k # ks) \<Rightarrow> s\<lparr>tb_heap := cancel_token k (tb_heap s), tb_bus := BusCancel ks\<rparr>
      | BusCancel [] \<Rightarrow> s\<lparr>tb_bus := BusClear\<rparr>
      | BusClear \<Rightarrow> s\<lparr>tb_queue := snd (pq_clear (tb_queue s)), tb_bus := BusIdle\<rparr>)"

definition tb_on_event :: "event \<Rightarrow> 's tts_bridge \<Rightarrow> 's tts_bridge" where
  "tb_on_event e s =
     (if \<not> tb_subscribed s \<or> tb_bus s \<noteq> BusIdle then s
      else case e of
          LlmStarted t \<Rightarrow> tb_llm_started t s
        | LlmSentence x \<Rightarrow> tb_llm_sentence x s
        | LlmFinished t c n \<Rightarrow> tb_llm_finished t s
        | UserInterrupted t when_at \<Rightarrow> tb_interrupt_lock t s
        | _ \<Rightarrow> s)"

section \<open>The I/O thread\<close>

text \<open>Callbacks of the client during \<open>submit\<close>, and its return.\<close>

datatype callback = CbFormat int | CbAudio "sample list" | CbFinished | CbError | CbReturn

definition job_turn :: "job \<Rightarrow> turn_id" where
  "job_turn j = ls_turn (jb_sentence j)"

definition job_chunk :: "job \<Rightarrow> sample list \<Rightarrow> bool \<Rightarrow> audio_chunk" where
  "job_chunk j xs eos =
     \<lparr>ch_turn = job_turn j, ch_seq = ls_seq (jb_sentence j), ch_samples = xs, ch_eos = eos\<rparr>"

definition tb_on_format :: "('s, 'z) soxr_scheme \<Rightarrow> int \<Rightarrow> 's synth \<Rightarrow> 's tts_bridge \<Rightarrow> 's tts_bridge" where
  "tb_on_format sx rate y s =
     (if rate \<le> 0 then s\<lparr>tb_io := IoSubmit (y\<lparr>sy_got_error := True\<rparr>)\<rparr>
      else
        let y1 = y\<lparr>sy_native_rate := nat rate\<rparr>
        in if nat rate = tb_device_rate s
           then s\<lparr>tb_io := IoSubmit (y1\<lparr>sy_resampler := None, sy_got_format := True\<rparr>)\<rparr>
           else case resampler_new sx (nat rate) (tb_device_rate s) of
               Ok r \<Rightarrow> s\<lparr>tb_io := IoSubmit (y1\<lparr>sy_resampler := Some r, sy_got_format := True\<rparr>)\<rparr>
             | _ \<Rightarrow> s\<lparr>tb_io := IoCrashed\<rparr>)"

definition tb_on_audio ::
  "('s, 'z) soxr_scheme \<Rightarrow> sample list \<Rightarrow> 's synth \<Rightarrow> 's tts_bridge \<Rightarrow> 's tts_bridge" where
  "tb_on_audio sx xs y s =
     (if sy_got_error y \<or> is_cancelled (tb_heap s) (jb_cancel (sy_job y)) then s
      else
        let y1 = (if tb_self_listen s then y\<lparr>sy_captured := sy_captured y @ xs\<rparr> else y);
            res = (case sy_resampler y1 of
                     None \<Rightarrow> Ok (xs, None)
                   | Some r \<Rightarrow> bind_outcome (resampler_process sx xs r) (\<lambda>(out, r'). Ok (out, Some r')))
        in case res of
            Ok (out, r) \<Rightarrow>
              (let y2 = y1\<lparr>sy_resampler := r\<rparr>
               in if out = [] then s\<lparr>tb_io := IoSubmit y2\<rparr>
                  else s\<lparr>tb_io := IoEnqueue y2 (job_chunk (sy_job y2) out False)\<rparr>)
          | _ \<Rightarrow> s\<lparr>tb_io := IoCrashed\<rparr>)"

definition tb_callback :: "('s, 'z) soxr_scheme \<Rightarrow> callback \<Rightarrow> 's tts_bridge \<Rightarrow> 's tts_bridge" where
  "tb_callback sx cb s =
     (case tb_io s of
        IoSubmit y \<Rightarrow>
          (case cb of
             CbFormat rate \<Rightarrow> tb_on_format sx rate y s
           | CbAudio xs \<Rightarrow> tb_on_audio sx xs y s
           | CbFinished \<Rightarrow> s
           | CbError \<Rightarrow> s\<lparr>tb_io := IoSubmit (y\<lparr>sy_got_error := True\<rparr>)\<rparr>
           | CbReturn \<Rightarrow>
               s\<lparr>tb_io := (if sy_resampler y \<noteq> None \<and> sy_got_format y then IoFlush y [] else IoEos y [])\<rparr>)
      | _ \<Rightarrow> s)"

text \<open>
  The end of \<open>run_one\<close>: one round of the flush loop (an exception there leaves the tail empty),
  the last chunk, and the final bookkeeping.
\<close>

definition tb_flush_round ::
  "('s, 'z) soxr_scheme \<Rightarrow> 's synth \<Rightarrow> sample list \<Rightarrow> 's tts_bridge \<Rightarrow> 's tts_bridge" where
  "tb_flush_round sx y acc s =
     (case sy_resampler y of
        None \<Rightarrow> s\<lparr>tb_io := IoEos y acc\<rparr>
      | Some r \<Rightarrow>
          (case resampler_pull sx r of
             Ok (out, r') \<Rightarrow>
               (let y1 = y\<lparr>sy_resampler := Some r'\<rparr>
                in s\<lparr>tb_io := (if out = [] then IoEos y1 acc else IoFlush y1 (acc @ out))\<rparr>)
           | _ \<Rightarrow> s\<lparr>tb_io := IoEos y []\<rparr>))"

definition tb_push_eos :: "'s synth \<Rightarrow> audio_chunk \<Rightarrow> 's tts_bridge \<Rightarrow> 's tts_bridge" where
  "tb_push_eos y c s =
     (case pq_enqueue_blocking (tb_heap s) (Some (jb_cancel (sy_job y))) c (tb_queue s) of
        Done (ok, q) \<Rightarrow>
          s\<lparr>tb_queue := q,
            tb_io := (if ok \<and> ch_samples c \<noteq> [] then IoAnnounceTail y (2 * length (ch_samples c))
                      else IoCheck y)\<rparr>
      | _ \<Rightarrow> s)"

definition tb_settle :: "'s synth \<Rightarrow> 's tts_bridge \<Rightarrow> 's tts_bridge" where
  "tb_settle y s =
     (if is_cancelled (tb_heap s) (jb_cancel (sy_job y))
      then s\<lparr>tb_cancelled := tb_cancelled s + 1, tb_io := IoRelease\<rparr>
      else if sy_got_error y then s\<lparr>tb_errored := tb_errored s + 1, tb_io := IoRelease\<rparr>
      else s\<lparr>tb_synthesized := tb_synthesized s + 1, tb_io := IoFinish y\<rparr>)"

definition tb_finish :: "'s synth \<Rightarrow> 's tts_bridge \<Rightarrow> 's tts_bridge" where
  "tb_finish y s =
     (let x = jb_sentence (sy_job y)
      in s\<lparr>tb_published := tb_published s @ [TtsFinished (ls_turn x) (ls_seq x)],
           tb_heard := tb_heard s @
             (if tb_self_listen s \<and> sy_captured y \<noteq> [] \<and> 0 < sy_native_rate y
              then [(ls_turn x, ls_seq x, ls_text x, ls_lang x, sy_native_rate y, sy_captured y)] else []),
           tb_io := IoRelease\<rparr>)"

definition tb_take_job :: "'s tts_bridge \<Rightarrow> 's tts_bridge" where
  "tb_take_job s =
     (case tb_pending s of
        [] \<Rightarrow> (if tb_stopping s then s\<lparr>tb_io := IoExited\<rparr> else s)
      | j # js \<Rightarrow> s\<lparr>tb_pending := js, tb_in_flight := Some (jb_cancel j), tb_io := IoPicked j\<rparr>)"

definition publish_audio :: "'s synth \<Rightarrow> nat \<Rightarrow> 's io_pc \<Rightarrow> 's tts_bridge \<Rightarrow> 's tts_bridge" where
  "publish_audio y bytes pc s =
     s\<lparr>tb_published := tb_published s @
         [TtsAudioChunk (job_turn (sy_job y)) (ls_seq (jb_sentence (sy_job y))) bytes],
       tb_io := pc\<rparr>"

definition synth_new :: "job \<Rightarrow> 's synth" where
  "synth_new j =
     \<lparr>sy_job = j, sy_resampler = None, sy_got_format = False, sy_got_error = False,
      sy_native_rate = 0, sy_captured = []\<rparr>"

definition tb_io_step :: "('s, 'z) soxr_scheme \<Rightarrow> 's tts_bridge \<Rightarrow> 's tts_bridge" where
  "tb_io_step sx s =
     (case tb_io s of
        IoWait \<Rightarrow> tb_take_job s
      | IoPicked j \<Rightarrow>
          (if is_cancelled (tb_heap s) (jb_cancel j)
           then s\<lparr>tb_cancelled := tb_cancelled s + 1, tb_io := IoRelease\<rparr>
           else s\<lparr>tb_io := IoStart j\<rparr>)
      | IoStart j \<Rightarrow>
          s\<lparr>tb_published := tb_published s @ [TtsStarted (job_turn j) (ls_seq (jb_sentence j))],
            tb_io := IoSubmit (synth_new j)\<rparr>
      | IoSubmit y \<Rightarrow> s
      | IoEnqueue y c \<Rightarrow>
          (case pq_enqueue c (tb_queue s) of
             (ok, q) \<Rightarrow> s\<lparr>tb_queue := q,
                          tb_io := (if ok then IoAnnounce y (2 * length (ch_samples c)) else IoSubmit y)\<rparr>)
      | IoAnnounce y bytes \<Rightarrow> publish_audio y bytes (IoSubmit y) s
      | IoFlush y acc \<Rightarrow> tb_flush_round sx y acc s
      | IoEos y acc \<Rightarrow>
          s\<lparr>tb_io := (if is_cancelled (tb_heap s) (jb_cancel (sy_job y)) then IoCheck y
                      else IoPush y (job_chunk (sy_job y) acc True))\<rparr>
      | IoPush y c \<Rightarrow> tb_push_eos y c s
      | IoAnnounceTail y bytes \<Rightarrow> publish_audio y bytes (IoCheck y) s
      | IoCheck y \<Rightarrow> tb_settle y s
      | IoFinish y \<Rightarrow> tb_finish y s
      | IoRelease \<Rightarrow> s\<lparr>tb_in_flight := None, tb_io := IoWait\<rparr>
      | IoExited \<Rightarrow> s
      | IoCrashed \<Rightarrow> s)"

section \<open>Interleavings\<close>

text \<open>\<open>Render\<close> is the audio thread taking a chunk for a turn; it shares the queue.\<close>

datatype tb_act = Deliver event | BusGoesOn | IoGoesOn | Callback callback | Render turn_id | Start | Stop

fun tb_step :: "('s, 'z) soxr_scheme \<Rightarrow> 's tts_bridge \<Rightarrow> tb_act \<Rightarrow> 's tts_bridge" where
  "tb_step sx s (Deliver e) = tb_on_event e s"
| "tb_step sx s BusGoesOn = tb_bus_step s"
| "tb_step sx s IoGoesOn = tb_io_step sx s"
| "tb_step sx s (Callback cb) = tb_callback sx cb s"
| "tb_step sx s (Render t) = s\<lparr>tb_queue := snd (pq_dequeue_active t (tb_queue s))\<rparr>"
| "tb_step sx s Start = tb_start s"
| "tb_step sx s Stop = tb_stop s"

abbreviation tb_run :: "('s, 'z) soxr_scheme \<Rightarrow> 's tts_bridge \<Rightarrow> tb_act list \<Rightarrow> 's tts_bridge" where
  "tb_run sx \<equiv> foldl (tb_step sx)"


lemmas tb_bus_defs = tb_on_event_def tb_llm_started_def tb_llm_sentence_def tb_llm_finished_def
  tb_interrupt_lock_def tb_token_for_def tb_bus_step_def new_token_def
lemmas tb_io_defs = tb_io_step_def tb_take_job_def tb_flush_round_def tb_push_eos_def tb_settle_def
  tb_finish_def publish_audio_def synth_new_def
lemmas tb_cb_defs = tb_callback_def tb_on_format_def tb_on_audio_def
lemmas tb_ctl_defs = tb_start_def tb_stop_def

section \<open>Every sentence is accounted for\<close>

text \<open>One while a job is in hand and not yet counted.\<close>

fun io_busy :: "'s io_pc \<Rightarrow> nat" where
  "io_busy IoWait = 0"
| "io_busy (IoFinish y) = 0"
| "io_busy IoRelease = 0"
| "io_busy IoExited = 0"
| "io_busy _ = 1"

definition tb_takes :: "'s tts_bridge \<Rightarrow> tb_act \<Rightarrow> nat" where
  "tb_takes s a =
     (case a of
        Deliver (LlmSentence x) \<Rightarrow> if tb_subscribed s \<and> tb_bus s = BusIdle then 1 else 0
      | _ \<Rightarrow> 0)"

fun tb_received :: "('s, 'z) soxr_scheme \<Rightarrow> 's tts_bridge \<Rightarrow> tb_act list \<Rightarrow> nat" where
  "tb_received sx s [] = 0"
| "tb_received sx s (a # as) = tb_takes s a + tb_received sx (tb_step sx s a) as"

definition tb_accounted :: "'s tts_bridge \<Rightarrow> counter" where
  "tb_accounted s =
     tb_synthesized s + tb_cancelled s + tb_errored s + of_nat (length (tb_pending s)) +
     of_nat (io_busy (tb_io s))"

lemma io_busy_submit: "tb_io s = IoSubmit y \<Longrightarrow> io_busy (tb_io (tb_callback sx cb s)) = 1 \<and>
    tb_pending (tb_callback sx cb s) = tb_pending s \<and>
    tb_synthesized (tb_callback sx cb s) = tb_synthesized s \<and>
    tb_cancelled (tb_callback sx cb s) = tb_cancelled s \<and> tb_errored (tb_callback sx cb s) = tb_errored s"
  by (auto simp: tb_cb_defs Let_def split: callback.splits outcome.splits)

lemma tb_io_accounted: "tb_accounted (tb_io_step sx s) = tb_accounted s"
  by (cases "tb_io s")
    (auto simp: tb_accounted_def tb_io_defs Let_def split: list.splits prod.splits option.splits
      outcome.splits exec.splits)

lemma tb_bus_accounted:
  "tb_accounted (tb_on_event e s) = tb_accounted s + of_nat (tb_takes s (Deliver e))"
proof (cases e)
  case (UserInterrupted t w)
  show ?thesis
    using length_filter_split [of "\<lambda>j. ls_turn (jb_sentence j) = t" "tb_pending s", where 'a = "64 word"]
    by (cases "tb_tokens s t") (auto simp: UserInterrupted tb_accounted_def tb_takes_def tb_bus_defs Let_def algebra_simps)
qed (auto simp: tb_accounted_def tb_takes_def tb_bus_defs Let_def split: option.splits)

lemma tb_step_accounted: "tb_accounted (tb_step sx s a) = tb_accounted s + of_nat (tb_takes s a)"
proof (cases a)
  case (Callback cb)
  then show ?thesis
    using io_busy_submit [of s _ sx cb]
    by (cases "tb_io s") (auto simp: tb_accounted_def tb_takes_def tb_callback_def)
next
  case (Deliver e)
  then show ?thesis by (simp add: tb_bus_accounted)
next
  case IoGoesOn
  then show ?thesis by (simp add: tb_io_accounted tb_takes_def)
qed (auto simp: tb_accounted_def tb_takes_def tb_bus_step_def
    tb_ctl_defs split: bus_pc.splits list.splits)

text \<open>
  C25. Every sentence is counted exactly once. Under every interleaving of the bus thread, the I/O
  thread, the client's callbacks and the audio thread, the sentences the bridge has received are
  the synthesized, the cancelled and the failed ones, those still pending and the one in hand
  (counters modulo \<open>2 ^ 64\<close>): none is lost, none is counted twice.
\<close>

theorem tts_sentences_accounted:
  "of_nat (tb_received sx (tb_new rate listen q) acts) =
     tb_accounted (tb_run sx (tb_new rate listen q :: 's tts_bridge) acts)"
proof -
  have "tb_accounted (tb_run sx s acts) = tb_accounted s + of_nat (tb_received sx s acts)"
    for s :: "'s tts_bridge"
    by (induction acts arbitrary: s) (auto simp: tb_step_accounted algebra_simps)
  then show ?thesis by (simp add: tb_accounted_def tb_new_def)
qed

section \<open>An interruption silences its turn\<close>

fun io_job :: "'s io_pc \<Rightarrow> job option" where
  "io_job (IoPicked j) = Some j"
| "io_job (IoStart j) = Some j"
| "io_job (IoSubmit y) = Some (sy_job y)"
| "io_job (IoEnqueue y c) = Some (sy_job y)"
| "io_job (IoAnnounce y n) = Some (sy_job y)"
| "io_job (IoFlush y acc) = Some (sy_job y)"
| "io_job (IoEos y acc) = Some (sy_job y)"
| "io_job (IoPush y c) = Some (sy_job y)"
| "io_job (IoAnnounceTail y n) = Some (sy_job y)"
| "io_job (IoCheck y) = Some (sy_job y)"
| "io_job (IoFinish y) = Some (sy_job y)"
| "io_job _ = None"

fun io_chunk :: "'s io_pc \<Rightarrow> audio_chunk option" where
  "io_chunk (IoEnqueue y c) = Some c"
| "io_chunk (IoPush y c) = Some c"
| "io_chunk _ = None"

fun bus_tokens :: "bus_pc \<Rightarrow> token set" where
  "bus_tokens (BusCancel ks) = set ks"
| "bus_tokens _ = {}"

text \<open>
  Well-formedness: every token is allocated, the job in hand is the one marked in flight, and a
  chunk on its way to the queue is of that job's turn.
\<close>

definition tb_wf :: "'s tts_bridge \<Rightarrow> bool" where
  "tb_wf s \<longleftrightarrow>
     (\<forall>k \<in> ran (tb_tokens s) \<union> jb_cancel ` set (tb_pending s) \<union> bus_tokens (tb_bus s) \<union>
        set_option (tb_in_flight s). k < length (tb_heap s)) \<and>
     (case io_job (tb_io s) of
        None \<Rightarrow> True
      | Some j \<Rightarrow> tb_in_flight s = Some (jb_cancel j) \<and>
          (case io_chunk (tb_io s) of None \<Rightarrow> True | Some c \<Rightarrow> ch_turn c = job_turn j))"

text \<open>
  Turn \<open>t\<close> is silenced up to the tokens \<open>E\<close> that a handler is still to cancel: its token is
  installed and cancelled, it has no pending job, and a job of it in hand is cancelled.
\<close>

definition silenced :: "turn_id \<Rightarrow> token set \<Rightarrow> 's tts_bridge \<Rightarrow> bool" where
  "silenced t E s \<longleftrightarrow>
     (\<exists>k. tb_tokens s t = Some k \<and> (is_cancelled (tb_heap s) k \<or> k \<in> E)) \<and>
     (\<forall>j \<in> set (tb_pending s). job_turn j \<noteq> t) \<and>
     (case io_job (tb_io s) of
        None \<Rightarrow> True
      | Some j \<Rightarrow> job_turn j \<noteq> t \<or> is_cancelled (tb_heap s) (jb_cancel j) \<or> jb_cancel j \<in> E)"

text \<open>An event that gives the turn a new token.\<close>

fun reopens :: "turn_id \<Rightarrow> tb_act \<Rightarrow> bool" where
  "reopens t (Deliver (LlmStarted t')) = (t' = t)"
| "reopens t (Deliver (LlmFinished t' c n)) = (t' = t)"
| "reopens t _ = False"

text \<open>What the I/O thread may still do for a turn it is past the token check of.\<close>

definition chunk_left :: "turn_id \<Rightarrow> 's io_pc \<Rightarrow> nat" where
  "chunk_left t pc = (case io_chunk pc of Some c \<Rightarrow> if ch_turn c = t then 1 else 0 | None \<Rightarrow> 0)"

fun event_left :: "turn_id \<Rightarrow> 's io_pc \<Rightarrow> nat" where
  "event_left t (IoStart j) = (if job_turn j = t then 1 else 0)"
| "event_left t (IoEnqueue y c) = (if job_turn (sy_job y) = t then 1 else 0)"
| "event_left t (IoAnnounce y n) = (if job_turn (sy_job y) = t then 1 else 0)"
| "event_left t (IoPush y c) = (if job_turn (sy_job y) = t then 1 else 0)"
| "event_left t (IoAnnounceTail y n) = (if job_turn (sy_job y) = t then 1 else 0)"
| "event_left t (IoFinish y) = (if job_turn (sy_job y) = t then 1 else 0)"
| "event_left t _ = 0"

definition queued_chunks :: "turn_id \<Rightarrow> 's tts_bridge \<Rightarrow> nat" where
  "queued_chunks t s = length (filter (\<lambda>c. ch_turn c = t) (pq_q (tb_queue s)))"

definition published_about :: "turn_id \<Rightarrow> 's tts_bridge \<Rightarrow> nat" where
  "published_about t s = length (filter (\<lambda>e. event_turn e = t) (tb_published s))"

lemma is_cancelled_less: "is_cancelled h k \<Longrightarrow> k < length h"
  by (simp add: is_cancelled_def)

lemma silenced_mono: "silenced t E s \<Longrightarrow> E \<subseteq> F \<Longrightarrow> silenced t F s"
  by (auto simp: silenced_def split: option.splits)

lemma tb_wf_new: "tb_wf (tb_new rate listen q)"
  by (simp add: tb_wf_def tb_new_def)

lemma tb_wf_callback: "tb_wf s \<Longrightarrow> tb_wf (tb_callback sx cb s)"
  by (cases "tb_io s")
    (auto simp: tb_wf_def tb_cb_defs Let_def job_chunk_def split: callback.splits outcome.splits)

lemma tb_wf_io: "tb_wf s \<Longrightarrow> tb_wf (tb_io_step sx s)"
  by (cases "tb_io s")
    (auto simp: tb_wf_def tb_io_defs Let_def job_chunk_def
      split: list.splits prod.splits option.splits outcome.splits exec.splits)

lemma tb_wf_bus: "tb_wf s \<Longrightarrow> tb_wf (tb_bus_step s)"
  by (cases "tb_bus s") (auto simp: tb_wf_def tb_bus_step_def split: option.splits list.splits)

lemma tb_wf_ctl: "tb_wf s \<Longrightarrow> tb_wf (tb_start s)" "tb_wf s \<Longrightarrow> tb_wf (tb_stop s)"
  by (auto simp: tb_wf_def tb_ctl_defs cancel_opt_def split: option.splits)

lemma tb_wf_event: "tb_wf s \<Longrightarrow> tb_wf (tb_on_event e s)"
proof (cases e)
  case (UserInterrupted t w)
  assume wf: "tb_wf s"
  show ?thesis
  proof (cases "tb_tokens s t")
    case None
    with wf show ?thesis
      by (force simp: UserInterrupted tb_wf_def tb_bus_defs Let_def ran_def less_Suc_eq split: option.splits)
  next
    case (Some k)
    with wf show ?thesis
      by (force simp: UserInterrupted tb_wf_def tb_bus_defs Let_def ran_def split: option.splits)
  qed
next
  case (LlmSentence x)
  assume wf: "tb_wf s"
  show ?thesis
  proof (cases "tb_tokens s (ls_turn x)")
    case None
    with wf show ?thesis
      by (force simp: LlmSentence tb_wf_def tb_bus_defs Let_def ran_def less_Suc_eq split: option.splits)
  next
    case (Some k)
    with wf show ?thesis
      by (force simp: LlmSentence tb_wf_def tb_bus_defs Let_def ran_def split: option.splits)
  qed
next
  case (LlmStarted t)
  assume "tb_wf s"
  then show ?thesis
    by (force simp: LlmStarted tb_wf_def tb_bus_defs ran_def less_Suc_eq split: option.splits)
next
  case (LlmFinished t c n)
  assume "tb_wf s"
  then show ?thesis
    by (force simp: LlmFinished tb_wf_def tb_bus_defs ran_def split: option.splits)
qed (simp_all add: tb_on_event_def)

lemma tb_queue_update:
  "tb_wf (s\<lparr>tb_queue := q\<rparr>) = tb_wf s" "silenced t E (s\<lparr>tb_queue := q\<rparr>) = silenced t E s"
  by (auto simp: tb_wf_def silenced_def split: option.splits)

lemma tb_wf_step: "tb_wf s \<Longrightarrow> tb_wf (tb_step sx s a)"
  by (cases a) (auto intro: tb_wf_callback tb_wf_io tb_wf_bus tb_wf_ctl tb_wf_event simp: tb_queue_update)

interpretation bridge: step_machine "tb_step sx" tb_wf
  by unfold_locales (rule tb_wf_step)

lemma silenced_callback: "silenced t E s \<Longrightarrow> silenced t E (tb_callback sx cb s)"
  by (cases "tb_io s")
    (auto simp: silenced_def tb_cb_defs Let_def split: callback.splits outcome.splits)

lemma silenced_io: "silenced t E s \<Longrightarrow> silenced t E (tb_io_step sx s)"
  by (cases "tb_io s")
    (auto simp: silenced_def tb_io_defs Let_def
      split: list.splits prod.splits option.splits outcome.splits exec.splits)

lemma silenced_ctl:
  "silenced t E s \<Longrightarrow> silenced t E (tb_start s)" "silenced t E s \<Longrightarrow> silenced t E (tb_stop s)"
  by (auto simp: silenced_def tb_ctl_defs cancel_opt_def cancel_token_mono split: option.splits)

lemma silenced_bus:
  assumes "tb_wf s" and "silenced t (bus_tokens (tb_bus s)) s"
  shows "silenced t (bus_tokens (tb_bus (tb_bus_step s))) (tb_bus_step s)"
proof (cases "tb_bus s")
  case (BusCancel ks)
  with assms show ?thesis
    by (cases ks)
      (force simp: silenced_def tb_wf_def tb_bus_step_def is_cancelled_cancel split: option.splits)+
qed (use assms in \<open>auto simp: silenced_def tb_bus_step_def split: option.splits\<close>)

lemma silenced_bus_strict: "silenced t {} s \<Longrightarrow> silenced t {} (tb_bus_step s)"
  by (auto simp: silenced_def tb_bus_step_def cancel_token_mono
      split: bus_pc.splits list.splits option.splits)

lemma silenced_event:
  assumes "silenced t {} s" and "\<not> reopens t (Deliver e)" and "tb_wf s"
  shows "silenced t {} (tb_on_event e s)"
proof (cases e)
  case (UserInterrupted u w)
  show ?thesis
  proof (cases "tb_tokens s u")
    case None
    with assms show ?thesis
      by (auto simp: UserInterrupted silenced_def tb_bus_defs Let_def is_cancelled_def
          cancel_token_def nth_append nth_list_update split: option.splits)
  next
    case (Some k)
    with assms show ?thesis
      by (auto simp: UserInterrupted silenced_def tb_bus_defs Let_def split: option.splits)
  qed
next
  case (LlmSentence x)
  show ?thesis
  proof (cases "tb_tokens s (ls_turn x)")
    case None
    with assms show ?thesis
      by (auto simp: LlmSentence silenced_def tb_bus_defs Let_def job_turn_def split: option.splits)
  next
    case (Some k)
    with assms show ?thesis
      by (auto simp: LlmSentence silenced_def tb_bus_defs Let_def job_turn_def split: option.splits)
  qed
next
  case (LlmStarted u)
  with assms show ?thesis
    by (auto simp: silenced_def tb_bus_defs split: option.splits)
next
  case (LlmFinished u c n)
  with assms show ?thesis
    by (auto simp: silenced_def tb_bus_defs split: option.splits)
qed (use assms in \<open>simp_all add: tb_on_event_def\<close>)

lemma silenced_step:
  assumes "tb_wf s" and "silenced t {} s" and "\<not> reopens t a"
  shows "silenced t {} (tb_step sx s a)"
  using assms
  by (cases a)
    (auto intro: silenced_callback silenced_io silenced_ctl silenced_bus_strict silenced_event
      simp: tb_queue_update)

text \<open>The critical section of the handler installs the silence, up to the tokens it collected.\<close>

lemma interrupt_silences:
  assumes "tb_wf s" and "tb_subscribed s" and "tb_bus s = BusIdle"
  shows "silenced t (bus_tokens (tb_bus (tb_on_event (UserInterrupted t w) s)))
           (tb_on_event (UserInterrupted t w) s)"
proof (cases "tb_tokens s t")
  case None
  with assms show ?thesis
    by (auto simp: silenced_def tb_wf_def tb_bus_defs Let_def job_turn_def is_cancelled_cancel split: option.splits)
next
  case (Some k)
  with assms show ?thesis
    by (auto simp: silenced_def tb_wf_def tb_bus_defs Let_def job_turn_def split: option.splits)
qed

lemma queued_dequeue:
  "queued_chunks t (s\<lparr>tb_queue := snd (pq_dequeue_active u (tb_queue s))\<rparr>) \<le> queued_chunks t s"
proof (cases "pq_dequeue_active u (tb_queue s)")
  case (Pair r q')
  show ?thesis
  proof (cases r)
    case None
    with Pair pq_dequeue_active_None [of u "tb_queue s" q'] show ?thesis
      by (simp add: queued_chunks_def)
  next
    case (Some c)
    with Pair pq_dequeue_active_Some [of u "tb_queue s" c q'] obtain xs where "pq_q (tb_queue s) = xs @ c # pq_q q'"
      by blast
    with Pair show ?thesis by (simp add: queued_chunks_def)
  qed
qed

lemma callback_quiet:
  "tb_queue (tb_callback sx cb s) = tb_queue s" "tb_published (tb_callback sx cb s) = tb_published s"
  by (auto simp: tb_cb_defs Let_def split: io_pc.splits callback.splits outcome.splits)

lemma event_quiet:
  "tb_queue (tb_on_event e s) = tb_queue s" "tb_published (tb_on_event e s) = tb_published s"
  "tb_io (tb_on_event e s) = tb_io s"
  by (auto simp: tb_bus_defs Let_def split: event.splits option.splits)

lemma callback_left:
  assumes "silenced t {} s"
  shows "chunk_left t (tb_io (tb_callback sx cb s)) \<le> chunk_left t (tb_io s)"
    and "event_left t (tb_io (tb_callback sx cb s)) \<le> event_left t (tb_io s)"
  using assms
  by (cases "tb_io s",
      auto simp: silenced_def chunk_left_def tb_cb_defs Let_def job_chunk_def
        split: callback.splits outcome.splits)+

lemma io_chunks:
  assumes "tb_wf s" and "silenced t {} s"
  shows "queued_chunks t (tb_io_step sx s) + chunk_left t (tb_io (tb_io_step sx s))
    \<le> queued_chunks t s + chunk_left t (tb_io s)"
  using assms
  by (cases "tb_io s")
    (auto simp: silenced_def tb_wf_def chunk_left_def queued_chunks_def tb_io_defs Let_def job_chunk_def
        pq_enqueue_def pq_enqueue_blocking_def pq_append_def
      split: list.splits prod.splits option.splits outcome.splits exec.splits)

lemma io_events:
  assumes "tb_wf s" and "silenced t {} s"
  shows "published_about t (tb_io_step sx s) + event_left t (tb_io (tb_io_step sx s))
    \<le> published_about t s + event_left t (tb_io s)"
  using assms
  by (cases "tb_io s")
    (auto simp: silenced_def tb_wf_def published_about_def tb_io_defs Let_def job_turn_def
      split: list.splits prod.splits option.splits outcome.splits exec.splits)

lemma step_chunks:
  assumes "tb_wf s" and "silenced t {} s"
  shows "queued_chunks t (tb_step sx s a) + chunk_left t (tb_io (tb_step sx s a))
    \<le> queued_chunks t s + chunk_left t (tb_io s)"
proof (cases a)
  case (Callback cb)
  with callback_left(1) [OF assms(2)] show ?thesis by (simp add: queued_chunks_def callback_quiet)
next
  case (Deliver e)
  then show ?thesis by (simp add: queued_chunks_def event_quiet)
next
  case IoGoesOn
  with io_chunks [OF assms] show ?thesis by simp
next
  case (Render u)
  then show ?thesis using queued_dequeue [of t u s] by simp
qed (auto simp: tb_ctl_defs queued_chunks_def chunk_left_def tb_bus_step_def pq_clear_def
    split: bus_pc.splits list.splits)

lemma step_events:
  assumes "tb_wf s" and "silenced t {} s"
  shows "published_about t (tb_step sx s a) + event_left t (tb_io (tb_step sx s a))
    \<le> published_about t s + event_left t (tb_io s)"
proof (cases a)
  case (Callback cb)
  with callback_left(2) [OF assms(2)] show ?thesis by (simp add: published_about_def callback_quiet)
next
  case (Deliver e)
  then show ?thesis by (simp add: published_about_def event_quiet)
next
  case IoGoesOn
  with io_events [OF assms] show ?thesis by simp
qed (auto simp: tb_ctl_defs published_about_def tb_bus_step_def
    split: bus_pc.splits list.splits)

lemma chunk_left_le: "chunk_left t pc \<le> 1"
  by (simp add: chunk_left_def split: option.splits)

lemma event_left_le: "event_left t pc \<le> 1"
  by (cases pc) auto

text \<open>A silenced turn stays silent.\<close>

lemma silenced_run:
  assumes "tb_wf s" and "silenced t {} s" and "list_all (\<lambda>a. \<not> reopens t a) acts"
  shows "silenced t {} (tb_run sx s acts) \<and>
    queued_chunks t (tb_run sx s acts) + chunk_left t (tb_io (tb_run sx s acts))
      \<le> queued_chunks t s + chunk_left t (tb_io s) \<and>
    published_about t (tb_run sx s acts) + event_left t (tb_io (tb_run sx s acts))
      \<le> published_about t s + event_left t (tb_io s)"
  using assms
proof (induction acts arbitrary: s)
  case (Cons a as)
  have "silenced t {} (tb_step sx s a)"
    using Cons.prems by (intro silenced_step) auto
  from Cons.IH [OF tb_wf_step [OF Cons.prems(1)] this] Cons.prems(3)
    step_chunks [OF Cons.prems(1,2), of sx a] step_events [OF Cons.prems(1,2), of sx a]
  show ?case by auto
qed simp

text \<open>The rest of the handler, interleaved with anything but another bus event.\<close>

definition no_event :: "tb_act \<Rightarrow> bool" where
  "no_event a = (case a of Deliver e \<Rightarrow> False | _ \<Rightarrow> True)"

lemma handler_run:
  assumes "tb_wf s" and "silenced t (bus_tokens (tb_bus s)) s"
    and "tb_bus s = BusIdle \<Longrightarrow> queued_chunks t s + chunk_left t (tb_io s) \<le> 1"
    and "list_all no_event acts" and "tb_bus (tb_run sx s acts) = BusIdle"
  shows "silenced t {} (tb_run sx s acts) \<and>
    queued_chunks t (tb_run sx s acts) + chunk_left t (tb_io (tb_run sx s acts)) \<le> 1"
  using assms
proof (induction acts arbitrary: s)
  case (Cons a as)
  let ?s = "tb_step sx s a"
  have other: "tb_bus ?s = tb_bus s" if "a \<noteq> BusGoesOn"
    using that Cons.prems(4)
    by (cases a) (auto simp: no_event_def tb_ctl_defs tb_cb_defs tb_io_defs Let_def
        split: io_pc.splits callback.splits outcome.splits list.splits option.splits prod.splits exec.splits)
  have E: "silenced t (bus_tokens (tb_bus s)) ?s" if "a \<noteq> BusGoesOn"
    using that Cons.prems(2,4)
    by (cases a) (auto intro: silenced_callback silenced_io silenced_ctl simp: tb_queue_update no_event_def)
  have sil: "silenced t (bus_tokens (tb_bus ?s)) ?s"
  proof (cases "a = BusGoesOn")
    case True
    with silenced_bus [OF Cons.prems(1,2)] show ?thesis by simp
  next
    case False
    with E other show ?thesis by simp
  qed
  have one: "queued_chunks t ?s + chunk_left t (tb_io ?s) \<le> 1" if idle: "tb_bus ?s = BusIdle"
  proof (cases "tb_bus s = BusIdle")
    case True
    then have "silenced t {} s" using Cons.prems(2) by simp
    from step_chunks [OF Cons.prems(1) this, of sx a] Cons.prems(3) [OF True] show ?thesis by simp
  next
    case False
    then have "a = BusGoesOn" using other idle by auto
    with False idle have "tb_queue ?s = snd (pq_clear (tb_queue s))"
      by (auto simp: tb_bus_step_def split: bus_pc.splits list.splits)
    with chunk_left_le [of t "tb_io ?s"] show ?thesis by (simp add: queued_chunks_def pq_clear_def)
  qed
  show ?case
    using Cons.IH [OF tb_wf_step [OF Cons.prems(1)] sil one] Cons.prems(4,5) by simp
qed (use assms in auto)

text \<open>
  C6. An interruption silences its turn, whatever the threads do. Take any history of the bridge,
  an interruption of turn \<open>t\<close> and any interleaving with the handler until it is done. From then on,
  as long as the turn's stream is neither started again nor finished, the queue holds at most one
  chunk of the turn (the one the I/O thread was already past the token check for), the bridge
  publishes at most one more event about it, no sentence of it is pending, and its token stays
  cancelled.
\<close>

theorem interruption_silences_turn:
  fixes sx :: "('s, 'z) soxr_scheme" and rate :: nat and listen :: bool and q :: playback_queue
    and before during after :: "tb_act list" and t :: turn_id and w :: time_point
  defines "s1 \<equiv> tb_run sx (tb_new rate listen q) before"
  defines "s2 \<equiv> tb_run sx (tb_on_event (UserInterrupted t w) s1) during"
  defines "s3 \<equiv> tb_run sx s2 after"
  assumes "tb_subscribed s1" and "tb_bus s1 = BusIdle" and "list_all no_event during"
    and "tb_bus s2 = BusIdle" and "list_all (\<lambda>a. \<not> reopens t a) after"
  shows "queued_chunks t s3 \<le> 1 \<and> published_about t s3 \<le> published_about t s2 + 1 \<and>
    (\<forall>j \<in> set (tb_pending s3). job_turn j \<noteq> t) \<and>
    (\<exists>k. tb_tokens s3 t = Some k \<and> is_cancelled (tb_heap s3) k)"
proof -
  let ?s = "tb_on_event (UserInterrupted t w) s1"
  have wf1: "tb_wf s1"
    unfolding s1_def by (rule bridge.run_inv) (rule tb_wf_new)
  then have wf: "tb_wf ?s" and wf2: "tb_wf s2"
    unfolding s2_def by (auto intro: bridge.run_inv tb_wf_event)
  have busy: "tb_bus ?s \<noteq> BusIdle"
    using assms(4,5) by (auto simp: tb_bus_defs Let_def split: option.splits)
  have "silenced t (bus_tokens (tb_bus ?s)) ?s"
    using interrupt_silences [OF wf1 assms(4,5)] .
  with handler_run [OF wf this _ assms(6)] busy assms(7)
  have sil: "silenced t {} s2" and one: "queued_chunks t s2 + chunk_left t (tb_io s2) \<le> 1"
    by (auto simp: s2_def)
  from silenced_run [OF wf2 sil assms(8), of sx] one event_left_le [of t "tb_io s2"] show ?thesis
    by (auto simp: s3_def silenced_def)
qed

section \<open>One sentence from start to end\<close>

text \<open>The I/O thread alone with the client: each callback, then the two steps it may leave.\<close>

definition audio_acts :: "sample list list \<Rightarrow> tb_act list" where
  "audio_acts css = concat (map (\<lambda>xs. [Callback (CbAudio xs), IoGoesOn, IoGoesOn]) css)"

abbreviation solid :: "sample list list \<Rightarrow> sample list list" where
  "solid \<equiv> filter (\<lambda>xs. xs \<noteq> [])"

definition audio_event :: "job \<Rightarrow> sample list \<Rightarrow> event" where
  "audio_event j xs = TtsAudioChunk (job_turn j) (ls_seq (jb_sentence j)) (2 * length xs)"

definition pq_append_all :: "audio_chunk list \<Rightarrow> playback_queue \<Rightarrow> playback_queue" where
  "pq_append_all cs q = foldl (\<lambda>q c. pq_append c q) q cs"

lemma pq_append_all_simps [simp]:
  "pq_append_all [] q = q" "pq_append_all (c # cs) q = pq_append_all cs (pq_append c q)"
  by (simp_all add: pq_append_all_def)

lemma pq_append_all_fields [simp]:
  "pq_q (pq_append_all cs q) = pq_q q @ cs" "pq_cap (pq_append_all cs q) = pq_cap q"
  by (induction cs arbitrary: q) (simp_all add: pq_append_def)

lemma audio_phase:
  assumes "tb_io s = IoSubmit y" and "\<not> sy_got_error y"
    and "\<not> is_cancelled (tb_heap s) (jb_cancel (sy_job y))" and "pq_cap (tb_queue s) = 0"
    and "resampler_stream sx (sy_resampler y) css = Ok (outs, r)"
  shows "\<exists>y'. sy_job y' = sy_job y \<and> sy_resampler y' = r \<and> sy_got_error y' = sy_got_error y \<and>
    sy_got_format y' = sy_got_format y \<and>
    tb_run sx s (audio_acts css) =
      s\<lparr>tb_queue := pq_append_all (map (\<lambda>xs. job_chunk (sy_job y) xs False) (solid outs)) (tb_queue s),
        tb_published := tb_published s @ map (audio_event (sy_job y)) (solid outs), tb_io := IoSubmit y'\<rparr>"
  using assms
proof (induction css arbitrary: s y outs)
  case Nil
  then show ?case
    by (cases "sy_resampler y") (auto simp: audio_acts_def intro!: exI [of _ y])
next
  case (Cons c css)
  let ?j = "sy_job y"
  obtain out outs' r1 where outs: "outs = out # outs'"
    and res: "(case sy_resampler y of None \<Rightarrow> Ok (c, None)
       | Some r \<Rightarrow> bind_outcome (resampler_process sx c r) (\<lambda>(out, r'). Ok (out, Some r'))) = Ok (out, r1)"
    and stream: "resampler_stream sx r1 css = Ok (outs', r)"
    using Cons.prems(5) by (cases "sy_resampler y") (auto simp: bind_outcome_Ok)
  define y1 where "y1 = (if tb_self_listen s then y\<lparr>sy_captured := sy_captured y @ c\<rparr> else y)\<lparr>sy_resampler := r1\<rparr>"
  define s1 where "s1 = (if out = [] then s\<lparr>tb_io := IoSubmit y1\<rparr>
    else s\<lparr>tb_queue := pq_append (job_chunk ?j out False) (tb_queue s),
           tb_published := tb_published s @ [audio_event ?j out], tb_io := IoSubmit y1\<rparr>)"
  have j: "sy_job y1 = ?j" by (simp add: y1_def)
  have "tb_callback sx (CbAudio c) s =
      (if out = [] then s\<lparr>tb_io := IoSubmit y1\<rparr> else s\<lparr>tb_io := IoEnqueue y1 (job_chunk ?j out False)\<rparr>)"
    using Cons.prems(2,3) res
    by (simp add: tb_callback_def Cons.prems(1) tb_on_audio_def y1_def Let_def)
  then have "tb_run sx s [Callback (CbAudio c), IoGoesOn, IoGoesOn] = s1"
    using Cons.prems(4)
    by (simp add: s1_def tb_io_step_def pq_enqueue_def publish_audio_def audio_event_def j)
      (simp add: job_chunk_def)
  then have run: "tb_run sx s (audio_acts (c # css)) = tb_run sx s1 (audio_acts css)"
    by (simp add: audio_acts_def)
  have y1: "\<not> sy_got_error y1" "sy_resampler y1 = r1" "sy_got_error y1 = sy_got_error y"
    "sy_got_format y1 = sy_got_format y"
    using Cons.prems(2) by (simp_all add: y1_def)
  have s1: "tb_io s1 = IoSubmit y1" "\<not> is_cancelled (tb_heap s1) (jb_cancel (sy_job y1))"
    "pq_cap (tb_queue s1) = 0"
    using Cons.prems(3,4) by (simp_all add: s1_def j pq_append_def)
  have "resampler_stream sx (sy_resampler y1) css = Ok (outs', r)" using stream y1(2) by simp
  from Cons.IH [OF s1(1) y1(1) s1(2,3) this] obtain y' where
    y': "sy_job y' = ?j" "sy_resampler y' = r" "sy_got_error y' = sy_got_error y" "sy_got_format y' = sy_got_format y"
    and "tb_run sx s1 (audio_acts css) =
      s1\<lparr>tb_queue := pq_append_all (map (\<lambda>xs. job_chunk ?j xs False) (solid outs')) (tb_queue s1),
         tb_published := tb_published s1 @ map (audio_event ?j) (solid outs'), tb_io := IoSubmit y'\<rparr>"
    unfolding j y1(3,4) by blast
  then have "tb_run sx s (audio_acts (c # css)) =
      s\<lparr>tb_queue := pq_append_all (map (\<lambda>xs. job_chunk ?j xs False) (solid outs)) (tb_queue s),
        tb_published := tb_published s @ map (audio_event ?j) (solid outs), tb_io := IoSubmit y'\<rparr>"
    unfolding run outs by (simp add: s1_def)
  with y' show ?case by blast
qed

lemma flush_phase:
  fixes sx :: "('s, 'z) soxr_scheme" and s :: "'s tts_bridge"
  assumes "resampler_flush sx acc r = Some (Ok (tail, r'))" and "tb_io s = IoFlush y acc"
    and "sy_resampler y = Some r"
  shows "\<exists>n y'. sy_job y' = sy_job y \<and> sy_got_error y' = sy_got_error y \<and>
    tb_run sx s (replicate n IoGoesOn) = s\<lparr>tb_io := IoEos y' tail\<rparr>"
proof -
  have "(\<lambda>sx acc r res. \<forall>tail r' (s :: 's tts_bridge) y. res = Ok (tail, r') \<longrightarrow> tb_io s = IoFlush y acc \<longrightarrow>
      sy_resampler y = Some r \<longrightarrow>
      (\<exists>n y'. sy_job y' = sy_job y \<and> sy_got_error y' = sy_got_error y \<and>
        tb_run sx s (replicate n IoGoesOn) = s\<lparr>tb_io := IoEos y' tail\<rparr>)) sx acc r (Ok (tail, r'))"
  proof (rule resampler_flush.raw_induct [OF _ assms(1)])
    fix f and sx :: "('s, 'z) soxr_scheme" and acc r res
    assume IH: "\<And>sx acc r res. f sx acc r = Some res \<Longrightarrow>
        \<forall>tail r' (s :: 's tts_bridge) y. res = Ok (tail, r') \<longrightarrow> tb_io s = IoFlush y acc \<longrightarrow> sy_resampler y = Some r \<longrightarrow>
          (\<exists>n y'. sy_job y' = sy_job y \<and> sy_got_error y' = sy_got_error y \<and>
            tb_run sx s (replicate n IoGoesOn) = s\<lparr>tb_io := IoEos y' tail\<rparr>)"
      and res: "(case resampler_pull sx r of
          Ok (out, r') \<Rightarrow> if out = [] then Some (Ok (acc, r')) else f sx (acc @ out) r'
        | _ \<Rightarrow> Some Throw) = Some res"
    show "\<forall>tail r' (s :: 's tts_bridge) y. res = Ok (tail, r') \<longrightarrow> tb_io s = IoFlush y acc \<longrightarrow> sy_resampler y = Some r \<longrightarrow>
        (\<exists>n y'. sy_job y' = sy_job y \<and> sy_got_error y' = sy_got_error y \<and>
          tb_run sx s (replicate n IoGoesOn) = s\<lparr>tb_io := IoEos y' tail\<rparr>)"
    proof (intro allI impI)
      fix tail r' and s :: "'s tts_bridge" and y
      assume ok: "res = Ok (tail, r')" and io: "tb_io s = IoFlush y acc" and y: "sy_resampler y = Some r"
      from res ok obtain out r1 where pull: "resampler_pull sx r = Ok (out, r1)"
        by (auto split: outcome.splits)
      let ?y = "y\<lparr>sy_resampler := Some r1\<rparr>"
      show "\<exists>n y'. sy_job y' = sy_job y \<and> sy_got_error y' = sy_got_error y \<and>
          tb_run sx s (replicate n IoGoesOn) = s\<lparr>tb_io := IoEos y' tail\<rparr>"
      proof (cases "out = []")
        case True
        with res ok pull have "tb_run sx s (replicate 1 IoGoesOn) = s\<lparr>tb_io := IoEos ?y tail\<rparr>"
          using io y by (simp add: tb_io_defs Let_def)
        then show ?thesis by (intro exI [of _ 1] exI [of _ ?y]) simp
      next
        case False
        let ?s = "s\<lparr>tb_io := IoFlush ?y (acc @ out)\<rparr>"
        have step: "tb_step sx s IoGoesOn = ?s"
          using io y pull False by (simp add: tb_io_defs Let_def)
        from res pull False have "f sx (acc @ out) r1 = Some res" by simp
        from IH [OF this, rule_format, OF ok, of ?s ?y] obtain n y'
          where "sy_job y' = sy_job y" "sy_got_error y' = sy_got_error y"
            "tb_run sx ?s (replicate n IoGoesOn) = ?s\<lparr>tb_io := IoEos y' tail\<rparr>" by auto
        then have "tb_run sx s (replicate (Suc n) IoGoesOn) = s\<lparr>tb_io := IoEos y' tail\<rparr>"
          by (simp only: replicate_Suc foldl_Cons step) simp
        with \<open>sy_job y' = _\<close> \<open>sy_got_error y' = _\<close> show ?thesis by blast
      qed
    qed
  qed
  with assms(2,3) show ?thesis by blast
qed

lemma io_idle:
  "tb_io s = IoWait \<Longrightarrow> tb_pending s = [] \<Longrightarrow> \<not> tb_stopping s \<Longrightarrow>
     tb_run sx s (replicate n IoGoesOn) = s"
  by (induction n) (auto simp: tb_io_step_def tb_take_job_def)

text \<open>What the last part of \<open>run_one\<close> leaves behind when nobody cancels.\<close>

definition settled :: "'s synth \<Rightarrow> sample list \<Rightarrow> 's tts_bridge \<Rightarrow> 's tts_bridge \<Rightarrow> bool" where
  "settled y tail s s' \<longleftrightarrow>
     pq_q (tb_queue s') = pq_q (tb_queue s) @ [job_chunk (sy_job y) tail True] \<and>
     tb_published s' = tb_published s @ map (audio_event (sy_job y)) (solid [tail]) @
       (if sy_got_error y then [] else [TtsFinished (job_turn (sy_job y)) (ls_seq (jb_sentence (sy_job y)))]) \<and>
     tb_synthesized s' = tb_synthesized s + (if sy_got_error y then 0 else 1) \<and>
     tb_errored s' = tb_errored s + (if sy_got_error y then 1 else 0) \<and>
     tb_cancelled s' = tb_cancelled s \<and> tb_io s' = IoWait \<and> tb_in_flight s' = None \<and>
     tb_pending s' = tb_pending s \<and> tb_stopping s' = tb_stopping s"

lemma replicate_6: "replicate 6 x = [x, x, x, x, x, x]"
  by (simp add: eval_nat_numeral)

lemma end_phase:
  assumes "tb_io s = IoEos y tail" and "\<not> is_cancelled (tb_heap s) (jb_cancel (sy_job y))"
    and "pq_cap (tb_queue s) = 0" and "tb_pending s = []" and "\<not> tb_stopping s"
  shows "settled y tail s (tb_run sx s (replicate 6 IoGoesOn))"
proof -
  let ?c = "job_chunk (sy_job y) tail True"
  define s1 where "s1 = s\<lparr>tb_io := IoPush y ?c\<rparr>"
  define s2 where "s2 = s\<lparr>tb_queue := pq_append ?c (tb_queue s),
    tb_published := tb_published s @ map (audio_event (sy_job y)) (solid [tail]), tb_io := IoCheck y\<rparr>"
  have 1: "tb_io_step sx s = s1"
    using assms(1,2) by (simp add: tb_io_step_def s1_def)
  have 2: "tb_run sx s1 [IoGoesOn, IoGoesOn] = (if tail = [] then tb_io_step sx s2 else s2)"
    using assms(3) by (simp add: tb_io_step_def s1_def s2_def tb_push_eos_def pq_enqueue_blocking_def
        publish_audio_def audio_event_def) (simp add: job_chunk_def)
  have live: "tb_io s2 = IoCheck y" "\<not> is_cancelled (tb_heap s2) (jb_cancel (sy_job y))"
    "tb_pending s2 = []" "\<not> tb_stopping s2"
    using assms by (simp_all add: s2_def)
  have 3: "\<exists>s'. tb_run sx s2 [IoGoesOn, IoGoesOn, IoGoesOn] = s' \<and> tb_run sx s2 [IoGoesOn, IoGoesOn, IoGoesOn, IoGoesOn] = s' \<and>
      settled y tail s s'"
  proof (cases "sy_got_error y")
    case True
    have "tb_io_step sx s2 = s2\<lparr>tb_errored := tb_errored s2 + 1, tb_io := IoRelease\<rparr>"
      using live True by (simp add: tb_io_step_def tb_settle_def)
    then show ?thesis
      using True live(3,4) assms(4,5)
      by (simp add: tb_io_step_def tb_take_job_def) (simp add: s2_def settled_def pq_append_def)
  next
    case False
    have "tb_io_step sx s2 = s2\<lparr>tb_synthesized := tb_synthesized s2 + 1, tb_io := IoFinish y\<rparr>"
      using live False by (simp add: tb_io_step_def tb_settle_def)
    then show ?thesis
      using False live(3,4) assms(4,5)
      by (simp add: tb_io_step_def tb_take_job_def tb_finish_def Let_def)
        (simp add: s2_def settled_def pq_append_def job_turn_def)
  qed
  show ?thesis
    unfolding replicate_6 using 2 3 by (cases "tail = []") (auto simp: 1)
qed

lemma end_phase_all:
  assumes "tb_io s = IoEos y tail" and "\<not> is_cancelled (tb_heap s) (jb_cancel (sy_job y))"
    and "pq_cap (tb_queue s) = 0" and "tb_pending s = []" and "\<not> tb_stopping s" and "6 \<le> n"
  shows "settled y tail s (tb_run sx s (replicate n IoGoesOn))"
proof -
  define s' where "s' = tb_run sx s (replicate 6 IoGoesOn)"
  have e: "settled y tail s s'" unfolding s'_def using end_phase [OF assms(1-5)] .
  with assms(4,5) have "tb_run sx s' (replicate (n - 6) IoGoesOn) = s'"
    by (intro io_idle) (auto simp: settled_def)
  moreover have "replicate n IoGoesOn = replicate 6 IoGoesOn @ replicate (n - 6) IoGoesOn"
    using assms(6) by (simp only: replicate_add [symmetric] le_add_diff_inverse)
  ultimately show ?thesis using e by (simp only: foldl_append s'_def [symmetric])
qed

text \<open>The schedule: pick the job up, the client's script, then the I/O thread alone.\<close>

definition synth_acts :: "int \<Rightarrow> sample list list \<Rightarrow> callback \<Rightarrow> nat \<Rightarrow> tb_act list" where
  "synth_acts rate css last_cb n =
     [IoGoesOn, IoGoesOn, IoGoesOn, Callback (CbFormat rate)] @ audio_acts css @
     [Callback last_cb, Callback CbReturn] @ replicate n IoGoesOn"

text \<open>The resampler for the reported rate, and what the end of the stream leaves in it.\<close>

definition format_resampler :: "('s, 'z) soxr_scheme \<Rightarrow> nat \<Rightarrow> nat \<Rightarrow> 's resampler option outcome" where
  "format_resampler sx rate device =
     (if rate = device then Ok None
      else bind_outcome (resampler_new sx rate device) (\<lambda>r. Ok (Some r)))"

definition resampler_tail :: "('s, 'z) soxr_scheme \<Rightarrow> 's resampler option \<Rightarrow> sample list option" where
  "resampler_tail sx r =
     (case r of
        None \<Rightarrow> Some []
      | Some r1 \<Rightarrow> (case resampler_flush sx [] r1 of Some (Ok (tail, _)) \<Rightarrow> Some tail | _ \<Rightarrow> None))"

lemma synthesized_sentence:
  fixes sx :: "('s, 'z) soxr_scheme" and s :: "'s tts_bridge"
  assumes "tb_io s = IoWait" and "tb_pending s = [j]" and "\<not> tb_stopping s"
    and "\<not> is_cancelled (tb_heap s) (jb_cancel j)" and "pq_cap (tb_queue s) = 0"
    and "0 < rate" and "last_cb = CbFinished \<or> last_cb = CbError"
    and "format_resampler sx (nat rate) (tb_device_rate s) = Ok r0"
    and "resampler_stream sx r0 css = Ok (outs, r1)" and "resampler_tail sx r1 = Some tail"
  shows "\<exists>N. \<forall>n \<ge> N. let s' = tb_run sx s (synth_acts rate css last_cb n) in
    pq_q (tb_queue s') = pq_q (tb_queue s) @ map (\<lambda>xs. job_chunk j xs False) (solid outs) @ [job_chunk j tail True] \<and>
    tb_published s' = tb_published s @ TtsStarted (job_turn j) (ls_seq (jb_sentence j)) #
      map (audio_event j) (solid (outs @ [tail])) @
      (if last_cb = CbError then [] else [TtsFinished (job_turn j) (ls_seq (jb_sentence j))]) \<and>
    tb_synthesized s' = tb_synthesized s + (if last_cb = CbError then 0 else 1) \<and>
    tb_errored s' = tb_errored s + (if last_cb = CbError then 1 else 0) \<and>
    tb_io s' = IoWait \<and> tb_pending s' = [] \<and> tb_in_flight s' = None"
proof -
  define y0 :: "'s synth" where "y0 = (synth_new j)\<lparr>sy_native_rate := nat rate, sy_resampler := r0, sy_got_format := True\<rparr>"
  define s0 where "s0 = s\<lparr>tb_pending := [], tb_in_flight := Some (jb_cancel j),
    tb_published := tb_published s @ [TtsStarted (job_turn j) (ls_seq (jb_sentence j))], tb_io := IoSubmit y0\<rparr>"
  have y0: "sy_job y0 = j" "\<not> sy_got_error y0" "sy_got_format y0" "sy_resampler y0 = r0"
    by (simp_all add: y0_def synth_new_def)
  have "tb_run sx s [IoGoesOn, IoGoesOn, IoGoesOn] = s0\<lparr>tb_io := IoSubmit (synth_new j)\<rparr>"
    using assms(1,2,4) by (simp add: tb_io_step_def tb_take_job_def s0_def)
  moreover have "tb_callback sx (CbFormat rate) (s0\<lparr>tb_io := IoSubmit (synth_new j)\<rparr>) = s0"
  proof (cases "nat rate = tb_device_rate s")
    case True
    with assms(6,8) show ?thesis
      by (simp add: tb_callback_def tb_on_format_def s0_def y0_def format_resampler_def Let_def)
  next
    case False
    with assms(8) obtain r where "resampler_new sx (nat rate) (tb_device_rate s) = Ok r" "r0 = Some r"
      by (auto simp: format_resampler_def bind_outcome_Ok)
    with assms(6) False show ?thesis
      by (simp add: tb_callback_def tb_on_format_def s0_def y0_def Let_def)
  qed
  ultimately have run0: "tb_run sx s [IoGoesOn, IoGoesOn, IoGoesOn, Callback (CbFormat rate)] = s0"
    by simp
  have "tb_io s0 = IoSubmit y0" "\<not> is_cancelled (tb_heap s0) (jb_cancel (sy_job y0))" "pq_cap (tb_queue s0) = 0"
    using assms(4,5) y0(1) by (simp_all add: s0_def)
  from audio_phase [OF this(1) y0(2) this(2,3)] assms(9) obtain y1 where
    y1: "sy_job y1 = j" "sy_resampler y1 = r1" "\<not> sy_got_error y1" "sy_got_format y1"
    and run1: "tb_run sx s0 (audio_acts css) =
      s0\<lparr>tb_queue := pq_append_all (map (\<lambda>xs. job_chunk j xs False) (solid outs)) (tb_queue s0),
         tb_published := tb_published s0 @ map (audio_event j) (solid outs), tb_io := IoSubmit y1\<rparr>"
    (is "_ = ?s1") unfolding y0 using y0 by blast
  define y2 where "y2 = (if last_cb = CbError then y1\<lparr>sy_got_error := True\<rparr> else y1)"
  have y2: "sy_job y2 = j" "sy_resampler y2 = r1" "sy_got_error y2 \<longleftrightarrow> last_cb = CbError" "sy_got_format y2"
    using y1 by (auto simp: y2_def)
  have run2: "tb_run sx ?s1 [Callback last_cb, Callback CbReturn] =
      ?s1\<lparr>tb_io := (if r1 \<noteq> None then IoFlush y2 [] else IoEos y2 [])\<rparr>"
    using assms(7) y1 by (auto simp: tb_callback_def y2_def)
  obtain k y3 where y3: "sy_job y3 = j" "sy_got_error y3 \<longleftrightarrow> last_cb = CbError"
    and run3: "tb_run sx (?s1\<lparr>tb_io := (if r1 \<noteq> None then IoFlush y2 [] else IoEos y2 [])\<rparr>) (replicate k IoGoesOn) =
      ?s1\<lparr>tb_io := IoEos y3 tail\<rparr>"
  proof (cases r1)
    case None
    with assms(10) that [of y2 0] y2 show ?thesis by (simp add: resampler_tail_def)
  next
    case (Some r)
    with assms(10) obtain r' where "resampler_flush sx [] r = Some (Ok (tail, r'))"
      by (auto simp: resampler_tail_def split: option.splits outcome.splits)
    from flush_phase [OF this, of "?s1\<lparr>tb_io := IoFlush y2 []\<rparr>" y2] that y2 Some show ?thesis by auto
  qed
  have "settled y3 tail (?s1\<lparr>tb_io := IoEos y3 tail\<rparr>) (tb_run sx s (synth_acts rate css last_cb n))"
    if n: "k + 6 \<le> n" for n
  proof -
    have "replicate n IoGoesOn = replicate k IoGoesOn @ replicate (n - k) IoGoesOn"
      using n by (simp flip: replicate_add)
    then have "tb_run sx s (synth_acts rate css last_cb n) =
        tb_run sx (?s1\<lparr>tb_io := IoEos y3 tail\<rparr>) (replicate (n - k) IoGoesOn)"
      unfolding synth_acts_def foldl_append run0 run1 run2 by (simp only: foldl_append run3)
    moreover have "settled y3 tail (?s1\<lparr>tb_io := IoEos y3 tail\<rparr>)
        (tb_run sx (?s1\<lparr>tb_io := IoEos y3 tail\<rparr>) (replicate (n - k) IoGoesOn))"
      using assms(3,4,5) n by (intro end_phase_all) (simp_all add: y3 s0_def)
    ultimately show ?thesis by simp
  qed
  then show ?thesis
    by (intro exI [of _ "k + 6"] allI impI) (auto simp: settled_def y3 s0_def Let_def)
qed

text \<open>
  C14. A sentence that nobody interrupts is played to its end. Whatever chunks the client delivers
  and whatever the resampler makes of them (its drain coming to an end), with an unbounded queue
  the bridge appends exactly the non-empty resampled chunks and then one chunk that carries the
  resampler's tail and the end-of-sentence mark, also when the client reports an error; it
  publishes the start, one notice per chunk with audio, and the finish only without an error;
  it counts the sentence once and is ready for the next one.
\<close>

theorem sentence_synthesized:
  fixes sx :: "('s, 'z) soxr_scheme" and s :: "'s tts_bridge"
  assumes "tb_io s = IoWait" and "tb_pending s = [j]" and "\<not> tb_stopping s"
    and "\<not> is_cancelled (tb_heap s) (jb_cancel j)" and "pq_cap (tb_queue s) = 0"
    and "0 < rate" and "last_cb = CbFinished \<or> last_cb = CbError"
    and "format_resampler sx (nat rate) (tb_device_rate s) = Ok r0"
    and "resampler_stream sx r0 css = Ok (outs, r1)" and "resampler_tail sx r1 = Some tail"
  shows "\<exists>N. \<forall>n \<ge> N. let s' = tb_run sx s (synth_acts rate css last_cb n) in
    pq_q (tb_queue s') = pq_q (tb_queue s) @ map (\<lambda>xs. job_chunk j xs False) (solid outs) @ [job_chunk j tail True] \<and>
    tb_published s' = tb_published s @ TtsStarted (job_turn j) (ls_seq (jb_sentence j)) #
      map (audio_event j) (solid (outs @ [tail])) @
      (if last_cb = CbError then [] else [TtsFinished (job_turn j) (ls_seq (jb_sentence j))]) \<and>
    tb_synthesized s' = tb_synthesized s + (if last_cb = CbError then 0 else 1) \<and>
    tb_errored s' = tb_errored s + (if last_cb = CbError then 1 else 0) \<and>
    tb_io s' = IoWait \<and> tb_pending s' = [] \<and> tb_in_flight s' = None"
  using assms by (rule synthesized_sentence)

text \<open>A bridge at the device rate, for the witnesses: resampling is never used.\<close>

definition demo_soxr :: "unit soxr" where
  "demo_soxr = \<lparr>soxr_create = \<lambda>_ _. Some (), soxr_process = \<lambda>xs s. Some (length xs, xs, s),
     soxr_drain = \<lambda>s. Some ([], s)\<rparr>"

definition demo_history :: "tb_act list" where
  "demo_history =
     [Start, Deliver (LlmStarted 7), Deliver (LlmSentence \<lparr>ls_turn = 7, ls_seq = 0, ls_text = ''a'', ls_lang = ''en''\<rparr>),
      Deliver (LlmSentence \<lparr>ls_turn = 7, ls_seq = 1, ls_text = ''b'', ls_lang = ''en''\<rparr>),
      IoGoesOn, IoGoesOn, IoGoesOn, Callback (CbFormat 8), Callback (CbAudio [1, 2])]"

lemmas demo_bridge_simps = demo_soxr_def demo_history_def tb_new_def tb_bus_defs tb_io_defs tb_cb_defs
  tb_ctl_defs Let_def is_cancelled_def cancel_token_def pq_new_def pq_enqueue_def pq_append_def
  pq_enqueue_blocking_def pq_clear_def job_chunk_def job_turn_def

text \<open>The interruption arrives while a chunk is between the token check and the queue.\<close>

theorem interruption_silences_turn_witness:
  "queued_chunks 7 (tb_run demo_soxr (tb_run demo_soxr (tb_on_event (UserInterrupted 7 0)
     (tb_run demo_soxr (tb_new 8 False (pq_new 0)) demo_history)) [BusGoesOn, BusGoesOn, BusGoesOn, BusGoesOn])
     [IoGoesOn, IoGoesOn, Callback (CbAudio [3]), Callback CbReturn]) \<le> 1"
proof -
  let ?s1 = "tb_run demo_soxr (tb_new 8 False (pq_new 0)) demo_history"
  let ?d = "[BusGoesOn, BusGoesOn, BusGoesOn, BusGoesOn]"
  have "tb_subscribed ?s1" "tb_bus ?s1 = BusIdle"
    by (simp_all add: demo_bridge_simps)
  moreover have "tb_bus (tb_run demo_soxr (tb_on_event (UserInterrupted 7 0) ?s1) ?d) = BusIdle"
    by (simp add: demo_bridge_simps)
  moreover have "list_all no_event ?d" by (simp add: no_event_def)
  ultimately show ?thesis
    using interruption_silences_turn [where sx = demo_soxr and rate = 8 and listen = False and q = "pq_new 0"
        and before = demo_history and during = ?d and t = 7 and w = 0
        and after = "[IoGoesOn, IoGoesOn, Callback (CbAudio [3]), Callback CbReturn]"]
    by simp
qed

text \<open>The bound is reached: that chunk is in the queue after the interruption is over.\<close>

lemma interruption_leaves_one_chunk:
  "queued_chunks 7 (tb_run demo_soxr (tb_run demo_soxr (tb_on_event (UserInterrupted 7 0)
     (tb_run demo_soxr (tb_new 8 False (pq_new 0)) demo_history)) [BusGoesOn, BusGoesOn, BusGoesOn, BusGoesOn])
     [IoGoesOn]) = 1"
  by (simp add: demo_bridge_simps queued_chunks_def)

text \<open>A resampler that keeps one sample back, which only the drain returns.\<close>

definition demo_delay :: "sample list soxr" where
  "demo_delay = \<lparr>soxr_create = \<lambda>_ _. Some [], soxr_process = \<lambda>xs s. Some (length xs, s @ butlast xs, [last xs]),
     soxr_drain = \<lambda>s. Some (s, [])\<rparr>"

definition demo_waiting :: "sample list tts_bridge" where
  "demo_waiting = tb_run demo_delay (tb_new 8 False (pq_new 0))
     [Start, Deliver (LlmStarted 7), Deliver (LlmSentence \<lparr>ls_turn = 7, ls_seq = 0, ls_text = ''a'', ls_lang = ''en''\<rparr>)]"

theorem sentence_synthesized_witness:
  "\<exists>N. \<forall>n \<ge> N. map ch_samples (pq_q (tb_queue
     (tb_run demo_delay demo_waiting (synth_acts 4 [[1, 2], [3]] CbError n)))) = [[1], [2], [3]]"
proof -
  let ?j = "\<lparr>jb_sentence = \<lparr>ls_turn = 7, ls_seq = 0, ls_text = ''a'', ls_lang = ''en''\<rparr>, jb_cancel = 0\<rparr>"
  let ?r = "\<lambda>s a b. \<lparr>rs_soxr = s, rs_in = a, rs_out = b\<rparr> :: sample list resampler"
  have w: "tb_io demo_waiting = IoWait" "tb_pending demo_waiting = [?j]" "\<not> tb_stopping demo_waiting"
    "\<not> is_cancelled (tb_heap demo_waiting) (jb_cancel ?j)" "pq_cap (tb_queue demo_waiting) = 0"
    "pq_q (tb_queue demo_waiting) = []" "tb_device_rate demo_waiting = 8"
    by (simp_all add: demo_waiting_def demo_bridge_simps)
  have f: "format_resampler demo_delay (nat 4) (tb_device_rate demo_waiting) = Ok (Some (?r [] 0 0))"
    by (simp add: w format_resampler_def resampler_new_def demo_delay_def)
  have st: "resampler_stream demo_delay (Some (?r [] 0 0)) [[1, 2], [3]] = Ok ([[1], [2]], Some (?r [3] 3 2))"
    by (simp add: resampler_process_def demo_delay_def)
  have "resampler_flush demo_delay [] (?r [3] 3 2) = Some (Ok ([3], ?r [] 3 3))"
    by (subst resampler_flush.simps, subst resampler_flush.simps) (simp add: resampler_pull_def demo_delay_def)
  then have tl: "resampler_tail demo_delay (Some (?r [3] 3 2)) = Some [3]"
    by (simp add: resampler_tail_def)
  from sentence_synthesized [OF w(1-5) _ _ f st tl, of CbError] w(6) obtain N where
    "\<forall>n \<ge> N. pq_q (tb_queue (tb_run demo_delay demo_waiting (synth_acts 4 [[1, 2], [3]] CbError n))) =
      map (\<lambda>xs. job_chunk ?j xs False) (solid [[1], [2]]) @ [job_chunk ?j [3] True]"
    by (auto simp: Let_def)
  then show ?thesis by (intro exI [of _ N]) (simp add: job_chunk_def)
qed

end
