(* ===== verification/Text_Format.thy ===== *)
theory Text_Format
  imports Prelude
begin

text \<open>
  Formatting of numbers as the program's streams and \<open>fmt\<close> calls do it: decimal integers and
  zero-padded hexadecimal words; and the search functions of \<open>std::string\<close>. Shared by the memory layer, the prompt builder and the log sink.
\<close>

definition dec_digit :: "nat \<Rightarrow> char" where
  "dec_digit d = char_of (48 + d)"

fun dec_nat :: "nat \<Rightarrow> string" where
  "dec_nat n = (if n < 10 then [dec_digit n] else dec_nat (n div 10) @ [dec_digit (n mod 10)])"

declare dec_nat.simps [simp del]

definition dec_int :: "int \<Rightarrow> string" where
  "dec_int i = (if i < 0 then CHR ''-'' # dec_nat (nat (- i)) else dec_nat (nat i))"

definition hex_digit :: "nat \<Rightarrow> char" where
  "hex_digit d = (if d < 10 then char_of (48 + d) else char_of (87 + d))"

text \<open>\<open>n\<close> hexadecimal digits, most significant first.\<close>

fun hex_fixed :: "nat \<Rightarrow> nat \<Rightarrow> string" where
  "hex_fixed 0 v = []"
| "hex_fixed (Suc n) v = hex_fixed n (v div 16) @ [hex_digit (v mod 16)]"

definition hex16 :: "64 word \<Rightarrow> string" where
  "hex16 w = hex_fixed 16 (unat w)"

text \<open>\<open>string_view::find\<close> of a text, and of a character from a position on.\<close>

fun find_text :: "string \<Rightarrow> string \<Rightarrow> nat option" where
  "find_text p [] = (if p = [] then Some 0 else None)"
| "find_text p (c # s) = (if take (length p) (c # s) = p then Some 0 else map_option Suc (find_text p s))"

definition find_char_from :: "char \<Rightarrow> nat \<Rightarrow> string \<Rightarrow> nat option" where
  "find_char_from c n s = map_option (\<lambda>k. n + k) (find_text [c] (drop n s))"

lemma dec_nat_nonempty [simp]: "dec_nat n \<noteq> []"
  by (subst dec_nat.simps) simp

lemma length_hex_fixed [simp]: "length (hex_fixed n v) = n"
  by (induction n arbitrary: v) auto

lemma length_hex16 [simp]: "length (hex16 w) = 16"
  by (simp add: hex16_def)

lemma hex_digit_inj: "a < 16 \<Longrightarrow> b < 16 \<Longrightarrow> hex_digit a = hex_digit b \<Longrightarrow> a = b"
proof -
  assume "a < 16" "b < 16" and eq: "hex_digit a = hex_digit b"
  have "(of_char (hex_digit c) :: nat) = (if c < 10 then 48 + c else 87 + c)" if "c < 16" for c
    using that by (auto simp: hex_digit_def of_char_of)
  then have "(if a < 10 then 48 + a else 87 + a) = (if b < 10 then 48 + b else 87 + b)"
    using \<open>a < 16\<close> \<open>b < 16\<close> eq by metis
  then show "a = b"
    using \<open>a < 16\<close> \<open>b < 16\<close> by (auto split: if_splits)
qed

lemma hex_fixed_inj: "v < 16 ^ n \<Longrightarrow> w < 16 ^ n \<Longrightarrow> hex_fixed n v = hex_fixed n w \<Longrightarrow> v = w"
proof (induction n arbitrary: v w)
  case (Suc n)
  then have "v div 16 = w div 16"
    by (auto simp: less_mult_imp_div_less mult.commute)
  moreover have "v mod 16 = w mod 16"
    using Suc.prems(3) by (auto intro: hex_digit_inj)
  ultimately show ?case
    by (metis div_mult_mod_eq)
qed simp

text \<open>Different words have different renderings.\<close>

lemma hex16_inj: "hex16 v = hex16 w \<Longrightarrow> v = w"
proof -
  assume "hex16 v = hex16 w"
  moreover have "unat x < 16 ^ 16" for x :: "64 word"
    using unsigned_less [of x] by simp
  ultimately have "unat v = unat w"
    unfolding hex16_def by (intro hex_fixed_inj [of _ 16])
  then show "v = w" using word_unat_eq_iff by blast
qed

end
