(* ===== verification/Repository.thy ===== *)
theory Repository
  imports Text_Format
begin

text \<open>
  The conversation store: \<open>src/memory/db.hpp\<close>, \<open>src/memory/db.cpp\<close>, \<open>src/memory/schema.hpp\<close> and
  \<open>src/memory/repository.cpp\<close>. The tables of the schema are lists of rows in the order of their
  rowids, with one \<open>AUTOINCREMENT\<close> counter each; an operation of the repository is the meaning of
  its SQL statement on the tables. A connection is the tables, the state saved by an open
  transaction, and a script of faults: each prepared statement and each \<open>exec\<close> takes the next
  entry, which says whether SQLite reports an error (no entries left: no error). A failing
  statement changes nothing. \<open>PRAGMA foreign_keys=ON\<close> makes the inserts check their references.
\<close>

section \<open>Rows\<close>

type_synonym row_id = int
type_synonym unix_ms = int

datatype turn_role = RoleUser | RoleAssistant
datatype turn_status = InProgress | Committed | InterruptedTurn | DiscardedTurn

fun role_to_string :: "turn_role \<Rightarrow> string" where
  "role_to_string RoleUser = ''user''"
| "role_to_string RoleAssistant = ''assistant''"

fun status_to_string :: "turn_status \<Rightarrow> string" where
  "status_to_string InProgress = ''in_progress''"
| "status_to_string Committed = ''committed''"
| "status_to_string InterruptedTurn = ''interrupted''"
| "status_to_string DiscardedTurn = ''discarded''"

definition parse_role :: "string \<Rightarrow> turn_role" where
  "parse_role s = (if s = ''assistant'' then RoleAssistant else RoleUser)"

definition parse_status :: "string \<Rightarrow> turn_status" where
  "parse_status s =
     (if s = ''committed'' then Committed
      else if s = ''interrupted'' then InterruptedTurn
      else if s = ''discarded'' then DiscardedTurn
      else InProgress)"

record session_row =
  se_id :: row_id
  se_started_at :: unix_ms
  se_ended_at :: "unix_ms option"
  se_title :: "string option"

text \<open>A row of \<open>turns\<close>, with role and status as the texts in the table.\<close>

record turn_rec =
  tu_id :: row_id
  tu_session :: row_id
  tu_role :: string
  tu_text :: "string option"
  tu_lang :: "string option"
  tu_started_at :: unix_ms
  tu_ended_at :: "unix_ms option"
  tu_status :: string
  tu_interrupted :: "int option"
  tu_audio_path :: "string option"

text \<open>The same row as \<open>TurnRow\<close>, with role and status parsed.\<close>

record turn_row =
  tr_id :: row_id
  tr_session :: row_id
  tr_role :: turn_role
  tr_text :: "string option"
  tr_lang :: "string option"
  tr_started_at :: unix_ms
  tr_ended_at :: "unix_ms option"
  tr_status :: turn_status
  tr_interrupted :: "int option"
  tr_audio_path :: "string option"

record summary_row =
  sr_id :: row_id
  sr_session :: row_id
  sr_range_start :: row_id
  sr_range_end :: row_id
  sr_summary :: string
  sr_lang :: string
  sr_source_hash :: string
  sr_created_at :: unix_ms

record fact_row =
  fa_id :: row_id
  fa_key :: string
  fa_value :: string
  fa_lang :: "string option"
  fa_source_turn :: "row_id option"
  fa_confidence :: real
  fa_updated_at :: unix_ms

record setting_row =
  st_key :: string
  st_value :: string
  st_updated_at :: unix_ms

section \<open>Tables and connections\<close>

record database =
  db_sessions :: "session_row list"
  db_turns :: "turn_rec list"
  db_summaries :: "summary_row list"
  db_facts :: "fact_row list"
  db_settings :: "setting_row list"
  db_next_session :: row_id
  db_next_turn :: row_id
  db_next_summary :: row_id
  db_next_fact :: row_id

definition db_empty :: database where
  "db_empty =
     \<lparr>db_sessions = [], db_turns = [], db_summaries = [], db_facts = [], db_settings = [],
      db_next_session = 1, db_next_turn = 1, db_next_summary = 1, db_next_fact = 1\<rparr>"

datatype fault = NoFault | PrepareFails | StepFails

record connection =
  cn_db :: database
  cn_saved :: "database option"   \<comment> \<open>the tables at \<open>BEGIN\<close> of an open transaction\<close>
  cn_faults :: "fault list"

type_synonym db_error = string

definition next_fault :: "connection \<Rightarrow> fault \<times> connection" where
  "next_fault c =
     (case cn_faults c of [] \<Rightarrow> (NoFault, c) | f # fs \<Rightarrow> (f, c\<lparr>cn_faults := fs\<rparr>))"

text \<open>
  One prepared statement: a failure to prepare, a failing step (a fault or a violated constraint,
  the meaning is then \<open>None\<close>), or the result and the new tables.
\<close>

definition run_sql ::
  "string \<Rightarrow> (database \<Rightarrow> ('a \<times> database) option) \<Rightarrow> connection \<Rightarrow> (db_error + 'a) \<times> connection" where
  "run_sql name meaning c =
     (case next_fault c of (f, c1) \<Rightarrow>
        (case f of
           PrepareFails \<Rightarrow> (Inl (''prepare '' @ name), c1)
         | StepFails \<Rightarrow> (Inl (name @ '' step''), c1)
         | NoFault \<Rightarrow>
             (case meaning (cn_db c1) of
                None \<Rightarrow> (Inl (name @ '' step''), c1)
              | Some (x, d) \<Rightarrow> (Inr x, c1\<lparr>cn_db := d\<rparr>))))"

text \<open>\<open>Database::Transaction\<close>: the guard's constructor ignores a failing \<open>BEGIN\<close>.\<close>

definition tx_begin :: "connection \<Rightarrow> connection" where
  "tx_begin c =
     (case next_fault c of (f, c1) \<Rightarrow>
        if f = NoFault \<and> cn_saved c1 = None then c1\<lparr>cn_saved := Some (cn_db c1)\<rparr> else c1)"

definition tx_commit :: "connection \<Rightarrow> db_error option \<times> connection" where
  "tx_commit c =
     (case next_fault c of (f, c1) \<Rightarrow>
        if f = NoFault \<and> cn_saved c1 \<noteq> None then (None, c1\<lparr>cn_saved := None\<rparr>)
        else (Some ''sqlite exec: commit'', c1))"

definition tx_rollback :: "connection \<Rightarrow> connection" where
  "tx_rollback c =
     (case next_fault c of (f, c1) \<Rightarrow>
        (case cn_saved c1 of
           Some d \<Rightarrow> if f = NoFault then c1\<lparr>cn_db := d, cn_saved := None\<rparr> else c1
         | None \<Rightarrow> c1))"

text \<open>What survives a crash or a close of the connection.\<close>

definition durable :: "connection \<Rightarrow> database" where
  "durable c = (case cn_saved c of None \<Rightarrow> cn_db c | Some d \<Rightarrow> d)"

section \<open>Operations\<close>

text \<open>\<open>LIMIT\<close> with a negative argument is no limit.\<close>

definition sql_limit :: "int \<Rightarrow> 'a list \<Rightarrow> 'a list" where
  "sql_limit n xs = (if n < 0 then xs else take (nat n) xs)"

definition sql_max :: "int option list \<Rightarrow> int option" where
  "sql_max xs = (case concat (map (\<lambda>x. case x of None \<Rightarrow> [] | Some i \<Rightarrow> [i]) xs) of
     [] \<Rightarrow> None | i # is \<Rightarrow> Some (foldl max i is))"

definition sql_coalesce :: "'a option \<Rightarrow> 'a option \<Rightarrow> 'a option" where
  "sql_coalesce x y = (case x of Some v \<Rightarrow> Some v | None \<Rightarrow> y)"

definition insert_session ::
  "unix_ms \<Rightarrow> string option \<Rightarrow> connection \<Rightarrow> (db_error + row_id) \<times> connection" where
  "insert_session started title =
     run_sql ''insert_session'' (\<lambda>d.
       let i = db_next_session d
       in Some (i, d\<lparr>db_sessions := db_sessions d @
                       [\<lparr>se_id = i, se_started_at = started, se_ended_at = None, se_title = title\<rparr>],
                     db_next_session := i + 1\<rparr>))"

definition close_session :: "row_id \<Rightarrow> unix_ms \<Rightarrow> connection \<Rightarrow> (db_error + unit) \<times> connection" where
  "close_session i ended =
     run_sql ''close_session'' (\<lambda>d.
       Some ((), d\<lparr>db_sessions := map (\<lambda>s. if se_id s = i then s\<lparr>se_ended_at := Some ended\<rparr> else s)
                                    (db_sessions d)\<rparr>))"

definition sessions_open_no_ended_at :: "connection \<Rightarrow> (db_error + session_row list) \<times> connection" where
  "sessions_open_no_ended_at =
     run_sql ''sessions_open_no_ended_at'' (\<lambda>d. Some (filter (\<lambda>s. se_ended_at s = None) (db_sessions d), d))"

definition insert_turn ::
  "row_id \<Rightarrow> turn_role \<Rightarrow> string option \<Rightarrow> string option \<Rightarrow> unix_ms \<Rightarrow> turn_status \<Rightarrow> connection \<Rightarrow>
     (db_error + row_id) \<times> connection" where
  "insert_turn session role txt lang started status =
     run_sql ''insert_turn'' (\<lambda>d.
       if session \<notin> se_id ` set (db_sessions d) then None
       else let i = db_next_turn d
            in Some (i, d\<lparr>db_turns := db_turns d @
                            [\<lparr>tu_id = i, tu_session = session, tu_role = role_to_string role, tu_text = txt,
                              tu_lang = lang, tu_started_at = started, tu_ended_at = None,
                              tu_status = status_to_string status, tu_interrupted = None,
                              tu_audio_path = None\<rparr>],
                          db_next_turn := i + 1\<rparr>))"

definition set_turn_status ::
  "row_id \<Rightarrow> turn_status \<Rightarrow> unix_ms option \<Rightarrow> int option \<Rightarrow> string option \<Rightarrow> connection \<Rightarrow>
     (db_error + unit) \<times> connection" where
  "set_turn_status i status ended interrupted txt =
     run_sql ''set_turn_status'' (\<lambda>d.
       Some ((), d\<lparr>db_turns :=
         map (\<lambda>t. if tu_id t = i
                  then t\<lparr>tu_status := status_to_string status, tu_ended_at := sql_coalesce ended (tu_ended_at t),
                         tu_interrupted := interrupted, tu_text := sql_coalesce txt (tu_text t)\<rparr>
                  else t) (db_turns d)\<rparr>))"

definition turn_of_rec :: "turn_rec \<Rightarrow> turn_row" where
  "turn_of_rec t =
     \<lparr>tr_id = tu_id t, tr_session = tu_session t, tr_role = parse_role (tu_role t), tr_text = tu_text t,
      tr_lang = tu_lang t, tr_started_at = tu_started_at t, tr_ended_at = tu_ended_at t,
      tr_status = parse_status (tu_status t), tr_interrupted = tu_interrupted t,
      tr_audio_path = tu_audio_path t\<rparr>"

text \<open>The newest \<open>limit\<close> turns of a session by id, handed out oldest first.\<close>

definition recent_turns :: "row_id \<Rightarrow> int \<Rightarrow> connection \<Rightarrow> (db_error + turn_row list) \<times> connection" where
  "recent_turns session limit =
     run_sql ''recent_turns'' (\<lambda>d.
       Some (rev (map turn_of_rec (sql_limit limit (rev (sort_key tu_id
               (filter (\<lambda>t. tu_session t = session) (db_turns d)))))), d))"

definition turns_in_progress :: "connection \<Rightarrow> (db_error + turn_row list) \<times> connection" where
  "turns_in_progress =
     run_sql ''turns_in_progress'' (\<lambda>d.
       Some (map turn_of_rec (filter (\<lambda>t. tu_status t = ''in_progress'') (db_turns d)), d))"

definition max_turn_ended_at :: "row_id \<Rightarrow> connection \<Rightarrow> (db_error + unix_ms option) \<times> connection" where
  "max_turn_ended_at session =
     run_sql ''max_turn_ended_at'' (\<lambda>d.
       Some (sql_max (map tu_ended_at (filter (\<lambda>t. tu_session t = session) (db_turns d))), d))"

definition insert_summary ::
  "row_id \<Rightarrow> row_id \<Rightarrow> row_id \<Rightarrow> string \<Rightarrow> string \<Rightarrow> string \<Rightarrow> unix_ms \<Rightarrow> connection \<Rightarrow>
     (db_error + row_id) \<times> connection" where
  "insert_summary session range_start range_end summary lang hash created =
     run_sql ''insert_summary'' (\<lambda>d.
       if session \<notin> se_id ` set (db_sessions d) then None
       else let i = db_next_summary d
            in Some (i, d\<lparr>db_summaries := db_summaries d @
                            [\<lparr>sr_id = i, sr_session = session, sr_range_start = range_start,
                              sr_range_end = range_end, sr_summary = summary, sr_lang = lang,
                              sr_source_hash = hash, sr_created_at = created\<rparr>],
                          db_next_summary := i + 1\<rparr>))"

text \<open>The summary with the largest \<open>range_end_turn\<close>; the newest of several (SQL leaves it open).\<close>

definition latest_summary :: "row_id \<Rightarrow> connection \<Rightarrow> (db_error + summary_row option) \<times> connection" where
  "latest_summary session =
     run_sql ''latest_summary'' (\<lambda>d.
       Some (case sql_limit 1 (rev (sort_key sr_range_end
                    (filter (\<lambda>s. sr_session s = session) (db_summaries d)))) of
               [] \<Rightarrow> None | s # _ \<Rightarrow> Some s, d))"

definition all_summaries :: "connection \<Rightarrow> (db_error + summary_row list) \<times> connection" where
  "all_summaries = run_sql ''all_summaries'' (\<lambda>d. Some (db_summaries d, d))"

text \<open>
  \<open>UNIQUE(key, lang)\<close>: rows conflict when both columns are equal and not \<open>NULL\<close>, since SQL
  counts two \<open>NULL\<close>s as distinct.
\<close>

definition fact_conflict :: "string \<Rightarrow> string option \<Rightarrow> fact_row \<Rightarrow> bool" where
  "fact_conflict key lang f \<longleftrightarrow> fa_key f = key \<and> lang \<noteq> None \<and> fa_lang f = lang"

definition upsert_fact ::
  "string \<Rightarrow> string option \<Rightarrow> string \<Rightarrow> row_id option \<Rightarrow> real \<Rightarrow> unix_ms \<Rightarrow> connection \<Rightarrow>
     (db_error + unit) \<times> connection" where
  "upsert_fact key lang val source confidence updated =
     run_sql ''upsert_fact'' (\<lambda>d.
       if (case source of None \<Rightarrow> False | Some t \<Rightarrow> t \<notin> tu_id ` set (db_turns d)) then None
       else if \<exists>f \<in> set (db_facts d). fact_conflict key lang f
       then Some ((), d\<lparr>db_facts :=
              map (\<lambda>f. if fact_conflict key lang f
                       then f\<lparr>fa_value := val, fa_source_turn := source, fa_confidence := confidence,
                              fa_updated_at := updated\<rparr> else f) (db_facts d)\<rparr>)
       else let i = db_next_fact d
            in Some ((), d\<lparr>db_facts := db_facts d @
                            [\<lparr>fa_id = i, fa_key = key, fa_value = val, fa_lang = lang,
                              fa_source_turn = source, fa_confidence = confidence, fa_updated_at = updated\<rparr>],
                           db_next_fact := i + 1\<rparr>))"

text \<open>Byte order of strings; \<open>NULL\<close> sorts first.\<close>

fun text_less_eq :: "string \<Rightarrow> string \<Rightarrow> bool" where
  "text_less_eq [] _ = True"
| "text_less_eq (a # as) [] = False"
| "text_less_eq (a # as) (b # bs) =
     (if a = b then text_less_eq as bs else (of_char a :: nat) < of_char b)"

definition fact_less_eq :: "fact_row \<Rightarrow> fact_row \<Rightarrow> bool" where
  "fact_less_eq f g =
     (if fa_key f \<noteq> fa_key g then text_less_eq (fa_key f) (fa_key g)
      else case (fa_lang f, fa_lang g) of
          (None, _) \<Rightarrow> True
        | (Some _, None) \<Rightarrow> False
        | (Some a, Some b) \<Rightarrow> text_less_eq a b)"

fun insert_fact_sorted :: "fact_row \<Rightarrow> fact_row list \<Rightarrow> fact_row list" where
  "insert_fact_sorted f [] = [f]"
| "insert_fact_sorted f (g # gs) =
     (if fact_less_eq f g then f # g # gs else g # insert_fact_sorted f gs)"

definition facts_with_min_confidence :: "real \<Rightarrow> connection \<Rightarrow> (db_error + fact_row list) \<times> connection" where
  "facts_with_min_confidence m =
     run_sql ''facts_with_min_confidence'' (\<lambda>d.
       Some (foldr insert_fact_sorted (filter (\<lambda>f. m \<le> fa_confidence f) (db_facts d)) [], d))"

definition set_setting :: "string \<Rightarrow> string \<Rightarrow> unix_ms \<Rightarrow> connection \<Rightarrow> (db_error + unit) \<times> connection" where
  "set_setting key val updated =
     run_sql ''set_setting'' (\<lambda>d.
       if key \<in> st_key ` set (db_settings d)
       then Some ((), d\<lparr>db_settings :=
              map (\<lambda>s. if st_key s = key then s\<lparr>st_value := val, st_updated_at := updated\<rparr> else s)
                (db_settings d)\<rparr>)
       else Some ((), d\<lparr>db_settings := db_settings d @
                         [\<lparr>st_key = key, st_value = val, st_updated_at = updated\<rparr>]\<rparr>))"

definition get_setting :: "string \<Rightarrow> connection \<Rightarrow> (db_error + string option) \<times> connection" where
  "get_setting key =
     run_sql ''get_setting'' (\<lambda>d.
       Some (map_option st_value (find (\<lambda>s. st_key s = key) (db_settings d)), d))"

section \<open>Statements and faults\<close>

text \<open>A statement keeps the transaction state, and an error leaves the tables alone.\<close>

lemma run_sql_error: "run_sql name m c = (Inl e, c') \<Longrightarrow> cn_db c' = cn_db c \<and> cn_saved c' = cn_saved c"
  by (auto simp: run_sql_def next_fault_def split: list.splits fault.splits option.splits prod.splits)

lemma run_sql_ok: "run_sql name m c = (Inr x, c') \<Longrightarrow>
    (\<exists>d. m (cn_db c) = Some (x, d) \<and> cn_db c' = d) \<and> cn_saved c' = cn_saved c"
  by (auto simp: run_sql_def next_fault_def split: list.splits fault.splits option.splits prod.splits)

lemma run_sql_saved: "cn_saved (snd (run_sql name m c)) = cn_saved c"
  by (auto simp: run_sql_def next_fault_def split: list.splits fault.splits option.splits prod.splits)

lemma run_sql_no_fault:
  "cn_faults c = [] \<Longrightarrow> run_sql name m c =
     (case m (cn_db c) of None \<Rightarrow> (Inl (name @ '' step''), c) | Some (x, d) \<Rightarrow> (Inr x, c\<lparr>cn_db := d\<rparr>))"
  by (simp add: run_sql_def next_fault_def)

lemma parse_role_to_string [simp]: "parse_role (role_to_string r) = r"
  by (cases r) (simp_all add: parse_role_def)

lemma parse_status_to_string [simp]: "parse_status (status_to_string s) = s"
  by (cases s) (simp_all add: parse_status_def)

section \<open>Well-formed stores\<close>

text \<open>
  What the schema's constraints and the counters promise: ids grow along each table and stay
  below the counter, references resolve, role and status are among the checked texts, no two
  settings share a key and no two facts share a key and a language.
\<close>

definition ids_below :: "row_id \<Rightarrow> row_id list \<Rightarrow> bool" where
  "ids_below next is \<longleftrightarrow> sorted_wrt (<) is \<and> (\<forall>i \<in> set is. 0 < i \<and> i < next) \<and> 0 < next"

definition session_ids :: "database \<Rightarrow> row_id list" where
  "session_ids d = map se_id (db_sessions d)"

definition turn_ids :: "database \<Rightarrow> row_id list" where
  "turn_ids d = map tu_id (db_turns d)"

definition fact_keys :: "database \<Rightarrow> (string \<times> string option) list" where
  "fact_keys d = map (\<lambda>f. (fa_key f, fa_lang f)) (filter (\<lambda>f. fa_lang f \<noteq> None) (db_facts d))"

definition fact_ids :: "database \<Rightarrow> row_id list" where
  "fact_ids d = map fa_id (db_facts d)"

definition setting_keys :: "database \<Rightarrow> string list" where
  "setting_keys d = map st_key (db_settings d)"

definition turn_wf :: "row_id list \<Rightarrow> turn_rec \<Rightarrow> bool" where
  "turn_wf sids t \<longleftrightarrow>
     tu_session t \<in> set sids \<and> tu_role t \<in> range role_to_string \<and> tu_status t \<in> range status_to_string"

definition fact_wf :: "row_id list \<Rightarrow> fact_row \<Rightarrow> bool" where
  "fact_wf tids f \<longleftrightarrow> (case fa_source_turn f of None \<Rightarrow> True | Some t \<Rightarrow> t \<in> set tids)"

definition db_wf :: "database \<Rightarrow> bool" where
  "db_wf d \<longleftrightarrow>
     ids_below (db_next_session d) (session_ids d) \<and>
     ids_below (db_next_turn d) (turn_ids d) \<and>
     ids_below (db_next_summary d) (map sr_id (db_summaries d)) \<and>
     ids_below (db_next_fact d) (fact_ids d) \<and>
     (\<forall>t \<in> set (db_turns d). turn_wf (session_ids d) t) \<and>
     (\<forall>s \<in> set (db_summaries d). sr_session s \<in> set (session_ids d)) \<and>
     (\<forall>f \<in> set (db_facts d). fact_wf (turn_ids d) f) \<and>
     distinct (fact_keys d) \<and>
     distinct (setting_keys d)"

lemma ids_below_snoc: "ids_below n is \<Longrightarrow> ids_below (n + 1) (is @ [n])"
  by (auto simp: ids_below_def sorted_wrt_append)

datatype repo_op =
    OpInsertSession unix_ms "string option"
  | OpCloseSession row_id unix_ms
  | OpInsertTurn row_id turn_role "string option" "string option" unix_ms turn_status
  | OpSetTurnStatus row_id turn_status "unix_ms option" "int option" "string option"
  | OpInsertSummary row_id row_id row_id string string string unix_ms
  | OpUpsertFact string "string option" string "row_id option" real unix_ms
  | OpSetSetting string string unix_ms
  | OpRecentTurns row_id int
  | OpBegin | OpCommit | OpRollback

fun repo_do :: "connection \<Rightarrow> repo_op \<Rightarrow> connection" where
  "repo_do c (OpInsertSession t title) = snd (insert_session t title c)"
| "repo_do c (OpCloseSession i t) = snd (close_session i t c)"
| "repo_do c (OpInsertTurn s r x l t st) = snd (insert_turn s r x l t st c)"
| "repo_do c (OpSetTurnStatus i st e n x) = snd (set_turn_status i st e n x c)"
| "repo_do c (OpInsertSummary s a b x l h t) = snd (insert_summary s a b x l h t c)"
| "repo_do c (OpUpsertFact k l v t p u) = snd (upsert_fact k l v t p u c)"
| "repo_do c (OpSetSetting k v u) = snd (set_setting k v u c)"
| "repo_do c (OpRecentTurns s n) = snd (recent_turns s n c)"
| "repo_do c OpBegin = tx_begin c"
| "repo_do c OpCommit = snd (tx_commit c)"
| "repo_do c OpRollback = tx_rollback c"

definition cn_wf :: "connection \<Rightarrow> bool" where
  "cn_wf c \<longleftrightarrow> db_wf (cn_db c) \<and> (case cn_saved c of None \<Rightarrow> True | Some d \<Rightarrow> db_wf d)"

lemma run_sql_wf:
  assumes "cn_wf c" and "\<And>x d. m (cn_db c) = Some (x, d) \<Longrightarrow> db_wf d"
  shows "cn_wf (snd (run_sql name m c))"
  using assms
  by (auto simp: run_sql_def next_fault_def cn_wf_def split: list.splits fault.splits option.splits prod.splits)

lemma close_session_wf:
  "db_wf d \<Longrightarrow>
     db_wf (d\<lparr>db_sessions := map (\<lambda>s. if se_id s = i then s\<lparr>se_ended_at := e\<rparr> else s) (db_sessions d)\<rparr>)"
proof -
  have "session_ids (d\<lparr>db_sessions := map (\<lambda>s. if se_id s = i then s\<lparr>se_ended_at := e\<rparr> else s) (db_sessions d)\<rparr>) =
      session_ids d"
    by (simp add: session_ids_def o_def if_distrib [of se_id])
  then show "db_wf d \<Longrightarrow> ?thesis"
    by (simp add: db_wf_def turn_ids_def fact_keys_def fact_ids_def setting_keys_def)
qed

lemma set_turn_status_wf:
  assumes "db_wf d"
  shows "db_wf (d\<lparr>db_turns :=
    map (\<lambda>t. if tu_id t = i
             then t\<lparr>tu_status := status_to_string st, tu_ended_at := e t, tu_interrupted := n, tu_text := x t\<rparr>
             else t) (db_turns d)\<rparr>)"
    (is "db_wf (d\<lparr>db_turns := map ?g _\<rparr>)")
proof -
  have "turn_ids (d\<lparr>db_turns := map ?g (db_turns d)\<rparr>) = turn_ids d"
    by (simp add: turn_ids_def o_def if_distrib [of tu_id])
  then show ?thesis
    using assms by (auto simp: db_wf_def session_ids_def fact_keys_def fact_ids_def setting_keys_def turn_wf_def)
qed

lemma upsert_fact_wf:
  assumes "db_wf d" and "\<And>t. src = Some t \<Longrightarrow> t \<in> set (turn_ids d)"
  shows "db_wf (d\<lparr>db_facts :=
    map (\<lambda>f. if fact_conflict k l f
             then f\<lparr>fa_value := v, fa_source_turn := src, fa_confidence := p, fa_updated_at := u\<rparr> else f) (db_facts d)\<rparr>)"
    (is "db_wf (d\<lparr>db_facts := map ?g _\<rparr>)")
proof -
  have "fact_keys (d\<lparr>db_facts := map ?g (db_facts d)\<rparr>) = fact_keys d"
    by (simp add: fact_keys_def filter_map o_def if_distrib cong: if_cong)
  moreover have "fact_ids (d\<lparr>db_facts := map ?g (db_facts d)\<rparr>) = fact_ids d"
    by (simp add: fact_ids_def o_def if_distrib [of fa_id])
  ultimately show ?thesis
    using assms by (auto simp: db_wf_def session_ids_def turn_ids_def setting_keys_def fact_wf_def split: option.splits)
qed

lemma add_fact_wf:
  assumes "db_wf d" and "\<And>t. src = Some t \<Longrightarrow> t \<in> set (turn_ids d)"
    and "\<not> (\<exists>f \<in> set (db_facts d). fact_conflict k l f)"
  shows "db_wf (d\<lparr>db_facts := db_facts d @
      [\<lparr>fa_id = db_next_fact d, fa_key = k, fa_value = v, fa_lang = l, fa_source_turn = src,
        fa_confidence = p, fa_updated_at = u\<rparr>], db_next_fact := db_next_fact d + 1\<rparr>)"
  using assms
  by (auto simp: db_wf_def session_ids_def turn_ids_def fact_keys_def fact_ids_def setting_keys_def fact_wf_def fact_conflict_def
      ids_below_snoc split: option.splits)

lemma add_session_wf:
  assumes "db_wf d"
  shows "db_wf (d\<lparr>db_sessions := db_sessions d @
      [\<lparr>se_id = db_next_session d, se_started_at = t, se_ended_at = None, se_title = title\<rparr>],
      db_next_session := db_next_session d + 1\<rparr>)"
  using assms
  by (auto simp: db_wf_def session_ids_def turn_ids_def fact_keys_def fact_ids_def setting_keys_def turn_wf_def ids_below_snoc)

lemma add_turn_wf:
  assumes "db_wf d" and "s \<in> set (session_ids d)"
  shows "db_wf (d\<lparr>db_turns := db_turns d @
      [\<lparr>tu_id = db_next_turn d, tu_session = s, tu_role = role_to_string r, tu_text = x, tu_lang = l,
        tu_started_at = t, tu_ended_at = None, tu_status = status_to_string st, tu_interrupted = None,
        tu_audio_path = None\<rparr>], db_next_turn := db_next_turn d + 1\<rparr>)"
  using assms
  by (auto simp: db_wf_def session_ids_def turn_ids_def fact_keys_def fact_ids_def setting_keys_def turn_wf_def fact_wf_def ids_below_snoc
      split: option.splits)

lemma add_summary_wf:
  assumes "db_wf d" and "s \<in> set (session_ids d)"
  shows "db_wf (d\<lparr>db_summaries := db_summaries d @
      [\<lparr>sr_id = db_next_summary d, sr_session = s, sr_range_start = a, sr_range_end = b, sr_summary = x,
        sr_lang = l, sr_source_hash = h, sr_created_at = t\<rparr>], db_next_summary := db_next_summary d + 1\<rparr>)"
  using assms
  by (auto simp: db_wf_def session_ids_def turn_ids_def fact_keys_def fact_ids_def setting_keys_def ids_below_snoc)

lemma set_setting_wf:
  assumes "db_wf d"
  shows "db_wf (d\<lparr>db_settings :=
    map (\<lambda>s. if st_key s = k then s\<lparr>st_value := v, st_updated_at := u\<rparr> else s) (db_settings d)\<rparr>)"
    (is "db_wf (d\<lparr>db_settings := map ?g _\<rparr>)")
proof -
  have "setting_keys (d\<lparr>db_settings := map ?g (db_settings d)\<rparr>) = setting_keys d"
    by (simp add: setting_keys_def o_def if_distrib [of st_key])
  with assms show ?thesis
    by (simp add: db_wf_def session_ids_def turn_ids_def fact_keys_def fact_ids_def)
qed

lemma add_setting_wf:
  "db_wf d \<Longrightarrow> k \<notin> st_key ` set (db_settings d) \<Longrightarrow>
     db_wf (d\<lparr>db_settings := db_settings d @ [\<lparr>st_key = k, st_value = v, st_updated_at = u\<rparr>]\<rparr>)"
  by (auto simp: db_wf_def session_ids_def turn_ids_def fact_keys_def fact_ids_def setting_keys_def)

lemmas row_wf = close_session_wf set_turn_status_wf upsert_fact_wf add_fact_wf add_session_wf
  add_turn_wf add_summary_wf set_setting_wf add_setting_wf

lemma tx_wf:
  "cn_wf c \<Longrightarrow> cn_wf (tx_begin c)" "cn_wf c \<Longrightarrow> cn_wf (snd (tx_commit c))" "cn_wf c \<Longrightarrow> cn_wf (tx_rollback c)"
  by (auto simp: tx_begin_def tx_commit_def tx_rollback_def next_fault_def cn_wf_def split: list.splits option.splits)

lemmas repo_updates = insert_session_def close_session_def insert_turn_def set_turn_status_def
  insert_summary_def upsert_fact_def set_setting_def
lemmas repo_queries = sessions_open_no_ended_at_def recent_turns_def turns_in_progress_def
  max_turn_ended_at_def latest_summary_def all_summaries_def facts_with_min_confidence_def get_setting_def

lemma repo_do_wf: "cn_wf c \<Longrightarrow> cn_wf (repo_do c op)"
proof -
  assume wf: "cn_wf c"
  then have "db_wf (cn_db c)" by (simp add: cn_wf_def)
  with wf show ?thesis
    by (cases op)
      (auto simp: repo_updates recent_turns_def Let_def session_ids_def turn_ids_def
        intro!: run_sql_wf row_wf tx_wf split: if_splits option.splits)
qed

interpretation repo: step_machine repo_do cn_wf
  by unfold_locales (rule repo_do_wf)

section \<open>Keyed stores\<close>

text \<open>
  What clients of a keyed table rely on: reading back the last value written under a key. Both
  the settings and the facts with a language provide it.
\<close>

locale keyed_store =
  fixes lookup :: "'k \<Rightarrow> 's \<Rightarrow> 'v option"
    and update :: "'k \<Rightarrow> 'v \<Rightarrow> 's \<Rightarrow> 's"
    and inv :: "'s \<Rightarrow> bool"
  assumes update_inv: "inv s \<Longrightarrow> inv (update k v s)"
    and lookup_same: "inv s \<Longrightarrow> lookup k (update k v s) = Some v"
    and lookup_other: "inv s \<Longrightarrow> k \<noteq> k' \<Longrightarrow> lookup k (update k' v s) = lookup k s"
begin

abbreviation update_all :: "('k \<times> 'v) list \<Rightarrow> 's \<Rightarrow> 's" where
  "update_all kvs s \<equiv> foldl (\<lambda>s (k, v). update k v s) s kvs"

lemma update_all_inv: "inv s \<Longrightarrow> inv (update_all kvs s)"
  by (induction kvs arbitrary: s) (auto intro: update_inv)

text \<open>A run of writes is the map of the last write of every key over the old contents.\<close>

lemma lookup_update_all:
  "inv s \<Longrightarrow> lookup k (update_all kvs s) =
     (case map_of (rev kvs) k of Some v \<Rightarrow> Some v | None \<Rightarrow> lookup k s)"
proof (induction kvs rule: rev_induct)
  case (snoc kv kvs)
  obtain k' v where kv: "kv = (k', v)" by fastforce
  have "lookup k (update k' v (update_all kvs s)) =
      (if k = k' then Some v else lookup k (update_all kvs s))"
    using snoc.prems by (simp add: lookup_same lookup_other update_all_inv)
  with snoc kv show ?case by simp
qed simp

end

text \<open>The tables of a connection without faults.\<close>

definition calm :: "connection \<Rightarrow> bool" where
  "calm c \<longleftrightarrow> cn_faults c = []"

definition write_setting :: "string \<Rightarrow> string \<times> unix_ms \<Rightarrow> connection \<Rightarrow> connection" where
  "write_setting k v c = snd (set_setting k (fst v) (snd v) c)"

definition read_setting :: "string \<Rightarrow> connection \<Rightarrow> (string \<times> unix_ms) option" where
  "read_setting k c = map_option (\<lambda>s. (st_value s, st_updated_at s)) (find (\<lambda>s. st_key s = k) (db_settings (cn_db c)))"

text \<open>Update-or-insert in a list of rows with a key column, and reading the row back.\<close>

definition upsert_row :: "('r \<Rightarrow> 'k) \<Rightarrow> 'k \<Rightarrow> ('r \<Rightarrow> 'r) \<Rightarrow> 'r \<Rightarrow> 'r list \<Rightarrow> 'r list" where
  "upsert_row key k g y xs =
     (if k \<in> key ` set xs then map (\<lambda>x. if key x = k then g x else x) xs else xs @ [y])"

lemma find_append: "find P (xs @ ys) = (case find P xs of Some x \<Rightarrow> Some x | None \<Rightarrow> find P ys)"
  by (induction xs) auto

lemma find_map_key:
  "(\<And>x. key (g x) = key x) \<Longrightarrow> find (\<lambda>x. key x = k) (map (\<lambda>x. if key x = k' then g x else x) xs) =
     (if k = k' then map_option g (find (\<lambda>x. key x = k) xs) else find (\<lambda>x. key x = k) xs)"
  by (induction xs) auto

lemma find_key_in: "k \<in> key ` set xs \<Longrightarrow> \<exists>x. find (\<lambda>x. key x = k) xs = Some x \<and> key x = k"
  by (induction xs) auto

lemma find_key_notin: "k \<notin> key ` set xs \<Longrightarrow> find (\<lambda>x. key x = k) xs = None"
  by (induction xs) auto

lemma find_upsert_same:
  assumes "\<And>x. key (g x) = key x" and "key y = k" and "\<And>x. key x = k \<Longrightarrow> out (g x) = out y"
  shows "map_option out (find (\<lambda>x. key x = k) (upsert_row key k g y xs)) = Some (out y)"
proof (cases "k \<in> key ` set xs")
  case True
  with find_key_in [of k key xs] obtain x where "find (\<lambda>x. key x = k) xs = Some x" "key x = k" by blast
  with True assms show ?thesis by (simp add: upsert_row_def find_map_key)
next
  case False
  with assms show ?thesis by (simp add: upsert_row_def find_append find_key_notin)
qed

lemma find_upsert_other:
  assumes "\<And>x. key (g x) = key x" and "key y = k'" and "k \<noteq> k'"
  shows "find (\<lambda>x. key x = k) (upsert_row key k' g y xs) = find (\<lambda>x. key x = k) xs"
  using assms by (simp add: upsert_row_def find_map_key find_append split: option.splits)

lemma calm_write_setting:
  "calm c \<Longrightarrow> write_setting k v c = c\<lparr>cn_db := (cn_db c)\<lparr>db_settings :=
     upsert_row st_key k (\<lambda>s. s\<lparr>st_value := fst v, st_updated_at := snd v\<rparr>)
       \<lparr>st_key = k, st_value = fst v, st_updated_at = snd v\<rparr> (db_settings (cn_db c))\<rparr>\<rparr>"
  by (simp add: calm_def write_setting_def set_setting_def run_sql_no_fault upsert_row_def)

interpretation settings: keyed_store read_setting write_setting calm
proof
  fix c k v
  assume c: "calm c"
  show "calm (write_setting k v c)"
    using c by (simp add: calm_write_setting) (simp add: calm_def)
  show "read_setting k (write_setting k v c) = Some v"
    using c by (simp add: calm_write_setting read_setting_def find_upsert_same)
  fix k'
  assume "k \<noteq> k'"
  with c show "read_setting k (write_setting k' v c) = read_setting k c"
    by (simp add: calm_write_setting read_setting_def find_upsert_other)
qed

text \<open>Facts with a language, without a source turn.\<close>

definition write_fact :: "string \<times> string \<Rightarrow> string \<times> real \<times> unix_ms \<Rightarrow> connection \<Rightarrow> connection" where
  "write_fact k v c =
     snd (upsert_fact (fst k) (Some (snd k)) (fst v) None (fst (snd v)) (snd (snd v)) c)"

definition fact_key :: "fact_row \<Rightarrow> string \<times> string option" where
  "fact_key f = (fa_key f, fa_lang f)"

definition read_fact :: "string \<times> string \<Rightarrow> connection \<Rightarrow> (string \<times> real \<times> unix_ms) option" where
  "read_fact k c =
     map_option (\<lambda>f. (fa_value f, fa_confidence f, fa_updated_at f))
       (find (\<lambda>f. fact_key f = (fst k, Some (snd k))) (db_facts (cn_db c)))"

lemma fact_conflict_key: "fact_conflict k (Some l) f \<longleftrightarrow> fact_key f = (k, Some l)"
  by (auto simp: fact_conflict_def fact_key_def)

lemma write_fact_facts:
  "calm c \<Longrightarrow> calm (write_fact k v c) \<and> db_facts (cn_db (write_fact k v c)) =
     upsert_row fact_key (fst k, Some (snd k))
       (\<lambda>f. f\<lparr>fa_value := fst v, fa_source_turn := None, fa_confidence := fst (snd v), fa_updated_at := snd (snd v)\<rparr>)
       \<lparr>fa_id = db_next_fact (cn_db c), fa_key = fst k, fa_value = fst v, fa_lang = Some (snd k),
         fa_source_turn = None, fa_confidence = fst (snd v), fa_updated_at = snd (snd v)\<rparr> (db_facts (cn_db c))"
  by (auto simp: calm_def write_fact_def upsert_fact_def run_sql_no_fault Let_def upsert_row_def
      fact_conflict_key rev_image_eqI)

interpretation facts: keyed_store read_fact write_fact calm
proof
  fix c k v
  assume c: "calm c"
  show "calm (write_fact k v c)"
    using c by (simp add: write_fact_facts)
  show "read_fact k (write_fact k v c) = Some v"
    unfolding read_fact_def conjunct2 [OF write_fact_facts [OF c]]
    by (subst find_upsert_same) (simp_all add: fact_key_def)
  fix k'
  assume "k \<noteq> k'"
  then have "(fst k, Some (snd k)) \<noteq> (fst k', Some (snd k'))" by (auto simp: prod_eq_iff)
  then show "read_fact k (write_fact k' v c) = read_fact k c"
    unfolding read_fact_def conjunct2 [OF write_fact_facts [OF c]]
    by (subst find_upsert_other) (simp_all add: fact_key_def)
qed

text \<open>
  Without a language there is nothing to conflict with: an upsert repeated with the same key adds
  a second row instead of replacing the first.
\<close>

lemma upsert_without_lang_duplicates:
  "let c = \<lparr>cn_db = db_empty, cn_saved = None, cn_faults = []\<rparr>;
       c1 = snd (upsert_fact ''name'' None ''Ann'' None 1 10 c);
       c2 = snd (upsert_fact ''name'' None ''Bob'' None 1 20 c1)
   in map (\<lambda>f. (fa_key f, fa_value f)) (db_facts (cn_db c2)) = [(''name'', ''Ann''), (''name'', ''Bob'')]"
  by (simp add: upsert_fact_def run_sql_no_fault fact_conflict_def db_empty_def Let_def)

section \<open>Properties\<close>


lemma sorted_map_filter: "sorted_wrt (<) (map f xs) \<Longrightarrow> sorted_wrt (<) (map f (filter P xs))"
  by (induction xs) auto

lemma sort_key_ids: "sorted_wrt (<) (map f xs) \<Longrightarrow> sort_key f xs = (xs :: 'a list)" for f :: "'a \<Rightarrow> int"
  by (rule sort_key_id_if_sorted) (simp add: strict_sorted_imp_sorted)

lemma rev_take_rev: "rev (take n (rev xs)) = take_last n xs"
  by (simp add: take_rev take_last_def)

text \<open>
  The prompt sees the newest turns in order. On a well-formed store, the turns read back are
  the last \<open>n\<close> of the session in the order they were inserted, each with the role and the status
  it was written with; nothing of another session is among them.
\<close>

theorem recent_turns_are_the_last:
  assumes "db_wf (cn_db c)" and "calm c"
  shows "recent_turns s (int n) c =
    (Inr (take_last n (map turn_of_rec (filter (\<lambda>t. tu_session t = s) (db_turns (cn_db c))))), c)"
proof -
  have "sorted_wrt (<) (map tu_id (filter (\<lambda>t. tu_session t = s) (db_turns (cn_db c))))"
    using assms(1) by (intro sorted_map_filter) (simp add: db_wf_def ids_below_def turn_ids_def)
  with assms(2) show ?thesis
    by (simp add: recent_turns_def run_sql_no_fault calm_def sort_key_ids sql_limit_def rev_map rev_take_rev
        flip: take_last_def) (simp add: take_last_def drop_map)
qed

definition demo_store :: connection where
  "demo_store = foldl repo_do \<lparr>cn_db = db_empty, cn_saved = None, cn_faults = []\<rparr>
     [OpInsertSession 1 None, OpInsertSession 2 None,
      OpInsertTurn 1 RoleUser (Some ''hi'') None 5 Committed,
      OpInsertTurn 2 RoleUser (Some ''other'') None 6 Committed,
      OpInsertTurn 1 RoleAssistant (Some ''yes?'') None 7 InProgress]"

lemma demo_store_eq: "cn_faults demo_store = []" "cn_saved demo_store = None"
  "db_turns (cn_db demo_store) =
     [\<lparr>tu_id = 1, tu_session = 1, tu_role = ''user'', tu_text = Some ''hi'', tu_lang = None, tu_started_at = 5,
       tu_ended_at = None, tu_status = ''committed'', tu_interrupted = None, tu_audio_path = None\<rparr>,
      \<lparr>tu_id = 2, tu_session = 2, tu_role = ''user'', tu_text = Some ''other'', tu_lang = None, tu_started_at = 6,
       tu_ended_at = None, tu_status = ''committed'', tu_interrupted = None, tu_audio_path = None\<rparr>,
      \<lparr>tu_id = 3, tu_session = 1, tu_role = ''assistant'', tu_text = Some ''yes?'', tu_lang = None, tu_started_at = 7,
       tu_ended_at = None, tu_status = ''in_progress'', tu_interrupted = None, tu_audio_path = None\<rparr>]"
  "db_wf (cn_db demo_store)"
proof -
  have "cn_wf \<lparr>cn_db = db_empty, cn_saved = None, cn_faults = []\<rparr>"
    by (simp add: cn_wf_def db_wf_def db_empty_def ids_below_def session_ids_def turn_ids_def fact_keys_def
        fact_ids_def setting_keys_def)
  then have "cn_wf demo_store" unfolding demo_store_def by (rule repo.run_inv)
  then show "db_wf (cn_db demo_store)" by (simp add: cn_wf_def)
qed (simp_all add: demo_store_def repo_updates run_sql_def next_fault_def db_empty_def Let_def)

theorem recent_turns_are_the_last_witness:
  "map tr_text (case fst (recent_turns 1 1 demo_store) of Inr ts \<Rightarrow> ts | Inl e \<Rightarrow> []) = [Some ''yes?'']"
  using recent_turns_are_the_last [OF demo_store_eq(4), of 1 1]
  by (simp add: calm_def demo_store_eq take_last_def turn_of_rec_def)

text \<open>
  A setting reads back as last written: after any list of writes without faults,
  \<open>get_setting\<close> returns the last value written under the key, and what was there before for a
  key that was not written.
\<close>

theorem settings_read_last_write:
  assumes "calm c"
  shows "fst (get_setting k (foldl (\<lambda>c (k, v, u). snd (set_setting k v u c)) c kvs)) =
    (case map_of (rev kvs) k of
       Some vu \<Rightarrow> Inr (Some (fst vu))
     | None \<Rightarrow> Inr (map_option fst (read_setting k c)))"
proof -
  have eq: "foldl (\<lambda>c (k, v, u). snd (set_setting k v u c)) c kvs = foldl (\<lambda>c (k, v). write_setting k v c) c kvs"
    by (rule arg_cong [of _ _ "\<lambda>f. foldl f c kvs"]) (auto simp: write_setting_def fun_eq_iff)
  have get: "fst (get_setting k c') = Inr (map_option fst (read_setting k c'))" if "calm c'" for c'
    using that by (simp add: get_setting_def run_sql_no_fault calm_def read_setting_def option.map_comp o_def)
  show ?thesis
    unfolding eq get [OF settings.update_all_inv [OF assms]] settings.lookup_update_all [OF assms]
    by (simp split: option.splits)
qed

theorem settings_read_last_write_witness:
  "fst (get_setting ''voice'' (foldl (\<lambda>c (k, v, u). snd (set_setting k v u c)) demo_store
     [(''voice'', ''a'', 1), (''lang'', ''en'', 2), (''voice'', ''b'', 3)])) = Inr (Some ''b'')"
  using settings_read_last_write [of demo_store "''voice''"
      "[(''voice'', ''a'', 1), (''lang'', ''en'', 2), (''voice'', ''b'', 3)]"]
  by (simp add: calm_def demo_store_eq)

end
