(* ===== verification/Memory_Thread.thy ===== *)
theory Memory_Thread
  imports Repository Bounded_Queue
begin

text \<open>
  The memory thread of \<open>src/memory/memory_thread.hpp\<close> and \<open>src/memory/memory_thread.cpp\<close>: one
  worker that owns the connection and runs posted jobs from a bounded queue (DropNewest). A job is
  its effect on the store it can reach (the connection, for the jobs posted; the connection and
  the promises, for the calls of \<open>Memory_Calls\<close>); an exception it throws is swallowed after
  whatever effect it had.
  Posting and the destructor run on other threads, so they interleave with the worker's steps:
  the test of \<open>running_\<close>, the pop, the run of the job.
\<close>

type_synonym 's store_job = "'s \<Rightarrow> 's"

type_synonym mem_job = "connection store_job"

datatype 's mt_worker = MtLoop | MtPop | MtRun "'s store_job" | MtExit

record 's memory_thread =
  mt_conn :: 's
  mt_queue :: "'s store_job bounded_queue"
  mt_running :: bool
  mt_worker :: "'s mt_worker"

definition mt_new :: "'s \<Rightarrow> nat \<Rightarrow> 's memory_thread" where
  "mt_new c capacity =
     \<lparr>mt_conn = c, mt_queue = bq_new capacity DropNewest, mt_running = True, mt_worker = MtLoop\<rparr>"

text \<open>\<open>open\<close>; opening the database is the caller's first argument.\<close>

definition mt_open :: "db_error + 's \<Rightarrow> nat \<Rightarrow> db_error + 's memory_thread" where
  "mt_open opened capacity =
     (case opened of Inl e \<Rightarrow> Inl e | Inr c \<Rightarrow> Inr (mt_new c capacity))"

text \<open>\<open>post\<close>; under DropNewest a push never blocks.\<close>

definition mt_post :: "'s store_job \<Rightarrow> 's memory_thread \<Rightarrow> bool \<times> 's memory_thread" where
  "mt_post j m =
     (if \<not> mt_running m then (False, m)
      else case bq_push j (mt_queue m) of
          Done (b, q) \<Rightarrow> (b, m\<lparr>mt_queue := q\<rparr>)
        | _ \<Rightarrow> (False, m))"

definition mt_step :: "'s memory_thread \<Rightarrow> 's memory_thread" where
  "mt_step m =
     (case mt_worker m of
        MtLoop \<Rightarrow> m\<lparr>mt_worker := (if mt_running m then MtPop else MtExit)\<rparr>
      | MtPop \<Rightarrow>
          (case bq_pop (mt_queue m) of
             Done (Some j, q) \<Rightarrow> m\<lparr>mt_queue := q, mt_worker := MtRun j\<rparr>
           | Done (None, q) \<Rightarrow> m\<lparr>mt_queue := q, mt_worker := MtExit\<rparr>
           | _ \<Rightarrow> m)
      | MtRun j \<Rightarrow> m\<lparr>mt_conn := j (mt_conn m), mt_worker := MtLoop\<rparr>
      | MtExit \<Rightarrow> m)"

text \<open>The destructor, up to the join.\<close>

definition mt_close :: "'s memory_thread \<Rightarrow> 's memory_thread" where
  "mt_close m = m\<lparr>mt_running := False, mt_queue := bq_close (mt_queue m)\<rparr>"

definition mt_depth :: "'s memory_thread \<Rightarrow> nat" where
  "mt_depth m = bq_size (mt_queue m)"

definition mt_drops :: "'s memory_thread \<Rightarrow> counter" where
  "mt_drops m = bq_drops (mt_queue m)"

section \<open>Interleavings\<close>

datatype 's mt_act = MtPost "'s store_job" | MtWork | MtClose

fun mt_do :: "'s memory_thread \<Rightarrow> 's mt_act \<Rightarrow> 's memory_thread" where
  "mt_do m (MtPost j) = snd (mt_post j m)"
| "mt_do m MtWork = mt_step m"
| "mt_do m MtClose = mt_close m"

text \<open>The jobs that \<open>post\<close> has accepted, in order.\<close>

fun mt_accepted :: "'s memory_thread \<Rightarrow> 's mt_act list \<Rightarrow> 's store_job list" where
  "mt_accepted m [] = []"
| "mt_accepted m (a # as) =
     (case a of MtPost j \<Rightarrow> if fst (mt_post j m) then [j] else [] | _ \<Rightarrow> []) @ mt_accepted (mt_do m a) as"

definition mt_waiting :: "'s memory_thread \<Rightarrow> 's store_job list" where
  "mt_waiting m = (case mt_worker m of MtRun j \<Rightarrow> [j] | _ \<Rightarrow> []) @ bq_q (mt_queue m)"

definition run_jobs :: "'s store_job list \<Rightarrow> 's \<Rightarrow> 's" where
  "run_jobs js c = foldl (\<lambda>c j. j c) c js"

text \<open>What is left to do, done in order, leads to the connection that all accepted jobs lead to.\<close>

definition mt_settled :: "'s memory_thread \<Rightarrow> 's" where
  "mt_settled m = run_jobs (mt_waiting m) (mt_conn m)"

lemma run_jobs_append: "run_jobs (xs @ ys) c = run_jobs ys (run_jobs xs c)"
  by (simp add: run_jobs_def)

definition mt_inv :: "'s memory_thread \<Rightarrow> bool" where
  "mt_inv m \<longleftrightarrow> bq_inv (mt_queue m) \<and> bq_policy (mt_queue m) = DropNewest"

lemma bq_close_policy: "bq_policy (bq_close q) = bq_policy q"
  by (simp add: bq_close_def)

lemma mt_do_inv: "mt_inv m \<Longrightarrow> mt_inv (mt_do m a)"
  by (cases a)
    (auto simp: mt_inv_def mt_post_def mt_step_def mt_close_def bq_close_policy
      dest: bq_push_inv bq_pop_inv bq_push_policy bq_pop_policy intro: bq_close_inv
      split: exec.splits prod.splits option.splits mt_worker.splits)

interpretation memory: step_machine mt_do mt_inv
  by unfold_locales (rule mt_do_inv)

lemma mt_do_settled:
  assumes "mt_inv m"
  shows "mt_settled (mt_do m a) =
    run_jobs (case a of MtPost j \<Rightarrow> if fst (mt_post j m) then [j] else [] | _ \<Rightarrow> []) (mt_settled m)"
proof (cases a)
  case (MtPost j)
  show ?thesis
  proof (cases "bq_push j (mt_queue m)")
    case (Done r)
    obtain b q where r: "r = (b, q)" by fastforce
    have "bq_q q = bq_q (mt_queue m) @ (if b then [j] else [])"
      using assms Done r bq_push_lossless [of "mt_queue m" j q] bq_push_reject [of j "mt_queue m" q]
      by (cases b) (auto simp: mt_inv_def)
    with MtPost Done r show ?thesis
      by (auto simp: mt_post_def mt_settled_def mt_waiting_def run_jobs_append run_jobs_def split: mt_worker.splits)
  qed (auto simp: MtPost mt_post_def mt_settled_def mt_waiting_def run_jobs_def split: mt_worker.splits)
next
  case MtWork
  show ?thesis
    by (auto simp: MtWork mt_step_def mt_settled_def mt_waiting_def run_jobs_def
        split: mt_worker.splits exec.splits option.splits prod.splits dest: bq_pop_some bq_pop_none)
next
  case MtClose
  then show ?thesis
    by (auto simp: mt_close_def mt_settled_def mt_waiting_def run_jobs_def bq_close_def split: mt_worker.splits)
qed

lemma mt_run_settled:
  "mt_inv m \<Longrightarrow> mt_settled (foldl mt_do m acts) = run_jobs (mt_accepted m acts) (mt_settled m)"
proof (induction acts arbitrary: m)
  case (Cons a as)
  then show ?case
    using mt_do_settled [OF Cons.prems, of a] mt_do_inv [OF Cons.prems, of a]
    by (simp add: run_jobs_append)
qed (simp add: run_jobs_def)



text \<open>
  The queue is not drained on shutdown: the loop tests \<open>running_\<close> before it pops, so a write
  accepted before the destructor may never run.
\<close>

lemma shutdown_loses_writes:
  "let c = \<lparr>cn_db = db_empty, cn_saved = None, cn_faults = []\<rparr>;
       acts = [MtPost (write_setting ''k'' (''v'', 1)), MtClose, MtWork];
       m = foldl mt_do (mt_new c 2) acts
   in mt_worker m = MtExit \<and> length (mt_accepted (mt_new c 2) acts) = 1 \<and> mt_conn m = c"
  by (simp add: Let_def mt_new_def mt_post_def mt_step_def mt_close_def bq_push_def bq_append_def
      bq_new_def bq_close_def)

end
