(* ===== verification/Recovery.thy ===== *)
theory Recovery
  imports Repository
begin

text \<open>
  The startup sweep of \<open>src/memory/recovery.hpp\<close> and \<open>src/memory/recovery.cpp\<close>: inside one
  transaction it closes dangling sessions, marks unfinished turns interrupted and compares every
  summary's source hash with the turns it covers. The hash is the 64-bit FNV-1a of the turn texts.
\<close>

section \<open>Source hash\<close>

definition fnv_offset :: "64 word" where "fnv_offset = 0xcbf29ce484222325"
definition fnv_prime :: "64 word" where "fnv_prime = 0x100000001b3"

unbundle bit_operations_syntax

definition fnv1a64 :: "string \<Rightarrow> string" where
  "fnv1a64 s = hex16 (foldl (\<lambda>h c. (h XOR of_char c) * fnv_prime) fnv_offset s)"

definition hash_line :: "turn_row \<Rightarrow> string" where
  "hash_line t =
     dec_int (tr_id t) @ ''|'' @ (case tr_text t of None \<Rightarrow> [] | Some x \<Rightarrow> x) @ [CHR 0x0A]"

definition hash_input :: "row_id \<Rightarrow> row_id \<Rightarrow> turn_row list \<Rightarrow> string" where
  "hash_input a b ts = concat (map hash_line (filter (\<lambda>t. a \<le> tr_id t \<and> tr_id t \<le> b) ts))"

definition compute_source_hash ::
  "row_id \<Rightarrow> row_id \<Rightarrow> row_id \<Rightarrow> connection \<Rightarrow> string \<times> connection" where
  "compute_source_hash session a b c =
     (case recent_turns session 100000 c of
        (Inl e, c1) \<Rightarrow> ([], c1)
      | (Inr ts, c1) \<Rightarrow> (fnv1a64 (hash_input a b ts), c1))"

section \<open>The sweep\<close>

record recovery_summary =
  rc_sessions_closed :: nat
  rc_turns_interrupted :: nat
  rc_summaries_total :: nat
  rc_summaries_stale :: nat

text \<open>Running statements in sequence up to the first error.\<close>

definition db_bind ::
  "(connection \<Rightarrow> (db_error + 'a) \<times> connection) \<Rightarrow> ('a \<Rightarrow> connection \<Rightarrow> (db_error + 'b) \<times> connection) \<Rightarrow>
     connection \<Rightarrow> (db_error + 'b) \<times> connection" where
  "db_bind m f c = (case m c of (Inl e, c1) \<Rightarrow> (Inl e, c1) | (Inr x, c1) \<Rightarrow> f x c1)"

definition db_return :: "'a \<Rightarrow> connection \<Rightarrow> (db_error + 'a) \<times> connection" where
  "db_return x c = (Inr x, c)"

fun close_dangling :: "session_row list \<Rightarrow> nat \<Rightarrow> connection \<Rightarrow> (db_error + nat) \<times> connection" where
  "close_dangling [] n = db_return n"
| "close_dangling (s # ss) n =
     db_bind (max_turn_ended_at (se_id s)) (\<lambda>end_opt.
     db_bind (close_session (se_id s) (case end_opt of Some e \<Rightarrow> e | None \<Rightarrow> se_started_at s)) (\<lambda>_.
     close_dangling ss (n + 1)))"

fun interrupt_turns :: "turn_row list \<Rightarrow> nat \<Rightarrow> connection \<Rightarrow> (db_error + nat) \<times> connection" where
  "interrupt_turns [] n = db_return n"
| "interrupt_turns (t # ts) n =
     db_bind (set_turn_status (tr_id t) InterruptedTurn None None None) (\<lambda>_. interrupt_turns ts (n + 1))"

fun check_summaries :: "summary_row list \<Rightarrow> nat \<times> nat \<Rightarrow> connection \<Rightarrow> (nat \<times> nat) \<times> connection" where
  "check_summaries [] acc c = (acc, c)"
| "check_summaries (s # ss) (seen, stale) c =
     (case compute_source_hash (sr_session s) (sr_range_start s) (sr_range_end s) c of
        (current, c1) \<Rightarrow>
          check_summaries ss
            (seen + 1, if current \<noteq> [] \<and> current \<noteq> sr_source_hash s then stale + 1 else stale) c1)"

definition recovery_body :: "connection \<Rightarrow> (db_error + recovery_summary) \<times> connection" where
  "recovery_body =
     db_bind sessions_open_no_ended_at (\<lambda>open_sessions.
     db_bind (close_dangling open_sessions 0) (\<lambda>nclosed.
     db_bind turns_in_progress (\<lambda>unfinished.
     db_bind (interrupt_turns unfinished 0) (\<lambda>interrupted.
     db_bind all_summaries (\<lambda>rows c.
       (case check_summaries rows (0, 0) c of
          ((seen, stale), c1) \<Rightarrow>
            (Inr \<lparr>rc_sessions_closed = nclosed, rc_turns_interrupted = interrupted,
                  rc_summaries_total = seen, rc_summaries_stale = stale\<rparr>, c1)))))))"

text \<open>
  An error return runs the guard's destructor, which rolls back; \<open>commit\<close> deactivates the guard
  also when it fails.
\<close>

definition run_recovery :: "connection \<Rightarrow> (db_error + recovery_summary) \<times> connection" where
  "run_recovery c =
     (case recovery_body (tx_begin c) of
        (Inl e, c1) \<Rightarrow> (Inl e, tx_rollback c1)
      | (Inr out, c1) \<Rightarrow>
          (case tx_commit c1 of
             (Some e, c2) \<Rightarrow> (Inl e, c2)
           | (None, c2) \<Rightarrow> (Inr out, c2)))"

section \<open>All or nothing\<close>

lemma db_bind_saved:
  assumes "\<And>c. cn_saved (snd (m c)) = cn_saved c" and "\<And>x c. cn_saved (snd (f x c)) = cn_saved c"
  shows "cn_saved (snd (db_bind m f c)) = cn_saved c"
  using assms(1) [of c] assms(2) by (auto simp: db_bind_def split: prod.splits sum.splits)

lemma op_saved:
  "cn_saved (snd (max_turn_ended_at s c)) = cn_saved c"
  "cn_saved (snd (close_session s t c)) = cn_saved c"
  "cn_saved (snd (set_turn_status i st e n x c)) = cn_saved c"
  "cn_saved (snd (sessions_open_no_ended_at c)) = cn_saved c"
  "cn_saved (snd (turns_in_progress c)) = cn_saved c"
  "cn_saved (snd (all_summaries c)) = cn_saved c"
  "cn_saved (snd (recent_turns s l c)) = cn_saved c"
  by (simp_all add: repo_updates repo_queries run_sql_saved)

lemma compute_source_hash_saved: "cn_saved (snd (compute_source_hash s a b c)) = cn_saved c"
  using op_saved(7) [of s 100000 c] by (auto simp: compute_source_hash_def split: prod.splits sum.splits)

lemma loops_saved:
  "cn_saved (snd (close_dangling ss n c)) = cn_saved c"
  "cn_saved (snd (interrupt_turns ts n c)) = cn_saved c"
  "cn_saved (snd (check_summaries rows acc c)) = cn_saved c"
proof -
  show "cn_saved (snd (close_dangling ss n c)) = cn_saved c"
    by (induction ss arbitrary: n c) (auto simp: db_return_def intro!: db_bind_saved simp: op_saved)
  show "cn_saved (snd (interrupt_turns ts n c)) = cn_saved c"
    by (induction ts arbitrary: n c) (auto simp: db_return_def intro!: db_bind_saved simp: op_saved)
  show "cn_saved (snd (check_summaries rows acc c)) = cn_saved c"
  proof (induction rows acc c rule: check_summaries.induct)
    case (2 s ss seen stale c)
    then show ?case
      using compute_source_hash_saved [of "sr_session s" "sr_range_start s" "sr_range_end s" c]
      by (auto split: prod.splits)
  qed simp
qed

lemma check_summaries_saved: "check_summaries rows acc c = (x, c') \<Longrightarrow> cn_saved c' = cn_saved c"
  by (metis loops_saved(3) snd_conv)

lemma recovery_body_saved: "cn_saved (snd (recovery_body c)) = cn_saved c"
  unfolding recovery_body_def
  by (intro db_bind_saved) (auto simp: op_saved loops_saved check_summaries_saved split: prod.splits)

lemma begun_saved:
  "fst (next_fault c) = NoFault \<Longrightarrow> cn_saved c = None \<Longrightarrow>
     cn_saved (snd (recovery_body (tx_begin c))) = Some (cn_db c)"
  by (auto simp: recovery_body_saved tx_begin_def next_fault_def split: list.splits)


lemma demo_sessions: "db_sessions (cn_db demo_store) =
      [\<lparr>se_id = 1, se_started_at = 1, se_ended_at = None, se_title = None\<rparr>,
       \<lparr>se_id = 2, se_started_at = 2, se_ended_at = None, se_title = None\<rparr>]"
    "db_summaries (cn_db demo_store) = []"
  by (simp_all add: demo_store_def repo_updates run_sql_def next_fault_def db_empty_def Let_def)

lemmas recovery_eval = run_recovery_def recovery_body_def db_bind_def db_return_def tx_begin_def tx_commit_def
  next_fault_def run_sql_def repo_updates repo_queries sql_max_def demo_store_eq demo_sessions turn_of_rec_def


text \<open>
  The guard does not notice a failing \<open>BEGIN\<close>: the statements then take effect one by one, and the
  sweep reports an error although sessions have been closed for good.
\<close>

lemma recovery_without_begin_is_not_atomic:
  "let c = demo_store\<lparr>cn_faults := [StepFails]\<rparr>
   in (case fst (run_recovery c) of Inl e \<Rightarrow> e = ''sqlite exec: commit'' | Inr _ \<Rightarrow> False) \<and>
      map se_ended_at (db_sessions (durable (snd (run_recovery c)))) = [Some 1, Some 2]"
  by (simp add: recovery_eval durable_def Let_def)

text \<open>
  A failing \<open>COMMIT\<close> leaves the transaction open on the connection: what the program writes
  afterwards is not durable either.
\<close>

lemma failed_commit_leaves_transaction_open:
  assumes "fst (next_fault c) = NoFault" and "cn_saved c = None"
    and "recovery_body (tx_begin c) = (Inr out, c1)" and "tx_commit c1 = (Some e, c2)"
  shows "cn_saved (snd (run_recovery c)) = Some (cn_db c)"
  using begun_saved [OF assms(1,2)] assms(3,4)
  by (auto simp: run_recovery_def tx_commit_def next_fault_def split: list.splits if_splits)

section \<open>What the sweep does\<close>

definition session_end :: "database \<Rightarrow> session_row \<Rightarrow> unix_ms" where
  "session_end d s =
     (case sql_max (map tu_ended_at (filter (\<lambda>t. tu_session t = se_id s) (db_turns d))) of
        Some e \<Rightarrow> e | None \<Rightarrow> se_started_at s)"

definition end_session :: "database \<Rightarrow> session_row \<Rightarrow> session_row" where
  "end_session d s = (if se_ended_at s = None then s\<lparr>se_ended_at := Some (session_end d s)\<rparr> else s)"

definition interrupt_turn :: "turn_rec \<Rightarrow> turn_rec" where
  "interrupt_turn t =
     (if tu_status t = ''in_progress'' then t\<lparr>tu_status := ''interrupted'', tu_interrupted := None\<rparr> else t)"

definition repaired :: "database \<Rightarrow> database" where
  "repaired d = d\<lparr>db_sessions := map (end_session d) (db_sessions d),
                  db_turns := map interrupt_turn (db_turns d)\<rparr>"

lemma close_dangling_calm:
  assumes "cn_faults c = []" and "distinct (map se_id ss)"
  shows "close_dangling ss n c = (Inr (n + length ss), c\<lparr>cn_db := (cn_db c)\<lparr>db_sessions :=
    map (\<lambda>x. case find (\<lambda>s. se_id s = se_id x) ss of
               Some s \<Rightarrow> x\<lparr>se_ended_at := Some (session_end (cn_db c) s)\<rparr> | None \<Rightarrow> x) (db_sessions (cn_db c))\<rparr>\<rparr>)"
  using assms
proof (induction ss arbitrary: n c)
  case Nil
  then show ?case by (simp add: db_return_def)
next
  case (Cons s ss)
  let ?e = "session_end (cn_db c) s"
  define c1 where "c1 = c\<lparr>cn_db := (cn_db c)\<lparr>db_sessions :=
    map (\<lambda>x. if se_id x = se_id s then x\<lparr>se_ended_at := Some ?e\<rparr> else x) (db_sessions (cn_db c))\<rparr>\<rparr>"
  have step: "close_dangling (s # ss) n c = close_dangling ss (n + 1) c1"
    using Cons.prems(1)
    by (simp add: db_bind_def max_turn_ended_at_def close_session_def run_sql_no_fault c1_def session_end_def
        cong del: if_weak_cong)
  have same: "session_end (cn_db c1) x = session_end (cn_db c) x" for x
    by (simp add: session_end_def c1_def)
  have "find (\<lambda>x. se_id x = se_id s) ss = None"
    using Cons.prems(2) by (auto simp: find_None_iff image_iff)
  then have merged: "map (\<lambda>x. case find (\<lambda>s. se_id s = se_id x) ss of
        Some s \<Rightarrow> x\<lparr>se_ended_at := Some (session_end (cn_db c) s)\<rparr> | None \<Rightarrow> x)
      (map (\<lambda>x. if se_id x = se_id s then x\<lparr>se_ended_at := Some ?e\<rparr> else x) (db_sessions (cn_db c))) =
    map (\<lambda>x. case find (\<lambda>s. se_id s = se_id x) (s # ss) of
        Some s \<Rightarrow> x\<lparr>se_ended_at := Some (session_end (cn_db c) s)\<rparr> | None \<Rightarrow> x) (db_sessions (cn_db c))"
    by (auto split: option.splits)
  have over: "c1\<lparr>cn_db := (cn_db c1)\<lparr>db_sessions := xs\<rparr>\<rparr> = c\<lparr>cn_db := (cn_db c)\<lparr>db_sessions := xs\<rparr>\<rparr>" for xs
    by (simp add: c1_def)
  have rows: "db_sessions (cn_db c1) =
      map (\<lambda>x. if se_id x = se_id s then x\<lparr>se_ended_at := Some ?e\<rparr> else x) (db_sessions (cn_db c))"
    by (simp add: c1_def)
  have "cn_faults c1 = []" "distinct (map se_id ss)"
    using Cons.prems by (simp_all add: c1_def)
  from Cons.IH [OF this, of "n + 1"] show ?case
    unfolding step over same rows merged by simp
qed

lemma interrupt_turns_calm:
  assumes "cn_faults c = []"
  shows "interrupt_turns ts n c = (Inr (n + length ts), c\<lparr>cn_db := (cn_db c)\<lparr>db_turns :=
    map (\<lambda>t. if tu_id t \<in> tr_id ` set ts then t\<lparr>tu_status := ''interrupted'', tu_interrupted := None\<rparr> else t)
      (db_turns (cn_db c))\<rparr>\<rparr>)"
  using assms
proof (induction ts arbitrary: n c)
  case Nil
  then show ?case by (simp add: db_return_def)
next
  case (Cons t ts)
  define c1 where "c1 = c\<lparr>cn_db := (cn_db c)\<lparr>db_turns :=
    map (\<lambda>x. if tu_id x = tr_id t then x\<lparr>tu_status := ''interrupted'', tu_interrupted := None\<rparr> else x)
      (db_turns (cn_db c))\<rparr>\<rparr>"
  have step: "interrupt_turns (t # ts) n c = interrupt_turns ts (n + 1) c1"
    using Cons.prems
    by (simp add: db_bind_def set_turn_status_def run_sql_no_fault c1_def sql_coalesce_def cong del: if_weak_cong)
  have "cn_faults c1 = []" using Cons.prems by (simp add: c1_def)
  then show ?case
    unfolding step using Cons.IH [of c1 "n + 1"] by (simp add: c1_def)
qed

lemma check_summaries_calm: "cn_faults c = [] \<Longrightarrow> \<exists>m. check_summaries rows (k, l) c = ((k + length rows, m), c)"
proof (induction rows arbitrary: k l)
  case (Cons s ss)
  have "snd (compute_source_hash (sr_session s) (sr_range_start s) (sr_range_end s) c) = c"
    using Cons.prems by (simp add: compute_source_hash_def recent_turns_def run_sql_no_fault)
  then obtain h where h: "compute_source_hash (sr_session s) (sr_range_start s) (sr_range_end s) c = (h, c)"
    by (metis prod.collapse)
  have ih: "\<exists>m. check_summaries ss (Suc k, i) c = ((Suc (k + length ss), m), c)" for i
    using Cons.IH [OF Cons.prems, of "Suc k" i] by simp
  show ?case
    using ih by (simp add: h)
qed simp

lemma find_filter_self:
  "distinct (map se_id xs) \<Longrightarrow> x \<in> set xs \<Longrightarrow>
     find (\<lambda>s. se_id s = se_id x) (filter P xs) = (if P x then Some x else None)"
  by (induction xs) (auto simp: image_iff find_None_iff)

lemma distinct_filter_map: "distinct (map f xs) \<Longrightarrow> distinct (map f (filter P xs))"
  by (induction xs) auto

lemma run_recovery_calm:
  assumes "distinct (session_ids (cn_db c))" and "distinct (turn_ids (cn_db c))"
    and "cn_saved c = None" and "cn_faults c = []"
  shows "\<exists>out. run_recovery c = (Inr out, c\<lparr>cn_db := repaired (cn_db c)\<rparr>) \<and>
    rc_sessions_closed out = length (filter (\<lambda>s. se_ended_at s = None) (db_sessions (cn_db c))) \<and>
    rc_turns_interrupted out = length (filter (\<lambda>t. tu_status t = ''in_progress'') (db_turns (cn_db c))) \<and>
    rc_summaries_total out = length (db_summaries (cn_db c))"
proof -
  let ?d = "cn_db c" and ?c0 = "tx_begin c"
  let ?open = "filter (\<lambda>s. se_ended_at s = None) (db_sessions ?d)"
  let ?unf = "map turn_of_rec (filter (\<lambda>t. tu_status t = ''in_progress'') (db_turns ?d))"
  have c0: "?c0 = c\<lparr>cn_saved := Some ?d\<rparr>" "cn_faults ?c0 = []" "cn_db ?c0 = ?d"
    using assms(3,4) by (simp_all add: tx_begin_def next_fault_def)
  have ds: "distinct (map se_id ?open)"
    using assms(1) by (simp add: session_ids_def distinct_filter_map)
  define c1 where "c1 = ?c0\<lparr>cn_db := ?d\<lparr>db_sessions := map (end_session ?d) (db_sessions ?d)\<rparr>\<rparr>"
  have "map (\<lambda>x. case find (\<lambda>s. se_id s = se_id x) ?open of
      Some s \<Rightarrow> x\<lparr>se_ended_at := Some (session_end ?d s)\<rparr> | None \<Rightarrow> x) (db_sessions ?d) =
      map (end_session ?d) (db_sessions ?d)"
    using assms(1) by (intro map_cong) (simp_all add: session_ids_def find_filter_self end_session_def)
  then have close: "close_dangling ?open 0 ?c0 = (Inr (length ?open), c1)"
    using close_dangling_calm [OF c0(2) ds, of 0] by (simp only: c0(3) c1_def add_0)
  have c1: "cn_faults c1 = []" "cn_faults (tx_begin c) = []" "db_turns (cn_db c1) = db_turns ?d" "db_summaries (cn_db c1) = db_summaries ?d"
    using c0(2) by (simp_all add: c1_def)
  have ids: "tu_id t \<in> tr_id ` set ?unf \<longleftrightarrow> tu_status t = ''in_progress''" if "t \<in> set (db_turns ?d)" for t
    using that assms(2) by (auto simp: turn_ids_def turn_of_rec_def image_iff distinct_map inj_on_def)
  have turns: "map (\<lambda>t. if tu_id t \<in> tr_id ` set ?unf then t\<lparr>tu_status := ''interrupted'', tu_interrupted := None\<rparr> else t)
      (db_turns ?d) = map interrupt_turn (db_turns ?d)"
    by (intro map_cong) (simp_all only: ids interrupt_turn_def)
  define c2 where "c2 = ?c0\<lparr>cn_db := repaired ?d\<rparr>"
  have interrupt: "interrupt_turns ?unf 0 c1 = (Inr (length ?unf), c2)"
    using interrupt_turns_calm [OF c1(1), of ?unf 0] turns
    by (simp only: c1(3)) (simp add: c1_def c2_def repaired_def)
  have c2: "cn_faults c2 = []" "db_summaries (cn_db c2) = db_summaries ?d"
    by (simp_all add: c2_def c0 repaired_def assms(4))
  obtain m where check: "check_summaries (db_summaries ?d) (0, 0) c2 = ((length (db_summaries ?d), m), c2)"
    using check_summaries_calm [OF c2(1)] by (metis add_0)
  have q: "sessions_open_no_ended_at ?c0 = (Inr ?open, ?c0)" "turns_in_progress c1 = (Inr ?unf, c1)"
    "all_summaries c2 = (Inr (db_summaries ?d), c2)"
    by (simp_all add: repo_queries run_sql_no_fault c0 c1 c2 assms(4))
  have "recovery_body ?c0 = (Inr \<lparr>rc_sessions_closed = length ?open, rc_turns_interrupted = length ?unf,
      rc_summaries_total = length (db_summaries ?d), rc_summaries_stale = m\<rparr>, c2)"
    by (simp add: recovery_body_def db_bind_def q close interrupt check)
  moreover have "tx_commit c2 = (None, c\<lparr>cn_db := repaired ?d\<rparr>)"
    using assms(3,4) by (simp add: tx_commit_def next_fault_def c2_def c0(1))
  ultimately show ?thesis by (simp add: run_recovery_def)
qed

lemma repaired_twice: "repaired (repaired d) = repaired d"
  by (simp add: repaired_def end_session_def interrupt_turn_def)

lemma repaired_done:
  "filter (\<lambda>s. se_ended_at s = None) (db_sessions (repaired d)) = []"
  "filter (\<lambda>t. tu_status t = ''in_progress'') (db_turns (repaired d)) = []"
  by (auto simp: repaired_def end_session_def interrupt_turn_def filter_empty_conv)

lemma repaired_ids: "session_ids (repaired d) = session_ids d" "turn_ids (repaired d) = turn_ids d"
  by (simp_all add: repaired_def session_ids_def turn_ids_def o_def end_session_def interrupt_turn_def
      if_distrib [of se_id] if_distrib [of tu_id])

text \<open>
  The sweep repairs the store, once. Without faults on a well-formed store it succeeds; every
  session that was open ends at the latest end of its turns (or at its own start), every unfinished
  turn becomes interrupted, nothing else changes and both are counted; run again, it finds nothing
  to do and leaves the store as it is.
\<close>

theorem recovery_repairs:
  assumes "db_wf (cn_db c)" and "cn_saved c = None" and "cn_faults c = []"
  shows "\<exists>out out'. run_recovery c = (Inr out, c\<lparr>cn_db := repaired (cn_db c)\<rparr>) \<and>
    rc_sessions_closed out = length (filter (\<lambda>s. se_ended_at s = None) (db_sessions (cn_db c))) \<and>
    rc_turns_interrupted out = length (filter (\<lambda>t. tu_status t = ''in_progress'') (db_turns (cn_db c))) \<and>
    run_recovery (snd (run_recovery c)) = (Inr out', snd (run_recovery c)) \<and>
    rc_sessions_closed out' = 0 \<and> rc_turns_interrupted out' = 0"
proof -
  have d: "distinct (session_ids (cn_db c))" "distinct (turn_ids (cn_db c))"
    using assms(1) by (auto simp: db_wf_def ids_below_def strict_sorted_iff)
  let ?c1 = "c\<lparr>cn_db := repaired (cn_db c)\<rparr>"
  obtain out where 1: "run_recovery c = (Inr out, ?c1)"
    "rc_sessions_closed out = length (filter (\<lambda>s. se_ended_at s = None) (db_sessions (cn_db c)))"
    "rc_turns_interrupted out = length (filter (\<lambda>t. tu_status t = ''in_progress'') (db_turns (cn_db c)))"
    using run_recovery_calm [OF d assms(2,3)] by blast
  obtain out' where 2: "run_recovery ?c1 = (Inr out', ?c1)" "rc_sessions_closed out' = 0"
    "rc_turns_interrupted out' = 0"
    using run_recovery_calm [of ?c1] d assms(2,3) by (auto simp: repaired_ids repaired_twice repaired_done)
  from 1 2 show ?thesis by auto
qed

theorem recovery_repairs_witness:
  "map tu_status (db_turns (cn_db (snd (run_recovery demo_store)))) = [''committed'', ''committed'', ''interrupted''] \<and>
   map se_ended_at (db_sessions (cn_db (snd (run_recovery demo_store)))) = [Some 1, Some 2]"
proof -
  from recovery_repairs [OF demo_store_eq(4,2,1)]
  have "snd (run_recovery demo_store) = demo_store\<lparr>cn_db := repaired (cn_db demo_store)\<rparr>" by auto
  then show ?thesis
    by (simp add: repaired_def demo_store_eq demo_sessions end_session_def interrupt_turn_def session_end_def sql_max_def)
qed

end
