(* ===== verification/Summarizer.thy ===== *)
theory Summarizer
  imports Recovery Events
begin

text \<open>
  The rolling summary of \<open>src/memory/summarizer.hpp\<close> and \<open>src/memory/summarizer.cpp\<close>: the handler
  that counts finished turns, the trigger flag and the worker thread. The worker's two visits to
  the memory thread are atomic steps on the connection, and anything may happen between them. The
  JSON writer and the language model are arguments; whether the memory thread accepts a job is an
  input of the step.
\<close>

section \<open>The request\<close>

record summary_message =
  rq_role :: string
  rq_content :: string

record summary_request =
  rq_model :: string
  rq_messages :: "summary_message list"
  rq_temperature :: real
  rq_max_tokens :: int
  rq_stream :: bool

definition kSystemPrompt :: string where
  "kSystemPrompt =
     ''You summarize conversations. Produce a single short paragraph '' @
     ''(<=2 sentences, <=40 words) capturing the main topics, decisions, '' @
     ''and any durable user preferences mentioned. Do not quote verbatim.''"

definition turn_line :: "turn_row \<Rightarrow> string" where
  "turn_line t =
     (case tr_text t of
        None \<Rightarrow> []
      | Some x \<Rightarrow>
          if x = [] then []
          else (if tr_role t = RoleUser then ''User: '' else ''Assistant: '') @ x @ [CHR 0x0A])"

definition concat_turns :: "turn_row list \<Rightarrow> row_id \<Rightarrow> row_id \<Rightarrow> string" where
  "concat_turns ts a b = concat (map turn_line (filter (\<lambda>t. a \<le> tr_id t \<and> tr_id t \<le> b) ts))"

text \<open>The body is empty when the writer fails.\<close>

definition build_request_body :: "(summary_request \<Rightarrow> string option) \<Rightarrow> string \<Rightarrow> string \<Rightarrow> string" where
  "build_request_body write_json model block =
     (case write_json \<lparr>rq_model = model,
             rq_messages = [\<lparr>rq_role = ''system'', rq_content = kSystemPrompt\<rparr>,
                            \<lparr>rq_role = ''user'', rq_content = ''Summarize:'' @ [CHR 0x0A] @ block\<rparr>],
             rq_temperature = 3 / 10, rq_max_tokens = 200, rq_stream = True\<rparr> of
        None \<Rightarrow> [] | Some out \<Rightarrow> out)"

section \<open>One summary\<close>

record sum_snapshot =
  sn_start :: row_id
  sn_end :: row_id
  sn_turns :: "turn_row list"

text \<open>The job of the first visit. A failing query counts as no summary, or no turns.\<close>

definition summarizable :: "turn_row \<Rightarrow> bool" where
  "summarizable t \<longleftrightarrow> tr_status t = Committed \<or> tr_status t = InterruptedTurn"

definition range_end_of :: "row_id \<Rightarrow> turn_row list \<Rightarrow> row_id" where
  "range_end_of a ts = foldl (\<lambda>m t. if a \<le> tr_id t \<and> summarizable t \<and> m < tr_id t then tr_id t else m) 0 ts"

definition read_snapshot :: "row_id \<Rightarrow> connection \<Rightarrow> sum_snapshot \<times> connection" where
  "read_snapshot sid c =
     (case latest_summary sid c of (r, c1) \<Rightarrow>
        case recent_turns sid 100000 c1 of (q, c2) \<Rightarrow>
          let a = (case r of Inr (Some s) \<Rightarrow> sr_range_end s + 1 | _ \<Rightarrow> 1);
              ts = (case q of Inr ts \<Rightarrow> ts | Inl _ \<Rightarrow> [])
          in (\<lparr>sn_start = a, sn_end = range_end_of a ts, sn_turns = ts\<rparr>, c2))"

text \<open>What is sent, if anything is.\<close>

definition prepare_request ::
  "(summary_request \<Rightarrow> string option) \<Rightarrow> string \<Rightarrow> sum_snapshot \<Rightarrow> string option" where
  "prepare_request write_json model sn =
     (if sn_end sn < sn_start sn \<or> sn_turns sn = [] then None
      else let block = concat_turns (sn_turns sn) (sn_start sn) (sn_end sn)
           in if block = [] then None
              else let body = build_request_body write_json model block
                   in if body = [] then None else Some body)"

definition summary_text :: "string list \<Rightarrow> bool \<Rightarrow> string" where
  "summary_text tokens errored =
     (let t = concat tokens in if errored \<or> t = [] then ''[TODO summary]'' else t)"

text \<open>The job of the second visit.\<close>

definition write_summary ::
  "row_id \<Rightarrow> row_id \<Rightarrow> row_id \<Rightarrow> string \<Rightarrow> unix_ms \<Rightarrow> connection \<Rightarrow> bool \<times> connection" where
  "write_summary sid a b x now c =
     (case compute_source_hash sid a b c of (h, c1) \<Rightarrow>
        case insert_summary sid a b x ''en'' h now c1 of
          (Inl e, c2) \<Rightarrow> (False, c2)
        | (Inr i, c2) \<Rightarrow> (True, c2))"

section \<open>The component\<close>

text \<open>
  The position of the worker. A job the memory thread refuses makes \<open>future::get\<close> throw out of the
  thread's function, which ends the process.
\<close>

datatype sz_worker =
    SzNone | SzWait | SzRun | SzRead row_id | SzAsk row_id row_id row_id string
  | SzWrite row_id row_id row_id string | SzFinish bool | SzExit | SzTerminated

record summarizer =
  sz_threshold :: counter
  sz_model :: string
  sz_subscribed :: bool
  sz_session :: row_id
  sz_turns_since :: counter
  sz_written :: counter
  sz_worker :: sz_worker
  sz_pending :: bool
  sz_stopping :: bool

definition sz_new :: "counter \<Rightarrow> string \<Rightarrow> summarizer" where
  "sz_new threshold model =
     \<lparr>sz_threshold = threshold, sz_model = model, sz_subscribed = False, sz_session = 0,
      sz_turns_since = 0, sz_written = 0, sz_worker = SzNone, sz_pending = False, sz_stopping = False\<rparr>"

definition sz_start :: "summarizer \<Rightarrow> summarizer" where
  "sz_start s =
     (if sz_subscribed s then s
      else s\<lparr>sz_stopping := False, sz_worker := SzWait, sz_subscribed := True\<rparr>)"

text \<open>Up to the join of the worker.\<close>

definition sz_stop :: "summarizer \<Rightarrow> summarizer" where
  "sz_stop s =
     (let s1 = s\<lparr>sz_subscribed := False\<rparr>
      in if sz_worker s1 = SzNone then s1 else s1\<lparr>sz_stopping := True\<rparr>)"

definition sz_set_session :: "row_id \<Rightarrow> summarizer \<Rightarrow> summarizer" where
  "sz_set_session i s = s\<lparr>sz_session := i\<rparr>"

definition sz_trigger_now :: "summarizer \<Rightarrow> summarizer" where
  "sz_trigger_now s = s\<lparr>sz_pending := True\<rparr>"

definition sz_on_event :: "event \<Rightarrow> summarizer \<Rightarrow> summarizer" where
  "sz_on_event e s =
     (case e of
        LlmFinished t cancelled n \<Rightarrow>
          if cancelled then s
          else let count = sz_turns_since s + 2;
                   s1 = s\<lparr>sz_turns_since := count\<rparr>
               in if sz_threshold s1 \<le> count then sz_trigger_now s1 else s1
      | _ \<Rightarrow> s)"

text \<open>
  One step of the worker. \<open>posted\<close> says whether the memory thread takes the job, \<open>answer\<close> is what
  the language model streams and whether it ends with an error.
\<close>

definition sz_step ::
  "(summary_request \<Rightarrow> string option) \<Rightarrow> bool \<Rightarrow> (string \<Rightarrow> string list \<times> bool) \<Rightarrow> unix_ms \<Rightarrow>
     summarizer \<times> connection \<Rightarrow> summarizer \<times> connection" where
  "sz_step write_json posted answer now sc =
     (case sc of (s, c) \<Rightarrow>
        (case sz_worker s of
           SzWait \<Rightarrow>
             if sz_pending s then (s\<lparr>sz_pending := False, sz_worker := SzRun\<rparr>, c)
             else if sz_stopping s then (s\<lparr>sz_worker := SzExit\<rparr>, c) else (s, c)
         | SzRun \<Rightarrow>
             (s\<lparr>sz_worker := (if sz_session s = 0 then SzFinish False else SzRead (sz_session s))\<rparr>, c)
         | SzRead sid \<Rightarrow>
             if \<not> posted then (s\<lparr>sz_worker := SzTerminated\<rparr>, c)
             else (case read_snapshot sid c of (sn, c1) \<Rightarrow>
               (case prepare_request write_json (sz_model s) sn of
                  None \<Rightarrow> (s\<lparr>sz_worker := SzFinish False\<rparr>, c1)
                | Some body \<Rightarrow> (s\<lparr>sz_worker := SzAsk sid (sn_start sn) (sn_end sn) body\<rparr>, c1)))
         | SzAsk sid a b body \<Rightarrow>
             (case answer body of (tokens, errored) \<Rightarrow>
                (s\<lparr>sz_worker := SzWrite sid a b (summary_text tokens errored)\<rparr>, c))
         | SzWrite sid a b x \<Rightarrow>
             if \<not> posted then (s\<lparr>sz_worker := SzTerminated\<rparr>, c)
             else (case write_summary sid a b x now c of (wrote, c1) \<Rightarrow>
                (s\<lparr>sz_worker := SzFinish wrote\<rparr>, c1))
         | SzFinish wrote \<Rightarrow>
             (if wrote then s\<lparr>sz_turns_since := 0, sz_written := sz_written s + 1, sz_worker := SzWait\<rparr>
              else s\<lparr>sz_worker := SzWait\<rparr>, c)
         | _ \<Rightarrow> (s, c)))"

section \<open>Interleavings\<close>

text \<open>The worker, the other threads of the component, and the other clients of the store.\<close>

datatype sz_act =
    SzStart | SzStop | SzSetSession row_id | SzTrigger | SzEvent event
  | SzWork bool "string \<Rightarrow> string list \<times> bool" unix_ms
  | SzStore repo_op

fun sz_do ::
  "(summary_request \<Rightarrow> string option) \<Rightarrow> summarizer \<times> connection \<Rightarrow> sz_act \<Rightarrow> summarizer \<times> connection" where
  "sz_do w (s, c) SzStart = (sz_start s, c)"
| "sz_do w (s, c) SzStop = (sz_stop s, c)"
| "sz_do w (s, c) (SzSetSession i) = (sz_set_session i s, c)"
| "sz_do w (s, c) SzTrigger = (sz_trigger_now s, c)"
| "sz_do w (s, c) (SzEvent e) = (sz_on_event e s, c)"
| "sz_do w (s, c) (SzWork posted answer now) = sz_step w posted answer now (s, c)"
| "sz_do w (s, c) (SzStore op) = (s, repo_do c op)"

text \<open>
  What the others do not do: write summaries, open transactions, or start a second worker while
  one is busy (\<open>start\<close> after \<open>stop\<close> has joined the first).
\<close>

fun sz_allowed :: "summarizer \<Rightarrow> sz_act \<Rightarrow> bool" where
  "sz_allowed s (SzStore op) =
     (case op of OpInsertSummary _ _ _ _ _ _ _ \<Rightarrow> False | OpBegin \<Rightarrow> False | OpCommit \<Rightarrow> False | OpRollback \<Rightarrow> False
      | _ \<Rightarrow> True)"
| "sz_allowed s SzStart = (sz_subscribed s \<or> sz_worker s \<in> {SzNone, SzExit})"
| "sz_allowed s _ = True"

text \<open>The query for the last summary succeeds whenever the worker makes it.\<close>

fun sz_run_ok :: "(summary_request \<Rightarrow> string option) \<Rightarrow> summarizer \<times> connection \<Rightarrow> sz_act list \<Rightarrow> bool" where
  "sz_run_ok w sc [] = True"
| "sz_run_ok w sc (a # as) =
     (sz_allowed (fst sc) a \<and>
      (case a of SzWork _ _ _ \<Rightarrow>
           (case sz_worker (fst sc) of SzRead _ \<Rightarrow> fst (next_fault (snd sc)) = NoFault | _ \<Rightarrow> True)
         | _ \<Rightarrow> True) \<and>
      sz_run_ok w (sz_do w sc a) as)"

text \<open>The ranges of a session's summaries, in the order they were written, tile the turns from 1.\<close>

fun tiles_from :: "row_id \<Rightarrow> summary_row list \<Rightarrow> bool" where
  "tiles_from k [] = True"
| "tiles_from k (s # ss) =
     (sr_range_start s = k \<and> k \<le> sr_range_end s \<and> tiles_from (sr_range_end s + 1) ss)"

definition summaries_of :: "row_id \<Rightarrow> database \<Rightarrow> summary_row list" where
  "summaries_of sid d = filter (\<lambda>s. sr_session s = sid) (db_summaries d)"

definition next_start :: "summary_row list \<Rightarrow> row_id" where
  "next_start ss = (if ss = [] then 1 else sr_range_end (last ss) + 1)"

lemma tiles_snoc:
  "tiles_from k (ss @ [s]) \<longleftrightarrow> tiles_from k ss \<and>
     sr_range_start s = (if ss = [] then k else sr_range_end (last ss) + 1) \<and> sr_range_start s \<le> sr_range_end s"
  by (induction ss arbitrary: k) auto

lemma tiles_bound: "tiles_from k ss \<Longrightarrow> s \<in> set ss \<Longrightarrow> k \<le> sr_range_end s"
  by (induction ss arbitrary: k) fastforce+

lemma tiles_sorted: "tiles_from k ss \<Longrightarrow> sorted_wrt (<) (map sr_range_end ss)"
  by (induction ss arbitrary: k) (fastforce dest: tiles_bound)+

lemma latest_summary_tiled:
  assumes "tiles_from 1 (summaries_of sid (cn_db c))" and "fst (next_fault c) = NoFault"
  shows "\<exists>c1. latest_summary sid c =
      (Inr (if summaries_of sid (cn_db c) = [] then None else Some (last (summaries_of sid (cn_db c)))), c1) \<and>
      cn_db c1 = cn_db c"
proof -
  let ?ss = "summaries_of sid (cn_db c)"
  have s: "sort_key sr_range_end ?ss = ?ss"
    using assms(1) by (intro sort_key_ids tiles_sorted)
  have "sql_limit 1 (rev ?ss) = (if ?ss = [] then [] else [last ?ss])"
    by (cases ?ss rule: rev_cases) (auto simp: sql_limit_def)
  with s assms(2) show ?thesis
    by (auto simp: latest_summary_def run_sql_def next_fault_def summaries_of_def split: list.splits)
qed

lemma read_snapshot_start:
  assumes "tiles_from 1 (summaries_of sid (cn_db c))" and "fst (next_fault c) = NoFault"
    and "read_snapshot sid c = (sn, c1)"
  shows "sn_start sn = next_start (summaries_of sid (cn_db c))" and "cn_db c1 = cn_db c"
proof -
  obtain c0 where c0: "latest_summary sid c =
      (Inr (if summaries_of sid (cn_db c) = [] then None else Some (last (summaries_of sid (cn_db c)))), c0)"
      "cn_db c0 = cn_db c"
    using latest_summary_tiled [OF assms(1,2)] by blast
  obtain q c2 where r: "recent_turns sid 100000 c0 = (q, c2)" by fastforce
  then have "cn_db c2 = cn_db c0"
    by (auto simp: recent_turns_def run_sql_def next_fault_def split: list.splits fault.splits)
  with c0 r assms(3) show "sn_start sn = next_start (summaries_of sid (cn_db c))" "cn_db c1 = cn_db c"
    by (auto simp: read_snapshot_def next_start_def Let_def)
qed

lemma write_summary_summaries:
  assumes "write_summary sid a b x now c = (wrote, c1)"
  shows "db_summaries (cn_db c1) = db_summaries (cn_db c) \<or>
     (\<exists>r. db_summaries (cn_db c1) = db_summaries (cn_db c) @ [r] \<and> sr_session r = sid \<and>
        sr_range_start r = a \<and> sr_range_end r = b \<and> sr_summary r = x)"
proof -
  obtain h c0 where h: "compute_source_hash sid a b c = (h, c0)" by fastforce
  then have "cn_db c0 = cn_db c"
    by (auto simp: compute_source_hash_def recent_turns_def run_sql_def next_fault_def
        split: list.splits fault.splits prod.splits sum.splits)
  with assms h show ?thesis
    by (auto simp: write_summary_def insert_summary_def run_sql_def next_fault_def Let_def
        split: list.splits fault.splits prod.splits sum.splits if_splits)
qed

lemma store_keeps_summaries:
  assumes "sz_allowed s (SzStore op)"
  shows "db_summaries (cn_db (repo_do c op)) = db_summaries (cn_db c)"
  using assms
  by (cases op) (auto simp: repo_updates recent_turns_def run_sql_def next_fault_def Let_def
      split: list.splits fault.splits option.splits if_splits)

text \<open>While a range is being summarised it stays the next one of its session.\<close>

definition sz_claims :: "sz_worker \<Rightarrow> (row_id \<times> row_id \<times> row_id) option" where
  "sz_claims w =
     (case w of SzAsk sid a b _ \<Rightarrow> Some (sid, a, b) | SzWrite sid a b _ \<Rightarrow> Some (sid, a, b) | _ \<Rightarrow> None)"

definition sz_inv :: "summarizer \<times> connection \<Rightarrow> bool" where
  "sz_inv sc \<longleftrightarrow>
     (\<forall>sid. tiles_from 1 (summaries_of sid (cn_db (snd sc)))) \<and>
     (\<forall>sid a b. sz_claims (sz_worker (fst sc)) = Some (sid, a, b) \<longrightarrow>
        a = next_start (summaries_of sid (cn_db (snd sc))) \<and> a \<le> b)"

lemma summaries_of_eq: "db_summaries d = db_summaries d' \<Longrightarrow> summaries_of sid d = summaries_of sid d'"
  by (simp add: summaries_of_def)

lemma sz_step_inv:
  assumes "sz_inv (s, c)"
    and "case sz_worker s of SzRead _ \<Rightarrow> fst (next_fault c) = NoFault | _ \<Rightarrow> True"
  shows "sz_inv (sz_step w posted answer now (s, c))"
proof (cases "sz_worker s")
  case (SzRead sid)
  obtain sn c1 where sn: "read_snapshot sid c = (sn, c1)" by fastforce
  have "sn_start sn = next_start (summaries_of sid (cn_db c))" "cn_db c1 = cn_db c"
    using assms SzRead read_snapshot_start [OF _ _ sn] by (auto simp: sz_inv_def)
  with assms(1) SzRead sn show ?thesis
    by (auto simp: sz_step_def sz_inv_def sz_claims_def prepare_request_def Let_def split: option.splits if_splits)
next
  case (SzWrite sid a b x)
  obtain wrote c1 where wr: "write_summary sid a b x now c = (wrote, c1)" by fastforce
  have claim: "\<And>i. tiles_from 1 (summaries_of i (cn_db c))" "a = next_start (summaries_of sid (cn_db c))" "a \<le> b"
    using assms(1) SzWrite by (auto simp: sz_inv_def sz_claims_def)
  from write_summary_summaries [OF wr]
  have "tiles_from 1 (summaries_of i (cn_db c1))" for i
    using claim by (auto simp: summaries_of_def tiles_snoc next_start_def)
  with SzWrite wr assms(1) show ?thesis
    by (auto simp: sz_step_def sz_inv_def sz_claims_def)
qed (use assms(1) in \<open>auto simp: sz_step_def sz_inv_def sz_claims_def split: prod.splits\<close>)

lemma sz_do_inv:
  assumes "sz_inv (s, c)" and "sz_allowed s a"
    and "case a of SzWork _ _ _ \<Rightarrow> (case sz_worker s of SzRead _ \<Rightarrow> fst (next_fault c) = NoFault | _ \<Rightarrow> True)
         | _ \<Rightarrow> True"
  shows "sz_inv (sz_do w (s, c) a)"
proof (cases a)
  case (SzWork posted answer now)
  with assms sz_step_inv show ?thesis by simp
next
  case (SzStore op)
  with assms(2) have "db_summaries (cn_db (repo_do c op)) = db_summaries (cn_db c)"
    by (simp only: store_keeps_summaries)
  with assms(1) SzStore show ?thesis by (simp add: sz_inv_def summaries_of_def)
next
  case (SzEvent e)
  have "sz_worker (sz_on_event e s) = sz_worker s"
    by (cases e) (simp_all add: sz_on_event_def sz_trigger_now_def Let_def)
  with assms(1) SzEvent show ?thesis by (simp add: sz_inv_def)
qed (use assms in \<open>auto simp: sz_inv_def sz_claims_def sz_start_def sz_stop_def sz_set_session_def sz_trigger_now_def Let_def\<close>)

text \<open>
  C22. The summaries of a session tile its turns. Under every interleaving of the worker with the
  event handler, the trigger, session changes and the writes of other clients, the ranges of each
  session's summaries are non-empty, start at turn 1 and follow each other without gap or
  overlap, provided the query for the last summary does not fail.
\<close>

theorem summaries_tile:
  assumes "db_summaries (cn_db c) = []" and "sz_worker s = SzNone" and "sz_run_ok w (s, c) acts"
  shows "tiles_from 1 (summaries_of sid (cn_db (snd (foldl (sz_do w) (s, c) acts))))"
proof -
  have "sz_inv (s, c)"
    using assms(1,2) by (simp add: sz_inv_def summaries_of_def sz_claims_def)
  with assms(3) have "sz_inv (foldl (sz_do w) (s, c) acts)"
  proof (induction acts arbitrary: s c)
    case (Cons a as)
    then have "sz_inv (sz_do w (s, c) a)" by (intro sz_do_inv) (auto split: sz_act.splits sz_worker.splits)
    with Cons show ?case by (cases "sz_do w (s, c) a") simp
  qed simp
  then show ?thesis by (simp add: sz_inv_def)
qed

text \<open>One exchange is stored, the threshold is reached, and the worker writes the first summary.\<close>

definition demo_turn :: "row_id \<Rightarrow> string \<Rightarrow> string \<Rightarrow> turn_rec" where
  "demo_turn i role x = \<lparr>tu_id = i, tu_session = 1, tu_role = role, tu_text = Some x, tu_lang = None,
     tu_started_at = i, tu_ended_at = None, tu_status = ''committed'', tu_interrupted = None, tu_audio_path = None\<rparr>"

definition talk_store :: connection where
  "talk_store = \<lparr>cn_db = db_empty\<lparr>
      db_sessions := [\<lparr>se_id = 1, se_started_at = 1, se_ended_at = None, se_title = None\<rparr>],
      db_turns := [demo_turn 1 ''user'' ''Hi'', demo_turn 2 ''assistant'' ''Hello'']\<rparr>,
      cn_saved = None, cn_faults = []\<rparr>"

definition demo_sz :: "sz_worker \<Rightarrow> summarizer" where
  "demo_sz w = \<lparr>sz_threshold = 2, sz_model = ''m'', sz_subscribed = True, sz_session = 1,
      sz_turns_since = 2, sz_written = 0, sz_worker = w, sz_pending = False, sz_stopping = False\<rparr>"

definition model_only :: "summary_request \<Rightarrow> string option" where
  "model_only r = Some (rq_model r)"

definition greeting :: "string \<Rightarrow> string list \<times> bool" where
  "greeting body = ([''A greet'', ''ing.''], False)"

definition talk_acts :: "sz_act list" where
  "talk_acts = [SzStart, SzSetSession 1, SzEvent (LlmFinished 5 False 9)] @
     [SzWork True greeting 7, SzWork True greeting 7, SzWork True greeting 7, SzWork True greeting 7,
      SzWork True greeting 7]"

lemma talk_store_db:
  "cn_faults talk_store = []" "cn_saved talk_store = None"
  "db_summaries (cn_db talk_store) = []" "db_next_summary (cn_db talk_store) = 1"
  "db_turns (cn_db talk_store) = [demo_turn 1 ''user'' ''Hi'', demo_turn 2 ''assistant'' ''Hello'']"
  "se_id ` set (db_sessions (cn_db talk_store)) = {1}"
  by (simp_all add: talk_store_def db_empty_def)

lemma talk_begin:
  "sz_do w (sz_new 2 ''m'', c) SzStart = ((demo_sz SzWait)\<lparr>sz_session := 0, sz_turns_since := 0\<rparr>, c)"
  "sz_do w ((demo_sz SzWait)\<lparr>sz_session := 0, sz_turns_since := 0\<rparr>, c) (SzSetSession 1) =
     ((demo_sz SzWait)\<lparr>sz_turns_since := 0\<rparr>, c)"
  "sz_do w ((demo_sz SzWait)\<lparr>sz_turns_since := 0\<rparr>, c) (SzEvent (LlmFinished 5 False 9)) =
     ((demo_sz SzWait)\<lparr>sz_pending := True\<rparr>, c)"
  by (simp_all add: sz_new_def sz_start_def sz_set_session_def sz_on_event_def sz_trigger_now_def demo_sz_def Let_def)

lemma talk_wait: "sz_step w p f t ((demo_sz SzWait)\<lparr>sz_pending := True\<rparr>, c) = (demo_sz SzRun, c)"
  "sz_step w p f t (demo_sz SzRun, c) = (demo_sz (SzRead 1), c)"
  by (simp_all add: sz_step_def demo_sz_def)

lemma talk_turns:
  "recent_turns 1 100000 talk_store =
     (Inr [turn_of_rec (demo_turn 1 ''user'' ''Hi''), turn_of_rec (demo_turn 2 ''assistant'' ''Hello'')], talk_store)"
  by (simp add: recent_turns_def run_sql_no_fault talk_store_db demo_turn_def sql_limit_def)

lemma talk_snapshot:
  "read_snapshot 1 talk_store = (\<lparr>sn_start = 1, sn_end = 2,
     sn_turns = [turn_of_rec (demo_turn 1 ''user'' ''Hi''), turn_of_rec (demo_turn 2 ''assistant'' ''Hello'')]\<rparr>, talk_store)"
proof -
  have "latest_summary 1 talk_store = (Inr None, talk_store)"
    by (simp add: latest_summary_def run_sql_no_fault talk_store_db sql_limit_def)
  then show ?thesis
    by (simp add: read_snapshot_def talk_turns range_end_of_def summarizable_def turn_of_rec_def demo_turn_def
        parse_status_def)
qed

lemma talk_ask: "sz_step model_only True f t (demo_sz (SzRead 1), talk_store) = (demo_sz (SzAsk 1 1 2 ''m''), talk_store)"
  by (simp add: sz_step_def demo_sz_def talk_snapshot prepare_request_def build_request_body_def concat_turns_def
      turn_line_def turn_of_rec_def demo_turn_def model_only_def Let_def)

lemma talk_answer: "sz_step w p greeting t (demo_sz (SzAsk 1 1 2 ''m''), c) = (demo_sz (SzWrite 1 1 2 ''A greeting.''), c)"
  by (simp add: sz_step_def demo_sz_def greeting_def summary_text_def)

lemma talk_written:
  "\<exists>r. sz_step w True f 7 (demo_sz (SzWrite 1 1 2 x), talk_store) = (demo_sz (SzFinish True), talk_store\<lparr>cn_db :=
       (cn_db talk_store)\<lparr>db_summaries := [r], db_next_summary := 2\<rparr>\<rparr>) \<and>
     sr_session r = 1 \<and> sr_range_start r = 1 \<and> sr_range_end r = 2 \<and> sr_summary r = x"
proof -
  obtain h where "compute_source_hash 1 1 2 talk_store = (h, talk_store)"
    by (simp add: compute_source_hash_def talk_turns)
  then show ?thesis
    by (intro exI [of _ "\<lparr>sr_id = 1, sr_session = 1, sr_range_start = 1, sr_range_end = 2, sr_summary = x,
        sr_lang = ''en'', sr_source_hash = h, sr_created_at = 7\<rparr>"])
      (simp add: sz_step_def demo_sz_def write_summary_def insert_summary_def run_sql_no_fault talk_store_db Let_def)
qed

lemma talk_run:
  "\<exists>r. foldl (sz_do model_only) (sz_new 2 ''m'', talk_store) talk_acts =
       (demo_sz (SzFinish True), talk_store\<lparr>cn_db :=
       (cn_db talk_store)\<lparr>db_summaries := [r], db_next_summary := 2\<rparr>\<rparr>) \<and>
     sr_session r = 1 \<and> sr_range_start r = 1 \<and> sr_range_end r = 2 \<and> sr_summary r = ''A greeting.''"
  using talk_written [of model_only greeting "''A greeting.''"]
  by (simp add: talk_acts_def talk_begin talk_wait talk_ask talk_answer del: sz_do.simps(1-5))

lemma talk_ok: "sz_run_ok model_only (sz_new 2 ''m'', talk_store) talk_acts"
proof -
  have w: "sz_worker (demo_sz x) = x" "sz_worker ((demo_sz x)\<lparr>sz_pending := True\<rparr>) = x"
      "sz_worker (sz_new 2 ''m'') = SzNone" for x
    by (simp_all add: demo_sz_def sz_new_def)
  from talk_written [of model_only greeting "''A greeting.''"] show ?thesis
    by (auto simp: talk_acts_def talk_begin talk_wait talk_ask talk_answer w next_fault_def talk_store_db
        simp del: sz_do.simps(1-5))
qed

theorem summaries_tile_witness:
  "map (\<lambda>s. (sr_range_start s, sr_range_end s, sr_summary s))
     (summaries_of 1 (cn_db (snd (foldl (sz_do model_only) (sz_new 2 ''m'', talk_store) talk_acts)))) =
       [(1, 2, ''A greeting.'')] \<and>
   tiles_from 1 (summaries_of 1 (cn_db (snd (foldl (sz_do model_only) (sz_new 2 ''m'', talk_store) talk_acts))))"
proof (rule conjI)
  show "tiles_from 1 (summaries_of 1 (cn_db (snd (foldl (sz_do model_only) (sz_new 2 ''m'', talk_store) talk_acts))))"
    by (rule summaries_tile [OF _ _ talk_ok]) (simp_all add: talk_store_db sz_new_def)
qed (use talk_run in \<open>auto simp: summaries_of_def\<close>)

text \<open>A summary that was just written is not stale: the recovery sweep accepts its hash.\<close>

theorem written_summary_is_fresh:
  assumes "cn_faults c = []" and "write_summary sid a b x now c = (True, c1)"
  shows "check_summaries [last (db_summaries (cn_db c1))] (0, 0) c1 = ((1, 0), c1)"
  using assms
  by (auto simp: write_summary_def compute_source_hash_def recent_turns_def insert_summary_def
      run_sql_no_fault Let_def split: if_splits)

text \<open>
  When the query for the last summary fails, the worker takes the session for one without
  summaries and starts again from turn 1.
\<close>

lemma failed_query_starts_over:
  assumes "fst (next_fault c) \<noteq> NoFault" and "read_snapshot sid c = (sn, c1)"
  shows "sn_start sn = 1"
proof -
  obtain f c0 where f: "next_fault c = (f, c0)" "f \<noteq> NoFault"
    using assms(1) by (metis prod.collapse)
  then obtain e where "latest_summary sid c = (Inl e, c0)"
    by (cases f) (simp_all add: latest_summary_def run_sql_def)
  with assms(2) show ?thesis by (auto simp: read_snapshot_def Let_def split: prod.splits)
qed

text \<open>The reset after a summary forgets the exchanges that finished while it was being written.\<close>

lemma counts_during_summary_are_lost:
  "sz_worker s = SzFinish True \<Longrightarrow>
     sz_turns_since (fst (sz_step w p f now (sz_on_event (LlmFinished t False n) s, c))) = 0"
  by (simp add: sz_step_def sz_on_event_def sz_trigger_now_def Let_def)

text \<open>A full queue of the memory thread ends the process.\<close>

lemma refused_job_terminates:
  "sz_worker s = SzRead sid \<Longrightarrow> sz_worker (fst (sz_step w False f now (s, c))) = SzTerminated"
  by (simp add: sz_step_def)

end
