(* ===== verification/Turn_Writer.thy ===== *)
theory Turn_Writer
  imports Memory_Thread Events
begin

text \<open>
  The turn writer of \<open>src/dialogue/turn_writer.hpp\<close> and \<open>src/dialogue/turn_writer.cpp\<close>: it follows
  the sentences of every turn and which of them were played, and posts the rows to write to the
  memory thread. A handler yields the jobs it posts; a job is its effect on the store. The clock
  readings are arguments: \<open>now\<close> in the handler, \<open>late\<close> inside a job that reads the clock when it runs.
\<close>

record assistant_state =
  as_sentences :: "string list"
  as_played :: "bool list"
  as_lang :: string
  as_started_at :: unix_ms

definition as_new :: "unix_ms \<Rightarrow> assistant_state" where
  "as_new started = \<lparr>as_sentences = [], as_played = [], as_lang = [], as_started_at = started\<rparr>"

record turn_writer =
  tw_subscribed :: bool
  tw_session :: row_id
  tw_in_flight :: "turn_id \<rightharpoonup> assistant_state"

definition tw_new :: turn_writer where
  "tw_new = \<lparr>tw_subscribed = False, tw_session = 0, tw_in_flight = Map.empty\<rparr>"

definition tw_start :: "turn_writer \<Rightarrow> turn_writer" where
  "tw_start w = (if tw_subscribed w then w else w\<lparr>tw_subscribed := True\<rparr>)"

definition tw_stop :: "turn_writer \<Rightarrow> turn_writer" where
  "tw_stop w = (if \<not> tw_subscribed w then w else w\<lparr>tw_subscribed := False\<rparr>)"

definition tw_set_session :: "row_id \<Rightarrow> turn_writer \<Rightarrow> turn_writer" where
  "tw_set_session i w = w\<lparr>tw_session := i\<rparr>"

section \<open>Rows\<close>

definition opt_lang :: "string \<Rightarrow> string option" where
  "opt_lang l = (if l = [] then None else Some l)"

definition user_job :: "row_id \<Rightarrow> string \<Rightarrow> string \<Rightarrow> unix_ms \<Rightarrow> unix_ms \<Rightarrow> mem_job" where
  "user_job sid x l started late c =
     (case insert_turn sid RoleUser (Some x) (opt_lang l) started Committed c of
        (Inl e, c1) \<Rightarrow> c1
      | (Inr i, c1) \<Rightarrow> snd (set_turn_status i Committed (Some late) None None c1))"

definition assistant_job ::
  "row_id \<Rightarrow> string \<Rightarrow> string \<Rightarrow> unix_ms \<Rightarrow> turn_status \<Rightarrow> int option \<Rightarrow> unix_ms \<Rightarrow> mem_job" where
  "assistant_job sid x l started status interrupted_at ended c =
     (case insert_turn sid RoleAssistant (Some x) (opt_lang l) started status c of
        (Inl e, c1) \<Rightarrow> c1
      | (Inr i, c1) \<Rightarrow> snd (set_turn_status i status (Some ended) interrupted_at None c1))"

section \<open>Handlers\<close>

definition handle_final :: "unix_ms \<Rightarrow> unix_ms \<Rightarrow> final_transcript \<Rightarrow> turn_writer \<Rightarrow> mem_job list" where
  "handle_final now late e w =
     (if tw_session w = 0 then [] else if ft_text e = [] then []
      else [user_job (tw_session w) (ft_text e) (ft_lang e) now late])"

definition handle_started :: "unix_ms \<Rightarrow> turn_id \<Rightarrow> turn_writer \<Rightarrow> turn_writer" where
  "handle_started now t w =
     (if tw_in_flight w t = None then w\<lparr>tw_in_flight := (tw_in_flight w)(t \<mapsto> as_new now)\<rparr> else w)"

text \<open>\<open>vector::resize\<close>; the size \<open>e.seq + 1\<close> is computed in 32 bits.\<close>

definition resize :: "nat \<Rightarrow> 'a \<Rightarrow> 'a list \<Rightarrow> 'a list" where
  "resize n x xs = take n xs @ replicate (n - length xs) x"

definition as_grow :: "seq_no \<Rightarrow> assistant_state \<Rightarrow> assistant_state" where
  "as_grow q st = st\<lparr>as_sentences := resize (unat (q + 1)) [] (as_sentences st),
                     as_played := resize (unat (q + 1)) False (as_played st)\<rparr>"

definition handle_sentence :: "llm_sentence \<Rightarrow> turn_writer \<Rightarrow> turn_writer exec" where
  "handle_sentence e w =
     (let st0 = (case tw_in_flight w (ls_turn e) of Some st \<Rightarrow> st | None \<Rightarrow> as_new 0);
          st1 = (if as_lang st0 = [] then st0\<lparr>as_lang := ls_lang e\<rparr> else st0);
          st = (if length (as_sentences st1) \<le> unat (ls_seq e) then as_grow (ls_seq e) st1 else st1)
      in if unat (ls_seq e) < length (as_sentences st)
         then Done (w\<lparr>tw_in_flight := (tw_in_flight w)(ls_turn e \<mapsto>
                st\<lparr>as_sentences := (as_sentences st)[unat (ls_seq e) := ls_text e]\<rparr>)\<rparr>)
         else UB)"

definition handle_played :: "turn_id \<Rightarrow> seq_no \<Rightarrow> turn_writer \<Rightarrow> turn_writer exec" where
  "handle_played t q w =
     (case tw_in_flight w t of
        None \<Rightarrow> Done w
      | Some st0 \<Rightarrow>
          let st = (if length (as_played st0) \<le> unat q then as_grow q st0 else st0)
          in if unat q < length (as_played st)
             then Done (w\<lparr>tw_in_flight := (tw_in_flight w)(t \<mapsto>
                    st\<lparr>as_played := (as_played st)[unat q := True]\<rparr>)\<rparr>)
             else UB)"

text \<open>The loop that builds the text and counts the sentences in it.\<close>

definition as_collect :: "bool \<Rightarrow> assistant_state \<Rightarrow> string \<times> nat" where
  "as_collect cancelled st =
     foldl (\<lambda>(x, n) i.
         let s = as_sentences st ! i
         in if s = [] then (x, n)
            else if cancelled \<and> (length (as_played st) \<le> i \<or> \<not> as_played st ! i) then (x, n)
            else ((if x \<noteq> [] then x @ '' '' else x) @ s, n + 1))
       ([], 0) [0..<length (as_sentences st)]"

definition handle_turn_finished ::
  "unix_ms \<Rightarrow> turn_id \<Rightarrow> bool \<Rightarrow> turn_writer \<Rightarrow> mem_job list \<times> turn_writer" where
  "handle_turn_finished now t cancelled w =
     (case tw_in_flight w t of
        None \<Rightarrow> ([], w)
      | Some st \<Rightarrow>
          let w1 = w\<lparr>tw_in_flight := (tw_in_flight w)(t := None)\<rparr>
          in if tw_session w1 = 0 then ([], w1)
             else (case as_collect cancelled st of (x, n) \<Rightarrow>
               if cancelled \<and> n = 0 then ([], w1)
               else ([assistant_job (tw_session w1) x (as_lang st) (as_started_at st)
                        (if cancelled then InterruptedTurn else Committed)
                        (if cancelled then Some (int n) else None) now], w1)))"

definition tw_on_event ::
  "unix_ms \<Rightarrow> unix_ms \<Rightarrow> event \<Rightarrow> turn_writer \<Rightarrow> (mem_job list \<times> turn_writer) exec" where
  "tw_on_event now late e w =
     (case e of
        FinalTranscript f \<Rightarrow> Done (handle_final now late f w, w)
      | LlmStarted t \<Rightarrow> Done ([], handle_started now t w)
      | LlmSentence s \<Rightarrow> (case handle_sentence s w of Done w1 \<Rightarrow> Done ([], w1) | Blocked \<Rightarrow> Blocked | UB \<Rightarrow> UB)
      | LlmFinished t cancelled n \<Rightarrow> Done (handle_turn_finished now t cancelled w)
      | PlaybackFinished t q \<Rightarrow> (case handle_played t q w of Done w1 \<Rightarrow> Done ([], w1) | Blocked \<Rightarrow> Blocked | UB \<Rightarrow> UB)
      | _ \<Rightarrow> Done ([], w))"

text \<open>The jobs go to the memory thread; a refused one is lost.\<close>

definition tw_deliver ::
  "unix_ms \<Rightarrow> unix_ms \<Rightarrow> event \<Rightarrow> turn_writer \<times> connection memory_thread \<Rightarrow> (turn_writer \<times> connection memory_thread) exec" where
  "tw_deliver now late e wm =
     (case wm of (w, m) \<Rightarrow>
        (case tw_on_event now late e w of
           Done (jobs, w1) \<Rightarrow> Done (w1, foldl (\<lambda>m j. snd (mt_post j m)) m jobs)
         | Blocked \<Rightarrow> Blocked | UB \<Rightarrow> UB))"

text \<open>A run of events with their clock readings, collecting the jobs.\<close>

fun tw_run :: "(unix_ms \<times> unix_ms \<times> event) list \<Rightarrow> turn_writer \<Rightarrow> (mem_job list \<times> turn_writer) exec" where
  "tw_run [] w = Done ([], w)"
| "tw_run ((now, late, e) # es) w =
     (case tw_on_event now late e w of
        Done (js, w1) \<Rightarrow>
          (case tw_run es w1 of Done (ks, w2) \<Rightarrow> Done (js @ ks, w2) | Blocked \<Rightarrow> Blocked | UB \<Rightarrow> UB)
      | Blocked \<Rightarrow> Blocked | UB \<Rightarrow> UB)"

section \<open>What is kept of a turn\<close>

text \<open>The sentences of a turn in a list of events, and the sequence numbers that were played.\<close>

definition emitted :: "turn_id \<Rightarrow> event list \<Rightarrow> llm_sentence list" where
  "emitted t es = concat (map (\<lambda>e. case e of LlmSentence s \<Rightarrow> if ls_turn s = t then [s] else [] | _ \<Rightarrow> []) es)"

definition heard :: "turn_id \<Rightarrow> event list \<Rightarrow> nat list" where
  "heard t es = concat (map (\<lambda>e. case e of PlaybackFinished u q \<Rightarrow> if u = t then [unat q] else [] | _ \<Rightarrow> []) es)"

text \<open>What is kept: every sentence of a finished turn, the ones heard of a cancelled one.\<close>

definition kept :: "turn_id \<Rightarrow> bool \<Rightarrow> event list \<Rightarrow> string list" where
  "kept t cancelled es =
     map snd (filter (\<lambda>(i, x). x \<noteq> [] \<and> (cancelled \<longrightarrow> i \<in> set (heard t es)))
       (enumerate 0 (map ls_text (emitted t es))))"

fun join_words :: "string list \<Rightarrow> string" where
  "join_words [] = []"
| "join_words [x] = x"
| "join_words (x # xs) = x @ '' '' @ join_words xs"

lemma join_words_snoc: "join_words (xs @ [y]) = (if xs = [] then y else join_words xs @ '' '' @ y)"
  by (induction xs rule: join_words.induct) auto

lemma join_words_Nil: "list_all (\<lambda>x. x \<noteq> []) xs \<Longrightarrow> join_words xs = [] \<longleftrightarrow> xs = []"
  by (cases xs rule: join_words.cases) auto

lemma as_collect_upto:
  "foldl (\<lambda>(x, n) i.
         let s = ss ! i
         in if s = [] then (x, n) else if \<not> P i then (x, n) else ((if x \<noteq> [] then x @ '' '' else x) @ s, n + 1))
       ([], 0) [0..<k] =
     (let ws = map (nth ss) (filter (\<lambda>i. ss ! i \<noteq> [] \<and> P i) [0..<k]) in (join_words ws, length ws))"
proof (induction k)
  case (Suc k)
  have "list_all (\<lambda>x. x \<noteq> []) (map (nth ss) (filter (\<lambda>i. ss ! i \<noteq> [] \<and> P i) [0..<k]))"
    by (auto simp: list_all_iff)
  from join_words_Nil [OF this] Suc show ?case
    by (auto simp: Let_def join_words_snoc)
qed simp

lemma as_collect_words:
  "as_collect cancelled st =
     (let ws = map (nth (as_sentences st))
                 (filter (\<lambda>i. as_sentences st ! i \<noteq> [] \<and> (cancelled \<longrightarrow> i < length (as_played st) \<and> as_played st ! i))
                    [0..<length (as_sentences st)])
      in (join_words ws, length ws))"
proof -
  have eq: "(cancelled \<and> (length (as_played st) \<le> i \<or> \<not> as_played st ! i)) =
      (\<not> (cancelled \<longrightarrow> i < length (as_played st) \<and> as_played st ! i))" for i
    by auto
  show ?thesis
    unfolding as_collect_def eq by (rule as_collect_upto)
qed

text \<open>The entry of a turn mirrors the events: every sentence at its place, and its played flag.\<close>

definition as_ok :: "turn_id \<Rightarrow> event list \<Rightarrow> assistant_state \<Rightarrow> bool" where
  "as_ok t es st \<longleftrightarrow>
     length (emitted t es) \<le> length (as_sentences st) \<and> length (as_played st) = length (as_sentences st) \<and>
     (\<forall>i < length (as_sentences st). as_sentences st ! i =
        (if i < length (emitted t es) then ls_text (emitted t es ! i) else [])) \<and>
     (\<forall>i < length (as_sentences st). as_played st ! i \<longleftrightarrow> i \<in> set (heard t es)) \<and>
     (\<forall>i \<in> set (heard t es). i < length (as_sentences st))"

definition in_order :: "turn_id \<Rightarrow> event list \<Rightarrow> bool" where
  "in_order t es \<longleftrightarrow> map (\<lambda>s. unat (ls_seq s)) (emitted t es) = [0..<length (emitted t es)]"

text \<open>Sequence numbers below the last one, and the turn not yet finished.\<close>

definition seq_sane :: "event \<Rightarrow> bool" where
  "seq_sane e \<longleftrightarrow> (case e of LlmSentence s \<Rightarrow> ls_seq s \<noteq> - 1 | PlaybackFinished t q \<Rightarrow> q \<noteq> - 1 | _ \<Rightarrow> True)"

definition goes_on :: "turn_id \<Rightarrow> event \<Rightarrow> bool" where
  "goes_on t e \<longleftrightarrow> seq_sane e \<and> (case e of LlmFinished u c n \<Rightarrow> u \<noteq> t | _ \<Rightarrow> True)"

lemma emitted_append [simp]: "emitted t (xs @ ys) = emitted t xs @ emitted t ys"
  by (simp add: emitted_def)

lemma heard_append [simp]: "heard t (xs @ ys) = heard t xs @ heard t ys"
  by (simp add: heard_def)

lemma unat_next: "q \<noteq> - 1 \<Longrightarrow> unat (q + 1) = Suc (unat q)" for q :: seq_no
  by (metis add.commute add.right_inverse add_left_cancel unatSuc)

lemma length_resize [simp]: "length (resize n x xs) = n"
  by (simp add: resize_def)

lemma nth_resize: "i < n \<Longrightarrow> resize n x xs ! i = (if i < length xs then xs ! i else x)"
  by (simp add: resize_def nth_append)

lemma as_grow_ok:
  assumes "as_ok t es st" and "length (as_sentences st) \<le> unat q" and "q \<noteq> - 1"
  shows "as_ok t es (as_grow q st)" and "length (as_sentences (as_grow q st)) = Suc (unat q)"
  using assms by (force simp: as_ok_def as_grow_def unat_next nth_resize)+

lemma in_orderD:
  assumes "in_order t (pre @ LlmSentence s # es)" and "ls_turn s = t"
  shows "unat (ls_seq s) = length (emitted t pre)"
proof -
  have "emitted t (pre @ LlmSentence s # es) = emitted t pre @ s # emitted t es"
    using assms(2) by (simp add: emitted_def)
  with assms(1) have "map (\<lambda>s. unat (ls_seq s)) (emitted t pre @ s # emitted t es) ! length (emitted t pre) =
      [0..<length (emitted t pre @ s # emitted t es)] ! length (emitted t pre)"
    by (simp only: in_order_def)
  then show ?thesis by (simp add: nth_append del: upt_Suc)
qed

lemma handle_sentence_ok:
  assumes "tw_in_flight w t = Some st" and "as_ok t pre st" and "ls_seq s \<noteq> - 1"
    and "ls_turn s = t" and "unat (ls_seq s) = length (emitted t pre)"
  shows "\<exists>w1 st1. handle_sentence s w = Done w1 \<and> tw_in_flight w1 t = Some st1 \<and>
    as_ok t (pre @ [LlmSentence s]) st1 \<and> tw_session w1 = tw_session w"
proof -
  define st1 where "st1 = (if as_lang st = [] then st\<lparr>as_lang := ls_lang s\<rparr> else st)"
  define st2 where "st2 = (if length (as_sentences st1) \<le> unat (ls_seq s) then as_grow (ls_seq s) st1 else st1)"
  have 1: "as_ok t pre st1" using assms(2) by (auto simp: st1_def as_ok_def)
  have 2: "as_ok t pre st2" "unat (ls_seq s) < length (as_sentences st2)"
    using as_grow_ok [OF 1 _ assms(3)] 1 by (auto simp: st2_def)
  have "handle_sentence s w = Done (w\<lparr>tw_in_flight := (tw_in_flight w)(t \<mapsto>
      st2\<lparr>as_sentences := (as_sentences st2)[unat (ls_seq s) := ls_text s]\<rparr>)\<rparr>)"
    using 2(2) unfolding handle_sentence_def Let_def assms(4) assms(1) option.case
      st1_def [symmetric] st2_def [symmetric] by simp
  moreover have "as_ok t (pre @ [LlmSentence s]) (st2\<lparr>as_sentences := (as_sentences st2)[unat (ls_seq s) := ls_text s]\<rparr>)"
    using 2 assms(4,5) by (auto simp: as_ok_def emitted_def heard_def nth_append nth_list_update)
  ultimately show ?thesis by simp
qed

lemma handle_played_ok:
  assumes "tw_in_flight w t = Some st" and "as_ok t pre st" and "q \<noteq> - 1"
  shows "\<exists>w1 st1. handle_played t q w = Done w1 \<and> tw_in_flight w1 t = Some st1 \<and>
    as_ok t (pre @ [PlaybackFinished t q]) st1 \<and> tw_session w1 = tw_session w"
proof -
  define st2 where "st2 = (if length (as_played st) \<le> unat q then as_grow q st else st)"
  have len: "length (as_played st) = length (as_sentences st)" using assms(2) by (simp add: as_ok_def)
  have 2: "as_ok t pre st2" "unat q < length (as_played st2)"
    using as_grow_ok [OF assms(2) _ assms(3)] assms(2) by (auto simp: st2_def len as_ok_def)
  have "handle_played t q w = Done (w\<lparr>tw_in_flight := (tw_in_flight w)(t \<mapsto>
      st2\<lparr>as_played := (as_played st2)[unat q := True]\<rparr>)\<rparr>)"
    using 2(2) assms(1) by (simp add: handle_played_def st2_def Let_def)
  moreover have "as_ok t (pre @ [PlaybackFinished t q]) (st2\<lparr>as_played := (as_played st2)[unat q := True]\<rparr>)"
    using 2 by (auto simp: as_ok_def emitted_def heard_def nth_list_update)
  ultimately show ?thesis by simp
qed

text \<open>An event of another turn leaves the entry alone and is never undefined.\<close>

lemma handle_other:
  assumes "t \<noteq> u"
  shows "ls_turn s = u \<Longrightarrow> ls_seq s \<noteq> - 1 \<Longrightarrow>
      \<exists>w1. handle_sentence s w = Done w1 \<and> tw_in_flight w1 t = tw_in_flight w t \<and> tw_session w1 = tw_session w"
    and "q \<noteq> - 1 \<Longrightarrow>
      \<exists>w1. handle_played u q w = Done w1 \<and> tw_in_flight w1 t = tw_in_flight w t \<and> tw_session w1 = tw_session w"
  using assms
  by (auto simp: handle_sentence_def handle_played_def as_grow_def unat_next Let_def split: option.splits)

lemma tw_step_ok:
  assumes "tw_in_flight w t = Some st" and "as_ok t pre st" and "goes_on t e" and "in_order t (pre @ e # es)"
  shows "\<exists>js w1 st1. tw_on_event now late e w = Done (js, w1) \<and> tw_in_flight w1 t = Some st1 \<and>
    as_ok t (pre @ [e]) st1 \<and> tw_session w1 = tw_session w"
proof -
  have same: "as_ok t (pre @ [e]) st" if "emitted t [e] = []" "heard t [e] = []"
    using assms(2) that by (simp add: as_ok_def)
  show ?thesis
  proof (cases e)
    case (LlmSentence s)
    then have q: "ls_seq s \<noteq> - 1" using assms(3) by (simp add: goes_on_def seq_sane_def)
    show ?thesis
    proof (cases "ls_turn s = t")
      case True
      from handle_sentence_ok [OF assms(1,2) q True] in_orderD [of t pre s es] assms(4) LlmSentence True
      show ?thesis by (auto simp: tw_on_event_def)
    next
      case False
      with handle_other(1) [of t "ls_turn s" s w] q same assms(1) LlmSentence show ?thesis
        by (auto simp: tw_on_event_def emitted_def heard_def)
    qed
  next
    case (PlaybackFinished u q)
    then have q: "q \<noteq> - 1" using assms(3) by (simp add: goes_on_def seq_sane_def)
    show ?thesis
    proof (cases "u = t")
      case True
      from handle_played_ok [OF assms(1,2) q] PlaybackFinished True
      show ?thesis by (auto simp: tw_on_event_def)
    next
      case False
      with handle_other(2) [of t u q w] q same assms(1) PlaybackFinished show ?thesis
        by (auto simp: tw_on_event_def emitted_def heard_def)
    qed
  next
    case (LlmFinished u c n)
    then have "u \<noteq> t" using assms(3) by (simp add: goes_on_def)
    with same assms(1) LlmFinished show ?thesis
      by (auto simp: tw_on_event_def emitted_def heard_def handle_turn_finished_def Let_def split: option.splits prod.splits)
  qed (use same assms(1) in \<open>auto simp: tw_on_event_def emitted_def heard_def handle_started_def\<close>)
qed

lemma tw_run_ok:
  assumes "tw_in_flight w t = Some st" and "as_ok t pre st"
    and "list_all (\<lambda>(now, late, e). goes_on t e) es" and "in_order t (pre @ map (\<lambda>(now, late, e). e) es)"
  shows "\<exists>js w1 st1. tw_run es w = Done (js, w1) \<and> tw_in_flight w1 t = Some st1 \<and>
    as_ok t (pre @ map (\<lambda>(now, late, e). e) es) st1 \<and> tw_session w1 = tw_session w"
  using assms
proof (induction es arbitrary: w st pre)
  case (Cons x es)
  obtain now late e where x: "x = (now, late, e)" by (metis prod_cases3)
  with Cons.prems have "goes_on t e" "in_order t (pre @ e # map (\<lambda>(now, late, e). e) es)" by simp_all
  from tw_step_ok [OF Cons.prems(1,2) this] obtain js w1 st1 where
    step: "tw_on_event now late e w = Done (js, w1)" "tw_in_flight w1 t = Some st1"
      "as_ok t (pre @ [e]) st1" "tw_session w1 = tw_session w" by blast
  from Cons.IH [OF step(2,3)] Cons.prems(3,4) x obtain ks w2 st2 where
    "tw_run es w1 = Done (ks, w2)" "tw_in_flight w2 t = Some st2"
    "as_ok t (pre @ e # map (\<lambda>(now, late, e). e) es) st2" "tw_session w2 = tw_session w1" by auto
  with step x show ?case by simp
qed simp

text \<open>The text collected from the entry is what is to be kept.\<close>

lemma as_collect_kept:
  assumes "as_ok t es st"
  shows "as_collect cancelled st = (join_words (kept t cancelled es), length (kept t cancelled es))"
proof -
  let ?ss = "as_sentences st" and ?n = "length (emitted t es)"
  have "[0..<length ?ss] = [0..<?n] @ [?n..<length ?ss]"
    using assms by (simp add: as_ok_def) (metis le_add_diff_inverse upt_add_eq_append zero_le)
  moreover have "filter (\<lambda>i. ?ss ! i \<noteq> [] \<and> (cancelled \<longrightarrow> i < length (as_played st) \<and> as_played st ! i)) [?n..<length ?ss] = []"
    using assms by (auto simp: as_ok_def filter_empty_conv)
  moreover have "map (nth ?ss) (filter (\<lambda>i. ?ss ! i \<noteq> [] \<and> (cancelled \<longrightarrow> i < length (as_played st) \<and> as_played st ! i)) [0..<?n]) =
      map (\<lambda>i. ls_text (emitted t es ! i)) (filter (\<lambda>i. ls_text (emitted t es ! i) \<noteq> [] \<and> (cancelled \<longrightarrow> i \<in> set (heard t es))) [0..<?n])"
    using assms by (intro map_cong filter_cong) (auto simp: as_ok_def)
  moreover have "kept t cancelled es = map (\<lambda>i. ls_text (emitted t es ! i))
      (filter (\<lambda>i. ls_text (emitted t es ! i) \<noteq> [] \<and> (cancelled \<longrightarrow> i \<in> set (heard t es))) [0..<?n])"
  proof -
    have "enumerate 0 (map ls_text (emitted t es)) = map (\<lambda>i. (i, ls_text (emitted t es ! i))) [0..<?n]"
      by (rule nth_equalityI) (simp_all add: nth_enumerate_eq)
    then show ?thesis by (simp add: kept_def filter_map o_def)
  qed
  ultimately show ?thesis by (simp add: as_collect_words Let_def del: upt_conv_Cons)
qed

section \<open>The row\<close>

definition store_ready :: "row_id \<Rightarrow> connection \<Rightarrow> bool" where
  "store_ready sid c \<longleftrightarrow> db_wf (cn_db c) \<and> cn_faults c = [] \<and> sid \<in> se_id ` set (db_sessions (cn_db c))"

lemma finished_row:
  assumes "db_wf (cn_db c)" and "cn_faults c = []" and "sid \<in> se_id ` set (db_sessions (cn_db c))"
  shows "\<exists>r. db_turns (cn_db (case insert_turn sid role x l started status c of
         (Inl e, c1) \<Rightarrow> c1
       | (Inr i, c1) \<Rightarrow> snd (set_turn_status i status (Some ended) int_at None c1))) = db_turns (cn_db c) @ [r] \<and>
     tu_session r = sid \<and> tu_role r = role_to_string role \<and> tu_text r = x \<and> tu_lang r = l \<and>
     tu_started_at r = started \<and> tu_ended_at r = Some ended \<and>
     tu_status r = status_to_string status \<and> tu_interrupted r = int_at"
proof -
  have "\<forall>t \<in> set (db_turns (cn_db c)). tu_id t \<noteq> db_next_turn (cn_db c)"
    using assms(1) by (auto simp: db_wf_def ids_below_def turn_ids_def)
  then have "map (\<lambda>t. if tu_id t = db_next_turn (cn_db c) then f t else t) (db_turns (cn_db c)) = db_turns (cn_db c)" for f
    by (intro map_idI) auto
  with assms(2,3) show ?thesis
    by (auto simp: insert_turn_def set_turn_status_def run_sql_no_fault Let_def sql_coalesce_def cong del: if_weak_cong)
qed

lemma assistant_turn_stored:
  assumes "tw_in_flight w t = None" and "tw_session w \<noteq> 0" and "store_ready (tw_session w) c"
    and "list_all (\<lambda>(now, late, e). goes_on t e) es" and "in_order t (map (\<lambda>(now, late, e). e) es)"
  shows "\<exists>js w1 jobs w2. tw_run ((n0, l0, LlmStarted t) # es) w = Done (js, w1) \<and>
    tw_on_event now late (LlmFinished t cancelled k) w1 = Done (jobs, w2) \<and> tw_in_flight w2 t = None \<and>
    (let ws = kept t cancelled (map (\<lambda>(now, late, e). e) es)
     in if cancelled \<and> ws = [] then jobs = []
        else \<exists>r. db_turns (cn_db (run_jobs jobs c)) = db_turns (cn_db c) @ [r] \<and>
          tu_session r = tw_session w \<and> tu_role r = ''assistant'' \<and> tu_text r = Some (join_words ws) \<and>
          tu_status r = (if cancelled then ''interrupted'' else ''committed'') \<and>
          tu_interrupted r = (if cancelled then Some (int (length ws)) else None) \<and> tu_ended_at r = Some now)"
proof -
  let ?evs = "map (\<lambda>(now, late, e). e) es" and ?w0 = "handle_started n0 t w"
  have w0: "tw_in_flight ?w0 t = Some (as_new n0)" "tw_session ?w0 = tw_session w"
    using assms(1) by (simp_all add: handle_started_def)
  have "as_ok t [] (as_new n0)" by (simp add: as_ok_def as_new_def emitted_def heard_def)
  from tw_run_ok [OF w0(1) this assms(4)] assms(5) obtain js w1 st where
    run: "tw_run es ?w0 = Done (js, w1)" "tw_in_flight w1 t = Some st" "as_ok t ?evs st"
      "tw_session w1 = tw_session w" by (auto simp: w0)
  define ws where "ws = kept t cancelled ?evs"
  have col: "as_collect cancelled st = (join_words ws, length ws)"
    using as_collect_kept [OF run(3)] by (simp add: ws_def)
  obtain jobs w2 where fin: "handle_turn_finished now t cancelled w1 = (jobs, w2)" by fastforce
  then have none: "tw_in_flight w2 t = None"
    using run(2,4) assms(2) by (auto simp: handle_turn_finished_def Let_def split: prod.splits if_splits)
  have row: "if cancelled \<and> ws = [] then jobs = []
        else \<exists>r. db_turns (cn_db (run_jobs jobs c)) = db_turns (cn_db c) @ [r] \<and>
          tu_session r = tw_session w \<and> tu_role r = ''assistant'' \<and> tu_text r = Some (join_words ws) \<and>
          tu_status r = (if cancelled then ''interrupted'' else ''committed'') \<and>
          tu_interrupted r = (if cancelled then Some (int (length ws)) else None) \<and> tu_ended_at r = Some now"
  proof (cases "cancelled \<and> ws = []")
    case True
    with fin run(2,4) assms(2) col show ?thesis by (auto simp: handle_turn_finished_def Let_def)
  next
    case False
    define status where "status = (if cancelled then InterruptedTurn else Committed)"
    define int_at where "int_at = (if cancelled then Some (int (length ws)) else None)"
    from False fin run(2,4) assms(2) col
    have "jobs = [assistant_job (tw_session w) (join_words ws) (as_lang st) (as_started_at st) status int_at now]"
      by (auto simp: handle_turn_finished_def Let_def status_def int_at_def)
    then have jobs: "run_jobs jobs c = assistant_job (tw_session w) (join_words ws) (as_lang st) (as_started_at st) status int_at now c"
      by (simp add: run_jobs_def)
    have "status_to_string status = (if cancelled then ''interrupted'' else ''committed'')"
      by (simp add: status_def)
    with finished_row [of c "tw_session w" status now int_at RoleAssistant "Some (join_words ws)" "opt_lang (as_lang st)"
        "as_started_at st"] assms(3) False
    show ?thesis
      unfolding jobs assistant_job_def store_ready_def int_at_def [symmetric] by auto
  qed
  show ?thesis
    using run(1) fin none row w0 unfolding ws_def [symmetric]
    by (auto simp: tw_on_event_def Let_def split del: if_split)
qed

text \<open>
  C13. What is remembered of an answer. After the start of a turn, any events in which its sentences
  come in order and it is not yet finished (other turns and the playback may interleave in any way),
  the end of its stream writes one row: all sentences if the stream was not cancelled, exactly
  the sentences that were played if it was, with their number, and no row when none was played.
\<close>

theorem assistant_turn_row:
  assumes "tw_in_flight w t = None" and "tw_session w \<noteq> 0" and "store_ready (tw_session w) c"
    and "list_all (\<lambda>(now, late, e). goes_on t e) es" and "in_order t (map (\<lambda>(now, late, e). e) es)"
  shows "\<exists>js w1 jobs w2. tw_run ((n0, l0, LlmStarted t) # es) w = Done (js, w1) \<and>
    tw_on_event now late (LlmFinished t cancelled k) w1 = Done (jobs, w2) \<and> tw_in_flight w2 t = None \<and>
    (let ws = kept t cancelled (map (\<lambda>(now, late, e). e) es)
     in if cancelled \<and> ws = [] then jobs = []
        else \<exists>r. db_turns (cn_db (run_jobs jobs c)) = db_turns (cn_db c) @ [r] \<and>
          tu_session r = tw_session w \<and> tu_role r = ''assistant'' \<and> tu_text r = Some (join_words ws) \<and>
          tu_status r = (if cancelled then ''interrupted'' else ''committed'') \<and>
          tu_interrupted r = (if cancelled then Some (int (length ws)) else None) \<and> tu_ended_at r = Some now)"
  by (rule assistant_turn_stored [OF assms])

definition demo_sentence :: "seq_no \<Rightarrow> string \<Rightarrow> event" where
  "demo_sentence q x = LlmSentence \<lparr>ls_turn = 5, ls_seq = q, ls_text = x, ls_lang = ''en''\<rparr>"

definition one_session :: connection where
  "one_session = \<lparr>cn_db = db_empty\<lparr>
      db_sessions := [\<lparr>se_id = 1, se_started_at = 1, se_ended_at = None, se_title = None\<rparr>],
      db_next_session := 2\<rparr>, cn_saved = None, cn_faults = []\<rparr>"

lemma one_session_ready: "store_ready 1 one_session"
  by (simp add: store_ready_def one_session_def db_wf_def db_empty_def ids_below_def session_ids_def turn_ids_def
      fact_keys_def fact_ids_def setting_keys_def)

definition demo_reply :: "(unix_ms \<times> unix_ms \<times> event) list" where
  "demo_reply = [(2, 2, demo_sentence 0 ''Hi.''), (3, 3, PlaybackFinished 5 0), (4, 4, demo_sentence 1 ''Bye.'')]"

lemma demo_reply_ok:
  "list_all (\<lambda>(now, late, e). goes_on 5 e) demo_reply" "in_order 5 (map (\<lambda>(now, late, e). e) demo_reply)"
  "kept 5 True (map (\<lambda>(now, late, e). e) demo_reply) = [''Hi.'']"
  by (simp_all add: demo_reply_def demo_sentence_def goes_on_def seq_sane_def in_order_def kept_def emitted_def heard_def)

theorem assistant_turn_row_witness:
  "\<exists>js w1 jobs w2. tw_run ((1, 1, LlmStarted 5) # demo_reply) (tw_set_session 1 tw_new) = Done (js, w1) \<and>
     tw_on_event 9 9 (LlmFinished 5 True 2) w1 = Done (jobs, w2) \<and>
     map (\<lambda>r. (tu_text r, tu_status r, tu_interrupted r)) (db_turns (cn_db (run_jobs jobs one_session))) =
       [(Some ''Hi.'', ''interrupted'', Some 1)]"
proof -
  have w: "tw_in_flight (tw_set_session 1 tw_new) 5 = None" "tw_session (tw_set_session 1 tw_new) = 1"
    by (simp_all add: tw_set_session_def tw_new_def)
  have "db_turns (cn_db one_session) = []" by (simp add: one_session_def db_empty_def)
  then show ?thesis
    using assistant_turn_row [of "tw_set_session 1 tw_new" 5 one_session demo_reply 1 1 9 9 True 2]
      demo_reply_ok one_session_ready w
    by (force simp: Let_def)
qed

text \<open>
  When the stream ends before the user interrupts, which is the usual order, the whole text is
  committed although only the first sentence was heard: playback notices after the end of the
  stream are dropped.
\<close>

lemma finished_stream_keeps_unheard:
  "\<exists>js w1. tw_run [(1, 1, LlmStarted 5), (2, 2, demo_sentence 0 ''Hi.''), (3, 3, demo_sentence 1 ''Bye.''),
        (4, 4, LlmFinished 5 False 2), (5, 5, PlaybackFinished 5 0), (6, 6, UserInterrupted 5 6)]
      (tw_set_session 1 tw_new) = Done (js, w1) \<and>
    js = [assistant_job 1 ''Hi. Bye.'' ''en'' 1 Committed None 4] \<and> tw_in_flight w1 5 = None"
  by (simp add: tw_on_event_def tw_set_session_def tw_new_def handle_started_def handle_sentence_def demo_sentence_def
      as_new_def as_grow_def resize_def handle_turn_finished_def as_collect_def handle_played_def Let_def)

end
