(* ===== verification/Llm_Client.thy ===== *)
theory Llm_Client
  imports Sse_Parser Events Text_Format
begin

text \<open>
  The streaming client of \<open>src/llm/client.hpp\<close> and \<open>src/llm/client.cpp\<close>: the write and progress
  callbacks libcurl calls, the handler of one payload, and the outcome of a transfer. libcurl is
  the environment: it calls the write callback with any pieces of the body, and ends with a code
  and a status. The JSON reader is an argument: \<open>None\<close> for a malformed chunk, otherwise the
  content of each choice's delta.
\<close>

type_synonym json_chunk = "string \<Rightarrow> string option list option"

record llm_finish =
  lf_turn :: turn_id
  lf_cancelled :: bool
  lf_error :: bool
  lf_error_message :: string
  lf_tokens_generated :: counter

definition lf_new :: "turn_id \<Rightarrow> llm_finish" where
  "lf_new t = \<lparr>lf_turn = t, lf_cancelled = False, lf_error = False, lf_error_message = [],
               lf_tokens_generated = 0\<rparr>"

record llm_stream =
  lc_parser :: sse_parser
  lc_tokens :: counter

definition lc_new :: llm_stream where
  "lc_new = \<lparr>lc_parser = sse_new, lc_tokens = 0\<rparr>"

text \<open>The payload handler: the content handed to \<open>on_token\<close>, if any.\<close>

definition on_payload :: "json_chunk \<Rightarrow> string \<Rightarrow> string option" where
  "on_payload decode payload =
     (case decode payload of
        None \<Rightarrow> None
      | Some choices \<Rightarrow>
          if choices = [] then None
          else case hd choices of
              None \<Rightarrow> None
            | Some content \<Rightarrow> if content = [] then None else Some content)"

text \<open>The content of a list of parser calls, in order; the other calls have no effect.\<close>

fun deltas :: "json_chunk \<Rightarrow> sse_call list \<Rightarrow> string list" where
  "deltas decode [] = []"
| "deltas decode (OnData payload # cs) =
     (case on_payload decode payload of None \<Rightarrow> deltas decode cs | Some x \<Rightarrow> x # deltas decode cs)"
| "deltas decode (_ # cs) = deltas decode cs"

definition lc_deliver :: "json_chunk \<Rightarrow> sse_call list \<times> sse_parser \<Rightarrow> llm_stream \<Rightarrow> string list \<times> llm_stream" where
  "lc_deliver decode r st =
     (case r of (calls, p) \<Rightarrow>
        let xs = deltas decode calls
        in (xs, st\<lparr>lc_parser := p, lc_tokens := lc_tokens st + of_nat (length xs)\<rparr>))"

text \<open>\<open>None\<close> makes libcurl abort the transfer.\<close>

definition curl_write :: "json_chunk \<Rightarrow> bool \<Rightarrow> string \<Rightarrow> llm_stream \<Rightarrow> (string list \<times> llm_stream) option" where
  "curl_write decode cancelled bytes st =
     (if cancelled then None else Some (lc_deliver decode (sse_feed bytes (lc_parser st)) st))"

definition curl_progress :: "bool \<Rightarrow> bool" where
  "curl_progress cancelled = cancelled"

text \<open>After the transfer: \<open>parser.finish\<close> may still deliver, then the outcome is decided.\<close>

definition lc_drain :: "json_chunk \<Rightarrow> llm_stream \<Rightarrow> string list \<times> llm_stream" where
  "lc_drain decode st = lc_deliver decode (sse_finish (lc_parser st)) st"

datatype curl_code = CurlOk | CurlError string

definition lc_outcome :: "turn_id \<Rightarrow> bool \<Rightarrow> curl_code \<Rightarrow> nat \<Rightarrow> llm_stream \<Rightarrow> llm_finish" where
  "lc_outcome t cancelled rc http_status st =
     (let f = (lf_new t)\<lparr>lf_tokens_generated := lc_tokens st\<rparr>
      in if cancelled then f\<lparr>lf_cancelled := True\<rparr>
         else case rc of
             CurlError m \<Rightarrow> f\<lparr>lf_error := True, lf_error_message := m\<rparr>
           | CurlOk \<Rightarrow>
               if http_status \<noteq> 200 then f\<lparr>lf_error := True, lf_error_message := ''http '' @ dec_nat http_status\<rparr>
               else f)"

definition lc_finished_event :: "llm_finish \<Rightarrow> event" where
  "lc_finished_event f = LlmFinished (lf_turn f) (lf_cancelled f) (unat (lf_tokens_generated f))"

section \<open>A whole transfer\<close>

text \<open>Feeding pieces up to the first one after the token is flipped; \<open>n\<close> pieces pass before that.\<close>

fun lc_transfer :: "json_chunk \<Rightarrow> nat \<Rightarrow> string list \<Rightarrow> llm_stream \<Rightarrow> string list \<times> llm_stream" where
  "lc_transfer decode n [] st = ([], st)"
| "lc_transfer decode n (b # bs) st =
     (case curl_write decode (n = 0) b st of
        None \<Rightarrow> ([], st)
      | Some (xs, st1) \<Rightarrow> (case lc_transfer decode (n - 1) bs st1 of (ys, st2) \<Rightarrow> (xs @ ys, st2)))"

lemma deltas_append [simp]: "deltas decode (xs @ ys) = deltas decode xs @ deltas decode ys"
  by (induction xs rule: deltas.induct) (auto split: option.splits)

lemma deltas_OnData: "deltas decode (map OnData ps) = List.map_filter (on_payload decode) ps"
  by (induction ps) (auto simp: List.map_filter_simps split: option.splits)

lemma lc_transfer_feed:
  "length bs \<le> n \<Longrightarrow> lc_transfer decode n bs st =
     (case sse_feed_all bs (lc_parser st) of (cs, p) \<Rightarrow>
        (deltas decode cs, st\<lparr>lc_parser := p, lc_tokens := lc_tokens st + of_nat (length (deltas decode cs))\<rparr>))"
proof (induction bs arbitrary: n st)
  case (Cons b bs)
  then obtain m where n: "n = Suc m" "length bs \<le> m" by (cases n) auto
  from Cons.IH [OF n(2)] n(1) show ?case
    by (simp add: curl_write_def lc_deliver_def Let_def split: prod.splits)
qed simp

text \<open>
  C32. The answer arrives as it was sent. For a stream of framed chunks closed by the sentinel, cut
  into reads in any way and not cancelled, the tokens handed on are exactly the non-empty contents
  of the well-formed chunks in order, their number is the one reported, and draining the parser
  at the end adds nothing.
\<close>

theorem answer_tokens:
  assumes "list_all sse_plain ps"
    and "concat bs = concat (map sse_frame ps) @ sse_frame kDoneSentinel @ junk"
    and "length bs \<le> n" and "lc_transfer decode n bs lc_new = (xs, st)"
  shows "xs = List.map_filter (on_payload decode) ps \<and> lc_tokens st = of_nat (length xs) \<and>
    lc_drain decode st = ([], st)"
proof -
  have "sse_feed_all bs sse_new = (map OnData ps @ [OnDone], \<lparr>sse_buffer = [], sse_done_seen = True\<rparr>)"
    by (rule framed_stream [OF assms(1,2)])
  with assms(3,4) lc_transfer_feed [of bs n decode lc_new] show ?thesis
    by (auto simp: lc_new_def lc_drain_def sse_finish_def lc_deliver_def deltas_OnData)
qed

text \<open>Reads after the token was flipped are refused, so nothing more is handed on by them.\<close>

lemma transfer_stops: "lc_transfer decode 0 bs st = ([], st)"
  by (cases bs) (simp_all add: curl_write_def)

text \<open>What a cancelled transfer still hands on: the text of an event cut off by the cancellation.\<close>

lemma cancelled_drain_delivers:
  "lc_drain (\<lambda>p. Some [Some p]) (snd (lc_transfer (\<lambda>p. Some [Some p]) 1 [''data: Hi'', [newline, newline]] lc_new)) =
     ([''Hi''], \<lparr>lc_parser = sse_new, lc_tokens = 1\<rparr>)"
  by code_simp

definition demo_decode :: json_chunk where
  "demo_decode p = (if p = ''bad'' then None else Some [Some (drop 1 p)])"

theorem answer_tokens_witness:
  "lc_transfer demo_decode 2 [sse_frame ''xHi'' @ sse_frame ''bad'', sse_frame ''x'' @ sse_frame ''x.'' @ sse_frame kDoneSentinel]
     lc_new = ([''Hi'', ''.''], \<lparr>lc_parser = \<lparr>sse_buffer = [], sse_done_seen = True\<rparr>, lc_tokens = 2\<rparr>)"
proof -
  let ?bs = "[sse_frame ''xHi'' @ sse_frame ''bad'', sse_frame ''x'' @ sse_frame ''x.'' @ sse_frame kDoneSentinel]"
  obtain xs st where r: "lc_transfer demo_decode 2 ?bs lc_new = (xs, st)" by fastforce
  have plain: "list_all sse_plain [''xHi'', ''bad'', ''x'', ''x.'']"
    by (simp add: sse_plain_def kDoneSentinel_def)
  have "xs = List.map_filter (on_payload demo_decode) [''xHi'', ''bad'', ''x'', ''x.''] \<and> lc_tokens st = of_nat (length xs) \<and>
      lc_drain demo_decode st = ([], st)"
    by (rule answer_tokens [OF plain _ _ r, where junk = "[]"]) simp_all
  moreover have "snd (lc_transfer demo_decode 2 ?bs lc_new) =
      \<lparr>lc_parser = \<lparr>sse_buffer = [], sse_done_seen = True\<rparr>, lc_tokens = 2\<rparr>"
    by code_simp
  ultimately show ?thesis
    using r by (simp add: demo_decode_def on_payload_def List.map_filter_simps)
qed

end
