(* ===== verification/Manager.thy ===== *)
theory Manager
  imports Turn Sentence_Splitter Llm_Client
begin

text \<open>
  The dialogue manager of \<open>src/dialogue/manager.hpp\<close> and \<open>src/dialogue/manager.cpp\<close>: the handlers
  on the subscriber thread and the serial I/O thread as interleaved steps. The I/O thread stands at
  a position of \<open>run_one\<close>; during the stream libcurl's callbacks drive it. The body the prompt
  builder returns, the turn-id provider's answer, the pipeline gate's answer and the clock are
  inputs of the steps. What is published on the bus is a log.
\<close>

section \<open>Short utterances\<close>

text \<open>The count of visible characters, over the rest of the string as the index advances.\<close>

definition utf8_step :: "char \<Rightarrow> nat" where
  "utf8_step c = (let b = of_char c :: nat
                  in if b < 0x80 then 1 else if b div 0x20 = 6 then 2 else if b div 0x10 = 14 then 3 else 4)"

lemma utf8_step_pos: "0 < utf8_step c"
  by (simp add: utf8_step_def Let_def)

function normalised_visible_chars :: "string \<Rightarrow> nat" where
  "normalised_visible_chars s =
     (if s = [] then 0
      else let b = of_char (hd s) :: nat
           in (if b < 0x80 then (if 0x20 < b \<and> b \<noteq> 0x7F then 1 else 0) else 1) +
              normalised_visible_chars (drop (utf8_step (hd s)) s))"
  by pat_completeness auto
termination
  by (relation "measure length") (auto simp: utf8_step_pos)

declare normalised_visible_chars.simps [simp del]

section \<open>One answer\<close>

record manager_config =
  mc_fallback_language :: string
  mc_cap :: "32 word"               \<comment> \<open>\<open>dialogue.max_assistant_sentences\<close>\<close>
  mc_min_chars :: "32 word"         \<comment> \<open>\<open>barge_in.min_real_utterance_chars\<close>\<close>
  mc_splitter :: splitter_config

datatype cap_state = CapNone | CapPending | CapCancelled

text \<open>The locals of \<open>run_one\<close> that the callbacks share, the events they publish and the cancel request.\<close>

record answer =
  an_splitter :: splitter
  an_seq :: seq_no
  an_cap :: cap_state
  an_cancels :: bool
  an_events :: "event list"

definition answer_new :: "splitter_config \<Rightarrow> answer" where
  "answer_new cfg = \<lparr>an_splitter = sp_new cfg, an_seq = 0, an_cap = CapNone, an_cancels = False, an_events = []\<rparr>"

definition cap_backstop :: "32 word \<Rightarrow> seq_no" where
  "cap_backstop cap = (if 0 < cap then cap + 1 else 0)"

definition request_cancel :: "answer \<Rightarrow> answer" where
  "request_cancel a = (if an_cap a = CapCancelled then a else a\<lparr>an_cap := CapCancelled, an_cancels := True\<rparr>)"

definition publish_sentence :: "turn_id \<Rightarrow> string \<Rightarrow> string \<Rightarrow> answer \<Rightarrow> answer" where
  "publish_sentence t lang x a =
     a\<lparr>an_events := an_events a @ [LlmSentence \<lparr>ls_turn = t, ls_seq = an_seq a, ls_text = x, ls_lang = lang\<rparr>],
       an_seq := an_seq a + 1\<rparr>"

text \<open>The loop over the sentences one token completes.\<close>

fun emit_sentences :: "32 word \<Rightarrow> turn_id \<Rightarrow> string \<Rightarrow> string list \<Rightarrow> answer \<Rightarrow> answer" where
  "emit_sentences cap t lang [] a = a"
| "emit_sentences cap t lang (s # ss) a =
     (if 0 < cap_backstop cap \<and> cap_backstop cap \<le> an_seq a then request_cancel a
      else let a1 = publish_sentence t lang s a
           in if an_cap a1 = CapNone \<and> 0 < cap \<and> cap \<le> an_seq a1
              then emit_sentences cap t lang ss (a1\<lparr>an_cap := CapPending\<rparr>)
              else if an_cap a1 = CapPending then request_cancel a1
              else emit_sentences cap t lang ss a1)"

definition on_token :: "32 word \<Rightarrow> turn_id \<Rightarrow> string \<Rightarrow> string \<Rightarrow> answer \<Rightarrow> answer" where
  "on_token cap t lang delta a =
     (if an_cap a = CapCancelled then a
      else let sp = sp_push delta ((an_splitter a)\<lparr>sp_out := []\<rparr>);
               a1 = emit_sentences cap t lang (sp_out sp) (a\<lparr>an_splitter := sp\<rparr>)
           in if an_cap a1 \<noteq> CapCancelled then a1\<lparr>an_events := an_events a1 @ [LlmToken t delta]\<rparr> else a1)"

fun flush_sentences :: "32 word \<Rightarrow> turn_id \<Rightarrow> string \<Rightarrow> string list \<Rightarrow> answer \<Rightarrow> answer" where
  "flush_sentences cap t lang [] a = a"
| "flush_sentences cap t lang (s # ss) a =
     (if 0 < cap_backstop cap \<and> cap_backstop cap \<le> an_seq a then a
      else flush_sentences cap t lang ss (publish_sentence t lang s a))"

definition on_finished :: "32 word \<Rightarrow> turn_id \<Rightarrow> string \<Rightarrow> answer \<Rightarrow> answer" where
  "on_finished cap t lang a =
     (let sp = sp_flush ((an_splitter a)\<lparr>sp_out := []\<rparr>)
      in flush_sentences cap t lang (sp_out sp) (a\<lparr>an_splitter := sp\<rparr>))"

section \<open>Sentences of an answer\<close>

definition sentences :: "event list \<Rightarrow> llm_sentence list" where
  "sentences es = concat (map (\<lambda>e. case e of LlmSentence s \<Rightarrow> [s] | _ \<Rightarrow> []) es)"

lemma sentences_simps [simp]:
  "sentences [] = []" "sentences (xs @ ys) = sentences xs @ sentences ys"
  "sentences [LlmSentence s] = [s]" "sentences [LlmToken t x] = []"
  by (simp_all add: sentences_def)

text \<open>Output the splitter already has is carried along unchanged.\<close>

definition prepend :: "string list \<Rightarrow> splitter \<Rightarrow> splitter" where
  "prepend xs s = s\<lparr>sp_out := xs @ sp_out s\<rparr>"

lemma prepend_fields [simp]:
  "sp_cfg (prepend xs s) = sp_cfg s" "sp_buf (prepend xs s) = sp_buf s" "sp_mode (prepend xs s) = sp_mode s"
  "sp_chars (prepend xs s) = sp_chars s" "sp_pending (prepend xs s) = sp_pending s" "sp_dots (prepend xs s) = sp_dots s"
  "sp_out (prepend xs s) = xs @ sp_out s"
  by (simp_all add: prepend_def)

lemma prepend_updates:
  "(prepend xs s)\<lparr>sp_buf := b\<rparr> = prepend xs (s\<lparr>sp_buf := b\<rparr>)"
  "(prepend xs s)\<lparr>sp_mode := m\<rparr> = prepend xs (s\<lparr>sp_mode := m\<rparr>)"
  "(prepend xs s)\<lparr>sp_chars := k\<rparr> = prepend xs (s\<lparr>sp_chars := k\<rparr>)"
  "(prepend xs s)\<lparr>sp_pending := p\<rparr> = prepend xs (s\<lparr>sp_pending := p\<rparr>)"
  "(prepend xs s)\<lparr>sp_dots := d\<rparr> = prepend xs (s\<lparr>sp_dots := d\<rparr>)"
  by (simp_all add: prepend_def)

lemma prepend_emit: "sp_emit raw (prepend xs s) = prepend xs (sp_emit raw s)"
  by (simp add: sp_emit_def prepend_def Let_def)

lemma prepend_flush_buffer: "sp_flush_buffer (prepend xs s) = prepend xs (sp_flush_buffer s)"
  by (simp add: sp_flush_buffer_def prepend_updates prepend_emit)

lemma prepend_resolve: "sp_resolve_pending (prepend xs s) = prepend xs (sp_resolve_pending s)"
  by (simp add: sp_resolve_pending_def prepend_updates prepend_emit Let_def split: option.splits)

lemma prepend_if: "(if b then prepend xs s else prepend xs u) = prepend xs (if b then s else u)"
  by simp

lemma prepend_case: "(case q of None \<Rightarrow> prepend xs s | Some p \<Rightarrow> prepend xs (f p)) =
    prepend xs (case q of None \<Rightarrow> s | Some p \<Rightarrow> f p)"
  by (simp split: option.splits)

lemma prepend_classify: "sp_classify c (prepend xs s) = prepend xs (sp_classify c s)"
  unfolding sp_classify_def Let_def
  by (simp only: prepend_updates prepend_fields prepend_flush_buffer prepend_if cong del: if_weak_cong)

lemma prepend_char: "sp_char (prepend xs s) c = prepend xs (sp_char s c)"
  unfolding sp_char_def Let_def
  by (simp only: prepend_updates prepend_fields prepend_classify prepend_resolve prepend_if prepend_case
      cong del: if_weak_cong option.case_cong_weak)

lemma prepend_push: "sp_push inp (prepend xs s) = prepend xs (sp_push inp s)"
  by (induction inp arbitrary: s) (simp_all add: sp_push_def prepend_char)

lemma prepend_flush: "sp_flush (prepend xs s) = prepend xs (sp_flush s)"
  by (simp add: sp_flush_def prepend_updates prepend_flush_buffer Let_def)

lemma prepend_out: "s = prepend (sp_out s) (s\<lparr>sp_out := []\<rparr>)"
  by (simp add: prepend_def)

lemma push_out: "\<exists>ys. sp_out (sp_push inp s) = sp_out s @ ys"
  by (subst prepend_out, subst prepend_push) simp

lemma flush_out: "\<exists>ys. sp_out (sp_flush s) = sp_out s @ ys"
  by (subst prepend_out, subst prepend_flush) simp

definition texts :: "answer \<Rightarrow> string list" where
  "texts a = map ls_text (sentences (an_events a))"

text \<open>At most one sentence more than the cap; no cap is the cap 0.\<close>

definition cap_take :: "32 word \<Rightarrow> 'a list \<Rightarrow> 'a list" where
  "cap_take cap xs = (if cap = 0 then xs else take (unat cap + 1) xs)"

text \<open>The state of the cap after \<open>n\<close> sentences.\<close>

definition cap_of :: "32 word \<Rightarrow> nat \<Rightarrow> cap_state" where
  "cap_of cap n = (if cap = 0 \<or> n < unat cap then CapNone else if n = unat cap then CapPending else CapCancelled)"

definition answer_inv :: "32 word \<Rightarrow> turn_id \<Rightarrow> string \<Rightarrow> answer \<Rightarrow> bool" where
  "answer_inv cap t lang a \<longleftrightarrow>
     (let ss = sentences (an_events a); n = length ss
      in an_seq a = of_nat n \<and> an_cap a = cap_of cap n \<and> (an_cancels a \<longleftrightarrow> an_cap a = CapCancelled) \<and>
         (cap = 0 \<or> n \<le> unat cap + 1) \<and>
         map ls_seq ss = map of_nat [0..<n] \<and> list_all (\<lambda>s. ls_turn s = t \<and> ls_lang s = lang) ss)"

lemma cap_next: "cap \<noteq> - 1 \<Longrightarrow> unat (cap + 1) = unat cap + 1" for cap :: "32 word"
  by (metis Suc_eq_plus1 add.commute add.right_inverse add_left_cancel unatSuc)

lemma cap_bound: "cap \<noteq> - 1 \<Longrightarrow> unat cap + 1 < 2 ^ 32" for cap :: "32 word"
  using unsigned_less [of "cap + 1", where 'a = nat] by (simp add: cap_next)

text \<open>Comparing the counter with the cap is comparing the numbers, as long as it stays within the cap.\<close>

lemma of_nat_cap:
  fixes cap :: "32 word"
  assumes "n \<le> unat cap + 1" and "cap \<noteq> - 1"
  shows "unat (of_nat n :: seq_no) = n"
  using cap_bound [OF assms(2)] assms(1) by (simp add: unat_of_nat take_bit_nat_eq_self)

lemma emit_sentences_inv:
  assumes "answer_inv cap t lang a" and "an_cap a \<noteq> CapCancelled" and "cap \<noteq> - 1"
  shows "answer_inv cap t lang (emit_sentences cap t lang ss a) \<and>
    texts (emit_sentences cap t lang ss a) = cap_take cap (texts a @ ss) \<and>
    an_splitter (emit_sentences cap t lang ss a) = an_splitter a"
  using assms(1,2)
proof (induction ss arbitrary: a)
  case Nil
  then show ?case by (auto simp: cap_take_def texts_def answer_inv_def cap_of_def Let_def split: if_splits)
next
  case (Cons s ss)
  define n where "n = length (sentences (an_events a))"
  define a1 where "a1 = publish_sentence t lang s a"
  have n: "an_seq a = of_nat n" "an_cap a = cap_of cap n" "cap = 0 \<or> n \<le> unat cap"
    using Cons.prems by (auto simp: answer_inv_def n_def cap_of_def Let_def split: if_splits)
  have pass: "\<not> (0 < cap_backstop cap \<and> cap_backstop cap \<le> an_seq a)"
  proof (cases "cap = 0")
    case False
    with n have "unat (an_seq a) = n" "n \<le> unat cap" by (auto intro!: of_nat_cap [OF _ assms(3)])
    then show ?thesis
      using False by (simp add: cap_backstop_def word_le_nat_alt cap_next [OF assms(3)])
  qed (simp add: cap_backstop_def)
  have a1: "an_seq a1 = of_nat (Suc n)" "an_cap a1 = an_cap a" "texts a1 = texts a @ [s]"
      "length (sentences (an_events a1)) = Suc n" "an_splitter a1 = an_splitter a" "an_cancels a1 = an_cancels a"
    by (simp_all add: a1_def publish_sentence_def n(1) texts_def n_def [symmetric])
  have len: "length (texts a) = n" by (simp add: texts_def n_def)
  have inv1: "answer_inv cap t lang (a1\<lparr>an_cap := cap_of cap (Suc n), an_cancels := (cap_of cap (Suc n) = CapCancelled)\<rparr>)"
    using Cons.prems(1) n
    by (auto simp: answer_inv_def a1_def publish_sentence_def Let_def n_def [symmetric])
  consider (below) "cap = 0 \<or> Suc n < unat cap" | (reach) "cap \<noteq> 0" "Suc n = unat cap" | (over) "cap \<noteq> 0" "n = unat cap"
    using n(3) by linarith
  then show ?case
  proof cases
    case below
    then have c: "cap_of cap (Suc n) = CapNone" "an_cap a = CapNone"
      using n(2) by (auto simp: cap_of_def)
    have "\<not> (0 < cap \<and> cap \<le> an_seq a1)"
    proof (cases "cap = 0")
      case False
      with below have "unat (an_seq a1) = Suc n" unfolding a1(1) by (intro of_nat_cap [OF _ assms(3)]) simp
      with below False show ?thesis by (simp add: word_le_nat_alt)
    qed simp
    then have e: "emit_sentences cap t lang (s # ss) a = emit_sentences cap t lang ss a1"
      using pass a1(2) c by (auto simp: a1_def [symmetric])
    have "a1\<lparr>an_cap := cap_of cap (Suc n), an_cancels := (cap_of cap (Suc n) = CapCancelled)\<rparr> = a1"
      using c a1 Cons.prems(1) by (simp add: answer_inv_def Let_def)
    with inv1 have "answer_inv cap t lang a1" by simp
    from Cons.IH [OF this] show ?thesis
      unfolding e using a1 c by simp
  next
    case reach
    then have c: "cap_of cap (Suc n) = CapPending" "an_cap a = CapNone"
      using n(2) by (auto simp: cap_of_def)
    have "unat (an_seq a1) = Suc n" unfolding a1(1) using reach by (intro of_nat_cap [OF _ assms(3)]) simp
    with reach have "0 < cap \<and> cap \<le> an_seq a1" by (simp add: word_le_nat_alt word_gt_0)
    then have e: "emit_sentences cap t lang (s # ss) a = emit_sentences cap t lang ss (a1\<lparr>an_cap := CapPending\<rparr>)"
      using pass a1(2) c by (auto simp: a1_def [symmetric])
    have "a1\<lparr>an_cap := cap_of cap (Suc n), an_cancels := (cap_of cap (Suc n) = CapCancelled)\<rparr> = a1\<lparr>an_cap := CapPending\<rparr>"
      using c a1 Cons.prems(1) by (simp add: answer_inv_def Let_def)
    with inv1 have "answer_inv cap t lang (a1\<lparr>an_cap := CapPending\<rparr>)" by simp
    from Cons.IH [OF this] show ?thesis
      unfolding e using a1 c by (simp add: texts_def)
  next
    case over
    then have c: "cap_of cap (Suc n) = CapCancelled" "an_cap a = CapPending"
      using n(2) by (auto simp: cap_of_def)
    have e: "emit_sentences cap t lang (s # ss) a = a1\<lparr>an_cap := CapCancelled, an_cancels := True\<rparr>"
      using pass a1(2) c by (auto simp: a1_def [symmetric] request_cancel_def)
    have "texts (a1\<lparr>an_cap := CapCancelled, an_cancels := True\<rparr>) = texts a1" by (simp add: texts_def)
    with inv1 c over a1 len show ?thesis
      unfolding e by (simp add: cap_take_def)
  qed
qed

lemma cap_take_append: "cap_take cap (cap_take cap xs @ ys) = cap_take cap (xs @ ys)"
  by (cases "length xs \<le> unat cap + 1") (auto simp: cap_take_def)

lemma cap_take_cancelled:
  "answer_inv cap t lang a \<Longrightarrow> an_cap a = CapCancelled \<Longrightarrow> cap \<noteq> 0 \<and> length (texts a) = unat cap + 1"
  by (auto simp: answer_inv_def texts_def cap_of_def Let_def split: if_splits)

lemma cap_take_open:
  assumes "answer_inv cap t lang a" and "an_cap a \<noteq> CapCancelled" and "texts a = cap_take cap xs"
  shows "texts a = xs"
proof -
  have "cap = 0 \<or> length (texts a) \<le> unat cap"
    using assms(1,2) by (auto simp: answer_inv_def texts_def cap_of_def Let_def split: if_splits)
  with assms(3) show ?thesis by (auto simp: cap_take_def split: if_splits)
qed

text \<open>What an answer has published after the tokens so far, in terms of the splitter run over their text.\<close>

definition answer_sees :: "32 word \<Rightarrow> turn_id \<Rightarrow> string \<Rightarrow> splitter_config \<Rightarrow> string \<Rightarrow> answer \<Rightarrow> bool" where
  "answer_sees cap t lang cfg inp a \<longleftrightarrow>
     answer_inv cap t lang a \<and>
     texts a = cap_take cap (sp_out (sp_push inp (sp_new cfg))) \<and>
     (an_cap a \<noteq> CapCancelled \<longrightarrow>
        prepend (texts a) ((an_splitter a)\<lparr>sp_out := []\<rparr>) = sp_push inp (sp_new cfg))"

lemma sees_open:
  "answer_sees cap t lang cfg inp a \<Longrightarrow> an_cap a \<noteq> CapCancelled \<Longrightarrow>
     prepend (texts a) ((an_splitter a)\<lparr>sp_out := []\<rparr>) = sp_push inp (sp_new cfg)"
  unfolding answer_sees_def by blast

lemma answer_new_sees: "answer_sees cap t lang cfg [] (answer_new cfg)"
  by (auto simp: answer_sees_def answer_inv_def answer_new_def texts_def sp_push_def sp_new_def prepend_def cap_of_def
      cap_take_def unat_gt_0)

lemma on_token_sees:
  assumes "answer_sees cap t lang cfg inp a" and "cap \<noteq> - 1"
  shows "answer_sees cap t lang cfg (inp @ delta) (on_token cap t lang delta a)"
proof (cases "an_cap a = CapCancelled")
  case True
  from assms(1) have inv: "answer_inv cap t lang a" by (simp add: answer_sees_def)
  from cap_take_cancelled [OF this True] have c: "cap \<noteq> 0" "length (texts a) = unat cap + 1" by simp_all
  obtain ys where "sp_out (sp_push (inp @ delta) (sp_new cfg)) = sp_out (sp_push inp (sp_new cfg)) @ ys"
    using push_out [of delta "sp_push inp (sp_new cfg)"] by (auto simp: sp_push_append)
  with True assms(1) c show ?thesis
    by (auto simp: answer_sees_def on_token_def cap_take_def)
next
  case False
  define s0 where "s0 = (an_splitter a)\<lparr>sp_out := []\<rparr>"
  define sp where "sp = sp_push delta s0"
  define a1 where "a1 = emit_sentences cap t lang (sp_out sp) (a\<lparr>an_splitter := sp\<rparr>)"
  have pre: "answer_inv cap t lang (a\<lparr>an_splitter := sp\<rparr>)" "texts (a\<lparr>an_splitter := sp\<rparr>) = texts a"
    "an_cap (a\<lparr>an_splitter := sp\<rparr>) \<noteq> CapCancelled"
    using assms(1) False by (simp_all add: answer_sees_def answer_inv_def texts_def)
  from emit_sentences_inv [OF pre(1,3) assms(2), of "sp_out sp"]
  have a1: "answer_inv cap t lang a1" "texts a1 = cap_take cap (texts a @ sp_out sp)" "an_splitter a1 = sp"
    by (simp_all add: a1_def pre(2))
  have push: "sp_push (inp @ delta) (sp_new cfg) = prepend (texts a) sp"
    unfolding sp_push_append sees_open [OF assms(1) False, symmetric] prepend_push sp_def s0_def ..
  have sees: "answer_sees cap t lang cfg (inp @ delta) a1"
    using a1 cap_take_open [OF a1(1) _ a1(2)]
    by (auto simp: answer_sees_def push prepend_def)
  have tok: "answer_sees cap t lang cfg (inp @ delta) (a1\<lparr>an_events := an_events a1 @ [LlmToken t delta]\<rparr>)"
  proof -
    let ?a2 = "a1\<lparr>an_events := an_events a1 @ [LlmToken t delta]\<rparr>"
    have eq: "answer_inv cap t lang ?a2 = answer_inv cap t lang a1" "texts ?a2 = texts a1"
      "an_cap ?a2 = an_cap a1" "an_splitter ?a2 = an_splitter a1"
      by (simp_all add: answer_inv_def texts_def)
    show ?thesis using sees unfolding answer_sees_def eq .
  qed
  have "on_token cap t lang delta a =
      (if an_cap a1 \<noteq> CapCancelled then a1\<lparr>an_events := an_events a1 @ [LlmToken t delta]\<rparr> else a1)"
    using False by (simp add: on_token_def a1_def sp_def s0_def Let_def)
  with sees tok show ?thesis by simp
qed

lemma on_tokens_see:
  assumes "answer_sees cap t lang cfg inp a" and "cap \<noteq> - 1"
  shows "answer_sees cap t lang cfg (inp @ concat ds) (foldl (\<lambda>a d. on_token cap t lang d a) a ds)"
  using assms(1)
proof (induction ds arbitrary: inp a)
  case (Cons d ds)
  from Cons.IH [OF on_token_sees [OF Cons.prems assms(2)]] show ?case by simp
qed simp

definition numbered :: "turn_id \<Rightarrow> string \<Rightarrow> llm_sentence list \<Rightarrow> bool" where
  "numbered t lang ss \<longleftrightarrow>
     map ls_seq ss = map of_nat [0..<length ss] \<and> list_all (\<lambda>s. ls_turn s = t \<and> ls_lang s = lang) ss"

lemma flush_sentences_numbered:
  assumes "numbered t lang (sentences (an_events a))" and "an_seq a = of_nat (length (sentences (an_events a)))"
    and "cap = 0 \<or> length (sentences (an_events a)) \<le> unat cap + 1" and "cap \<noteq> - 1"
  shows "numbered t lang (sentences (an_events (flush_sentences cap t lang ss a))) \<and>
    texts (flush_sentences cap t lang ss a) = cap_take cap (texts a @ ss)"
  using assms(1,2,3)
proof (induction ss arbitrary: a)
  case Nil
  then show ?case by (auto simp: cap_take_def texts_def)
next
  case (Cons s ss)
  define n where "n = length (sentences (an_events a))"
  have n: "an_seq a = of_nat n" "cap = 0 \<or> n \<le> unat cap + 1" "length (texts a) = n"
    using Cons.prems by (simp_all add: n_def texts_def)
  show ?case
  proof (cases "cap \<noteq> 0 \<and> n = unat cap + 1")
    case True
    then have "unat (an_seq a) = n" unfolding n(1) by (intro of_nat_cap [OF _ assms(4)]) simp
    with True have "0 < cap_backstop cap \<and> cap_backstop cap \<le> an_seq a"
      by (simp add: cap_backstop_def word_le_nat_alt cap_next [OF assms(4)] word_gt_0 unat_gt_0 [symmetric])
    with True Cons.prems(1) n(3) show ?thesis by (simp add: cap_take_def)
  next
    case False
    define a1 where "a1 = publish_sentence t lang s a"
    have "\<not> (0 < cap_backstop cap \<and> cap_backstop cap \<le> an_seq a)"
    proof (cases "cap = 0")
      case nz: False
      with n(2) have "unat (an_seq a) = n" unfolding n(1) by (intro of_nat_cap [OF _ assms(4)]) simp
      with False n(2) nz show ?thesis by (auto simp: cap_backstop_def word_le_nat_alt cap_next [OF assms(4)])
    qed (simp add: cap_backstop_def)
    then have e: "flush_sentences cap t lang (s # ss) a = flush_sentences cap t lang ss a1"
      by (auto simp: a1_def)
    have "numbered t lang (sentences (an_events a1))" "an_seq a1 = of_nat (length (sentences (an_events a1)))"
      "cap = 0 \<or> length (sentences (an_events a1)) \<le> unat cap + 1" "texts a1 = texts a @ [s]"
      using Cons.prems n False by (auto simp: a1_def publish_sentence_def numbered_def texts_def n_def [symmetric])
    from Cons.IH [OF this(1-3)] this(4) show ?thesis unfolding e by simp
  qed
qed

definition answer_run :: "32 word \<Rightarrow> turn_id \<Rightarrow> string \<Rightarrow> splitter_config \<Rightarrow> string list \<Rightarrow> answer" where
  "answer_run cap t lang cfg ds =
     on_finished cap t lang (foldl (\<lambda>a d. on_token cap t lang d a) (answer_new cfg) ds)"

text \<open>
  C10. What is spoken of an answer. For any tokens, the sentences published are the sentences the
  splitter cuts out of the whole text, whatever the token boundaries, but at most one more than
  the cap; they are numbered from 0 and carry the turn and its language; and the stream is asked
  to stop exactly when a sentence beyond the cap completed while it ran.
\<close>

theorem answer_sentences:
  assumes "cap \<noteq> - 1"
  shows "let a = answer_run cap t lang cfg ds; ss = sentences (an_events a)
    in map ls_text ss = cap_take cap (sp_out (sp_flush (sp_push (concat ds) (sp_new cfg)))) \<and>
       map ls_seq ss = map of_nat [0..<length ss] \<and> list_all (\<lambda>s. ls_turn s = t \<and> ls_lang s = lang) ss \<and>
       (an_cancels a \<longleftrightarrow> cap \<noteq> 0 \<and> unat cap < length (sp_out (sp_push (concat ds) (sp_new cfg))))"
proof -
  define a where "a = foldl (\<lambda>a d. on_token cap t lang d a) (answer_new cfg) ds"
  define S where "S = sp_push (concat ds) (sp_new cfg)"
  define sp where "sp = sp_flush ((an_splitter a)\<lparr>sp_out := []\<rparr>)"
  have sees: "answer_sees cap t lang cfg (concat ds) a"
    using on_tokens_see [OF answer_new_sees assms, of t lang cfg ds] by (simp add: a_def)
  have run: "answer_run cap t lang cfg ds = flush_sentences cap t lang (sp_out sp) (a\<lparr>an_splitter := sp\<rparr>)"
    by (simp add: answer_run_def on_finished_def a_def sp_def Let_def)
  have flush: "numbered t lang (sentences (an_events (answer_run cap t lang cfg ds))) \<and>
      texts (answer_run cap t lang cfg ds) = cap_take cap (texts a @ sp_out sp)"
    unfolding run using sees
    by (intro flush_sentences_numbered [of t lang "a\<lparr>an_splitter := sp\<rparr>" cap "sp_out sp", simplified texts_def, simplified, folded texts_def] assms)
      (auto simp: answer_sees_def answer_inv_def numbered_def Let_def)
  have all: "cap_take cap (texts a @ sp_out sp) = cap_take cap (sp_out (sp_flush S))"
  proof (cases "an_cap a = CapCancelled")
    case True
    from sees have "answer_inv cap t lang a" by (simp add: answer_sees_def)
    from cap_take_cancelled [OF this True] have c: "cap \<noteq> 0" "length (texts a) = unat cap + 1" by simp_all
    with sees have "texts a = take (unat cap + 1) (sp_out S)" by (simp add: answer_sees_def S_def cap_take_def)
    note c = c this
    obtain ys where "sp_out (sp_flush S) = sp_out S @ ys" using flush_out by blast
    with c show ?thesis by (auto simp: cap_take_def)
  next
    case False
    from sees_open [OF sees this] have "prepend (texts a) ((an_splitter a)\<lparr>sp_out := []\<rparr>) = S" by (simp only: S_def)
    then have "sp_flush S = prepend (texts a) sp" by (auto simp: sp_def prepend_flush)
    then show ?thesis by simp
  qed
  have keep: "an_cancels (flush_sentences cap t lang ss b) = an_cancels b" for ss b
    by (induction ss arbitrary: b) (simp_all add: publish_sentence_def)
  have inv: "answer_inv cap t lang a" "texts a = cap_take cap (sp_out S)"
    using sees by (simp_all add: answer_sees_def S_def)
  have "an_cancels a \<longleftrightarrow> cap \<noteq> 0 \<and> unat cap < length (texts a)"
    using inv(1) by (auto simp: answer_inv_def cap_of_def texts_def Let_def split: if_splits)
  then have "an_cancels (answer_run cap t lang cfg ds) \<longleftrightarrow> cap \<noteq> 0 \<and> unat cap < length (sp_out S)"
    unfolding run keep using inv(2) by (auto simp: cap_take_def)
  with flush all show ?thesis
    by (simp add: Let_def numbered_def texts_def S_def)
qed

definition demo_splitter :: splitter_config where
  "demo_splitter = \<lparr>sc_max_chars = 600, sc_fences = True\<rparr>"

theorem answer_sentences_witness:
  "map ls_text (sentences (an_events (answer_run 1 5 ''en'' demo_splitter
      [''Good mor'', ''ning. Nice '', ''day there. Leaving'', ''. Later'']))) = [''Good morning.'', ''Nice day there.''] \<and>
   an_cancels (answer_run 1 5 ''en'' demo_splitter [''Good mor'', ''ning. Nice '', ''day there. Leaving'', ''. Later''])"
proof -
  have "sp_out (sp_flush (sp_push ''Good morning. Nice day there. Leaving. Later'' (sp_new demo_splitter))) =
      [''Good morning.'', ''Nice day there.'', ''Leaving.'', ''Later'']"
    "length (sp_out (sp_push ''Good morning. Nice day there. Leaving. Later'' (sp_new demo_splitter))) = 3"
    unfolding demo_splitter_def by code_simp+
  then show ?thesis
    using answer_sentences [of 1 5 "''en''" demo_splitter "[''Good mor'', ''ning. Nice '', ''day there. Leaving'', ''. Later'']"]
    by (simp add: Let_def cap_take_def)
qed

section \<open>The component\<close>

text \<open>Where the I/O thread stands; the stream carries the turn, its language and the request body.\<close>

datatype mg_io =
    MgNone | MgWait | MgStart final_transcript | MgPrompt turn_context final_transcript
  | MgStream turn_context string string llm_stream answer | MgExit

datatype gate_answer = NoGate | GateSays bool | GateThrows

record manager =
  mg_cfg :: manager_config
  mg_subscribed :: bool
  mg_session :: int
  mg_pending :: "final_transcript option"
  mg_stopping :: bool
  mg_active :: turn_context
  mg_gated :: counter
  mg_io :: mg_io
  mg_heap :: heap
  mg_factory :: turn_factory
  mg_bus :: "event list"

definition mg_new :: "manager_config \<Rightarrow> turn_factory \<Rightarrow> heap \<Rightarrow> manager" where
  "mg_new cfg f h =
     \<lparr>mg_cfg = cfg, mg_subscribed = False, mg_session = 0, mg_pending = None, mg_stopping = False,
      mg_active = tc_empty, mg_gated = 0, mg_io = MgNone, mg_heap = h, mg_factory = f, mg_bus = []\<rparr>"

definition mg_set_session :: "int \<Rightarrow> manager \<Rightarrow> manager" where
  "mg_set_session i m = m\<lparr>mg_session := i\<rparr>"

definition gate_open :: "gate_answer \<Rightarrow> bool" where
  "gate_open g = (case g of NoGate \<Rightarrow> True | GateSays b \<Rightarrow> b | GateThrows \<Rightarrow> True)"

definition cancel_active :: "turn_id \<Rightarrow> manager \<Rightarrow> manager" where
  "cancel_active target m =
     (if \<not> tc_valid (mg_active m) then m
      else if target \<noteq> kNoTurn \<and> target \<noteq> tc_id (mg_active m) then m
      else case tc_token (mg_active m) of
          None \<Rightarrow> m | Some k \<Rightarrow> m\<lparr>mg_heap := cancel_token k (mg_heap m)\<rparr>)"

definition mg_start :: "manager \<Rightarrow> manager" where
  "mg_start m =
     (if mg_subscribed m then m else m\<lparr>mg_stopping := False, mg_io := MgWait, mg_subscribed := True\<rparr>)"

text \<open>Up to the join of the I/O thread.\<close>

definition mg_stop :: "manager \<Rightarrow> manager" where
  "mg_stop m =
     (let m1 = m\<lparr>mg_subscribed := False\<rparr>
      in if mg_io m1 = MgNone then m1 else (cancel_active kNoTurn m1)\<lparr>mg_stopping := True\<rparr>)"

definition enqueue_turn :: "final_transcript \<Rightarrow> manager \<Rightarrow> manager" where
  "enqueue_turn e m = m\<lparr>mg_pending := Some e\<rparr>"

definition mg_publish :: "event list \<Rightarrow> manager \<Rightarrow> manager" where
  "mg_publish es m = m\<lparr>mg_bus := mg_bus m @ es\<rparr>"

definition mg_final_transcript :: "gate_answer \<Rightarrow> time_point \<Rightarrow> final_transcript \<Rightarrow> manager \<Rightarrow> manager" where
  "mg_final_transcript g now e m =
     (let min_chars = mc_min_chars (mg_cfg m)
      in if 0 < min_chars \<and> normalised_visible_chars (ft_text e) < unat min_chars
         then mg_publish [UserInterrupted (ft_turn e) now] m
         else if \<not> gate_open g
         then mg_publish [UserInterrupted (ft_turn e) now] (m\<lparr>mg_gated := mg_gated m + 1\<rparr>)
         else enqueue_turn e m)"

definition mg_on_event :: "gate_answer \<Rightarrow> time_point \<Rightarrow> event \<Rightarrow> manager \<Rightarrow> manager" where
  "mg_on_event g now e m =
     (case e of
        FinalTranscript f \<Rightarrow> mg_final_transcript g now f m
      | UserInterrupted t w \<Rightarrow> cancel_active t m
      | CancelGeneration t \<Rightarrow> cancel_active t m
      | _ \<Rightarrow> m)"

text \<open>One wake-up of \<open>io_loop\<close>.\<close>

definition mg_take_job :: "manager \<Rightarrow> manager" where
  "mg_take_job m =
     (case mg_pending m of
        None \<Rightarrow> if mg_stopping m then m\<lparr>mg_io := MgExit\<rparr> else m
      | Some job \<Rightarrow> m\<lparr>mg_pending := None, mg_io := MgStart job\<rparr>)"

text \<open>\<open>run_one\<close> up to the prompt: the provider's turn is adopted, otherwise one is minted.\<close>

definition mg_choose_turn :: "turn_id option \<Rightarrow> time_point \<Rightarrow> final_transcript \<Rightarrow> manager \<Rightarrow> manager" where
  "mg_choose_turn provided now e m =
     (let (ctx, m1) =
        (case provided of
           Some i \<Rightarrow>
             if i \<noteq> kNoTurn
             then (case adopt i now (mg_heap m) of (c, h) \<Rightarrow> (c, m\<lparr>mg_heap := h\<rparr>))
             else (case mint now (mg_factory m) (mg_heap m) of (c, f, h) \<Rightarrow> (c, m\<lparr>mg_factory := f, mg_heap := h\<rparr>))
         | None \<Rightarrow>
             (case mint now (mg_factory m) (mg_heap m) of (c, f, h) \<Rightarrow> (c, m\<lparr>mg_factory := f, mg_heap := h\<rparr>)))
      in m1\<lparr>mg_active := ctx, mg_io := MgPrompt ctx e\<rparr>)"

definition answer_lang :: "manager_config \<Rightarrow> final_transcript \<Rightarrow> string" where
  "answer_lang cfg e = (if ft_lang e = [] then mc_fallback_language cfg else ft_lang e)"

text \<open>The prompt is built and the stream is announced.\<close>

definition mg_begin_stream :: "string \<Rightarrow> turn_context \<Rightarrow> final_transcript \<Rightarrow> manager \<Rightarrow> manager" where
  "mg_begin_stream body ctx e m =
     mg_publish [LlmStarted (tc_id ctx)]
       (m\<lparr>mg_io := MgStream ctx (answer_lang (mg_cfg m) e) body lc_new (answer_new (mc_splitter (mg_cfg m)))\<rparr>)"

text \<open>The token calls of one callback; a cancel request flips the turn's token.\<close>

definition mg_tokens :: "turn_context \<Rightarrow> string \<Rightarrow> string list \<Rightarrow> answer \<Rightarrow> manager \<Rightarrow> answer \<times> manager" where
  "mg_tokens ctx lang xs a m =
     (let a1 = foldl (\<lambda>a d. on_token (mc_cap (mg_cfg m)) (tc_id ctx) lang d a) a xs;
          m1 = mg_publish (drop (length (an_events a)) (an_events a1)) m
      in (a1, if an_cancels a1
              then (case tc_token ctx of None \<Rightarrow> m1 | Some k \<Rightarrow> m1\<lparr>mg_heap := cancel_token k (mg_heap m1)\<rparr>)
              else m1))"

text \<open>The end of \<open>submit\<close> and of \<open>run_one\<close>.\<close>

definition mg_end_stream ::
  "json_chunk \<Rightarrow> curl_code \<Rightarrow> nat \<Rightarrow> turn_context \<Rightarrow> string \<Rightarrow> llm_stream \<Rightarrow> answer \<Rightarrow> manager \<Rightarrow> manager" where
  "mg_end_stream decode rc http_status ctx lang st a m =
     (case lc_drain decode st of (xs, st1) \<Rightarrow>
        case mg_tokens ctx lang xs a m of (a1, m1) \<Rightarrow>
          let f = lc_outcome (tc_id ctx) (tc_token ctx \<noteq> None \<and> tc_cancelled (mg_heap m1) ctx) rc http_status st1;
              a2 = on_finished (mc_cap (mg_cfg m1)) (tc_id ctx) lang a1
          in (mg_publish (drop (length (an_events a1)) (an_events a2) @ [lc_finished_event f]) m1)
               \<lparr>mg_active := tc_empty, mg_io := MgWait\<rparr>)"

text \<open>What libcurl does next during the transfer.\<close>

datatype curl_act = CurlBytes string | CurlEnds curl_code nat

definition mg_io_step ::
  "json_chunk \<Rightarrow> turn_id option \<Rightarrow> time_point \<Rightarrow> string \<Rightarrow> curl_act \<Rightarrow> manager \<Rightarrow> manager" where
  "mg_io_step decode provided now body act m =
     (case mg_io m of
        MgWait \<Rightarrow> mg_take_job m
      | MgStart e \<Rightarrow> mg_choose_turn provided now e m
      | MgPrompt ctx e \<Rightarrow> mg_begin_stream body ctx e m
      | MgStream ctx lang b st a \<Rightarrow>
          (case act of
             CurlBytes bytes \<Rightarrow>
               (case curl_write decode (tc_token ctx \<noteq> None \<and> tc_cancelled (mg_heap m) ctx) bytes st of
                  None \<Rightarrow> mg_end_stream decode (CurlError ''write error'') 0 ctx lang st a m
                | Some (xs, st1) \<Rightarrow>
                    (case mg_tokens ctx lang xs a m of (a1, m1) \<Rightarrow> m1\<lparr>mg_io := MgStream ctx lang b st1 a1\<rparr>))
           | CurlEnds rc http_status \<Rightarrow> mg_end_stream decode rc http_status ctx lang st a m)
      | _ \<Rightarrow> m)"

section \<open>Interleavings\<close>

datatype mg_act =
    MgStartUp | MgStopDown | MgSetSession int
  | MgEvent gate_answer time_point event
  | MgWork "turn_id option" time_point string curl_act

fun mg_do :: "json_chunk \<Rightarrow> manager \<Rightarrow> mg_act \<Rightarrow> manager" where
  "mg_do decode m MgStartUp = mg_start m"
| "mg_do decode m MgStopDown = mg_stop m"
| "mg_do decode m (MgSetSession i) = mg_set_session i m"
| "mg_do decode m (MgEvent g now e) = mg_on_event g now e m"
| "mg_do decode m (MgWork provided now body act) = mg_io_step decode provided now body act m"

text \<open>A second \<open>start\<close> comes only after \<open>stop\<close> has joined the thread.\<close>

fun mg_run_ok :: "json_chunk \<Rightarrow> manager \<Rightarrow> mg_act list \<Rightarrow> bool" where
  "mg_run_ok decode m [] = True"
| "mg_run_ok decode m (a # as) =
     ((a = MgStartUp \<longrightarrow> mg_subscribed m \<or> mg_io m = MgNone \<or> mg_io m = MgExit) \<and>
      mg_run_ok decode (mg_do decode m a) as)"

text \<open>
  The protocol of the published events: a stream is announced, its sentences come numbered from 0
  among its tokens, and it is closed before the next is announced. The state is the open turn with
  the number of its sentences so far.
\<close>

fun stream_step :: "(turn_id \<times> nat) option option \<Rightarrow> event \<Rightarrow> (turn_id \<times> nat) option option" where
  "stream_step (Some None) (LlmStarted t) = Some (Some (t, 0))"
| "stream_step (Some (Some (t, n))) (LlmSentence s) =
     (if ls_turn s = t \<and> ls_seq s = of_nat n then Some (Some (t, Suc n)) else None)"
| "stream_step (Some (Some (t, n))) (LlmToken u x) = (if u = t then Some (Some (t, n)) else None)"
| "stream_step (Some (Some (t, n))) (LlmFinished u c k) = (if u = t then Some None else None)"
| "stream_step q (UserInterrupted u w) = q"
| "stream_step q e = None"

definition stream_state :: "event list \<Rightarrow> (turn_id \<times> nat) option option" where
  "stream_state es = foldl stream_step (Some None) es"

lemma stream_state_append: "stream_state (xs @ ys) = foldl stream_step (stream_state xs) ys"
  by (simp add: stream_state_def)

text \<open>What an answer has published continues its stream.\<close>

definition answer_events :: "turn_id \<Rightarrow> event list \<Rightarrow> bool" where
  "answer_events t es \<longleftrightarrow> foldl stream_step (Some (Some (t, 0))) es = Some (Some (t, length (sentences es)))"

definition answer_wf :: "turn_id \<Rightarrow> answer \<Rightarrow> bool" where
  "answer_wf t a \<longleftrightarrow> answer_events t (an_events a) \<and> an_seq a = of_nat (length (sentences (an_events a)))"

lemma publish_wf: "answer_wf t a \<Longrightarrow> answer_wf t (publish_sentence t lang x a)"
  by (simp add: answer_wf_def answer_events_def publish_sentence_def)

lemma emit_wf: "answer_wf t a \<Longrightarrow> answer_wf t (emit_sentences cap t lang ss a)"
proof (induction ss arbitrary: a)
  case (Cons s ss)
  have keep: "answer_wf t b \<Longrightarrow> answer_wf t (request_cancel b)" "answer_wf t b \<Longrightarrow> answer_wf t (b\<lparr>an_cap := c\<rparr>)" for b c
    by (simp_all add: answer_wf_def request_cancel_def)
  show ?case
    using Cons.prems by (auto simp: Let_def intro!: keep Cons.IH publish_wf)
qed simp

lemma flush_wf: "answer_wf t a \<Longrightarrow> answer_wf t (flush_sentences cap t lang ss a)"
  by (induction ss arbitrary: a) (auto intro: publish_wf)

lemma on_token_wf: "answer_wf t a \<Longrightarrow> answer_wf t (on_token cap t lang d a)"
proof -
  assume wf: "answer_wf t a"
  have sp: "answer_wf t (a\<lparr>an_splitter := sp\<rparr>)" for sp using wf by (simp add: answer_wf_def)
  have tok: "answer_wf t b \<Longrightarrow> answer_wf t (b\<lparr>an_events := an_events b @ [LlmToken t d]\<rparr>)" for b
    by (simp add: answer_wf_def answer_events_def)
  show ?thesis using wf by (auto simp: on_token_def Let_def intro!: tok emit_wf sp)
qed

lemma on_finished_wf: "answer_wf t a \<Longrightarrow> answer_wf t (on_finished cap t lang a)"
  by (auto simp: on_finished_def Let_def answer_wf_def intro!: flush_wf [unfolded answer_wf_def, THEN conjunct1] flush_wf [unfolded answer_wf_def, THEN conjunct2])

text \<open>Events are only appended.\<close>

lemma emit_extends: "\<exists>es. an_events (emit_sentences cap t lang ss a) = an_events a @ es"
proof (induction ss arbitrary: a)
  case (Cons s ss)
  from Cons.IH [of "publish_sentence t lang s a"] Cons.IH [of "(publish_sentence t lang s a)\<lparr>an_cap := CapPending\<rparr>"]
  show ?case by (auto simp: Let_def request_cancel_def publish_sentence_def)
qed simp

lemma flush_extends: "\<exists>es. an_events (flush_sentences cap t lang ss a) = an_events a @ es"
proof (induction ss arbitrary: a)
  case (Cons s ss)
  from Cons.IH [of "publish_sentence t lang s a"] show ?case by (auto simp: publish_sentence_def)
qed simp

lemma on_token_extends: "\<exists>es. an_events (on_token cap t lang d a) = an_events a @ es"
proof -
  obtain es where "an_events (emit_sentences cap t lang (sp_out (sp_push d ((an_splitter a)\<lparr>sp_out := []\<rparr>)))
      (a\<lparr>an_splitter := sp_push d ((an_splitter a)\<lparr>sp_out := []\<rparr>)\<rparr>)) = an_events a @ es"
    using emit_extends [of cap t lang _ "a\<lparr>an_splitter := sp_push d ((an_splitter a)\<lparr>sp_out := []\<rparr>)\<rparr>"] by auto
  then show ?thesis by (auto simp: on_token_def Let_def)
qed

lemma on_tokens_extend: "\<exists>es. an_events (foldl (\<lambda>a d. on_token cap t lang d a) a ds) = an_events a @ es"
proof (induction ds arbitrary: a)
  case (Cons d ds)
  from Cons.IH [of "on_token cap t lang d a"] on_token_extends [of cap t lang d a] show ?case by auto
qed simp

lemma on_tokens_wf: "answer_wf t a \<Longrightarrow> answer_wf t (foldl (\<lambda>a d. on_token cap t lang d a) a ds)"
  by (induction ds arbitrary: a) (auto intro: on_token_wf)

text \<open>The new events of an answer take the protocol from the old number of sentences to the new one.\<close>

lemma answer_continues:
  assumes "answer_wf t a" and "answer_wf t a1" and "an_events a1 = an_events a @ es"
  shows "foldl stream_step (Some (Some (t, length (sentences (an_events a))))) es =
    Some (Some (t, length (sentences (an_events a1))))"
  using assms by (simp add: answer_wf_def answer_events_def)

definition mg_inv :: "manager \<Rightarrow> bool" where
  "mg_inv m \<longleftrightarrow>
     (case mg_io m of
        MgStream ctx lang b st a \<Rightarrow>
          answer_wf (tc_id ctx) a \<and> mg_active m = ctx \<and>
          (\<exists>k. tc_token ctx = Some k \<and> k < length (mg_heap m)) \<and>
          stream_state (mg_bus m) = Some (Some (tc_id ctx, length (sentences (an_events a))))
      | MgPrompt ctx e \<Rightarrow> mg_active m = ctx \<and> (\<exists>k. tc_token ctx = Some k \<and> k < length (mg_heap m)) \<and>
          stream_state (mg_bus m) = Some None
      | _ \<Rightarrow> stream_state (mg_bus m) = Some None)"

lemma foldl_interrupted [simp]: "stream_step q (UserInterrupted u w) = q"
  by (cases q rule: option.exhaust) (auto simp: stream_step.simps)

lemma cancel_active_fields [simp]:
  "mg_io (cancel_active t m) = mg_io m" "mg_bus (cancel_active t m) = mg_bus m"
  "mg_active (cancel_active t m) = mg_active m" "length (mg_heap (cancel_active t m)) = length (mg_heap m)"
  "mg_cfg (cancel_active t m) = mg_cfg m"
  by (auto simp: cancel_active_def split: option.splits)

lemma mg_inv_same:
  "mg_inv m \<Longrightarrow> mg_io m1 = mg_io m \<Longrightarrow> mg_active m1 = mg_active m \<Longrightarrow> length (mg_heap m1) = length (mg_heap m) \<Longrightarrow>
     stream_state (mg_bus m1) = stream_state (mg_bus m) \<Longrightarrow> mg_inv m1"
  by (simp add: mg_inv_def split: mg_io.splits)

lemma mg_on_event_inv: "mg_inv m \<Longrightarrow> mg_inv (mg_on_event g now e m)"
  by (cases e) (auto simp: mg_on_event_def mg_final_transcript_def mg_publish_def enqueue_turn_def stream_state_append Let_def
      elim!: mg_inv_same)

lemma mg_tokens_spec:
  assumes "answer_wf (tc_id ctx) a" and "tc_token ctx = Some k" and "k < length (mg_heap m)"
    and "stream_state (mg_bus m) = Some (Some (tc_id ctx, length (sentences (an_events a))))"
    and "mg_tokens ctx lang xs a m = (a1, m1)"
  shows "answer_wf (tc_id ctx) a1 \<and> mg_io m1 = mg_io m \<and> mg_active m1 = mg_active m \<and>
    length (mg_heap m1) = length (mg_heap m) \<and> mg_cfg m1 = mg_cfg m \<and>
    (is_cancelled (mg_heap m) k \<longrightarrow> is_cancelled (mg_heap m1) k) \<and>
    stream_state (mg_bus m1) = Some (Some (tc_id ctx, length (sentences (an_events a1))))"
proof -
  have a1: "a1 = foldl (\<lambda>a d. on_token (mc_cap (mg_cfg m)) (tc_id ctx) lang d a) a xs"
    using assms(5) by (simp add: mg_tokens_def Let_def)
  obtain es where es: "an_events a1 = an_events a @ es"
    using on_tokens_extend unfolding a1 by blast
  have wf: "answer_wf (tc_id ctx) a1" unfolding a1 by (rule on_tokens_wf [OF assms(1)])
  have m1: "m1 = (if an_cancels a1 then (mg_publish es m)\<lparr>mg_heap := cancel_token k (mg_heap m)\<rparr> else mg_publish es m)"
    using assms(2,5) es by (auto simp: mg_tokens_def a1 [symmetric] mg_publish_def Let_def)
  show ?thesis
    using wf answer_continues [OF assms(1) wf es] assms(4)
    by (auto simp: m1 mg_publish_def stream_state_append cancel_token_mono)
qed

lemma mg_end_stream_spec:
  assumes "answer_wf (tc_id ctx) a" and "tc_token ctx = Some k" and "k < length (mg_heap m)"
    and "stream_state (mg_bus m) = Some (Some (tc_id ctx, length (sentences (an_events a))))"
  shows "mg_inv (mg_end_stream decode rc status ctx lang st a m) \<and>
    mg_io (mg_end_stream decode rc status ctx lang st a m) = MgWait \<and>
    (\<exists>es c n. mg_bus (mg_end_stream decode rc status ctx lang st a m) = es @ [LlmFinished (tc_id ctx) c n] \<and>
       (is_cancelled (mg_heap m) k \<longrightarrow> c))"
proof -
  obtain xs st1 where d: "lc_drain decode st = (xs, st1)" by fastforce
  obtain a1 m1 where tk: "mg_tokens ctx lang xs a m = (a1, m1)" by fastforce
  note s = mg_tokens_spec [OF assms tk]
  define a2 where "a2 = on_finished (mc_cap (mg_cfg m1)) (tc_id ctx) lang a1"
  have wf2: "answer_wf (tc_id ctx) a2" unfolding a2_def using s by (intro on_finished_wf) simp
  obtain es where es: "an_events a2 = an_events a1 @ es"
    using flush_extends unfolding a2_def on_finished_def Let_def by (metis answer.select_convs(5) answer.surjective answer.update_convs(1))
  define f where "f = lc_outcome (tc_id ctx) (tc_cancelled (mg_heap m1) ctx) rc status st1"
  have m2: "mg_end_stream decode rc status ctx lang st a m =
      (mg_publish (es @ [lc_finished_event f]) m1)\<lparr>mg_active := tc_empty, mg_io := MgWait\<rparr>"
    using es assms(2) by (simp add: mg_end_stream_def d tk a2_def [symmetric] f_def Let_def)
  have f: "lf_turn f = tc_id ctx" "is_cancelled (mg_heap m1) k \<longrightarrow> lf_cancelled f"
    using assms(2) by (auto simp: f_def lc_outcome_def lf_new_def tc_cancelled_def Let_def split: curl_code.splits)
  show ?thesis
    using s answer_continues [OF _ wf2 es] f
    by (auto simp: m2 mg_inv_def mg_publish_def stream_state_append lc_finished_event_def)
qed

lemma mg_io_step_inv: "mg_inv m \<Longrightarrow> mg_inv (mg_io_step decode provided now body act m)"
proof (cases "mg_io m")
  case (MgStream ctx lang b st a)
  assume inv: "mg_inv m"
  then obtain k where k: "answer_wf (tc_id ctx) a" "tc_token ctx = Some k" "k < length (mg_heap m)"
    "stream_state (mg_bus m) = Some (Some (tc_id ctx, length (sentences (an_events a))))" "mg_active m = ctx"
    by (auto simp: mg_inv_def MgStream)
  note fin = mg_end_stream_spec [OF k(1-4)]
  show ?thesis
  proof (cases act)
    case (CurlBytes bytes)
    show ?thesis
    proof (cases "curl_write decode (tc_token ctx \<noteq> None \<and> tc_cancelled (mg_heap m) ctx) bytes st")
      case None
      with fin CurlBytes MgStream show ?thesis by (simp add: mg_io_step_def)
    next
      case (Some r)
      obtain xs st1 where r: "r = (xs, st1)" by fastforce
      obtain a1 m1 where tk: "mg_tokens ctx lang xs a m = (a1, m1)" by fastforce
      from mg_tokens_spec [OF k(1-4) tk] k(2,3,5) Some r tk CurlBytes MgStream show ?thesis
        by (auto simp: mg_io_step_def mg_inv_def)
    qed
  next
    case (CurlEnds rc status)
    with fin MgStream show ?thesis by (simp add: mg_io_step_def)
  qed
next
  case (MgStart e)
  assume "mg_inv m"
  with MgStart show ?thesis
    by (auto simp: mg_io_step_def mg_choose_turn_def mg_inv_def mint_def adopt_def new_token_def Let_def
        split: option.splits)
next
  case (MgPrompt ctx e)
  assume "mg_inv m"
  with MgPrompt show ?thesis
    by (auto simp: mg_io_step_def mg_begin_stream_def mg_publish_def mg_inv_def stream_state_append answer_new_def
        answer_wf_def answer_events_def)
qed (auto simp: mg_io_step_def mg_take_job_def mg_inv_def split: option.splits)

lemma mg_do_inv:
  assumes "mg_inv m" and "a = MgStartUp \<longrightarrow> mg_subscribed m \<or> mg_io m = MgNone \<or> mg_io m = MgExit"
  shows "mg_inv (mg_do decode m a)"
proof (cases a)
  case MgStopDown
  from assms(1) MgStopDown show ?thesis
    by (auto simp: mg_stop_def Let_def elim!: mg_inv_same)
next
  case MgStartUp
  with assms show ?thesis by (auto simp: mg_start_def mg_inv_def)
next
  case (MgSetSession i)
  with assms(1) show ?thesis by (auto simp: mg_set_session_def elim!: mg_inv_same)
qed (use assms(1) in \<open>simp_all add: mg_on_event_inv mg_io_step_inv\<close>)

lemma mg_run_inv: "mg_run_ok decode m acts \<Longrightarrow> mg_inv m \<Longrightarrow> mg_inv (foldl (mg_do decode) m acts)"
  by (induction acts arbitrary: m) (auto intro: mg_do_inv)

lemma mg_new_inv: "mg_inv (mg_new cfg f h)"
  by (simp add: mg_new_def mg_inv_def stream_state_def)


text \<open>What other threads do between two steps of the I/O thread.\<close>

fun not_io :: "mg_act \<Rightarrow> bool" where
  "not_io (MgWork provided now body act) = False"
| "not_io MgStartUp = False"
| "not_io _ = True"

lemma others_keep:
  assumes "list_all not_io acts" and "mg_io m = MgStream ctx lang b st a" and "is_cancelled (mg_heap m) k"
  shows "mg_io (foldl (mg_do decode) m acts) = MgStream ctx lang b st a \<and> is_cancelled (mg_heap (foldl (mg_do decode) m acts)) k"
  using assms
proof (induction acts arbitrary: m)
  case (Cons x acts)
  have heap: "is_cancelled (mg_heap (cancel_active t m)) k" for t
    using Cons.prems(3) by (auto simp: cancel_active_def cancel_token_mono split: option.splits)
  have heap': "is_cancelled (mg_heap (cancel_active t (m\<lparr>mg_subscribed := b\<rparr>))) k" for t b
    using Cons.prems(3) by (auto simp: cancel_active_def cancel_token_mono split: option.splits)
  have "mg_io (mg_do decode m x) = MgStream ctx lang b st a \<and> is_cancelled (mg_heap (mg_do decode m x)) k"
  proof (cases x)
    case (MgEvent g now e)
    with Cons.prems(2,3) heap show ?thesis
      by (cases e) (auto simp: mg_on_event_def mg_final_transcript_def mg_publish_def enqueue_turn_def Let_def)
  qed (use Cons.prems heap' in \<open>auto simp: mg_stop_def mg_set_session_def Let_def\<close>)
  with Cons show ?case by (simp del: mg_do.simps)
qed simp

lemma others_inv: "list_all not_io acts \<Longrightarrow> mg_inv m \<Longrightarrow> mg_inv (foldl (mg_do decode) m acts)"
proof (induction acts arbitrary: m)
  case (Cons x acts)
  then have "not_io x" by simp
  then have "x \<noteq> MgStartUp" by auto
  with Cons.prems(2) have "mg_inv (mg_do decode m x)" by (intro mg_do_inv) simp_all
  with Cons show ?case by (simp del: mg_do.simps)
qed simp


definition demo_transcript :: "turn_id \<Rightarrow> final_transcript" where
  "demo_transcript t = \<lparr>ft_turn = t, ft_text = ''Hello'', ft_lang = [], ft_confidence = Fin 1,
     ft_audio_duration = 500, ft_processing_duration = 90\<rparr>"

definition demo_manager :: manager where
  "demo_manager = mg_new \<lparr>mc_fallback_language = ''en'', mc_cap = 6, mc_min_chars = 0, mc_splitter = demo_splitter\<rparr> tf_new []"

definition demo_acts :: "mg_act list" where
  "demo_acts = [MgStartUp, MgEvent NoGate 0 (FinalTranscript (demo_transcript 3)), MgWork None 5 [] (CurlBytes []),
     MgWork None 5 [] (CurlBytes []), MgWork None 5 [] (CurlBytes [])]"

lemmas mg_eval = mg_start_def mg_on_event_def mg_final_transcript_def mg_io_step_def mg_take_job_def mg_choose_turn_def
  mg_begin_stream_def mg_publish_def enqueue_turn_def gate_open_def mint_def new_token_def tf_new_def cancel_active_def
  mg_new_def answer_lang_def Let_def

lemma demo_stream:
  "mg_io (foldl (mg_do decode) demo_manager demo_acts) =
     MgStream \<lparr>tc_id = 1, tc_token = Some 0, tc_started_at = 5\<rparr> ''en'' [] lc_new (answer_new demo_splitter)"
  "mg_run_ok decode demo_manager demo_acts"
  "mg_bus (foldl (mg_do decode) demo_manager demo_acts) = [LlmStarted 1]"
  by (simp_all add: demo_manager_def demo_acts_def demo_transcript_def mg_eval)



text \<open>
  The sentence cap uses the same token: an answer that is stopped because it is long enough is
  reported as cancelled, like one the user interrupted.
\<close>

lemma capped_stream_reports_cancelled:
  assumes "mg_inv m" and "mg_io m = MgStream ctx lang b st a"
    and "curl_write decode (tc_token ctx \<noteq> None \<and> tc_cancelled (mg_heap m) ctx) bytes st = Some (xs, st1)"
    and "an_cancels (foldl (\<lambda>a d. on_token (mc_cap (mg_cfg m)) (tc_id ctx) lang d a) a xs)"
  shows "\<exists>es n. mg_bus (mg_io_step decode p' now' body' act (mg_io_step decode p now body (CurlBytes bytes) m)) =
    es @ [LlmFinished (tc_id ctx) True n]"
proof -
  obtain k where k: "answer_wf (tc_id ctx) a" "tc_token ctx = Some k" "k < length (mg_heap m)"
    "stream_state (mg_bus m) = Some (Some (tc_id ctx, length (sentences (an_events a))))"
    using assms(1,2) by (auto simp: mg_inv_def)
  obtain a1 m1 where tk: "mg_tokens ctx lang xs a m = (a1, m1)" by fastforce
  note s = mg_tokens_spec [OF k tk]
  have c: "is_cancelled (mg_heap m1) k"
    using tk assms(4) k(2,3) by (auto simp: mg_tokens_def mg_publish_def cancel_token_same Let_def)
  let ?m2 = "m1\<lparr>mg_io := MgStream ctx lang b st1 a1\<rparr>"
  have step: "mg_io_step decode p now body (CurlBytes bytes) m = ?m2"
    using assms(2,3) tk by (simp add: mg_io_step_def)
  obtain rc status where "mg_io_step decode p' now' body' act ?m2 = mg_end_stream decode rc status ctx lang st1 a1 ?m2"
    using c k(2) by (cases act) (auto simp: mg_io_step_def tc_cancelled_def curl_write_def)
  with mg_end_stream_spec [of ctx a1 k ?m2 decode rc status lang st1] s k(2,3) c show ?thesis
    unfolding step by auto
qed

text \<open>
  An interruption does not reach a transcript that is still waiting: it is answered afterwards,
  under a turn of its own.
\<close>

lemma waiting_transcript_survives:
  "let m = foldl (mg_do demo_decode) demo_manager
       [MgStartUp, MgEvent NoGate 0 (FinalTranscript (demo_transcript 3)), MgEvent NoGate 1 (UserInterrupted 3 1),
        MgWork (Some 0) 5 [] (CurlBytes []), MgWork (Some 0) 5 [] (CurlBytes []), MgWork (Some 0) 5 [] (CurlBytes [])]
   in mg_bus m = [LlmStarted 1]"
  by (simp add: demo_manager_def demo_transcript_def tc_valid_def tc_empty_def mg_eval kNoTurn_def)

end
