(* ===== verification/Prompt_Builder.thy ===== *)
theory Prompt_Builder
  imports Repository Text_Format
begin

text \<open>
  The prompt builder of \<open>src/llm/prompt_builder.hpp\<close> and \<open>src/llm/prompt_builder.cpp\<close>: what is read
  from the memory, the system text, the list of messages and the request. Maps of the configuration
  are partial functions. The JSON writer is an argument.
\<close>

record chat_message =
  cm_role :: string
  cm_content :: string

record chat_request =
  cq_model :: string
  cq_messages :: "chat_message list"
  cq_temperature :: real
  cq_top_p :: real
  cq_repeat_penalty :: real
  cq_max_tokens :: int
  cq_stream :: bool

record memory_snapshot =
  ms_facts :: "fact_row list"
  ms_summary :: "summary_row option"
  ms_turns :: "turn_row list"

definition empty_snapshot :: memory_snapshot where
  "empty_snapshot = \<lparr>ms_facts = [], ms_summary = None, ms_turns = []\<rparr>"

record prompt_config =
  pc_system_prompts :: "string \<rightharpoonup> string"
  pc_fallback_language :: string
  pc_max_sentences :: "32 word"       \<comment> \<open>\<open>dialogue.max_assistant_sentences\<close>\<close>
  pc_recent_turns :: "32 word"        \<comment> \<open>\<open>dialogue.recent_turns_n\<close>\<close>
  pc_fact_threshold :: real
  pc_model :: string
  pc_temperature :: real
  pc_top_p :: real
  pc_repeat_penalty :: real
  pc_max_tokens :: "32 word"

abbreviation line_break :: char where
  "line_break \<equiv> CHR 0x0A"

definition choose_system_prompt :: "prompt_config \<Rightarrow> string \<Rightarrow> string" where
  "choose_system_prompt cfg lang =
     (case pc_system_prompts cfg lang of
        Some p \<Rightarrow> p
      | None \<Rightarrow> (case pc_system_prompts cfg (pc_fallback_language cfg) of Some p \<Rightarrow> p | None \<Rightarrow> []))"

definition assemble_system_content :: "prompt_config \<Rightarrow> string \<Rightarrow> memory_snapshot \<Rightarrow> string" where
  "assemble_system_content cfg lang snap =
     choose_system_prompt cfg lang @
     (if ms_facts snap = [] then []
      else [line_break, line_break] @ ''Durable user facts:'' @
           concat (map (\<lambda>f. [line_break] @ ''- '' @ fa_key f @ '': '' @ fa_value f) (ms_facts snap))) @
     (case ms_summary snap of
        None \<Rightarrow> []
      | Some s \<Rightarrow> [line_break, line_break] @ ''Earlier conversation summary:'' @ [line_break] @ sr_summary s) @
     (if 0 < pc_max_sentences cfg \<and> pc_max_sentences cfg < 100
      then [line_break, line_break] @ ''Reply in at most '' @ dec_nat (unat (pc_max_sentences cfg)) @ '' short sentences.''
      else [])"

definition turn_message :: "turn_row \<Rightarrow> chat_message" where
  "turn_message t =
     \<lparr>cm_role = (if tr_role t = RoleUser then ''user'' else ''assistant''),
      cm_content = (case tr_text t of Some x \<Rightarrow> x | None \<Rightarrow> [])\<rparr>"

definition assemble_messages :: "string \<Rightarrow> memory_snapshot \<Rightarrow> string \<Rightarrow> chat_message list" where
  "assemble_messages system_content snap current_user_text =
     [\<lparr>cm_role = ''system'', cm_content = system_content\<rparr>] @
     map turn_message (ms_turns snap) @
     [\<lparr>cm_role = ''user'', cm_content = current_user_text\<rparr>]"

definition estimate_tokens :: "string \<Rightarrow> nat" where
  "estimate_tokens body = (length body + 3) div 4"

text \<open>Turns that stay in the prompt: committed or interrupted, with a text.\<close>

definition usable_turn :: "turn_row \<Rightarrow> bool" where
  "usable_turn t \<longleftrightarrow>
     (tr_status t = Committed \<or> tr_status t = InterruptedTurn) \<and> tr_text t \<noteq> None \<and> tr_text t \<noteq> Some []"

text \<open>The job on the memory thread; a failing query leaves its part empty.\<close>

definition read_memory :: "prompt_config \<Rightarrow> row_id \<Rightarrow> connection \<Rightarrow> memory_snapshot \<times> connection" where
  "read_memory cfg sid c =
     (case facts_with_min_confidence (pc_fact_threshold cfg) c of (f, c1) \<Rightarrow>
        case latest_summary sid c1 of (s, c2) \<Rightarrow>
          case recent_turns sid (sint (pc_recent_turns cfg)) c2 of (t, c3) \<Rightarrow>
            (\<lparr>ms_facts = (case f of Inr fs \<Rightarrow> fs | Inl _ \<Rightarrow> []),
              ms_summary = (case s of Inr x \<Rightarrow> x | Inl _ \<Rightarrow> None),
              ms_turns = (case t of Inr ts \<Rightarrow> filter usable_turn ts | Inl _ \<Rightarrow> [])\<rparr>, c3))"

record prompt_inputs =
  pi_session_id :: row_id
  pi_lang :: string
  pi_user_text :: string

definition chat_request_of :: "prompt_config \<Rightarrow> prompt_inputs \<Rightarrow> memory_snapshot \<Rightarrow> chat_request" where
  "chat_request_of cfg inp snap =
     \<lparr>cq_model = pc_model cfg,
      cq_messages = assemble_messages (assemble_system_content cfg (pi_lang inp) snap) snap (pi_user_text inp),
      cq_temperature = pc_temperature cfg, cq_top_p = pc_top_p cfg, cq_repeat_penalty = pc_repeat_penalty cfg,
      cq_max_tokens = sint (pc_max_tokens cfg), cq_stream = True\<rparr>"

text \<open>The body and the new token estimate.\<close>

definition prompt_build ::
  "(chat_request \<Rightarrow> string option) \<Rightarrow> prompt_config \<Rightarrow> prompt_inputs \<Rightarrow> connection \<Rightarrow> (string \<times> nat) \<times> connection" where
  "prompt_build write_json cfg inp c =
     (let (snap, c1) = (if pi_session_id inp \<noteq> 0 then read_memory cfg (pi_session_id inp) c else (empty_snapshot, c));
          body = (case write_json (chat_request_of cfg inp snap) of None \<Rightarrow> [] | Some b \<Rightarrow> b)
      in ((body, estimate_tokens body), c1))"

section \<open>What the model sees\<close>

definition session_turns :: "row_id \<Rightarrow> database \<Rightarrow> turn_row list" where
  "session_turns sid d = map turn_of_rec (filter (\<lambda>t. tu_session t = sid) (db_turns d))"

lemma latest_is_widest:
  assumes "cn_faults c = []"
  shows "\<exists>s. latest_summary sid c = (Inr s, c) \<and>
    (case s of
       None \<Rightarrow> \<forall>x \<in> set (db_summaries (cn_db c)). sr_session x \<noteq> sid
     | Some x \<Rightarrow> x \<in> set (db_summaries (cn_db c)) \<and> sr_session x = sid \<and>
         (\<forall>y \<in> set (db_summaries (cn_db c)). sr_session y = sid \<longrightarrow> sr_range_end y \<le> sr_range_end x))"
proof -
  let ?ss = "sort_key sr_range_end (filter (\<lambda>s. sr_session s = sid) (db_summaries (cn_db c)))"
  have mem: "set ?ss = {x \<in> set (db_summaries (cn_db c)). sr_session x = sid}" by auto
  have top: "sr_range_end y \<le> sr_range_end (last ?ss)" if "y \<in> set ?ss" for y
  proof -
    have "sorted (map sr_range_end ?ss)" by simp
    with that show ?thesis
      by (cases ?ss rule: rev_cases) (auto simp: sorted_append simp del: sorted_sort_key)
  qed
  have l: "latest_summary sid c = (Inr (if ?ss = [] then None else Some (last ?ss)), c)"
    using assms by (cases ?ss rule: rev_cases) (auto simp: latest_summary_def run_sql_no_fault sql_limit_def)
  show ?thesis
  proof (cases "?ss = []")
    case True
    with l mem show ?thesis by auto
  next
    case False
    then have "last ?ss \<in> set ?ss" by (rule last_in_set)
    with mem have "last ?ss \<in> set (db_summaries (cn_db c))" "sr_session (last ?ss) = sid" by blast+
    with l mem top False show ?thesis by auto
  qed
qed

lemma set_insert_fact [simp]: "set (insert_fact_sorted f fs) = insert f (set fs)"
  by (induction fs) auto

lemma facts_read:
  assumes "cn_faults c = []"
  shows "\<exists>fs. facts_with_min_confidence p c = (Inr fs, c) \<and>
    set fs = {f \<in> set (db_facts (cn_db c)). p \<le> fa_confidence f}"
proof -
  have "set (foldr insert_fact_sorted fs []) = set fs" for fs by (induction fs) auto
  then show ?thesis
    using assms by (auto simp: facts_with_min_confidence_def run_sql_no_fault)
qed

lemma sint_small: "unat n < 2 ^ 31 \<Longrightarrow> sint n = int (unat n)" for n :: "32 word"
proof -
  assume "unat n < 2 ^ 31"
  then have "int (unat n) < int (2 ^ 31)" by (simp only: of_nat_less_iff)
  then have "uint n < 2 ^ 31" by (simp only: of_nat_unat of_nat_power of_nat_numeral)
  moreover have "0 \<le> uint n" by simp
  ultimately have "signed_take_bit 31 (uint n) = uint n"
    by (intro signed_take_bit_int_eq_self) linarith+
  then show ?thesis by (simp add: sint_uint)
qed

text \<open>
  What the language model is told. On a well-formed store without faults, the messages are the
  system text, then the usable ones among the last turns of the session in order, then the text of
  the user; the system text is built from the prompt of the language, exactly the facts of at
  least the threshold's confidence, and the session's summary that reaches furthest.
\<close>

theorem prompt_contents:
  assumes "db_wf (cn_db c)" and "calm c" and "pi_session_id inp \<noteq> 0" and "unat (pc_recent_turns cfg) < 2 ^ 31"
  shows "\<exists>snap req. prompt_build w cfg inp c =
      ((case w req of None \<Rightarrow> [] | Some b \<Rightarrow> b, estimate_tokens (case w req of None \<Rightarrow> [] | Some b \<Rightarrow> b)), c) \<and>
    cq_messages req =
      \<lparr>cm_role = ''system'', cm_content = assemble_system_content cfg (pi_lang inp) snap\<rparr> #
      map turn_message (ms_turns snap) @ [\<lparr>cm_role = ''user'', cm_content = pi_user_text inp\<rparr>] \<and>
    ms_turns snap =
      filter usable_turn (take_last (unat (pc_recent_turns cfg)) (session_turns (pi_session_id inp) (cn_db c))) \<and>
    set (ms_facts snap) = {f \<in> set (db_facts (cn_db c)). pc_fact_threshold cfg \<le> fa_confidence f} \<and>
    (case ms_summary snap of
       None \<Rightarrow> \<forall>x \<in> set (db_summaries (cn_db c)). sr_session x \<noteq> pi_session_id inp
     | Some x \<Rightarrow> sr_session x = pi_session_id inp \<and>
         (\<forall>y \<in> set (db_summaries (cn_db c)). sr_session y = pi_session_id inp \<longrightarrow> sr_range_end y \<le> sr_range_end x))"
proof -
  let ?sid = "pi_session_id inp" and ?n = "unat (pc_recent_turns cfg)"
  have c: "cn_faults c = []" using assms(2) by (simp add: calm_def)
  obtain fs where f: "facts_with_min_confidence (pc_fact_threshold cfg) c = (Inr fs, c)"
    "set fs = {f \<in> set (db_facts (cn_db c)). pc_fact_threshold cfg \<le> fa_confidence f}"
    using facts_read [OF c] by blast
  obtain s where s: "latest_summary ?sid c = (Inr s, c)"
    "case s of None \<Rightarrow> \<forall>x \<in> set (db_summaries (cn_db c)). sr_session x \<noteq> ?sid
     | Some x \<Rightarrow> x \<in> set (db_summaries (cn_db c)) \<and> sr_session x = ?sid \<and>
         (\<forall>y \<in> set (db_summaries (cn_db c)). sr_session y = ?sid \<longrightarrow> sr_range_end y \<le> sr_range_end x)"
    using latest_is_widest [OF c] by blast
  have "sint (pc_recent_turns cfg) = int ?n"
    by (rule sint_small [OF assms(4)])
  then have t: "recent_turns ?sid (sint (pc_recent_turns cfg)) c = (Inr (take_last ?n (session_turns ?sid (cn_db c))), c)"
    using recent_turns_are_the_last [OF assms(1,2), of ?sid ?n] by (simp only: session_turns_def)
  define snap where "snap = \<lparr>ms_facts = fs, ms_summary = s, ms_turns = filter usable_turn (take_last ?n (session_turns ?sid (cn_db c)))\<rparr>"
  have "read_memory cfg ?sid c = (snap, c)"
    by (simp add: read_memory_def f(1) s(1) t snap_def)
  then have b: "prompt_build w cfg inp c =
      ((case w (chat_request_of cfg inp snap) of None \<Rightarrow> [] | Some b \<Rightarrow> b,
        estimate_tokens (case w (chat_request_of cfg inp snap) of None \<Rightarrow> [] | Some b \<Rightarrow> b)), c)"
    using assms(3) by (simp add: prompt_build_def Let_def)
  show ?thesis
    by (intro exI [of _ snap] exI [of _ "chat_request_of cfg inp snap"] conjI b)
      (use f(2) s(2) in \<open>auto simp: chat_request_of_def assemble_messages_def snap_def split: option.splits\<close>)
qed

definition demo_prompts :: prompt_config where
  "demo_prompts = \<lparr>pc_system_prompts = [''en'' \<mapsto> ''Be brief.''], pc_fallback_language = ''en'',
     pc_max_sentences = 2, pc_recent_turns = 2, pc_fact_threshold = 1, pc_model = ''m'', pc_temperature = 1,
     pc_top_p = 1, pc_repeat_penalty = 1, pc_max_tokens = 100\<rparr>"

definition listing :: "chat_request \<Rightarrow> string option" where
  "listing r = Some (concat (map (\<lambda>m. cm_role m @ ''='' @ cm_content m @ '';'') (tl (cq_messages r))))"

text \<open>The turn in progress is cut after the limit was applied: one turn is left of the two asked for.\<close>

theorem prompt_contents_witness:
  "fst (fst (prompt_build listing demo_prompts \<lparr>pi_session_id = 1, pi_lang = ''de'', pi_user_text = ''go''\<rparr> demo_store)) =
     ''user=hi;user=go;''"
proof -
  have "calm demo_store" by (simp add: calm_def demo_store_eq)
  from prompt_contents [OF demo_store_eq(4) this, of "\<lparr>pi_session_id = 1, pi_lang = ''de'', pi_user_text = ''go''\<rparr>"
      demo_prompts listing]
  show ?thesis
    by (auto simp: demo_prompts_def listing_def session_turns_def demo_store_eq turn_of_rec_def take_last_def
        usable_turn_def turn_message_def parse_role_def parse_status_def)
qed

end
