(* ===== verification/Realtime_Envelope.thy ===== *)
theory Realtime_Envelope
  imports Prelude
begin

text \<open>
  The wire format of \<open>src/stt/realtime_envelope.hpp\<close> and \<open>src/stt/realtime_envelope.cpp\<close>: base64,
  the client's JSON events, and the reassembly of fragmented server messages. A group of three
  bytes is a number below \<open>2 ^ 24\<close>, where the shifts and disjoint ors of the source are products
  and sums and nothing wraps. The JSON reader of the envelope is an argument.
\<close>

section \<open>Base64\<close>

definition alpha :: string where
  "alpha = ''ABCDEFGHIJKLMNOPQRSTUVWXYZabcdefghijklmnopqrstuvwxyz0123456789+/''"

definition b64_char :: "nat \<Rightarrow> char" where
  "b64_char n = alpha ! (n mod 64)"

definition b64_triple :: "char \<Rightarrow> char \<Rightarrow> char \<Rightarrow> nat" where
  "b64_triple a b c = of_char a * 65536 + of_char b * 256 + of_char c"

text \<open>The loop over groups of three; what lies beyond the end counts as zero.\<close>

fun base64_encode :: "string \<Rightarrow> string" where
  "base64_encode [] = []"
| "base64_encode [a] =
     (let t = b64_triple a (CHR 0x00) (CHR 0x00)
      in [b64_char (t div 262144), b64_char (t div 4096), CHR ''='', CHR ''=''])"
| "base64_encode [a, b] =
     (let t = b64_triple a b (CHR 0x00)
      in [b64_char (t div 262144), b64_char (t div 4096), b64_char (t div 64), CHR ''=''])"
| "base64_encode (a # b # c # s) =
     (let t = b64_triple a b c
      in [b64_char (t div 262144), b64_char (t div 4096), b64_char (t div 64), b64_char t] @ base64_encode s)"

text \<open>\<open>kBase64Lookup\<close>: the place in the alphabet, \<open>None\<close> for the entry \<open>-1\<close>.\<close>

fun place_in :: "'a list \<Rightarrow> 'a \<Rightarrow> nat option" where
  "place_in [] c = None"
| "place_in (x # xs) c = (if x = c then Some 0 else map_option Suc (place_in xs c))"

definition b64_value :: "char \<Rightarrow> nat option" where
  "b64_value c = place_in alpha c"

definition byte_at :: "nat \<Rightarrow> nat \<Rightarrow> char" where
  "byte_at t d = char_of (t div d mod 256)"

text \<open>The loop over groups of four; a padded group ends it, whatever follows.\<close>

fun decode_groups :: "string \<Rightarrow> string option" where
  "decode_groups (i # j # k # l # s) =
     (case (b64_value i, b64_value j) of
        (Some a, Some b) \<Rightarrow>
          (let t = a * 262144 + b * 4096; x = byte_at t 65536
           in if k = CHR ''=''
              then if l \<noteq> CHR ''='' then None else if b mod 16 \<noteq> 0 then None else Some [x]
              else case b64_value k of
                  None \<Rightarrow> None
                | Some c \<Rightarrow>
                    (let tc = t + c * 64; y = byte_at tc 256
                     in if l = CHR ''='' then if c mod 4 \<noteq> 0 then None else Some [x, y]
                        else case b64_value l of
                            None \<Rightarrow> None
                          | Some d \<Rightarrow>
                              (case decode_groups s of
                                 None \<Rightarrow> None | Some out \<Rightarrow> Some (x # y # byte_at (tc + d) 1 # out))))
      | _ \<Rightarrow> None)"
| "decode_groups _ = Some []"

definition base64_decode :: "string \<Rightarrow> string option" where
  "base64_decode inp = (if length inp mod 4 \<noteq> 0 then None else decode_groups inp)"

lemma alpha_places: "list_all (\<lambda>n. b64_value (b64_char n) = Some n \<and> b64_char n \<noteq> CHR ''='') [0..<64]"
  by code_simp

lemma b64_value_char [simp]: "b64_value (b64_char n) = Some (n mod 64)" "b64_char n \<noteq> CHR ''=''"
proof -
  have "n mod 64 \<in> set [0..<64]" by simp
  with alpha_places have "b64_value (b64_char (n mod 64)) = Some (n mod 64) \<and> b64_char (n mod 64) \<noteq> CHR ''=''"
    unfolding list_all_iff by (rule bspec)
  then show "b64_value (b64_char n) = Some (n mod 64)" "b64_char n \<noteq> CHR ''=''"
    by (simp_all add: b64_char_def)
qed

lemma mod_split: "r < d \<Longrightarrow> (k * d + r) mod d = r" for k r d :: nat
  by simp

lemma digit_mods:
  fixes a b q :: nat
  shows "q < 16 \<Longrightarrow> (a * 16 + q) mod 64 = (a mod 4) * 16 + q"
    and "q < 4 \<Longrightarrow> (a * 1024 + b * 4 + q) mod 64 = (b mod 16) * 4 + q"
proof -
  obtain k r where a: "a = k * 4 + r" "r < 4" "a mod 4 = r"
    by (metis div_mult_mod_eq mod_less_divisor zero_less_numeral)
  show "(a * 16 + q) mod 64 = (a mod 4) * 16 + q" if "q < 16"
  proof -
    have "a * 16 + q = k * 64 + (r * 16 + q)" by (simp add: a(1))
    moreover have "r * 16 + q < 64" using a(2) that by simp
    ultimately show ?thesis unfolding a(3) using mod_split by metis
  qed
  obtain l u where b: "b = l * 16 + u" "u < 16" "b mod 16 = u"
    by (metis div_mult_mod_eq mod_less_divisor zero_less_numeral)
  show "(a * 1024 + b * 4 + q) mod 64 = (b mod 16) * 4 + q" if "q < 4"
  proof -
    have "a * 1024 + b * 4 + q = (a * 16 + l) * 64 + (u * 4 + q)" by (simp add: b(1))
    moreover have "u * 4 + q < 64" using b(2) that by simp
    ultimately show ?thesis unfolding b(3) using mod_split by metis
  qed
qed

text \<open>The four digits of a group, and the bytes they give back.\<close>

lemma group_digits:
  fixes a b c :: nat
  assumes "a < 256" and "b < 256" and "c < 256"
  defines "t \<equiv> a * 65536 + b * 256 + c"
  shows "t div 262144 mod 64 = a div 4" "t div 4096 mod 64 = (a mod 4) * 16 + b div 16"
    "t div 64 mod 64 = (b mod 16) * 4 + c div 64" "t mod 64 = c mod 64"
proof -
  have d: "t div 65536 = a" "t div 256 = a * 256 + b"
    using assms(2,3) by (simp_all add: t_def)
  have "t div 262144 = t div 65536 div 4" by (simp flip: div_mult2_eq)
  then show "t div 262144 mod 64 = a div 4" using assms(1) by (simp add: d)
  have "t div 4096 = t div 256 div 16" by (simp flip: div_mult2_eq)
  then have "t div 4096 = a * 16 + b div 16" by (simp add: d)
  then show "t div 4096 mod 64 = (a mod 4) * 16 + b div 16" using assms(2) by (simp add: digit_mods(1))
  have t: "t = (a * 1024 + b * 4 + c div 64) * 64 + c mod 64"
    using div_mult_mod_eq [of c 64] by (simp add: t_def)
  then have "t div 64 = a * 1024 + b * 4 + c div 64" by simp
  then show "t div 64 mod 64 = (b mod 16) * 4 + c div 64" using assms(3) by (simp add: digit_mods(2))
  show "t mod 64 = c mod 64" unfolding t by (rule mod_split) simp
qed

lemma group_bytes:
  fixes a b c :: nat
  assumes "a < 256" and "b < 256" and "c < 256"
  shows "((a div 4) * 262144 + ((a mod 4) * 16 + b div 16) * 4096) div 65536 mod 256 = a"
    "((a div 4) * 262144 + ((a mod 4) * 16 + b div 16) * 4096 + ((b mod 16) * 4 + c div 64) * 64) div 256 mod 256 = b"
    "((a div 4) * 262144 + ((a mod 4) * 16 + b div 16) * 4096 + ((b mod 16) * 4 + c div 64) * 64 + c mod 64) mod 256 = c"
proof -
  have 1: "(a div 4) * 262144 + ((a mod 4) * 16 + b div 16) * 4096 = a * 65536 + (b div 16) * 4096"
  proof -
    have "(k * 262144 + (r * 16 + q) * 4096) = (k * 4 + r) * 65536 + q * 4096" for k r q :: nat by simp
    then show ?thesis using div_mult_mod_eq [of a 4] by metis
  qed
  have 2: "(b div 16) * 4096 + ((b mod 16) * 4 + c div 64) * 64 = b * 256 + (c div 64) * 64"
  proof -
    have "k * 4096 + (r * 4 + q) * 64 = (k * 16 + r) * 256 + q * 64" for k r q :: nat by simp
    then show ?thesis using div_mult_mod_eq [of b 16] by metis
  qed
  have 3: "c div 64 * 64 + c mod 64 = c" by simp
  have t2: "(a div 4) * 262144 + ((a mod 4) * 16 + b div 16) * 4096 + ((b mod 16) * 4 + c div 64) * 64 =
      a * 65536 + b * 256 + c div 64 * 64"
    unfolding 1 using 2 by linarith
  have t3: "(a div 4) * 262144 + ((a mod 4) * 16 + b div 16) * 4096 + ((b mod 16) * 4 + c div 64) * 64 + c mod 64 =
      (a * 256 + b) * 256 + c"
  proof -
    have "a * 65536 + b * 256 + c div 64 * 64 + c mod 64 = a * 65536 + b * 256 + (c div 64 * 64 + c mod 64)"
      by (simp only: add.assoc)
    then show ?thesis unfolding t2 3 by simp
  qed
  have "b div 16 < 16" "c div 64 < 4" using assms by (simp_all add: less_mult_imp_div_less)
  then have b: "(b div 16) * 4096 < 65536" "c div 64 * 64 < 256" by linarith+
  show "((a div 4) * 262144 + ((a mod 4) * 16 + b div 16) * 4096) div 65536 mod 256 = a"
    unfolding 1 using b(1) assms(1) by simp
  have "a * 65536 + b * 256 + c div 64 * 64 = (a * 256 + b) * 256 + c div 64 * 64" by simp
  then have "(a * 65536 + b * 256 + c div 64 * 64) div 256 = a * 256 + b" using b(2) by simp
  then show "((a div 4) * 262144 + ((a mod 4) * 16 + b div 16) * 4096 + ((b mod 16) * 4 + c div 64) * 64) div 256 mod 256 = b"
    unfolding t2 using assms(2) by simp
  show "((a div 4) * 262144 + ((a mod 4) * 16 + b div 16) * 4096 + ((b mod 16) * 4 + c div 64) * 64 + c mod 64) mod 256 = c"
    unfolding t3 by (rule mod_split [OF assms(3)])
qed

lemma length_encode: "length (base64_encode s) mod 4 = 0"
  by (induction s rule: base64_encode.induct) (auto simp: Let_def)

lemma of_char_bound: "of_char c < (256 :: nat)"
  by (rule nat_of_char_less_256)

lemmas byte_digits = group_digits [OF of_char_bound of_char_bound of_char_bound]

lemma bytes_back:
  "byte_at (of_char a div 4 * 262144 + (of_char a mod 4 * 16 + of_char b div 16) * 4096) 65536 = a"
  "byte_at (of_char a div 4 * 262144 + (of_char a mod 4 * 16 + of_char b div 16) * 4096 +
     (of_char b mod 16 * 4 + of_char c div 64) * 64) 256 = b"
  "byte_at (of_char a div 4 * 262144 + (of_char a mod 4 * 16 + of_char b div 16) * 4096 +
     (of_char b mod 16 * 4 + of_char c div 64) * 64 + of_char c mod 64) 1 = c"
  by (simp_all only: byte_at_def div_by_1 group_bytes [OF of_char_bound of_char_bound of_char_bound] char_of_char)

lemmas decode_step = append_Cons append_Nil decode_groups.simps(1) b64_value_char prod.case option.case Let_def
  if_False simp_thms b64_triple_def byte_digits bytes_back

lemma decode_full_group:
  "decode_groups ([b64_char (b64_triple a b c div 262144), b64_char (b64_triple a b c div 4096),
       b64_char (b64_triple a b c div 64), b64_char (b64_triple a b c)] @ s) =
     (case decode_groups s of None \<Rightarrow> None | Some out \<Rightarrow> Some (a # b # c # out))"
  by (simp only: decode_step)

lemma zero_byte: "of_char (CHR 0x00) = (0 :: nat)"
  by simp

lemma decode_one_byte:
  "decode_groups (b64_char (b64_triple a (CHR 0x00) (CHR 0x00) div 262144) #
     b64_char (b64_triple a (CHR 0x00) (CHR 0x00) div 4096) # CHR ''='' # CHR ''='' # s) = Some [a]"
proof -
  have "(of_char a mod 4 * 16 + of_char (CHR 0x00) div 16) mod 16 = (0 :: nat)" by simp
  then show ?thesis by (simp only: decode_step if_True)
qed

lemma decode_two_bytes:
  "decode_groups [b64_char (b64_triple a b (CHR 0x00) div 262144), b64_char (b64_triple a b (CHR 0x00) div 4096),
     b64_char (b64_triple a b (CHR 0x00) div 64), CHR ''=''] = Some [a, b]"
proof -
  have "(of_char b mod 16 * 4 + of_char (CHR 0x00) div 64) mod 4 = (0 :: nat)" by simp
  then show ?thesis by (simp only: decode_step if_True)
qed

lemma decode_encode: "decode_groups (base64_encode s) = Some s"
proof (induction s rule: base64_encode.induct)
  case (2 a)
  show ?case by (simp only: base64_encode.simps Let_def decode_one_byte)
next
  case (3 a b)
  show ?case by (simp only: base64_encode.simps Let_def decode_two_bytes)
next
  case (4 a b c s)
  then show ?case by (simp only: base64_encode.simps Let_def decode_full_group option.case)
qed simp

lemma base64_decode_encode: "base64_decode (base64_encode s) = Some s"
  by (simp add: base64_decode_def length_encode decode_encode)

text \<open>
  Base64 round trip: what the client encodes, the decoder gives back, for every byte string.
\<close>

theorem base64_roundtrip:
  "base64_decode (base64_encode s) = Some s"
  by (rule base64_decode_encode)

text \<open>A padded group ends the input: what follows it is ignored, not rejected.\<close>

lemma base64_ignores_rest: "length s mod 4 = 0 \<Longrightarrow> base64_decode (base64_encode [a] @ s) = Some [a]"
  by (simp add: base64_decode_def Let_def decode_one_byte del: decode_groups.simps)

section \<open>Client events\<close>

definition build_append_json :: "string \<Rightarrow> string \<Rightarrow> string" where
  "build_append_json event_id audio =
     ''{'' @ [CHR 0x22] @ ''event_id'' @ [CHR 0x22] @ '':'' @ [CHR 0x22] @ event_id @ [CHR 0x22] @ '','' @
     [CHR 0x22] @ ''type'' @ [CHR 0x22] @ '':'' @ [CHR 0x22] @ ''input_audio_buffer.append'' @ [CHR 0x22] @ '','' @
     [CHR 0x22] @ ''audio'' @ [CHR 0x22] @ '':'' @ [CHR 0x22] @ audio @ [CHR 0x22] @ ''}''"

definition build_simple_json :: "string \<Rightarrow> string \<Rightarrow> string" where
  "build_simple_json event_id kind =
     ''{'' @ [CHR 0x22] @ ''event_id'' @ [CHR 0x22] @ '':'' @ [CHR 0x22] @ event_id @ [CHR 0x22] @ '','' @
     [CHR 0x22] @ ''type'' @ [CHR 0x22] @ '':'' @ [CHR 0x22] @ kind @ [CHR 0x22] @ ''}''"

section \<open>Reassembly\<close>

record envelope =
  env_id :: string
  env_type :: string
  env_data :: string
  env_index :: "nat option"
  env_total :: "nat option"

record pending_message =
  pm_fragments :: "string list"
  pm_received :: nat

type_synonym reassembler = "string \<rightharpoonup> pending_message"

definition reassembler_new :: reassembler where
  "reassembler_new = Map.empty"

text \<open>A well-formed fragment.\<close>

definition take_fragment ::
  "string \<Rightarrow> string \<Rightarrow> nat \<Rightarrow> nat \<Rightarrow> reassembler \<Rightarrow> string option \<times> reassembler" where
  "take_fragment i data idx total_fragments r =
     (let p = (case r i of Some p \<Rightarrow> p | None \<Rightarrow> \<lparr>pm_fragments = replicate total_fragments [], pm_received = 0\<rparr>);
          r1 = r(i \<mapsto> p)
      in if length (pm_fragments p) \<noteq> total_fragments then (None, r1(i := None))
         else if pm_fragments p ! idx \<noteq> [] then (None, r1)
         else let q = \<lparr>pm_fragments = (pm_fragments p)[idx := data], pm_received = pm_received p + 1\<rparr>
              in if pm_received q = length (pm_fragments q)
                 then (base64_decode (concat (pm_fragments q)), r1(i := None))
                 else (None, r1(i \<mapsto> q)))"

definition feed_envelope :: "envelope \<Rightarrow> reassembler \<Rightarrow> string option \<times> reassembler" where
  "feed_envelope e r =
     (if env_type e = ''full_message'' then (base64_decode (env_data e), r)
      else if env_type e \<noteq> ''partial_message'' then (None, r)
      else case (env_index e, env_total e) of
          (Some idx, Some n) \<Rightarrow>
            if n = 0 \<or> n \<le> idx then (None, r) else take_fragment (env_id e) (env_data e) idx n r
        | _ \<Rightarrow> (None, r))"

definition feed_raw :: "(string \<Rightarrow> envelope option) \<Rightarrow> string \<Rightarrow> reassembler \<Rightarrow> string option \<times> reassembler" where
  "feed_raw read_env raw r = (case read_env raw of None \<Rightarrow> (None, r) | Some e \<Rightarrow> feed_envelope e r)"

definition pending_count :: "reassembler \<Rightarrow> nat" where
  "pending_count r = card (dom r)"

text \<open>The messages delivered by a list of envelopes, each with the id it came under.\<close>

fun deliveries :: "envelope list \<Rightarrow> reassembler \<Rightarrow> (string \<times> string) list \<times> reassembler" where
  "deliveries [] r = ([], r)"
| "deliveries (e # es) r =
     (case feed_envelope e r of (m, r1) \<Rightarrow>
        case deliveries es r1 of (ms, r2) \<Rightarrow>
          ((case m of None \<Rightarrow> [] | Some x \<Rightarrow> [(env_id e, x)]) @ ms, r2))"

definition fragment :: "string \<Rightarrow> string list \<Rightarrow> nat \<Rightarrow> envelope" where
  "fragment i fs k =
     \<lparr>env_id = i, env_type = ''partial_message'', env_data = fs ! k, env_index = Some k, env_total = Some (length fs)\<rparr>"

lemma feed_other: "env_id e \<noteq> i \<Longrightarrow> snd (feed_envelope e r) i = r i"
  by (auto simp: feed_envelope_def take_fragment_def Let_def split: option.splits)

text \<open>After some fragments of a message have come, retransmitted ones included, the others are still empty.\<close>

definition collected :: "string list \<Rightarrow> nat list \<Rightarrow> pending_message option" where
  "collected fs ks =
     (if ks = [] then None
      else Some \<lparr>pm_fragments = map (\<lambda>k. if k \<in> set ks then fs ! k else []) [0..<length fs], pm_received = card (set ks)\<rparr>)"

lemma map_update_known:
  "k < length fs \<Longrightarrow>
   (map (\<lambda>j. if j \<in> A then fs ! j else []) [0..<length fs])[k := fs ! k] =
     map (\<lambda>j. if j \<in> insert k A then fs ! j else []) [0..<length fs]"
  by (intro nth_equalityI) (auto simp: nth_list_update)

lemma replicate_update_known:
  "k < length fs \<Longrightarrow>
   (replicate (length fs) [])[k := fs ! k] = map (\<lambda>j. if j = k then fs ! j else []) [0..<length fs]"
  by (intro nth_equalityI) (auto simp: nth_list_update)

lemma map_all_known: "{..<length fs} \<subseteq> A \<Longrightarrow> map (\<lambda>j. if j \<in> A then fs ! j else []) [0..<length fs] = fs"
  by (intro nth_equalityI) (auto simp: subset_iff)

lemma feed_known_fragment:
  assumes "r i = collected fs ks" and "k < length fs" and "k \<in> set ks" and "fs ! k \<noteq> []"
  shows "fst (feed_envelope (fragment i fs k) r) = None \<and>
    snd (feed_envelope (fragment i fs k) r) i = collected fs (ks @ [k])"
proof -
  have "ks \<noteq> []" and "insert k (set ks) = set ks" using assms(3) by auto
  then show ?thesis using assms
    by (simp add: feed_envelope_def fragment_def take_fragment_def collected_def Let_def)
qed

lemma feed_new_fragment:
  assumes "r i = collected fs ks" and "k < length fs" and "k \<notin> set ks"
  shows "feed_envelope (fragment i fs k) r =
    (if Suc (card (set ks)) = length fs
     then (base64_decode (concat (map (\<lambda>j. if j \<in> insert k (set ks) then fs ! j else []) [0..<length fs])), r(i := None))
     else (None, r(i := collected fs (ks @ [k]))))"
proof (cases "ks = []")
  case True
  then have "fs \<noteq> []" using assms(2) by auto
  with True show ?thesis using assms replicate_update_known[OF assms(2)]
    by (simp add: feed_envelope_def fragment_def take_fragment_def collected_def Let_def)
next
  case False
  moreover have "fs \<noteq> []" using assms(2) by auto
  ultimately show ?thesis using assms map_update_known[OF assms(2), of "set ks"]
    by (simp add: feed_envelope_def fragment_def take_fragment_def collected_def Let_def)
qed

lemma feed_fragment:
  assumes "r i = collected fs ks" and "k < length fs" and "\<forall>f \<in> set fs. f \<noteq> []"
    and "k \<notin> set ks \<Longrightarrow> Suc (card (set ks)) \<noteq> length fs"
  shows "fst (feed_envelope (fragment i fs k) r) = None \<and>
    snd (feed_envelope (fragment i fs k) r) i = collected fs (ks @ [k])"
proof (cases "k \<in> set ks")
  case True
  then show ?thesis using feed_known_fragment[of r i fs ks k] assms by simp
next
  case False
  then show ?thesis using feed_new_fragment[of r i fs ks k] assms by simp
qed

lemma feed_last_fragment:
  assumes "r i = collected fs ks" and "k < length fs" and "k \<notin> set ks" and "insert k (set ks) = {..<length fs}"
  shows "feed_envelope (fragment i fs k) r = (base64_decode (concat fs), r(i := None))"
proof -
  have "Suc (card (set ks)) = card (insert k (set ks))" using assms(3) by simp
  also have "\<dots> = length fs" by (simp only: assms(4) card_lessThan)
  finally show ?thesis
    using assms(1-3) feed_new_fragment[of r i fs ks k] map_all_known[of fs "insert k (set ks)"] assms(4) by simp
qed

lemma feed_fragments:
  assumes "r i = collected fs ks0" and "set ks \<subseteq> {..<length fs}" and "\<forall>f \<in> set fs. f \<noteq> []"
    and "set (ks0 @ ks) \<subset> {..<length fs}"
  shows "fst (deliveries (map (fragment i fs) ks) r) = [] \<and>
    snd (deliveries (map (fragment i fs) ks) r) i = collected fs (ks0 @ ks)"
  using assms
proof (induction ks arbitrary: r ks0)
  case (Cons k ks)
  have k: "k < length fs" using Cons.prems(2) by simp
  have "Suc (card (set ks0)) \<noteq> length fs" if "k \<notin> set ks0"
  proof -
    have "insert k (set ks0) \<subset> {..<length fs}" using Cons.prems(4) by auto
    then have "card (insert k (set ks0)) < card {..<length fs}" by (intro psubset_card_mono) auto
    then show ?thesis using that by simp
  qed
  then have f: "fst (feed_envelope (fragment i fs k) r) = None"
    "snd (feed_envelope (fragment i fs k) r) i = collected fs (ks0 @ [k])"
    using feed_fragment[of r i fs ks0 k] Cons.prems(1,3) k by auto
  have "fst (deliveries (map (fragment i fs) ks) (snd (feed_envelope (fragment i fs k) r))) = [] \<and>
      snd (deliveries (map (fragment i fs) ks) (snd (feed_envelope (fragment i fs k) r))) i = collected fs ((ks0 @ [k]) @ ks)"
    using Cons.prems f(2) by (intro Cons.IH) auto
  then show ?case using f(1) by (auto split: prod.splits)
qed simp

lemma deliveries_append:
  "deliveries (as @ bs) r =
    (fst (deliveries as r) @ fst (deliveries bs (snd (deliveries as r))), snd (deliveries bs (snd (deliveries as r))))"
  by (induction as arbitrary: r) (auto split: prod.splits)

text \<open>What is delivered under one id depends on that id's envelopes only.\<close>

lemma feed_same_id:
  assumes "env_id e = i" and "r i = r' i"
  shows "fst (feed_envelope e r) = fst (feed_envelope e r') \<and> snd (feed_envelope e r) i = snd (feed_envelope e r') i"
  using assms by (auto simp: feed_envelope_def take_fragment_def Let_def split: option.splits)

lemma deliveries_of_id:
  "r i = r' i \<Longrightarrow>
   filter (\<lambda>(j, _). j = i) (fst (deliveries es r)) = fst (deliveries (filter (\<lambda>e. env_id e = i) es) r') \<and>
   snd (deliveries es r) i = snd (deliveries (filter (\<lambda>e. env_id e = i) es) r') i"
proof (induction es arbitrary: r r')
  case (Cons e es)
  show ?case
  proof (cases "env_id e = i")
    case True
    from feed_same_id[of e i r r'] True Cons.prems
    have "fst (feed_envelope e r) = fst (feed_envelope e r')" "snd (feed_envelope e r) i = snd (feed_envelope e r') i" by auto
    with True Cons.IH[of "snd (feed_envelope e r)" "snd (feed_envelope e r')"] show ?thesis
      by (auto split: prod.splits option.splits)
  next
    case False
    then have "snd (feed_envelope e r) i = r' i" using feed_other Cons.prems by simp
    with False Cons.IH[of "snd (feed_envelope e r)" r'] show ?thesis
      by (auto split: prod.splits option.splits)
  qed
qed simp

lemma fragments_deliver:
  assumes "r i = None" and "\<forall>f \<in> set fs. f \<noteq> []" and "concat fs = base64_encode payload"
    and "insert k (set ks) = {..<length fs}" and "k \<notin> set ks"
  shows "fst (deliveries (map (fragment i fs) (ks @ [k])) r) = [(i, payload)] \<and>
    snd (deliveries (map (fragment i fs) (ks @ [k])) r) i = None"
proof -
  let ?r = "snd (deliveries (map (fragment i fs) ks) r)"
  have "set ks \<subset> {..<length fs}" using assms(4,5) by auto
  then have ks: "fst (deliveries (map (fragment i fs) ks) r) = []" "?r i = collected fs ks"
    using feed_fragments[of r i fs "[]" ks] assms(1,2) by (auto simp: collected_def)
  have "k < length fs" using assms(4) by auto
  then have "feed_envelope (fragment i fs k) ?r = (base64_decode (concat fs), ?r(i := None))"
    using ks(2) assms(4,5) by (intro feed_last_fragment)
  moreover have "base64_decode (concat fs) = Some payload"
    by (simp only: assms(3) base64_decode_encode)
  ultimately show ?thesis
    by (simp add: deliveries_append ks(1) fragment_def)
qed

text \<open>
  C33. Reassembly: a message whose base64 text was cut into non-empty fragments is delivered exactly once
  and whole, whatever the order its fragments arrive in, with retransmissions of fragments already seen and
  with any envelopes of other messages between them; afterwards nothing of it is kept.
\<close>

theorem fragments_reassemble:
  assumes "r i = None" and "\<forall>f \<in> set fs. f \<noteq> []" and "concat fs = base64_encode payload"
    and "insert k (set ks) = {..<length fs}" and "k \<notin> set ks"
    and "filter (\<lambda>e. env_id e = i) es = map (fragment i fs) (ks @ [k])"
  shows "filter (\<lambda>(j, _). j = i) (fst (deliveries es r)) = [(i, payload)] \<and> snd (deliveries es r) i = None"
  using deliveries_of_id[of r i r es] fragments_deliver[of r i fs payload k ks] assms by simp

lemma fragments_reassemble_witness:
  "filter (\<lambda>(j, _). j = ''a'')
     (fst (deliveries
       [fragment ''a'' [''aGV'', ''s'', ''bG8=''] 2, fragment ''b'' [''eQ'', ''==''] 1,
        fragment ''a'' [''aGV'', ''s'', ''bG8=''] 2, fragment ''a'' [''aGV'', ''s'', ''bG8=''] 0,
        fragment ''b'' [''eQ'', ''==''] 0, fragment ''a'' [''aGV'', ''s'', ''bG8=''] 1] Map.empty)) = [(''a'', ''hello'')]"
proof -
  let ?fs = "[''aGV'', ''s'', ''bG8='']"
  let ?es = "[fragment ''a'' ?fs 2, fragment ''b'' [''eQ'', ''==''] 1, fragment ''a'' ?fs 2, fragment ''a'' ?fs 0,
        fragment ''b'' [''eQ'', ''==''] 0, fragment ''a'' ?fs 1]"
  have parts: "\<forall>f \<in> set ?fs. f \<noteq> []" by simp
  have encoded: "concat ?fs = base64_encode ''hello''"
    by (simp add: b64_triple_def b64_char_def alpha_def of_char_def)
  have indices: "insert 1 (set [2, 2, 0]) = {..<length ?fs}" by auto
  have unseen: "(1::nat) \<notin> set [2, 2, 0]" by simp
  have mine: "filter (\<lambda>e. env_id e = ''a'') ?es = map (fragment ''a'' ?fs) ([2, 2, 0] @ [1])"
    by (simp add: fragment_def)
  have "(Map.empty :: reassembler) ''a'' = None" by simp
  from fragments_reassemble[OF this parts encoded indices unseen mine] show ?thesis by (rule conjunct1)
qed

text \<open>An empty fragment is not recognised as one already seen: sent twice, it completes a message of two.\<close>

lemma empty_fragment_counts_twice:
  "fst (deliveries [fragment ''a'' [''aGk='', []] 1, fragment ''a'' [''aGk='', []] 1] Map.empty) = [(''a'', [])]"
  by code_simp

lemma bad_envelopes_ignored:
  assumes "env_type e \<noteq> ''full_message''"
    and "env_type e \<noteq> ''partial_message'' \<or> env_index e = None \<or> env_total e = None \<or>
      (\<exists>k n. env_index e = Some k \<and> env_total e = Some n \<and> n \<le> k)"
  shows "feed_envelope e r = (None, r)"
  using assms by (auto simp: feed_envelope_def split: option.splits)

text \<open>A fragment that contradicts the announced count drops what was collected for its id.\<close>

lemma changed_total_drops:
  assumes "r i = Some p" and "length (pm_fragments p) \<noteq> n" and "k < n"
  shows "feed_envelope \<lparr>env_id = i, env_type = ''partial_message'', env_data = d, env_index = Some k, env_total = Some n\<rparr> r
    = (None, r(i := None))"
  using assms by (simp add: feed_envelope_def take_fragment_def Let_def)

end
