(* ===== verification/Realtime_Stt.thy ===== *)
theory Realtime_Stt
  imports Realtime_Envelope Turn Resampler Wav
begin

text \<open>
  The streaming speech recogniser: the dispatch of server events of
  \<open>src/stt/realtime_event_dispatch.cpp\<close> and the client of \<open>src/stt/realtime_stt_client.cpp\<close>. The
  handlers that run under the client's mutex are functions on its state; the user's callbacks and
  the sends on the data channel happen after the mutex is released, so they are steps of their own,
  and the threads of the program (the caller of \<open>start\<close>, the data channel, the subscriptions for
  the begin and the end of speech, the audio worker) interleave freely. The JSON readers, the
  resampling library, the HTTP exchange and the event ids are parameters. The data channel
  object exists whenever a session is Ready, so the tests for a null channel are not written out.
\<close>

section \<open>Dispatch of server events\<close>

record json_readers =
  rj_type :: "string \<Rightarrow> string option"
  rj_delta :: "string \<Rightarrow> (string \<times> string) option"
  rj_completed :: "string \<Rightarrow> (string \<times> string \<times> string option) option"
  rj_committed :: "string \<Rightarrow> string option"
  rj_error :: "string \<Rightarrow> string option option"

datatype server_event =
    SvPartial string string
  | SvFinal string string string
  | SvCommitted string
  | SvUpdated
  | SvError string

definition dispatch :: "('z) json_readers_scheme \<Rightarrow> string \<Rightarrow> server_event option" where
  "dispatch rj inner =
     (case rj_type rj inner of
        None \<Rightarrow> None
      | Some ty \<Rightarrow>
          if ty = ''conversation.item.input_audio_transcription.delta''
          then case rj_delta rj inner of
              None \<Rightarrow> None
            | Some (item, delta) \<Rightarrow> if item = [] \<or> delta = [] then None else Some (SvPartial item delta)
          else if ty = ''conversation.item.input_audio_transcription.completed''
          then case rj_completed rj inner of
              None \<Rightarrow> None
            | Some (item, transcript, language) \<Rightarrow>
                if item = [] then None
                else Some (SvFinal item transcript (case language of None \<Rightarrow> [] | Some l \<Rightarrow> l))
          else if ty = ''input_audio_buffer.committed''
          then case rj_committed rj inner of
              None \<Rightarrow> None
            | Some item \<Rightarrow> if item = [] then None else Some (SvCommitted item)
          else if ty = ''session.updated'' then Some SvUpdated
          else if ty = ''error''
          then Some (SvError (case rj_error rj inner of
                  None \<Rightarrow> ''<unparseable error event>''
                | Some None \<Rightarrow> ''<no message>''
                | Some (Some m) \<Rightarrow> m))
          else None)"

section \<open>The server's address and the session's configuration\<close>

definition find_char :: "char \<Rightarrow> string \<Rightarrow> nat option" where
  "find_char c s = (let n = length (takeWhile (\<lambda>x. x \<noteq> c) s) in if n < length s then Some n else None)"

text \<open>\<open>std::atoi\<close>: white space, a sign, digits; anything else ends the number.\<close>

fun digits_value :: "int \<Rightarrow> string \<Rightarrow> int" where
  "digits_value n [] = n"
| "digits_value n (c # s) =
     (let d = (of_char c :: nat) in if 48 \<le> d \<and> d \<le> 57 then digits_value (n * 10 + int d - 48) s else n)"

definition c_atoi :: "string \<Rightarrow> int" where
  "c_atoi s =
     (let t = dropWhile (\<lambda>c. let d = (of_char c :: nat) in d = 32 \<or> (9 \<le> d \<and> d \<le> 13)) s
      in if t \<noteq> [] \<and> hd t = CHR ''-'' then - digits_value 0 (List.tl t)
         else if t \<noteq> [] \<and> hd t = CHR ''+'' then digits_value 0 (List.tl t)
         else digits_value 0 t)"

record base_url =
  bu_host :: string
  bu_port :: int
  bu_path_prefix :: string
  bu_ok :: bool

definition parse_base_url :: "string \<Rightarrow> base_url" where
  "parse_base_url url =
     (if take 7 url \<noteq> ''http://'' then \<lparr>bu_host = [], bu_port = 0, bu_path_prefix = [], bu_ok = False\<rparr>
      else let rest = drop 7 url;
               slash = find_char (CHR ''/'') rest;
               authority = (case slash of None \<Rightarrow> rest | Some i \<Rightarrow> take i rest);
               prefix = (case slash of None \<Rightarrow> [] | Some i \<Rightarrow> drop i rest);
               colon = find_char (CHR '':'') authority;
               host = (case colon of None \<Rightarrow> authority | Some i \<Rightarrow> take i authority);
               port = (case colon of None \<Rightarrow> 80 | Some i \<Rightarrow> c_atoi (drop (i + 1) authority))
           in \<lparr>bu_host = host, bu_port = port, bu_path_prefix = prefix, bu_ok = host \<noteq> [] \<and> port > 0\<rparr>)"

definition quote :: string where
  "quote = [CHR 0x22]"

definition quoted :: "string \<Rightarrow> string" where
  "quoted s = quote @ s @ quote"

definition build_session_update_json :: "string \<Rightarrow> string \<Rightarrow> string \<Rightarrow> string" where
  "build_session_update_json event_id model language =
     ''{'' @ quoted ''event_id'' @ '':'' @ quoted event_id @ '','' @ quoted ''type'' @ '':'' @ quoted ''session.update'' @ '','' @
     quoted ''session'' @ '':{'' @
     quoted ''modalities'' @ '':['' @ quoted ''text'' @ ''],'' @
     quoted ''tools'' @ '':[],'' @
     quoted ''turn_detection'' @ '':{'' @
     quoted ''type'' @ '':'' @ quoted ''server_vad'' @ '','' @
     quoted ''create_response'' @ '':false,'' @
     quoted ''prefix_padding_ms'' @ '':0,'' @
     quoted ''silence_duration_ms'' @ '':550,'' @
     quoted ''threshold'' @ '':1.0'' @
     ''},'' @
     quoted ''input_audio_transcription'' @ '':{'' @ quoted ''model'' @ '':'' @ quote @ model @
     (if language \<noteq> [] then quote @ '','' @ quoted ''language'' @ '':'' @ quote @ language else []) @
     quote @ ''}}}''"

section \<open>The client\<close>

datatype rt_state = RtIdle | RtConnecting | RtConfiguring | RtReady | RtFailed | RtClosed

datatype peer_state = PeerNew | PeerConnecting | PeerConnected | PeerDisconnected | PeerFailed | PeerClosed

text \<open>The callbacks of one \<open>begin_utterance\<close>: which of the three there are, and whose they are.\<close>

record utterance_callbacks =
  uc_owner :: nat
  uc_partial :: bool
  uc_final :: bool
  uc_error :: bool

datatype user_call =
    CallPartial nat partial_transcript
  | CallFinal nat final_transcript
  | CallError nat string

text \<open>A message on the data channel.\<close>

datatype wire = WSessionUpdate | WClear | WAppend string | WCommit

record 's rt_client =
  rt_state :: rt_state
  rt_ice_gathered :: bool
  rt_channel_open :: bool
  rt_peer :: peer_state
  rt_reassembler :: reassembler
  rt_active :: bool
  rt_turn :: turn_id
  rt_cancel :: "token option"
  rt_cb :: "utterance_callbacks option"
  rt_item_id :: string
  rt_partial_text :: string
  rt_partial_seq :: seq_no
  rt_utterance_start :: time_point
  rt_resampler :: "'s resampler option"

definition rt_new :: "'s rt_client" where
  "rt_new =
     \<lparr>rt_state = RtIdle, rt_ice_gathered = False, rt_channel_open = False, rt_peer = PeerNew,
      rt_reassembler = reassembler_new, rt_active = False, rt_turn = kNoTurn, rt_cancel = None, rt_cb = None,
      rt_item_id = [], rt_partial_text = [], rt_partial_seq = 0, rt_utterance_start = 0, rt_resampler = None\<rparr>"

definition clear_active :: "'s rt_client \<Rightarrow> 's rt_client" where
  "clear_active c =
     c\<lparr>rt_active := False, rt_turn := kNoTurn, rt_item_id := [], rt_partial_text := [], rt_partial_seq := 0,
       rt_cb := None, rt_cancel := None, rt_resampler := None\<rparr>"

definition utterance_cancelled :: "heap \<Rightarrow> 's rt_client \<Rightarrow> bool" where
  "utterance_cancelled h c = (case rt_cancel c of None \<Rightarrow> False | Some t \<Rightarrow> is_cancelled h t)"

subsection \<open>Server events\<close>

text \<open>Each handler returns the user's callback that is to run once the mutex is released.\<close>

definition rt_on_partial :: "heap \<Rightarrow> string \<Rightarrow> string \<Rightarrow> 's rt_client \<Rightarrow> user_call option \<times> 's rt_client" where
  "rt_on_partial h item delta c =
     (if \<not> rt_active c \<or> item \<noteq> rt_item_id c then (None, c)
      else if utterance_cancelled h c then (None, c)
      else let text_now = rt_partial_text c @ delta;
               c' = c\<lparr>rt_partial_text := text_now, rt_partial_seq := rt_partial_seq c + 1\<rparr>;
               ev = \<lparr>pt_turn = rt_turn c, pt_text = text_now, pt_lang = [], pt_stable_prefix_len = length text_now,
                     pt_seq = rt_partial_seq c + 1, pt_confidence = Fin 0\<rparr>
           in (case rt_cb c of
                 Some cb \<Rightarrow> if uc_partial cb then Some (CallPartial (uc_owner cb) ev) else None
               | None \<Rightarrow> None, c'))"

definition rt_on_final ::
  "heap \<Rightarrow> string \<Rightarrow> time_point \<Rightarrow> string \<Rightarrow> string \<Rightarrow> string \<Rightarrow> 's rt_client \<Rightarrow> user_call option \<times> 's rt_client" where
  "rt_on_final h cfg_language now item transcript language c =
     (if \<not> rt_active c \<or> item \<noteq> rt_item_id c then (None, c)
      else if utterance_cancelled h c then (None, clear_active c)
      else let ev = \<lparr>ft_turn = rt_turn c, ft_text = transcript, ft_lang = (if language \<noteq> [] then language else cfg_language),
                     ft_confidence = Fin 0, ft_audio_duration = 0,
                     ft_processing_duration = to_millis (now - rt_utterance_start c)\<rparr>
           in (case rt_cb c of
                 Some cb \<Rightarrow> if uc_final cb then Some (CallFinal (uc_owner cb) ev) else None
               | None \<Rightarrow> None, clear_active c))"

definition rt_on_server_error :: "string \<Rightarrow> 's rt_client \<Rightarrow> user_call option \<times> 's rt_client" where
  "rt_on_server_error message c =
     (if \<not> rt_active c then (None, c)
      else (case rt_cb c of
              Some cb \<Rightarrow> if uc_error cb then Some (CallError (uc_owner cb) message) else None
            | None \<Rightarrow> None, clear_active c))"

fun rt_on_server_event ::
  "heap \<Rightarrow> string \<Rightarrow> time_point \<Rightarrow> server_event \<Rightarrow> 's rt_client \<Rightarrow> user_call option \<times> 's rt_client" where
  "rt_on_server_event h lang now (SvPartial item delta) c = rt_on_partial h item delta c"
| "rt_on_server_event h lang now (SvFinal item transcript language) c = rt_on_final h lang now item transcript language c"
| "rt_on_server_event h lang now (SvCommitted item) c = (None, if rt_active c then c\<lparr>rt_item_id := item\<rparr> else c)"
| "rt_on_server_event h lang now SvUpdated c =
     (None, if rt_state c = RtConfiguring then c\<lparr>rt_state := RtReady\<rparr> else c)"
| "rt_on_server_event h lang now (SvError message) c = rt_on_server_error message c"

record 's rt_env =
  re_soxr :: "'s soxr"
  re_read_envelope :: "string \<Rightarrow> envelope option"
  re_json :: json_readers
  re_language :: string
  re_base_url :: string

definition rt_on_message ::
  "'s rt_env \<Rightarrow> heap \<Rightarrow> time_point \<Rightarrow> string \<Rightarrow> 's rt_client \<Rightarrow> user_call option \<times> 's rt_client" where
  "rt_on_message e h now raw c =
     (let (inner, r) = feed_raw (re_read_envelope e) raw (rt_reassembler c); c1 = c\<lparr>rt_reassembler := r\<rparr>
      in case inner of
           None \<Rightarrow> (None, c1)
         | Some m \<Rightarrow>
             (case dispatch (re_json e) m of
                None \<Rightarrow> (None, c1)
              | Some ev \<Rightarrow> rt_on_server_event h (re_language e) now ev c1))"

definition rt_on_gathered :: "'s rt_client \<Rightarrow> 's rt_client" where
  "rt_on_gathered c = c\<lparr>rt_ice_gathered := True\<rparr>"

definition rt_on_open :: "'s rt_client \<Rightarrow> 's rt_client" where
  "rt_on_open c = c\<lparr>rt_channel_open := True\<rparr>"

definition rt_on_peer_state :: "peer_state \<Rightarrow> 's rt_client \<Rightarrow> 's rt_client" where
  "rt_on_peer_state s c =
     (let c1 = c\<lparr>rt_peer := s\<rparr>
      in if s \<in> {PeerFailed, PeerClosed, PeerDisconnected} \<and> rt_state c \<noteq> RtReady \<and> rt_state c \<noteq> RtClosed
         then c1\<lparr>rt_state := RtFailed\<rparr> else c1)"

subsection \<open>The caller's operations\<close>

definition rt_stop :: "'s rt_client \<Rightarrow> 's rt_client" where
  "rt_stop c =
     (if rt_state c = RtIdle \<or> rt_state c = RtClosed then c else clear_active (c\<lparr>rt_state := RtClosed\<rparr>))"

text \<open>A refused call: the error callback runs at once, with the mutex still held.\<close>

datatype begin_result = BeginRefused "user_call option" | BeginThrew | BeginSends "wire list"

definition rt_begin_utterance ::
  "'s rt_env \<Rightarrow> time_point \<Rightarrow> turn_id \<Rightarrow> token option \<Rightarrow> utterance_callbacks \<Rightarrow> 's rt_client \<Rightarrow>
     begin_result \<times> 's rt_client" where
  "rt_begin_utterance e now turn cancel cb c =
     (if rt_state c \<noteq> RtReady
      then (BeginRefused (if uc_error cb then Some (CallError (uc_owner cb) ''realtime stt session not Ready'') else None), c)
      else let c1 = (clear_active c)\<lparr>rt_active := True, rt_turn := turn, rt_cancel := cancel, rt_cb := Some cb,
                      rt_utterance_start := now\<rparr>
           in case resampler_new (re_soxr e) 16000 24000 of
                Ok r \<Rightarrow> (BeginSends [WClear], c1\<lparr>rt_resampler := Some r\<rparr>)
              | _ \<Rightarrow> (BeginThrew, c1))"

definition pcm_base64 :: "sample list \<Rightarrow> string" where
  "pcm_base64 xs = base64_encode (map (\<lambda>b. char_of (unat b)) (concat (map u16le xs)))"

definition rt_push_audio ::
  "'s rt_env \<Rightarrow> heap \<Rightarrow> sample list \<Rightarrow> 's rt_client \<Rightarrow> wire list outcome \<times> 's rt_client" where
  "rt_push_audio e h xs c =
     (case rt_resampler c of
        None \<Rightarrow> (Ok [], c)
      | Some r \<Rightarrow>
          if \<not> rt_active c \<or> utterance_cancelled h c then (Ok [], c)
          else case resampler_process (re_soxr e) xs r of
              Ok (out, r') \<Rightarrow> (Ok (if out = [] then [] else [WAppend (pcm_base64 out)]), c\<lparr>rt_resampler := Some r'\<rparr>)
            | _ \<Rightarrow> (Throw, c))"

text \<open>\<open>None\<close> when draining the resampler never ends.\<close>

definition rt_end_utterance :: "'s rt_env \<Rightarrow> 's rt_client \<Rightarrow> (wire list outcome \<times> 's rt_client) option" where
  "rt_end_utterance e c =
     (case rt_resampler c of
        None \<Rightarrow> Some (Ok [], c)
      | Some r \<Rightarrow>
          if \<not> rt_active c then Some (Ok [], c)
          else map_option (\<lambda>flushed. case flushed of
              Ok (tail, _) \<Rightarrow>
                (Ok ((if tail = [] then [] else [WAppend (pcm_base64 tail)]) @ [WCommit]), c\<lparr>rt_resampler := None\<rparr>)
            | _ \<Rightarrow> (Throw, c)) (resampler_flush (re_soxr e) [] r))"

definition wire_json :: "string \<Rightarrow> string \<Rightarrow> string \<Rightarrow> wire \<Rightarrow> string" where
  "wire_json event_id model language w =
     (case w of
        WSessionUpdate \<Rightarrow> build_session_update_json event_id model language
      | WClear \<Rightarrow> build_simple_json event_id ''input_audio_buffer.clear''
      | WAppend audio \<Rightarrow> build_append_json event_id audio
      | WCommit \<Rightarrow> build_simple_json event_id ''input_audio_buffer.commit'')"

section \<open>Bringing the session up\<close>

text \<open>
  \<open>start\<close> runs in the caller's thread and takes the mutex for each wait, each test and each state
  change; between them the other threads run. \<open>SGiveUp\<close> is the point after a log line where the
  state is set to Failed.
\<close>

datatype start_pc =
    SIdle | SWaitIce | SCheckIce | SPost | SWaitPeer | SCheckPeer | SWaitOpen | SCheckOpen
  | SConfigure | SSendUpdate | SWaitReady | SLastLook | SGiveUp | SReturned bool

definition rt_start_call :: "'s rt_client \<Rightarrow> start_pc \<times> 's rt_client" where
  "rt_start_call c =
     (if rt_state c \<noteq> RtIdle then (SReturned False, c) else (SWaitIce, c\<lparr>rt_state := RtConnecting\<rparr>))"

text \<open>The local description, the exchange of the offer for an answer, and the test of the answer.\<close>

definition offer_accepted :: "string \<Rightarrow> string option \<Rightarrow> (nat \<times> string) option \<Rightarrow> bool" where
  "offer_accepted url local_description response =
     (local_description \<noteq> None \<and> bu_ok (parse_base_url url) \<and>
      (case response of None \<Rightarrow> False | Some (status, body) \<Rightarrow> status = 200 \<and> take 3 body = ''v=0''))"

text \<open>The condition each wait tests; a wait whose condition holds goes on, otherwise only its deadline ends it.\<close>

definition start_ready :: "start_pc \<Rightarrow> 's rt_client \<Rightarrow> bool" where
  "start_ready pc c =
     (case pc of
        SWaitIce \<Rightarrow> rt_ice_gathered c \<or> rt_state c = RtFailed
      | SWaitPeer \<Rightarrow> rt_peer c = PeerConnected \<or> rt_state c = RtFailed
      | SWaitOpen \<Rightarrow> rt_channel_open c \<or> rt_state c = RtFailed
      | SWaitReady \<Rightarrow> rt_state c = RtReady \<or> rt_state c = RtFailed
      | _ \<Rightarrow> True)"

definition start_waits :: "start_pc \<Rightarrow> bool" where
  "start_waits pc \<longleftrightarrow> pc \<in> {SWaitIce, SWaitPeer, SWaitOpen, SWaitReady}"

text \<open>One step of \<open>start\<close>; \<open>timed_out\<close> and \<open>accepted\<close> are the outcomes the step depends on.\<close>

definition start_step :: "bool \<Rightarrow> bool \<Rightarrow> start_pc \<Rightarrow> 's rt_client \<Rightarrow> start_pc \<times> 's rt_client \<times> wire list" where
  "start_step timed_out accepted pc c =
     (if start_waits pc \<and> \<not> start_ready pc c then (if timed_out then SGiveUp else pc, c, [])
      else case pc of
        SWaitIce \<Rightarrow> (SCheckIce, c, [])
      | SCheckIce \<Rightarrow> (if rt_state c = RtFailed then SReturned False else SPost, c, [])
      | SPost \<Rightarrow> (if accepted then SWaitPeer else SGiveUp, c, [])
      | SWaitPeer \<Rightarrow> (SCheckPeer, c, [])
      | SCheckPeer \<Rightarrow> (if rt_state c = RtFailed then SReturned False else SWaitOpen, c, [])
      | SWaitOpen \<Rightarrow> (SCheckOpen, c, [])
      | SCheckOpen \<Rightarrow> (if rt_state c = RtFailed then SReturned False else SConfigure, c, [])
      | SConfigure \<Rightarrow> (SSendUpdate, c\<lparr>rt_state := RtConfiguring\<rparr>, [])
      | SSendUpdate \<Rightarrow> (SWaitReady, c, [WSessionUpdate])
      | SWaitReady \<Rightarrow> (SLastLook, c, [])
      | SLastLook \<Rightarrow> (SReturned (rt_state c = RtReady), c, [])
      | SGiveUp \<Rightarrow> (SReturned False, c\<lparr>rt_state := RtFailed\<rparr>, [])
      | _ \<Rightarrow> (pc, c, []))"

section \<open>All threads together\<close>

datatype rt_thread = TBegin | TEnd | TAudio

text \<open>
  What a thread has decided under the mutex and not yet sent is in \<open>rr_out\<close>; the callback the data
  channel's thread is about to run is in \<open>rr_dc\<close>. \<open>rr_wire\<close> and \<open>rr_calls\<close> are what was sent and
  called so far, \<open>rr_begun\<close> the calls of \<open>begin_utterance\<close>.
\<close>

record 's rt_run =
  rr_client :: "'s rt_client"
  rr_heap :: heap
  rr_start :: start_pc
  rr_dc :: "user_call option"
  rr_out :: "rt_thread \<Rightarrow> wire list"
  rr_wire :: "wire list"
  rr_calls :: "user_call list"
  rr_begun :: "(utterance_callbacks \<times> turn_id) list"

definition rr_new :: "'s rt_run" where
  "rr_new =
     \<lparr>rr_client = rt_new, rr_heap = [], rr_start = SIdle, rr_dc = None, rr_out = (\<lambda>_. []), rr_wire = [],
      rr_calls = [], rr_begun = []\<rparr>"

definition opt_list :: "'a option \<Rightarrow> 'a list" where
  "opt_list x = (case x of None \<Rightarrow> [] | Some y \<Rightarrow> [y])"

text \<open>\<open>begin_utterance\<close> up to the release of the mutex.\<close>

definition rr_begin ::
  "'s rt_env \<Rightarrow> time_point \<Rightarrow> turn_id \<Rightarrow> token option \<Rightarrow> utterance_callbacks \<Rightarrow> 's rt_run \<Rightarrow> 's rt_run" where
  "rr_begin e now turn cancel cb s =
     (let (res, c) = rt_begin_utterance e now turn cancel cb (rr_client s);
          s1 = s\<lparr>rr_client := c, rr_begun := rr_begun s @ [(cb, turn)]\<rparr>
      in case res of
           BeginRefused call \<Rightarrow> s1\<lparr>rr_calls := rr_calls s @ opt_list call\<rparr>
         | BeginThrew \<Rightarrow> s1
         | BeginSends ws \<Rightarrow> s1\<lparr>rr_out := (rr_out s)(TBegin := ws)\<rparr>)"

inductive rt_step :: "'s rt_env \<Rightarrow> 's rt_run \<Rightarrow> 's rt_run \<Rightarrow> bool" for e where
  start_called: "rr_start s = SIdle \<Longrightarrow> rt_start_call (rr_client s) = (pc, c) \<Longrightarrow>
    rt_step e s (s\<lparr>rr_start := pc, rr_client := c\<rparr>)"
| start_runs: "rr_start s \<noteq> SIdle \<Longrightarrow> accepted = offer_accepted (re_base_url e) description response \<Longrightarrow>
    start_step timed_out accepted (rr_start s) (rr_client s) = (pc, c, ws) \<Longrightarrow>
    rt_step e s (s\<lparr>rr_start := pc, rr_client := c, rr_wire := rr_wire s @ ws\<rparr>)"
| gathered: "rt_step e s (s\<lparr>rr_client := rt_on_gathered (rr_client s)\<rparr>)"
| opened: "rt_step e s (s\<lparr>rr_client := rt_on_open (rr_client s)\<rparr>)"
| peer: "rt_step e s (s\<lparr>rr_client := rt_on_peer_state p (rr_client s)\<rparr>)"
| message: "rr_dc s = None \<Longrightarrow> rt_on_message e (rr_heap s) now raw (rr_client s) = (call, c) \<Longrightarrow>
    rt_step e s (s\<lparr>rr_client := c, rr_dc := call\<rparr>)"
| called: "rr_dc s = Some call \<Longrightarrow> rt_step e s (s\<lparr>rr_dc := None, rr_calls := rr_calls s @ [call]\<rparr>)"
| begins: "rr_out s TBegin = [] \<Longrightarrow> uc_owner cb \<notin> (\<lambda>(b, _). uc_owner b) ` set (rr_begun s) \<Longrightarrow>
    rt_step e s (rr_begin e now turn cancel cb s)"
| pushes: "rr_out s TAudio = [] \<Longrightarrow> rt_push_audio e (rr_heap s) xs (rr_client s) = (sent, c) \<Longrightarrow>
    rt_step e s (s\<lparr>rr_client := c, rr_out := (rr_out s)(TAudio := (case sent of Ok ws \<Rightarrow> ws | _ \<Rightarrow> []))\<rparr>)"
| ends: "rr_out s TEnd = [] \<Longrightarrow> rt_end_utterance e (rr_client s) = Some (sent, c) \<Longrightarrow>
    rt_step e s (s\<lparr>rr_client := c, rr_out := (rr_out s)(TEnd := (case sent of Ok ws \<Rightarrow> ws | _ \<Rightarrow> []))\<rparr>)"
| stops: "rt_step e s (s\<lparr>rr_client := rt_stop (rr_client s)\<rparr>)"
| sends: "rr_out s t = w # ws \<Longrightarrow>
    rt_step e s (s\<lparr>rr_out := (rr_out s)(t := ws), rr_wire := rr_wire s @ [w]\<rparr>)"
| cancels: "rt_step e s (s\<lparr>rr_heap := cancel_token k (rr_heap s)\<rparr>)"
| allocates: "rt_step e s (s\<lparr>rr_heap := snd (new_token (rr_heap s))\<rparr>)"

inductive rt_reachable :: "'s rt_env \<Rightarrow> 's rt_run \<Rightarrow> bool" for e where
  rt_init: "rt_reachable e rr_new"
| rt_next: "rt_reachable e s \<Longrightarrow> rt_step e s s' \<Longrightarrow> rt_reachable e s'"

section \<open>What one utterance's callbacks are told\<close>

definition call_owner :: "user_call \<Rightarrow> nat" where
  "call_owner x = (case x of CallPartial k _ \<Rightarrow> k | CallFinal k _ \<Rightarrow> k | CallError k _ \<Rightarrow> k)"

definition calls_of :: "nat \<Rightarrow> user_call list \<Rightarrow> user_call list" where
  "calls_of k xs = filter (\<lambda>x. call_owner x = k) xs"

text \<open>The partial transcripts that the deltas \<open>ds\<close> give rise to: numbered from one, each the text so far.\<close>

definition partial_calls :: "nat \<Rightarrow> turn_id \<Rightarrow> string list \<Rightarrow> user_call list" where
  "partial_calls k t ds =
     map (\<lambda>i. CallPartial k
       \<lparr>pt_turn = t, pt_text = concat (take (Suc i) ds), pt_lang = [],
        pt_stable_prefix_len = length (concat (take (Suc i) ds)), pt_seq = word_of_nat (Suc i), pt_confidence = Fin 0\<rparr>)
       [0..<length ds]"

definition partials_of :: "utterance_callbacks \<Rightarrow> turn_id \<Rightarrow> string list \<Rightarrow> user_call list" where
  "partials_of cb t ds = (if uc_partial cb then partial_calls (uc_owner cb) t ds else [])"

text \<open>At most one last call: the final transcript of that turn, or one error.\<close>

fun last_call :: "utterance_callbacks \<Rightarrow> turn_id \<Rightarrow> user_call list \<Rightarrow> bool" where
  "last_call cb t [] = True"
| "last_call cb t [CallFinal k f] = (k = uc_owner cb \<and> uc_final cb \<and> ft_turn f = t)"
| "last_call cb t [CallError k m] = (k = uc_owner cb \<and> uc_error cb)"
| "last_call cb t _ = False"

definition utterance_told :: "utterance_callbacks \<Rightarrow> turn_id \<Rightarrow> user_call list \<Rightarrow> bool" where
  "utterance_told cb t xs \<longleftrightarrow> (\<exists>ds ys. xs = partials_of cb t ds @ ys \<and> last_call cb t ys)"

lemma partials_of_Nil [simp]: "partials_of cb t [] = []"
  by (simp add: partials_of_def partial_calls_def)

lemma partials_of_snoc:
  "partials_of cb t (ds @ [d]) = partials_of cb t ds @
    (if uc_partial cb then [CallPartial (uc_owner cb)
       \<lparr>pt_turn = t, pt_text = concat ds @ d, pt_lang = [], pt_stable_prefix_len = length (concat ds @ d),
        pt_seq = word_of_nat (length ds) + 1, pt_confidence = Fin 0\<rparr>] else [])"
  by (simp add: partials_of_def partial_calls_def add.commute)

lemma told_partials: "utterance_told cb t (partials_of cb t ds)"
  unfolding utterance_told_def by (rule exI[of _ ds], rule exI[of _ "[]"]) simp

lemma told_last: "last_call cb t ys \<Longrightarrow> utterance_told cb t (partials_of cb t ds @ ys)"
  unfolding utterance_told_def by blast

lemma calls_of_append [simp]: "calls_of k (xs @ ys) = calls_of k xs @ calls_of k ys"
  by (simp add: calls_of_def)

lemma calls_of_Nil [simp]: "calls_of k [] = []"
  by (simp add: calls_of_def)

lemma opt_list_simps [simp]: "opt_list None = []" "opt_list (Some x) = [x]"
  by (simp_all add: opt_list_def)

definition owners :: "(utterance_callbacks \<times> turn_id) list \<Rightarrow> nat set" where
  "owners b = (\<lambda>(cb, _). uc_owner cb) ` set b"

lemma owners_simps [simp]: "owners [] = {}" "owners (b @ b') = owners b \<union> owners b'" "owners [(cb, t)] = {uc_owner cb}"
  by (simp_all add: owners_def image_Un)

text \<open>The client and what each owner was told, \<open>F\<close>, agree.\<close>

definition rt_ok :: "'s rt_client \<Rightarrow> (nat \<Rightarrow> user_call list) \<Rightarrow> (utterance_callbacks \<times> turn_id) list \<Rightarrow> bool" where
  "rt_ok c F b \<longleftrightarrow>
     distinct (map (\<lambda>(cb, _). uc_owner cb) b) \<and>
     (\<forall>(cb, t) \<in> set b. utterance_told cb t (F (uc_owner cb))) \<and>
     (\<forall>k. k \<notin> owners b \<longrightarrow> F k = []) \<and>
     (rt_active c \<longrightarrow> (\<exists>cb ds. rt_cb c = Some cb \<and> (cb, rt_turn c) \<in> set b \<and>
        F (uc_owner cb) = partials_of cb (rt_turn c) ds \<and> concat ds = rt_partial_text c \<and>
        word_of_nat (length ds) = rt_partial_seq c))"

definition rt_core :: "'s rt_client \<Rightarrow> bool \<times> turn_id \<times> utterance_callbacks option \<times> string \<times> seq_no" where
  "rt_core c = (rt_active c, rt_turn c, rt_cb c, rt_partial_text c, rt_partial_seq c)"

lemma rt_ok_keep: "rt_ok c F b \<Longrightarrow> \<not> rt_active c' \<or> rt_core c' = rt_core c \<Longrightarrow> rt_ok c' F b"
  unfolding rt_ok_def rt_core_def by auto

lemma clear_active_inactive [simp]: "\<not> rt_active (clear_active c)"
  by (simp add: clear_active_def)

lemma owners_same:
  "distinct (map (\<lambda>(cb, _). uc_owner cb) b) \<Longrightarrow> (cb, t) \<in> set b \<Longrightarrow> (cb', t') \<in> set b \<Longrightarrow>
   uc_owner cb = uc_owner cb' \<Longrightarrow> cb = cb' \<and> t = t'"
  by (induction b) (auto, force+)

lemma rt_ok_partial:
  assumes "rt_ok c F b" and "rt_active c" and "rt_cb c = Some cb"
    and "x = (if uc_partial cb then [CallPartial (uc_owner cb)
       \<lparr>pt_turn = rt_turn c, pt_text = rt_partial_text c @ d, pt_lang = [],
        pt_stable_prefix_len = length (rt_partial_text c @ d),
        pt_seq = rt_partial_seq c + 1, pt_confidence = Fin 0\<rparr>] else [])"
  shows "rt_ok (c\<lparr>rt_partial_text := rt_partial_text c @ d, rt_partial_seq := rt_partial_seq c + 1\<rparr>)
    (\<lambda>k. F k @ calls_of k x) b"
proof -
  obtain ds where ds: "(cb, rt_turn c) \<in> set b" "F (uc_owner cb) = partials_of cb (rt_turn c) ds"
      "concat ds = rt_partial_text c" "word_of_nat (length ds) = rt_partial_seq c"
    using assms(1-3) unfolding rt_ok_def by auto
  have new: "F (uc_owner cb) @ calls_of (uc_owner cb) x = partials_of cb (rt_turn c) (ds @ [d])"
    by (simp add: ds(2-4) partials_of_snoc assms(4) calls_of_def call_owner_def)
  have other: "calls_of k x = []" if "k \<noteq> uc_owner cb" for k
    using that by (simp add: assms(4) calls_of_def call_owner_def)
  have dist: "distinct (map (\<lambda>(cb, _). uc_owner cb) b)" and
    told: "\<And>cb t. (cb, t) \<in> set b \<Longrightarrow> utterance_told cb t (F (uc_owner cb))" and
    none: "\<And>k. k \<notin> owners b \<Longrightarrow> F k = []"
    using assms(1) unfolding rt_ok_def by auto
  have mine: "uc_owner cb \<in> owners b" using ds(1) by (force simp: owners_def)
  have "utterance_told cb' t' (F (uc_owner cb') @ calls_of (uc_owner cb') x)" if m: "(cb', t') \<in> set b" for cb' t'
  proof (cases "uc_owner cb' = uc_owner cb")
    case True
    then have "cb' = cb" "t' = rt_turn c" using owners_same[OF dist m ds(1)] by auto
    then show ?thesis using new told_partials by simp
  next
    case False
    then show ?thesis using other told[OF m] by simp
  qed
  moreover have "F k @ calls_of k x = []" if "k \<notin> owners b" for k
    using that mine none other by (cases "k = uc_owner cb") auto
  moreover have "concat (ds @ [d]) = rt_partial_text c @ d" "word_of_nat (length (ds @ [d])) = rt_partial_seq c + 1"
    using ds(3,4) by (simp_all add: add.commute)
  ultimately show ?thesis
    unfolding rt_ok_def using dist ds(1) new assms(2,3) by auto
qed

lemma rt_ok_last:
  assumes "rt_ok c F b" and "rt_active c" and "rt_cb c = Some cb" and "last_call cb (rt_turn c) x"
    and "\<not> rt_active c'"
  shows "rt_ok c' (\<lambda>k. F k @ calls_of k x) b"
proof -
  obtain ds where ds: "(cb, rt_turn c) \<in> set b" "F (uc_owner cb) = partials_of cb (rt_turn c) ds"
    using assms(1-3) unfolding rt_ok_def by auto
  have own: "calls_of (uc_owner cb) x = x" and other: "\<And>k. k \<noteq> uc_owner cb \<Longrightarrow> calls_of k x = []"
    using assms(4) by (cases "(cb, rt_turn c, x)" rule: last_call.cases; auto simp: calls_of_def call_owner_def)+
  have dist: "distinct (map (\<lambda>(cb, _). uc_owner cb) b)" and
    told: "\<And>cb t. (cb, t) \<in> set b \<Longrightarrow> utterance_told cb t (F (uc_owner cb))" and
    none: "\<And>k. k \<notin> owners b \<Longrightarrow> F k = []"
    using assms(1) unfolding rt_ok_def by auto
  have mine: "uc_owner cb \<in> owners b" using ds(1) by (force simp: owners_def)
  have "utterance_told cb' t' (F (uc_owner cb') @ calls_of (uc_owner cb') x)" if m: "(cb', t') \<in> set b" for cb' t'
  proof (cases "uc_owner cb' = uc_owner cb")
    case True
    then have "cb' = cb" "t' = rt_turn c" using owners_same[OF dist m ds(1)] by auto
    then show ?thesis using ds(2) own assms(4) told_last by simp
  next
    case False
    then show ?thesis using other told[OF m] by simp
  qed
  moreover have "F k @ calls_of k x = []" if "k \<notin> owners b" for k
    using that mine none other by (cases "k = uc_owner cb") auto
  ultimately show ?thesis
    unfolding rt_ok_def using dist assms(5) by auto
qed

lemma rt_ok_cb: "rt_ok c F b \<Longrightarrow> rt_active c \<Longrightarrow> \<exists>cb. rt_cb c = Some cb"
  unfolding rt_ok_def by auto

lemma rt_ok_on_partial:
  assumes "rt_ok c F b" and "rt_on_partial h item d c = (call, c')"
  shows "rt_ok c' (\<lambda>k. F k @ calls_of k (opt_list call)) b"
proof (cases "rt_active c \<and> item = rt_item_id c \<and> \<not> utterance_cancelled h c")
  case True
  then obtain cb where cb: "rt_cb c = Some cb" using rt_ok_cb assms(1) by blast
  then show ?thesis
    using rt_ok_partial[OF assms(1) _ cb refl, of d] assms(2) True
    by (auto simp: rt_on_partial_def Let_def split: if_splits)
next
  case False
  then have "call = None" "c' = c" using assms(2) by (auto simp: rt_on_partial_def split: if_splits)
  then show ?thesis using assms(1) by simp
qed

lemma rt_ok_on_final:
  assumes "rt_ok c F b" and "rt_on_final h l now item x y c = (call, c')"
  shows "rt_ok c' (\<lambda>k. F k @ calls_of k (opt_list call)) b"
proof (cases "rt_active c \<and> item = rt_item_id c \<and> \<not> utterance_cancelled h c")
  case True
  then obtain cb where cb: "rt_cb c = Some cb" using rt_ok_cb assms(1) by blast
  have "last_call cb (rt_turn c) (opt_list call)" "\<not> rt_active c'"
    using assms(2) True cb by (auto simp: rt_on_final_def Let_def split: if_splits)
  then show ?thesis using rt_ok_last[OF assms(1) _ cb] True by blast
next
  case False
  then have "call = None" "c' = c \<or> c' = clear_active c" using assms(2) by (auto simp: rt_on_final_def split: if_splits)
  then show ?thesis using rt_ok_keep[OF assms(1), of c'] by auto
qed

lemma rt_ok_on_error:
  assumes "rt_ok c F b" and "rt_on_server_error m c = (call, c')"
  shows "rt_ok c' (\<lambda>k. F k @ calls_of k (opt_list call)) b"
proof (cases "rt_active c")
  case True
  then obtain cb where cb: "rt_cb c = Some cb" using rt_ok_cb assms(1) by blast
  have "last_call cb (rt_turn c) (opt_list call)" "\<not> rt_active c'"
    using assms(2) True cb by (auto simp: rt_on_server_error_def Let_def split: if_splits)
  then show ?thesis using rt_ok_last[OF assms(1) _ cb] True by blast
next
  case False
  then have "call = None" "c' = c" using assms(2) by (auto simp: rt_on_server_error_def)
  then show ?thesis using assms(1) by simp
qed

lemma rt_ok_server_event:
  assumes "rt_ok c F b" and "rt_on_server_event h l now ev c = (call, c')"
  shows "rt_ok c' (\<lambda>k. F k @ calls_of k (opt_list call)) b"
proof (cases ev)
  case (SvCommitted i)
  then have "call = None" "rt_core c' = rt_core c" using assms(2) by (auto simp: rt_core_def split: if_splits)
  then show ?thesis using rt_ok_keep[OF assms(1), of c'] by simp
next
  case SvUpdated
  then have "call = None" "rt_core c' = rt_core c" using assms(2) by (auto simp: rt_core_def split: if_splits)
  then show ?thesis using rt_ok_keep[OF assms(1), of c'] by simp
qed (use assms rt_ok_on_partial rt_ok_on_final rt_ok_on_error in auto)

lemma rt_ok_message:
  assumes "rt_ok c F b" and "rt_on_message e h now raw c = (call, c')"
  shows "rt_ok c' (\<lambda>k. F k @ calls_of k (opt_list call)) b"
proof -
  obtain inner r where f: "feed_raw (re_read_envelope e) raw (rt_reassembler c) = (inner, r)" by fastforce
  have c1: "rt_ok (c\<lparr>rt_reassembler := r\<rparr>) F b" by (rule rt_ok_keep[OF assms(1)]) (simp add: rt_core_def)
  show ?thesis
  proof (cases "inner = None \<or> dispatch (re_json e) (the inner) = None")
    case True
    then have "call = None" "c' = c\<lparr>rt_reassembler := r\<rparr>"
      using assms(2) f by (auto simp: rt_on_message_def Let_def split: option.splits)
    then show ?thesis using c1 by simp
  next
    case False
    then show ?thesis
      using assms(2) f rt_ok_server_event[OF c1] by (auto simp: rt_on_message_def Let_def split: option.splits)
  qed
qed

lemma rt_ok_begin:
  assumes "rt_ok c F b" and "uc_owner cb \<notin> owners b"
    and "rt_begin_utterance e now turn cancel cb c = (res, c')"
    and "x = (case res of BeginRefused call \<Rightarrow> opt_list call | _ \<Rightarrow> [])"
  shows "rt_ok c' (\<lambda>k. F k @ calls_of k x) (b @ [(cb, turn)])"
proof -
  have own: "F (uc_owner cb) = []" using assms(1,2) by (simp add: rt_ok_def)
  have x: "last_call cb turn x"
    using assms(3,4) by (auto simp: rt_begin_utterance_def Let_def split: if_splits outcome.splits)
  have xo: "calls_of (uc_owner cb) x = x" "\<And>k. k \<noteq> uc_owner cb \<Longrightarrow> calls_of k x = []"
    using x by (cases "(cb, turn, x)" rule: last_call.cases; auto simp: calls_of_def call_owner_def)+
  have "utterance_told cb turn x" using told_last[OF x, of "[]"] by simp
  moreover have "uc_owner cb' \<noteq> uc_owner cb" if "(cb', t') \<in> set b" for cb' t'
    using that assms(2) by (force simp: owners_def)
  ultimately have told: "\<forall>(cb', t') \<in> set (b @ [(cb, turn)]). utterance_told cb' t' (F (uc_owner cb') @ calls_of (uc_owner cb') x)"
    using assms(1) own xo by (auto simp: rt_ok_def)
  have dist: "distinct (map (\<lambda>(cb, _). uc_owner cb) (b @ [(cb, turn)]))"
    using assms(1,2) by (auto simp: rt_ok_def owners_def)
  have none: "\<forall>k. k \<notin> owners (b @ [(cb, turn)]) \<longrightarrow> F k @ calls_of k x = []"
    using assms(1) xo by (auto simp: rt_ok_def)
  consider "rt_state c \<noteq> RtReady" "c' = c" | "rt_state c = RtReady" "rt_active c'" "rt_cb c' = Some cb" "rt_turn c' = turn"
      "rt_partial_text c' = []" "rt_partial_seq c' = 0" "x = []"
    using assms(3,4) by (cases "rt_state c = RtReady")
      (auto simp: rt_begin_utterance_def clear_active_def Let_def split: outcome.splits)
  then have act: "rt_active c' \<longrightarrow> (\<exists>cb' ds. rt_cb c' = Some cb' \<and> (cb', rt_turn c') \<in> set (b @ [(cb, turn)]) \<and>
        F (uc_owner cb') @ calls_of (uc_owner cb') x = partials_of cb' (rt_turn c') ds \<and> concat ds = rt_partial_text c' \<and>
        word_of_nat (length ds) = rt_partial_seq c')"
  proof cases
    case 1
    show ?thesis
    proof
      assume "rt_active c'"
      then obtain cb' ds where o: "rt_cb c = Some cb'" "(cb', rt_turn c) \<in> set b"
          "F (uc_owner cb') = partials_of cb' (rt_turn c) ds" "concat ds = rt_partial_text c"
          "word_of_nat (length ds) = rt_partial_seq c"
        using assms(1) 1(2) by (auto simp: rt_ok_def)
      moreover have "uc_owner cb' \<noteq> uc_owner cb" using o(2) assms(2) by (force simp: owners_def)
      ultimately show "\<exists>cb' ds. rt_cb c' = Some cb' \<and> (cb', rt_turn c') \<in> set (b @ [(cb, turn)]) \<and>
        F (uc_owner cb') @ calls_of (uc_owner cb') x = partials_of cb' (rt_turn c') ds \<and> concat ds = rt_partial_text c' \<and>
        word_of_nat (length ds) = rt_partial_seq c'"
        using xo 1(2) by (intro exI[of _ cb'] exI[of _ ds]) simp
    qed
  next
    case 2
    then show ?thesis using own by (intro impI exI[of _ cb] exI[of _ "[]"]) simp
  qed
  show ?thesis unfolding rt_ok_def using dist told none act by blast
qed

section \<open>Every run\<close>

definition told_to :: "'s rt_run \<Rightarrow> nat \<Rightarrow> user_call list" where
  "told_to s k = calls_of k (rr_calls s @ opt_list (rr_dc s))"

definition rr_ok :: "'s rt_run \<Rightarrow> bool" where
  "rr_ok s \<longleftrightarrow> rt_ok (rr_client s) (told_to s) (rr_begun s)"

lemma rr_ok_keep:
  "rr_ok s \<Longrightarrow> \<not> rt_active (rr_client s') \<or> rt_core (rr_client s') = rt_core (rr_client s) \<Longrightarrow>
   told_to s' = told_to s \<Longrightarrow> rr_begun s' = rr_begun s \<Longrightarrow> rr_ok s'"
  unfolding rr_ok_def using rt_ok_keep by metis

lemma start_step_core: "start_step a b pc c = (pc', c', ws) \<Longrightarrow> rt_core c' = rt_core c"
  by (auto simp: start_step_def rt_core_def split: if_splits start_pc.splits)

lemma push_core: "rt_push_audio e h xs c = (r, c') \<Longrightarrow> rt_core c' = rt_core c"
  by (auto simp: rt_push_audio_def rt_core_def split: if_splits option.splits outcome.splits)

lemma end_core: "rt_end_utterance e c = Some (r, c') \<Longrightarrow> rt_core c' = rt_core c"
proof -
  assume a: "rt_end_utterance e c = Some (r, c')"
  have "c' = c \<or> c' = c\<lparr>rt_resampler := None\<rparr>"
  proof (cases "rt_resampler c = None \<or> \<not> rt_active c")
    case True
    then show ?thesis using a by (auto simp: rt_end_utterance_def split: option.splits)
  next
    case False
    then obtain q where q: "rt_resampler c = Some q" "rt_active c" by auto
    with a obtain y where "resampler_flush (re_soxr e) [] q = Some y" by (auto simp: rt_end_utterance_def)
    with a q show ?thesis by (cases y) (auto simp: rt_end_utterance_def)
  qed
  then show ?thesis by (auto simp: rt_core_def)
qed

lemma stop_core: "\<not> rt_active (rt_stop c) \<or> rt_core (rt_stop c) = rt_core c"
  by (simp add: rt_stop_def)

lemma rr_ok_step:
  assumes "rt_step e s s'" and "rr_ok s"
  shows "rr_ok s'"
  using assms
proof cases
  case (start_called pc c)
  then have "rt_core c = rt_core (rr_client s)" by (auto simp: rt_start_call_def rt_core_def split: if_splits)
  with start_called show ?thesis by (intro rr_ok_keep[OF assms(2)]) (simp_all add: told_to_def fun_eq_iff)
next
  case (start_runs accepted d r timed_out pc c ws)
  then show ?thesis
    using start_step_core by (intro rr_ok_keep[OF assms(2)]) (auto simp: told_to_def fun_eq_iff)
next
  case gathered
  then show ?thesis
    by (intro rr_ok_keep[OF assms(2)]) (auto simp: told_to_def fun_eq_iff rt_core_def rt_on_gathered_def)
next
  case opened
  then show ?thesis
    by (intro rr_ok_keep[OF assms(2)]) (auto simp: told_to_def fun_eq_iff rt_core_def rt_on_open_def)
next
  case (peer p)
  then show ?thesis
    by (intro rr_ok_keep[OF assms(2)]) (auto simp: told_to_def fun_eq_iff rt_core_def rt_on_peer_state_def Let_def)
next
  case (message now raw call c)
  have "told_to s' = (\<lambda>k. told_to s k @ calls_of k (opt_list call))"
    using message by (simp add: told_to_def fun_eq_iff)
  then show ?thesis
    using rt_ok_message[OF assms(2)[unfolded rr_ok_def] message(3)] message(1) by (simp add: rr_ok_def)
next
  case (called call)
  then show ?thesis by (intro rr_ok_keep[OF assms(2)]) (auto simp: told_to_def fun_eq_iff)
next
  case (begins cb now turn cancel)
  obtain res c where r: "rt_begin_utterance e now turn cancel cb (rr_client s) = (res, c)" by fastforce
  let ?x = "case res of BeginRefused call \<Rightarrow> opt_list call | _ \<Rightarrow> []"
  have fresh: "uc_owner cb \<notin> owners (rr_begun s)" using begins by (simp add: owners_def)
  note ok = rt_ok_begin[OF assms(2)[unfolded rr_ok_def] fresh r refl]
  have "told_to s' = (\<lambda>k. told_to s k @ calls_of k ?x)"
  proof
    fix k
    show "told_to s' k = told_to s k @ calls_of k ?x"
  proof (cases "k = uc_owner cb")
    case True
    have "told_to s k = []" using assms(2) fresh True by (simp add: rr_ok_def rt_ok_def)
    then show ?thesis using begins(1) r by (auto simp: rr_begin_def told_to_def split: begin_result.splits)
  next
    case False
    have "calls_of k ?x = []"
      using r False by (auto simp: rt_begin_utterance_def calls_of_def call_owner_def Let_def split: if_splits outcome.splits)
    then show ?thesis using begins(1) r by (auto simp: rr_begin_def told_to_def split: begin_result.splits)
  qed
  qed
  moreover have "rr_client s' = c" "rr_begun s' = rr_begun s @ [(cb, turn)]"
    using begins(1) r by (auto simp: rr_begin_def Let_def split: begin_result.splits)
  ultimately show ?thesis using ok by (simp add: rr_ok_def)
next
  case (pushes xs sent c)
  then show ?thesis
    using push_core by (intro rr_ok_keep[OF assms(2)]) (auto simp: told_to_def fun_eq_iff)
next
  case (ends sent c)
  then show ?thesis
    using end_core by (intro rr_ok_keep[OF assms(2)]) (auto simp: told_to_def fun_eq_iff)
next
  case stops
  then show ?thesis
    using stop_core by (intro rr_ok_keep[OF assms(2)]) (auto simp: told_to_def fun_eq_iff)
qed (intro rr_ok_keep[OF assms(2)]; auto simp: told_to_def fun_eq_iff)+

lemma rr_ok_reachable: "rt_reachable e s \<Longrightarrow> rr_ok s"
proof (induction rule: rt_reachable.induct)
  case rt_init
  show ?case by (simp add: rr_ok_def rt_ok_def rr_new_def rt_new_def told_to_def)
qed (rule rr_ok_step)

lemma callbacks_told:
  "rt_reachable e s \<Longrightarrow> (cb, t) \<in> set (rr_begun s) \<Longrightarrow> utterance_told cb t (told_to s (uc_owner cb))"
  using rr_ok_reachable[of e s] by (auto simp: rr_ok_def rt_ok_def)

section \<open>A session that comes up\<close>

definition session_state :: "start_pc \<Rightarrow> 's rt_client \<Rightarrow> wire list \<Rightarrow> 's rt_run" where
  "session_state pc c w = rr_new\<lparr>rr_start := pc, rr_client := c, rr_wire := w\<rparr>"

lemma session_start_step:
  assumes "rt_reachable e (session_state pc c w)" and "pc \<noteq> SIdle"
    and "offer_accepted (re_base_url e) d r" and "start_step False True pc c = (pc', c', ws)"
  shows "rt_reachable e (session_state pc' c' (w @ ws))"
proof -
  have "rt_step e (session_state pc c w)
      ((session_state pc c w)\<lparr>rr_start := pc', rr_client := c', rr_wire := rr_wire (session_state pc c w) @ ws\<rparr>)"
    by (rule rt_step.start_runs[where description = d and response = r and timed_out = False and accepted = True])
      (use assms in \<open>simp_all add: session_state_def rr_new_def\<close>)
  from rt_next[OF assms(1) this] show ?thesis by (simp add: session_state_def rr_new_def)
qed

lemma session_network_step:
  assumes "rt_reachable e (session_state pc c w)"
    and "c' = rt_on_gathered c \<or> c' = rt_on_open c \<or> c' = rt_on_peer_state p c"
  shows "rt_reachable e (session_state pc c' w)"
proof -
  have "rt_step e (session_state pc c w) ((session_state pc c w)\<lparr>rr_client := c'\<rparr>)"
    using assms(2) rt_step.gathered[of e "session_state pc c w"] rt_step.opened[of e "session_state pc c w"]
      rt_step.peer[of e "session_state pc c w" p]
    by (auto simp: session_state_def)
  from rt_next[OF assms(1) this] show ?thesis by (simp add: session_state_def rr_new_def)
qed

lemma session_message_step:
  assumes "rt_reachable e (session_state pc c w)" and "rt_on_message e [] now raw c = (None, c')"
  shows "rt_reachable e (session_state pc c' w)"
proof -
  have "rt_step e (session_state pc c w) ((session_state pc c w)\<lparr>rr_client := c', rr_dc := None\<rparr>)"
    by (rule rt_step.message[where now = now and raw = raw])
      (use assms(2) in \<open>simp_all add: session_state_def rr_new_def\<close>)
  from rt_next[OF assms(1) this] show ?thesis by (simp add: session_state_def rr_new_def)
qed

definition ready_client :: "'s rt_client" where
  "ready_client = rt_new\<lparr>rt_state := RtReady, rt_ice_gathered := True, rt_channel_open := True, rt_peer := PeerConnected\<rparr>"

text \<open>With a server that accepts the offer and confirms the update, \<open>start\<close> returns true.\<close>

lemma session_comes_up:
  fixes e :: "'s rt_env"
  assumes ok: "offer_accepted (re_base_url e) d r"
    and upd: "\<And>c. rt_state c = RtConfiguring \<Longrightarrow> rt_reassembler c = reassembler_new \<Longrightarrow>
      rt_on_message e [] now raw c = (None, c\<lparr>rt_state := RtReady\<rparr>)"
  shows "rt_reachable e (session_state (SReturned True) ready_client [WSessionUpdate])"
proof -
  note st = session_start_step[OF _ _ ok]
  have "rt_reachable e (session_state SIdle rt_new [])"
    using rt_init[of e] by (simp add: session_state_def rr_new_def)
  moreover have "rt_step e (session_state SIdle rt_new [])
      ((session_state SIdle rt_new [])\<lparr>rr_start := SWaitIce, rr_client := rt_new\<lparr>rt_state := RtConnecting\<rparr>\<rparr>)"
    by (rule rt_step.start_called) (simp_all add: session_state_def rr_new_def rt_start_call_def rt_new_def)
  ultimately have "rt_reachable e ((session_state SIdle rt_new [])\<lparr>rr_start := SWaitIce, rr_client := rt_new\<lparr>rt_state := RtConnecting\<rparr>\<rparr>)"
    by (rule rt_next)
  then have "rt_reachable e (session_state SWaitIce (rt_new\<lparr>rt_state := RtConnecting\<rparr>) [])"
    by (simp add: session_state_def rr_new_def)
  then have "rt_reachable e (session_state SWaitIce (rt_on_gathered (rt_new\<lparr>rt_state := RtConnecting\<rparr>)) [])"
    by (rule session_network_step) blast
  then have "rt_reachable e (session_state SCheckIce (rt_on_gathered (rt_new\<lparr>rt_state := RtConnecting\<rparr>)) ([] @ []))"
    by (rule st) (simp_all add: start_step_def start_ready_def rt_on_gathered_def)
  then have "rt_reachable e (session_state SPost (rt_on_gathered (rt_new\<lparr>rt_state := RtConnecting\<rparr>)) (([] @ []) @ []))"
    by (rule st) (simp_all add: start_step_def start_waits_def rt_on_gathered_def)
  then have "rt_reachable e (session_state SWaitPeer (rt_on_gathered (rt_new\<lparr>rt_state := RtConnecting\<rparr>)) ((([] @ []) @ []) @ []))"
    by (rule st) (simp_all add: start_step_def start_waits_def)
  then have "rt_reachable e (session_state SWaitPeer
      (rt_on_peer_state PeerConnected (rt_on_gathered (rt_new\<lparr>rt_state := RtConnecting\<rparr>))) [])"
    by simp (rule session_network_step, assumption, blast)
  then have "rt_reachable e (session_state SCheckPeer
      (rt_on_peer_state PeerConnected (rt_on_gathered (rt_new\<lparr>rt_state := RtConnecting\<rparr>))) ([] @ []))"
    by (rule st) (simp_all add: start_step_def start_ready_def rt_on_peer_state_def)
  then have "rt_reachable e (session_state SWaitOpen
      (rt_on_peer_state PeerConnected (rt_on_gathered (rt_new\<lparr>rt_state := RtConnecting\<rparr>))) (([] @ []) @ []))"
    by (rule st) (simp_all add: start_step_def start_waits_def rt_on_peer_state_def rt_on_gathered_def)
  then have "rt_reachable e (session_state SWaitOpen
      (rt_on_open (rt_on_peer_state PeerConnected (rt_on_gathered (rt_new\<lparr>rt_state := RtConnecting\<rparr>)))) [])"
    by simp (rule session_network_step, assumption, blast)
  moreover have "rt_on_open (rt_on_peer_state PeerConnected (rt_on_gathered (rt_new\<lparr>rt_state := RtConnecting\<rparr>))) =
      (ready_client :: 's rt_client)\<lparr>rt_state := RtConnecting\<rparr>"
    by (simp add: rt_on_open_def rt_on_peer_state_def rt_on_gathered_def ready_client_def rt_new_def)
  ultimately have "rt_reachable e (session_state SWaitOpen (ready_client\<lparr>rt_state := RtConnecting\<rparr>) [])" by simp
  then have "rt_reachable e (session_state SCheckOpen (ready_client\<lparr>rt_state := RtConnecting\<rparr>) ([] @ []))"
    by (rule st) (simp_all add: start_step_def start_ready_def ready_client_def)
  then have "rt_reachable e (session_state SConfigure (ready_client\<lparr>rt_state := RtConnecting\<rparr>) (([] @ []) @ []))"
    by (rule st) (simp_all add: start_step_def start_waits_def)
  then have "rt_reachable e (session_state SSendUpdate (ready_client\<lparr>rt_state := RtConfiguring\<rparr>) ((([] @ []) @ []) @ []))"
    by (rule st) (simp_all add: start_step_def start_waits_def)
  then have "rt_reachable e (session_state SWaitReady (ready_client\<lparr>rt_state := RtConfiguring\<rparr>) (((([] @ []) @ []) @ []) @ [WSessionUpdate]))"
    by (rule st) (simp_all add: start_step_def start_waits_def)
  then have "rt_reachable e (session_state SWaitReady (ready_client\<lparr>rt_state := RtConfiguring\<rparr>) [WSessionUpdate])" by simp
  moreover have "rt_on_message e [] now raw (ready_client\<lparr>rt_state := RtConfiguring\<rparr>) =
      (None, ready_client\<lparr>rt_state := RtConfiguring, rt_state := RtReady\<rparr>)"
    by (rule upd) (simp_all add: ready_client_def rt_new_def)
  ultimately have "rt_reachable e (session_state SWaitReady (ready_client\<lparr>rt_state := RtConfiguring, rt_state := RtReady\<rparr>) [WSessionUpdate])"
    by (rule session_message_step)
  then have "rt_reachable e (session_state SWaitReady ready_client [WSessionUpdate])"
    by (simp add: ready_client_def rt_new_def)
  then have "rt_reachable e (session_state SLastLook ready_client ([WSessionUpdate] @ []))"
    by (rule st) (simp_all add: start_step_def start_ready_def ready_client_def)
  then have "rt_reachable e (session_state (SReturned True) ready_client (([WSessionUpdate] @ []) @ []))"
    by (rule st) (simp_all add: start_step_def start_waits_def ready_client_def)
  then show ?thesis by simp
qed

text \<open>A session update is on the wire before \<open>start\<close> returns true.\<close>

lemma start_step_wire:
  "start_step a b pc c = (pc', c', ws) \<Longrightarrow> pc' \<in> {SWaitReady, SLastLook, SReturned True} \<Longrightarrow>
   (pc \<in> {SWaitReady, SLastLook, SReturned True} \<or> WSessionUpdate \<in> set ws)"
  by (auto simp: start_step_def split: if_splits start_pc.splits)

lemma start_true_sent_update:
  "rt_reachable e s \<Longrightarrow> rr_start s \<in> {SWaitReady, SLastLook, SReturned True} \<Longrightarrow> WSessionUpdate \<in> set (rr_wire s)"
proof (induction rule: rt_reachable.induct)
  case rt_init
  then show ?case by (simp add: rr_new_def)
next
  case (rt_next s s')
  from rt_next.hyps(2) show ?case
  proof cases
    case (start_called pc c)
    then show ?thesis using rt_next by (auto simp: rt_start_call_def split: if_splits)
  next
    case (start_runs accepted d r timed_out pc c ws)
    then show ?thesis using rt_next start_step_wire[OF start_runs(4)] by auto
  next
    case (begins cb now turn cancel)
    then have "rr_start s' = rr_start s" "rr_wire s' = rr_wire s"
      by (auto simp: rr_begin_def Let_def split: prod.splits begin_result.splits)
    then show ?thesis using rt_next by simp
  qed (use rt_next in auto)
qed

section \<open>What the locking does not order\<close>

text \<open>
  \<open>begin_utterance\<close> makes the utterance active before it sends the message that clears the server's
  buffer, so a chunk of the audio thread can go out first and be cleared with the rest.
\<close>

lemma first_chunk_before_clear:
  assumes "rt_reachable e s" and "rr_out s TBegin = [WClear]" and "rr_out s TAudio = []"
    and "rt_push_audio e (rr_heap s) xs (rr_client s) = (Ok [WAppend a], c)"
  shows "\<exists>s'. rt_reachable e s' \<and> rr_wire s' = rr_wire s @ [WAppend a, WClear]"
proof -
  let ?s1 = "s\<lparr>rr_client := c, rr_out := (rr_out s)(TAudio := [WAppend a])\<rparr>"
  let ?s2 = "?s1\<lparr>rr_out := (rr_out ?s1)(TAudio := []), rr_wire := rr_wire ?s1 @ [WAppend a]\<rparr>"
  let ?s3 = "?s2\<lparr>rr_out := (rr_out ?s2)(TBegin := []), rr_wire := rr_wire ?s2 @ [WClear]\<rparr>"
  have "rt_step e s ?s1" using rt_step.pushes[OF assms(3,4)] by simp
  moreover have "rt_step e ?s1 ?s2" by (rule rt_step.sends) simp
  moreover have "rt_step e ?s2 ?s3" by (rule rt_step.sends) (simp add: assms(2))
  ultimately have "rt_reachable e ?s3" using assms(1) rt_next by metis
  then show ?thesis by (intro exI[of _ ?s3]) simp
qed

text \<open>Likewise a chunk taken before \<open>end_utterance\<close> can go out after its commit.\<close>

lemma last_chunk_after_commit:
  assumes "rt_reachable e s" and "rr_out s TAudio = []" and "rr_out s TEnd = []"
    and "rt_push_audio e (rr_heap s) xs (rr_client s) = (Ok [WAppend a], c)"
    and "rt_end_utterance e c = Some (Ok [WCommit], c')"
  shows "\<exists>s'. rt_reachable e s' \<and> rr_wire s' = rr_wire s @ [WCommit, WAppend a]"
proof -
  let ?s1 = "s\<lparr>rr_client := c, rr_out := (rr_out s)(TAudio := [WAppend a])\<rparr>"
  let ?s2 = "?s1\<lparr>rr_client := c', rr_out := (rr_out ?s1)(TEnd := [WCommit])\<rparr>"
  let ?s3 = "?s2\<lparr>rr_out := (rr_out ?s2)(TEnd := []), rr_wire := rr_wire ?s2 @ [WCommit]\<rparr>"
  let ?s4 = "?s3\<lparr>rr_out := (rr_out ?s3)(TAudio := []), rr_wire := rr_wire ?s3 @ [WAppend a]\<rparr>"
  have "rt_step e s ?s1" using rt_step.pushes[OF assms(2,4)] by simp
  moreover have "rt_step e ?s1 ?s2"
    using rt_step.ends[of ?s1 e "Ok [WCommit]" c'] assms(3,5) by simp
  moreover have "rt_step e ?s2 ?s3" by (rule rt_step.sends) simp
  moreover have "rt_step e ?s3 ?s4" by (rule rt_step.sends) simp
  ultimately have "rt_reachable e ?s4" using assms(1) rt_next by metis
  then show ?thesis by (intro exI[of _ ?s4]) simp
qed

text \<open>
  Any \<open>committed\<close> event while an utterance is active renames it, so one that answers the commit of
  the utterance before makes that one's transcript arrive as this one's.
\<close>

lemma late_commit_is_adopted:
  assumes "rt_active c" and "rt_cb c = Some cb" and "uc_final cb" and "\<not> utterance_cancelled h c"
  shows "\<exists>f. fst (rt_on_server_event h l now (SvFinal old x y) (snd (rt_on_server_event h l now (SvCommitted old) c))) =
    Some (CallFinal (uc_owner cb) f) \<and> ft_turn f = rt_turn c \<and> ft_text f = x"
  using assms by (auto simp: rt_on_final_def utterance_cancelled_def Let_def)

text \<open>A session that was Ready stays so when its connection is lost.\<close>

lemma ready_survives_disconnect: "rt_state c = RtReady \<Longrightarrow> rt_state (rt_on_peer_state p c) = RtReady"
  by (simp add: rt_on_peer_state_def Let_def)

text \<open>A stop during bring-up is overwritten by the next state change of \<open>start\<close>.\<close>

lemma stop_during_start_is_overwritten:
  "rt_state (fst (snd (start_step a b SConfigure (rt_stop c)))) = RtConfiguring \<and>
   rt_state (fst (snd (start_step a b SGiveUp (rt_stop c)))) = RtFailed"
  by (simp add: start_step_def start_waits_def)

text \<open>Outside an utterance nothing is sent; an operation that is refused changes nothing.\<close>

lemma idle_push: "\<not> rt_active c \<Longrightarrow> rt_push_audio e h xs c = (Ok [], c)"
  by (auto simp: rt_push_audio_def split: option.splits)

lemma idle_end: "\<not> rt_active c \<Longrightarrow> rt_end_utterance e c = Some (Ok [], c)"
  by (auto simp: rt_end_utterance_def split: option.splits)

lemma stopped_client: "rt_state c \<notin> {RtIdle, RtClosed} \<Longrightarrow> \<not> rt_active (rt_stop c) \<and> rt_state (rt_stop c) = RtClosed"
  by (simp add: rt_stop_def) (simp add: clear_active_def)

text \<open>What an append message carries can be read back as the samples.\<close>

lemma pcm_roundtrip:
  "map_option (\<lambda>bytes. bytes_samples (map (\<lambda>c. word_of_nat (of_char c)) bytes)) (base64_decode (pcm_base64 xs)) = Some xs"
proof -
  have "map (\<lambda>c. word_of_nat (of_char c)) (map (\<lambda>b. char_of (unat b)) bs) = (bs :: 8 word list)" for bs
  proof (rule nth_equalityI)
    fix i
    assume "i < length (map (\<lambda>c. word_of_nat (of_char c) :: 8 word) (map (\<lambda>b. char_of (unat b)) bs))"
    moreover have "unat (bs ! i) < 256" using unsigned_less[of "bs ! i"] by simp
    ultimately show "map (\<lambda>c. word_of_nat (of_char c)) (map (\<lambda>b. char_of (unat b)) bs) ! i = bs ! i"
      by (simp add: take_bit_eq_mod of_char_of)
  qed simp
  then show ?thesis by (simp add: pcm_base64_def base64_decode_encode)
qed

section \<open>A run\<close>

definition demo_env :: "unit rt_env" where
  "demo_env =
     \<lparr>re_soxr = \<lparr>soxr_create = (\<lambda>_ _. Some ()), soxr_process = (\<lambda>xs s. Some (length xs, xs, s)), soxr_drain = (\<lambda>s. Some ([], s))\<rparr>,
      re_read_envelope = (\<lambda>raw. Some \<lparr>env_id = ''e'', env_type = ''full_message'', env_data = base64_encode raw,
        env_index = None, env_total = None\<rparr>),
      re_json =
        \<lparr>rj_type = (\<lambda>m. Some (if m = ''u'' then ''session.updated'' else if m = ''c'' then ''input_audio_buffer.committed''
            else if m = ''f'' then ''conversation.item.input_audio_transcription.completed''
            else ''conversation.item.input_audio_transcription.delta'')),
         rj_delta = (\<lambda>m. Some (''item'', m)), rj_completed = (\<lambda>m. Some (''item'', ''hello'', None)),
         rj_committed = (\<lambda>m. Some ''item''), rj_error = (\<lambda>m. None)\<rparr>,
      re_language = ''en'', re_base_url = ''http://h''\<rparr>"

lemma demo_feed: "feed_raw (re_read_envelope demo_env) raw r = (Some raw, r)"
  by (simp add: feed_raw_def feed_envelope_def demo_env_def base64_decode_encode del: base64_encode.simps)

lemma demo_message:
  "rt_on_message demo_env h now raw c =
     rt_on_server_event h ''en'' now
       (if raw = ''u'' then SvUpdated else if raw = ''c'' then SvCommitted ''item''
        else if raw = ''f'' then SvFinal ''item'' ''hello'' [] else SvPartial ''item'' raw) c"
  if "raw \<noteq> []"
  using that unfolding rt_on_message_def demo_feed by (simp add: dispatch_def demo_env_def)

lemma message_and_call:
  assumes "rt_reachable e s" and "rr_dc s = None" and "rt_on_message e (rr_heap s) now raw (rr_client s) = (call, c)"
  shows "rt_reachable e (s\<lparr>rr_client := c, rr_dc := None, rr_calls := rr_calls s @ opt_list call\<rparr>)"
proof (cases call)
  case None
  then show ?thesis using rt_next[OF assms(1) rt_step.message[OF assms(2,3)]] by simp
next
  case (Some x)
  have "rt_reachable e (s\<lparr>rr_client := c, rr_dc := call\<rparr>)" by (rule rt_next[OF assms(1) rt_step.message[OF assms(2,3)]])
  from rt_next[OF this rt_step.called[where call = x]] Some show ?thesis by simp
qed

definition demo_cb :: utterance_callbacks where
  "demo_cb = \<lparr>uc_owner = 3, uc_partial = True, uc_final = True, uc_error = True\<rparr>"

definition demo_partial :: "string \<Rightarrow> seq_no \<Rightarrow> user_call" where
  "demo_partial x k = CallPartial 3
     \<lparr>pt_turn = 7, pt_text = x, pt_lang = [], pt_stable_prefix_len = length x, pt_seq = k, pt_confidence = Fin 0\<rparr>"

definition demo_final :: user_call where
  "demo_final = CallFinal 3
     \<lparr>ft_turn = 7, ft_text = ''hello'', ft_lang = ''en'', ft_confidence = Fin 0, ft_audio_duration = 0,
      ft_processing_duration = 0\<rparr>"

definition demo_client :: "string \<Rightarrow> string \<Rightarrow> seq_no \<Rightarrow> unit rt_client" where
  "demo_client item x k =
     ready_client\<lparr>rt_active := True, rt_turn := 7, rt_cb := Some demo_cb, rt_item_id := item, rt_partial_text := x,
       rt_partial_seq := k, rt_resampler := Some \<lparr>rs_soxr = (), rs_in = 0, rs_out = 0\<rparr>\<rparr>"

definition demo_run :: "unit rt_client \<Rightarrow> user_call list \<Rightarrow> unit rt_run" where
  "demo_run c calls =
     \<lparr>rr_client = c, rr_heap = [], rr_start = SReturned True, rr_dc = None, rr_out = (\<lambda>_. [])(TBegin := [WClear]),
      rr_wire = [WSessionUpdate], rr_calls = calls, rr_begun = [(demo_cb, 7)]\<rparr>"

lemma demo_run_step:
  assumes "rt_reachable demo_env (demo_run c calls)" and "rt_on_message demo_env [] 0 raw c = (call, c')"
  shows "rt_reachable demo_env (demo_run c' (calls @ opt_list call))"
  using message_and_call[OF assms(1), of 0 raw call c'] assms(2) by (simp add: demo_run_def)

lemma demo_reachable:
  "rt_reachable demo_env (demo_run ready_client [demo_partial ''hel'' 1, demo_partial ''hello'' 2, demo_final])"
proof -
  have "offer_accepted (re_base_url demo_env) (Some []) (Some (200, ''v=0''))"
    by (simp add: demo_env_def offer_accepted_def parse_base_url_def find_char_def)
  then have "rt_reachable demo_env (session_state (SReturned True) ready_client [WSessionUpdate])"
    by (rule session_comes_up[where now = 0 and raw = "''u''"]) (simp add: demo_message)
  then have "rt_reachable demo_env
      (rr_begin demo_env 0 7 None demo_cb (session_state (SReturned True) ready_client [WSessionUpdate]))"
    by (rule rt_next) (rule rt_step.begins; simp add: session_state_def rr_new_def)
  moreover have "rr_begin demo_env 0 7 None demo_cb (session_state (SReturned True) ready_client [WSessionUpdate]) =
      demo_run (demo_client [] [] 0) []"
    by (simp add: rr_begin_def rt_begin_utterance_def session_state_def rr_new_def ready_client_def rt_new_def
        demo_run_def demo_client_def demo_env_def resampler_new_def clear_active_def fun_eq_iff)
  ultimately have "rt_reachable demo_env (demo_run (demo_client [] [] 0) [])" by simp
  then have "rt_reachable demo_env (demo_run (demo_client ''item'' [] 0) ([] @ opt_list None))"
    by (rule demo_run_step[where raw = "''c''"]) (simp add: demo_message demo_client_def)
  then have "rt_reachable demo_env (demo_run (demo_client ''item'' [] 0) [])" by simp
  then have "rt_reachable demo_env (demo_run (demo_client ''item'' ''hel'' 1) ([] @ opt_list (Some (demo_partial ''hel'' 1))))"
    by (rule demo_run_step[where raw = "''hel''"])
      (simp add: demo_message demo_client_def demo_partial_def rt_on_partial_def utterance_cancelled_def ready_client_def
        rt_new_def demo_cb_def Let_def)
  then have "rt_reachable demo_env (demo_run (demo_client ''item'' ''hello'' 2)
      (([] @ opt_list (Some (demo_partial ''hel'' 1))) @ opt_list (Some (demo_partial ''hello'' 2))))"
    by (rule demo_run_step[where raw = "''lo''"])
      (simp add: demo_message demo_client_def demo_partial_def rt_on_partial_def utterance_cancelled_def ready_client_def
        rt_new_def demo_cb_def Let_def)
  then have "rt_reachable demo_env (demo_run ready_client
      ((([] @ opt_list (Some (demo_partial ''hel'' 1))) @ opt_list (Some (demo_partial ''hello'' 2))) @ opt_list (Some demo_final)))"
    by (rule demo_run_step[where raw = "''f''"])
      (simp add: demo_message demo_client_def demo_final_def rt_on_final_def utterance_cancelled_def ready_client_def
        rt_new_def demo_cb_def clear_active_def to_millis_def trunc_div_def)
  then show ?thesis by simp
qed

text \<open>
  C20. Whatever the interleaving of the threads, the callbacks of one utterance are told partial transcripts
  of its turn, numbered from one and each the text so far, then at most one final transcript or
  error, and then nothing; a refused utterance is told one error.
\<close>

theorem utterance_callbacks_told:
  assumes "rt_reachable e s" and "(cb, t) \<in> set (rr_begun s)"
  shows "utterance_told cb t (told_to s (uc_owner cb))"
  using assms by (rule callbacks_told)

lemma utterance_callbacks_told_witness:
  "\<exists>s :: unit rt_run. told_to s 3 = [demo_partial ''hel'' 1, demo_partial ''hello'' 2, demo_final] \<and> utterance_told demo_cb 7 (told_to s 3)"
proof -
  let ?s = "demo_run ready_client [demo_partial ''hel'' 1, demo_partial ''hello'' 2, demo_final]"
  have "told_to ?s 3 = [demo_partial ''hel'' 1, demo_partial ''hello'' 2, demo_final]"
    by (simp add: told_to_def demo_run_def calls_of_def call_owner_def demo_partial_def demo_final_def)
  moreover have "(demo_cb, 7) \<in> set (rr_begun ?s)" by (simp add: demo_run_def)
  from utterance_callbacks_told[OF demo_reachable this] have "utterance_told demo_cb 7 (told_to ?s 3)"
    by (simp add: demo_cb_def)
  ultimately show ?thesis by blast
qed

end
