(* ===== verification/Json_Text.thy ===== *)
theory Json_Text
  imports Text_Format
begin

text \<open>
  JSON text as the program writes it by hand. A small reader of flat objects is the reference: the
  interface \<open>json_escaper\<close> is what a character escape owes to it, and its lemmas read back every
  object written with such an escape. The two escapes of the program interpret it: that of the
  speech request (\<open>src/tts/openai_tts_client.cpp\<close>) and that of the log
  (\<open>src/log/json_sink.cpp\<close>, \<open>src/log/log.cpp\<close>). The reader takes the escapes of code points below
  128 only; the program writes no others.
\<close>

section \<open>The reference reader\<close>

definition hex_value :: "char \<Rightarrow> nat option" where
  "hex_value c =
     (let d = (of_char c :: nat)
      in if 48 \<le> d \<and> d \<le> 57 then Some (d - 48) else if 97 \<le> d \<and> d \<le> 102 then Some (d - 87)
         else if 65 \<le> d \<and> d \<le> 70 then Some (d - 55) else None)"

definition json_unicode :: "string \<Rightarrow> (char \<times> string) option" where
  "json_unicode s =
     (case s of
        a # b # c # d # t \<Rightarrow>
          (case (hex_value a, hex_value b, hex_value c, hex_value d) of
             (Some w, Some x, Some y, Some z) \<Rightarrow>
               (let v = ((w * 16 + x) * 16 + y) * 16 + z in if v < 128 then Some (char_of v, t) else None)
           | _ \<Rightarrow> None)
      | _ \<Rightarrow> None)"

definition json_escaped :: "string \<Rightarrow> (char \<times> string) option" where
  "json_escaped s =
     (case s of
        [] \<Rightarrow> None
      | c # t \<Rightarrow>
          if c = CHR 0x22 \<or> c = CHR 0x5C \<or> c = CHR ''/'' then Some (c, t)
          else if c = CHR ''n'' then Some (CHR 0x0A, t) else if c = CHR ''r'' then Some (CHR 0x0D, t)
          else if c = CHR ''t'' then Some (CHR 0x09, t) else if c = CHR ''b'' then Some (CHR 0x08, t)
          else if c = CHR ''f'' then Some (CHR 0x0C, t) else if c = CHR ''u'' then json_unicode t
          else None)"

text \<open>The rest of a string literal, up to its closing quote, and what follows it.\<close>

function json_chars :: "string \<Rightarrow> (string \<times> string) option" where
  "json_chars [] = None"
| "json_chars (c # s) =
     (if c = CHR 0x22 then Some ([], s)
      else if c = CHR 0x5C
      then case json_escaped s of
          None \<Rightarrow> None
        | Some (d, t) \<Rightarrow> if length t < length s then map_option (apfst (Cons d)) (json_chars t) else None
      else if (of_char c :: nat) < 32 then None
      else map_option (apfst (Cons c)) (json_chars s))"
  by pat_completeness auto
termination by (relation "measure length") auto

datatype json_value = JStr string | JRaw string

definition json_read_value :: "string \<Rightarrow> (json_value \<times> string) option" where
  "json_read_value s =
     (case s of
        [] \<Rightarrow> None
      | c # t \<Rightarrow>
          if c = CHR 0x22 then map_option (apfst JStr) (json_chars t)
          else let r = takeWhile (\<lambda>c. c \<noteq> CHR '','' \<and> c \<noteq> CHR ''}'') s
               in if r = [] then None else Some (JRaw r, drop (length r) s))"

fun json_members :: "nat \<Rightarrow> string \<Rightarrow> (string \<times> json_value) list option" where
  "json_members 0 s = None"
| "json_members (Suc n) s =
     (case s of
        [] \<Rightarrow> None
      | q # s1 \<Rightarrow>
          if q \<noteq> CHR 0x22 then None
          else case json_chars s1 of
              None \<Rightarrow> None
            | Some (k, s2) \<Rightarrow>
                if s2 = [] \<or> hd s2 \<noteq> CHR '':'' then None
                else case json_read_value (List.tl s2) of
                    None \<Rightarrow> None
                  | Some (v, s3) \<Rightarrow>
                      if s3 = ''}'' then Some [(k, v)]
                      else if s3 \<noteq> [] \<and> hd s3 = CHR '','' then map_option (Cons (k, v)) (json_members n (List.tl s3))
                      else None)"

definition json_object :: "string \<Rightarrow> (string \<times> json_value) list option" where
  "json_object s = (case s of [] \<Rightarrow> None | c # t \<Rightarrow> if c = CHR ''{'' then json_members (length t) t else None)"

section \<open>Writing\<close>

definition json_lit :: "(char \<Rightarrow> string) \<Rightarrow> string \<Rightarrow> string" where
  "json_lit esc s = CHR 0x22 # concat (map esc s) @ [CHR 0x22]"

definition json_write_value :: "(char \<Rightarrow> string) \<Rightarrow> json_value \<Rightarrow> string" where
  "json_write_value esc v = (case v of JStr s \<Rightarrow> json_lit esc s | JRaw r \<Rightarrow> r)"

fun json_write_members :: "(char \<Rightarrow> string) \<Rightarrow> (string \<times> json_value) list \<Rightarrow> string" where
  "json_write_members esc [] = []"
| "json_write_members esc ((k, v) # kvs) =
     json_lit esc k @ '':'' @ json_write_value esc v @
     (if kvs = [] then [] else CHR '','' # json_write_members esc kvs)"

definition json_raw_ok :: "json_value \<Rightarrow> bool" where
  "json_raw_ok v =
     (case v of JStr s \<Rightarrow> True
      | JRaw r \<Rightarrow> r \<noteq> [] \<and> hd r \<noteq> CHR 0x22 \<and> list_all (\<lambda>c. c \<noteq> CHR '','' \<and> c \<noteq> CHR ''}'') r)"

section \<open>What an escape owes to the reader\<close>

locale json_escaper =
  fixes esc :: "char \<Rightarrow> string"
  assumes esc_read: "json_chars (esc c @ t) = map_option (apfst (Cons c)) (json_chars t)"
begin

lemma lit_read: "json_chars (concat (map esc s) @ CHR 0x22 # t) = Some (s, t)"
  by (induction s) (simp_all add: esc_read)

lemma value_read:
  assumes "json_raw_ok v" and "t \<noteq> []" and "hd t = CHR '','' \<or> hd t = CHR ''}''"
  shows "json_read_value (json_write_value esc v @ t) = Some (v, t)"
proof (cases v)
  case (JStr s)
  then show ?thesis by (simp add: json_read_value_def json_write_value_def json_lit_def lit_read)
next
  case (JRaw r)
  then have r: "r \<noteq> []" "hd r \<noteq> CHR 0x22" "list_all (\<lambda>c. c \<noteq> CHR '','' \<and> c \<noteq> CHR ''}'') r"
    using assms(1) by (auto simp: json_raw_ok_def)
  have "takeWhile (\<lambda>c. c \<noteq> CHR '','' \<and> c \<noteq> CHR ''}'') (r @ t) = r"
    using r(3) assms(2,3) by (cases t) (auto simp: takeWhile_append list_all_iff)
  with r(1,2) show ?thesis
    by (cases r) (auto simp: json_read_value_def json_write_value_def JRaw Let_def)
qed

lemma members_read:
  "kvs \<noteq> [] \<Longrightarrow> length kvs \<le> n \<Longrightarrow> list_all (\<lambda>(k, v). json_raw_ok v) kvs \<Longrightarrow>
   json_members n (json_write_members esc kvs @ ''}'') = Some kvs"
proof (induction kvs arbitrary: n)
  case (Cons kv kvs)
  obtain k v where kv: "kv = (k, v)" by fastforce
  obtain m where n: "n = Suc m" using Cons.prems(2) by (cases n) auto
  let ?t = "(if kvs = [] then [] else CHR '','' # json_write_members esc kvs) @ ''}''"
  have "json_read_value (json_write_value esc v @ ?t) = Some (v, ?t)"
    using Cons.prems(3) by (intro value_read) (auto simp: kv)
  moreover have "kvs \<noteq> [] \<Longrightarrow> json_members m (json_write_members esc kvs @ ''}'') = Some kvs"
    using Cons by (simp add: n)
  ultimately show ?case
    by (auto simp: kv n json_lit_def lit_read)
qed simp

lemma length_write: "length kvs \<le> length (json_write_members esc kvs)"
  by (induction kvs) (auto simp: json_lit_def)

lemma object_read:
  assumes "kvs \<noteq> []" and "list_all (\<lambda>(k, v). json_raw_ok v) kvs"
  shows "json_object (''{'' @ json_write_members esc kvs @ ''}'') = Some kvs"
  using members_read[of kvs "length (json_write_members esc kvs @ ''}'')"] length_write[of kvs] assms
  by (simp add: json_object_def)

end

section \<open>The two escapes\<close>

definition tts_escape_char :: "char \<Rightarrow> string" where
  "tts_escape_char c =
     (if c = CHR 0x22 then [CHR 0x5C, CHR 0x22] else if c = CHR 0x5C then [CHR 0x5C, CHR 0x5C]
      else if c = CHR 0x0A then [CHR 0x5C, CHR ''n''] else if c = CHR 0x0D then [CHR 0x5C, CHR ''r'']
      else if c = CHR 0x09 then [CHR 0x5C, CHR ''t'']
      else if (of_char c :: nat) < 32 then CHR 0x5C # CHR ''u'' # hex_fixed 4 (of_char c) else [c])"

definition json_escape :: "string \<Rightarrow> string" where
  "json_escape s = concat (map tts_escape_char s)"

definition log_escape_char :: "char \<Rightarrow> string" where
  "log_escape_char c =
     (if c = CHR 0x22 then [CHR 0x5C, CHR 0x22] else if c = CHR 0x5C then [CHR 0x5C, CHR 0x5C]
      else if c = CHR 0x0A then [CHR 0x5C, CHR ''n''] else if c = CHR 0x0D then [CHR 0x5C, CHR ''r'']
      else if c = CHR 0x09 then [CHR 0x5C, CHR ''t''] else if c = CHR 0x08 then [CHR 0x5C, CHR ''b'']
      else if c = CHR 0x0C then [CHR 0x5C, CHR ''f'']
      else if (of_char c :: nat) < 32 then CHR 0x5C # CHR ''u'' # hex_fixed 4 (of_char c) else [c])"

definition escape_string :: "string \<Rightarrow> string" where
  "escape_string s = json_lit log_escape_char s"

lemma hex_value_digit: "d < 16 \<Longrightarrow> hex_value (hex_digit d) = Some d"
  by (auto simp: hex_value_def hex_digit_def Let_def of_char_of)

lemma hex_fixed_four:
  "hex_fixed 4 n = [hex_digit (n div 16 div 16 div 16 mod 16), hex_digit (n div 16 div 16 mod 16), hex_digit (n div 16 mod 16), hex_digit (n mod 16)]"
proof -
  have "hex_fixed (Suc (Suc (Suc (Suc 0)))) n = [hex_digit (n div 16 div 16 div 16 mod 16), hex_digit (n div 16 div 16 mod 16), hex_digit (n div 16 mod 16), hex_digit (n mod 16)]"
    by (simp only: hex_fixed.simps append_Nil append_Cons)
  then show ?thesis by (simp only: numeral_eq_Suc pred_numeral_simps BitM.simps) 
qed

lemma unicode_read_small: "n < 32 \<Longrightarrow> json_unicode (hex_fixed 4 n @ t) = Some (char_of n, t)"
proof -
  assume n: "n < 32"
  then have "n div 16 < 2" by simp
  then have high: "n div 16 div 16 = 0" "n div 16 mod 16 = n div 16" by simp_all
  have sum: "n div 16 * 16 + n mod 16 = n" by simp
  show ?thesis
    unfolding hex_fixed_four high using n sum
    by (simp add: json_unicode_def hex_value_digit)
qed

lemma unicode_read: "(of_char c :: nat) < 32 \<Longrightarrow> json_unicode (hex_fixed 4 (of_char c) @ t) = Some (c, t)"
  by (simp only: unicode_read_small char_of_char)

lemma length_hex4: "length (hex_fixed 4 n @ t) = 4 + length t"
  by simp

lemma tts_escape_read: "json_chars (tts_escape_char c @ t) = map_option (apfst (Cons c)) (json_chars t)"
  by (auto simp: tts_escape_char_def json_escaped_def unicode_read)

lemma log_escape_read: "json_chars (log_escape_char c @ t) = map_option (apfst (Cons c)) (json_chars t)"
  by (auto simp: log_escape_char_def json_escaped_def unicode_read)

interpretation tts_json: json_escaper tts_escape_char
  by unfold_locales (rule tts_escape_read)

interpretation log_json: json_escaper log_escape_char
  by unfold_locales (rule log_escape_read)

end
