(* ===== verification/Json_Log.thy ===== *)
theory Json_Log
  imports Json_Text Events
begin

text \<open>
  The JSON log: the sink of \<open>src/log/json_sink.cpp\<close> and the structured events of \<open>src/log/log.cpp\<close>.
  The formatted time stamp is an argument; the logger between the two passes the payload through.
\<close>

datatype log_level = LvTrace | LvDebug | LvInfo | LvWarn | LvErr | LvCritical | LvOff

definition level_name :: "log_level \<Rightarrow> string" where
  "level_name l =
     (case l of LvTrace \<Rightarrow> ''trace'' | LvDebug \<Rightarrow> ''debug'' | LvInfo \<Rightarrow> ''info'' | LvWarn \<Rightarrow> ''warn''
      | LvErr \<Rightarrow> ''error'' | LvCritical \<Rightarrow> ''critical'' | LvOff \<Rightarrow> ''off'')"

definition parse_level :: "string \<Rightarrow> log_level" where
  "parse_level s =
     (if s = ''trace'' then LvTrace else if s = ''debug'' then LvDebug else if s = ''info'' then LvInfo
      else if s = ''warn'' then LvWarn else if s = ''error'' then LvErr else if s = ''critical'' then LvCritical
      else if s = ''off'' then LvOff else LvInfo)"

lemma parse_level_name: "parse_level (level_name l) = l"
  by (cases l) (simp_all add: parse_level_def level_name_def)

definition kEventMarker :: string where
  "kEventMarker = CHR 0x01 # ''EVT'' @ [CHR 0x01]"

text \<open>The place of the first \<open>] \<close> in a text.\<close>

fun find_close :: "string \<Rightarrow> nat option" where
  "find_close (a # b # s) = (if a = CHR '']'' \<and> b = CHR '' '' then Some 0 else map_option Suc (find_close (b # s)))"
| "find_close _ = None"

definition split_component :: "string \<Rightarrow> (string \<times> string) option" where
  "split_component payload =
     (if payload = [] \<or> hd payload \<noteq> CHR ''['' then None
      else case find_close payload of
          None \<Rightarrow> None
        | Some i \<Rightarrow> Some (take (i - 1) (drop 1 payload), drop (i + 2) payload))"

definition q :: string where
  "q = [CHR 0x22]"

definition sink_line :: "string \<Rightarrow> log_level \<Rightarrow> string \<Rightarrow> string" where
  "sink_line ts level payload =
     ''{'' @ q @ ''ts'' @ q @ '':'' @ q @ ts @ q @ '','' @ q @ ''level'' @ q @ '':'' @ q @ level_name level @ q @
     (case split_component payload of
        Some (component, rest) \<Rightarrow>
          '','' @ q @ ''component'' @ q @ '':'' @ escape_string component @
          (if take (length kEventMarker) rest = kEventMarker
           then let inner = drop (length kEventMarker) rest in if inner = [] then [] else '','' @ inner
           else '','' @ q @ ''msg'' @ q @ '':'' @ escape_string rest)
      | None \<Rightarrow> '','' @ q @ ''msg'' @ q @ '':'' @ escape_string payload) @
     ''}'' @ [CHR 0x0A]"

definition plain_payload :: "string \<Rightarrow> string \<Rightarrow> string" where
  "plain_payload component message = ''['' @ component @ ''] '' @ message"

definition event_payload :: "string \<Rightarrow> string \<Rightarrow> turn_id \<Rightarrow> (string \<times> string) list \<Rightarrow> string" where
  "event_payload component name turn kv =
     ''['' @ component @ ''] '' @ kEventMarker @ q @ ''event'' @ q @ '':'' @ escape_string name @
     (if turn \<noteq> kNoTurn then '','' @ q @ ''turn_id'' @ q @ '':'' @ dec_nat (unat turn) else []) @
     concat (map (\<lambda>(k, v). '','' @ escape_string k @ '':'' @ escape_string v) kv)"

section \<open>Reading a line back\<close>

lemma find_close_component:
  "CHR '']'' \<notin> set c \<Longrightarrow> find_close (c @ CHR '']'' # CHR '' '' # s) = Some (length c)"
proof (induction c)
  case (Cons a c)
  then show ?case by (cases c) auto
qed simp

lemma split_prefixed:
  "CHR '']'' \<notin> set c \<Longrightarrow> split_component (''['' @ c @ ''] '' @ s) = Some (c, s)"
  using find_close_component[of "CHR ''['' # c" s] by (simp add: split_component_def)

lemma write_append:
  "kvs \<noteq> [] \<Longrightarrow> ls \<noteq> [] \<Longrightarrow> json_write_members esc (kvs @ ls) = json_write_members esc kvs @ CHR '','' # json_write_members esc ls"
proof (induction kvs)
  case (Cons x kvs)
  then show ?case by (cases x; cases "kvs = []") auto
qed simp

lemma json_raw_ok_JStr [simp]: "json_raw_ok (JStr s)"
  by (simp add: json_raw_ok_def)

lemma write_strings:
  "kvs \<noteq> [] \<Longrightarrow> json_write_members log_escape_char (kvs @ map (\<lambda>(k, v). (k, JStr v)) kv) =
     json_write_members log_escape_char kvs @ concat (map (\<lambda>(k, v). '','' @ escape_string k @ '':'' @ escape_string v) kv)"
proof (induction kv arbitrary: kvs)
  case (Cons x kv)
  obtain k v where x: "x = (k, v)" by fastforce
  have "json_write_members log_escape_char (kvs @ map (\<lambda>(k, v). (k, JStr v)) (x # kv)) =
      json_write_members log_escape_char ((kvs @ [(k, JStr v)]) @ map (\<lambda>(k, v). (k, JStr v)) kv)"
    by (simp add: x)
  also have "\<dots> = json_write_members log_escape_char (kvs @ [(k, JStr v)]) @
      concat (map (\<lambda>(k, v). '','' @ escape_string k @ '':'' @ escape_string v) kv)"
    by (rule Cons.IH) simp
  also have "json_write_members log_escape_char (kvs @ [(k, JStr v)]) =
      json_write_members log_escape_char kvs @ '','' @ escape_string k @ '':'' @ escape_string v"
    using Cons.prems by (simp add: write_append json_write_value_def escape_string_def)
  finally show ?case by (simp add: x)
qed simp

text \<open>A text that no escape touches.\<close>

definition plain_text :: "string \<Rightarrow> bool" where
  "plain_text s \<longleftrightarrow> list_all (\<lambda>c. c \<noteq> CHR 0x22 \<and> c \<noteq> CHR 0x5C \<and> 32 \<le> (of_char c :: nat)) s"

lemma plain_char: "c \<noteq> CHR 0x22 \<Longrightarrow> c \<noteq> CHR 0x5C \<Longrightarrow> 32 \<le> (of_char c :: nat) \<Longrightarrow> log_escape_char c = [c]"
  by (auto simp: log_escape_char_def)

lemma plain_lit: "plain_text s \<Longrightarrow> json_lit log_escape_char s = q @ s @ q"
proof -
  assume "plain_text s"
  then have "concat (map log_escape_char s) = s"
    by (induction s) (auto simp: plain_text_def plain_char)
  then show ?thesis by (simp add: json_lit_def q_def)
qed

lemma plain_level: "plain_text (level_name l)"
  by (cases l) (simp_all add: plain_text_def level_name_def)

lemma plain_keys: "plain_text ''ts''" "plain_text ''level''" "plain_text ''component''" "plain_text ''msg''"
  "plain_text ''event''" "plain_text ''turn_id''"
  by (simp_all add: plain_text_def)

definition head_fields :: "string \<Rightarrow> log_level \<Rightarrow> (string \<times> json_value) list" where
  "head_fields ts level = [(''ts'', JStr ts), (''level'', JStr (level_name level))]"

lemma head_written:
  "plain_text ts \<Longrightarrow> json_write_members log_escape_char (head_fields ts level) =
     q @ ''ts'' @ q @ '':'' @ q @ ts @ q @ '','' @ q @ ''level'' @ q @ '':'' @ q @ level_name level @ q"
  by (simp add: head_fields_def json_write_value_def plain_lit plain_level plain_keys)

lemma read_line:
  assumes "kvs \<noteq> []" and "list_all (\<lambda>(k, v). json_raw_ok v) kvs"
    and "line = ''{'' @ json_write_members log_escape_char kvs @ ''}'' @ [CHR 0x0A]"
  shows "last line = CHR 0x0A \<and> json_object (butlast line) = Some kvs"
proof -
  have "line = (''{'' @ json_write_members log_escape_char kvs @ ''}'') @ [CHR 0x0A]" using assms(3) by simp
  then have "last line = CHR 0x0A" "butlast line = ''{'' @ json_write_members log_escape_char kvs @ ''}''"
    by (simp_all add: butlast_append)
  then show ?thesis using log_json.object_read[OF assms(1,2)] by simp
qed

lemma dec_nat_digits: "list_all (\<lambda>c. 48 \<le> (of_char c :: nat) \<and> (of_char c :: nat) \<le> 57) (dec_nat n)"
proof (induction n rule: dec_nat.induct)
  case (1 n)
  have "(of_char (dec_digit d) :: nat) = 48 + d" if "d < 10" for d
    using that by (simp add: dec_digit_def of_char_of)
  with 1 show ?case by (subst dec_nat.simps) auto
qed

lemma dec_nat_raw: "json_raw_ok (JRaw (dec_nat n))"
proof -
  have "list_all (\<lambda>c. c \<noteq> CHR 0x22 \<and> c \<noteq> CHR '','' \<and> c \<noteq> CHR ''}'') (dec_nat n)"
    using dec_nat_digits[of n] by (auto simp: list_all_iff)
  then show ?thesis by (cases "dec_nat n") (auto simp: json_raw_ok_def list_all_iff)
qed

definition event_fields :: "string \<Rightarrow> string \<Rightarrow> turn_id \<Rightarrow> (string \<times> string) list \<Rightarrow> (string \<times> json_value) list" where
  "event_fields component name turn kv =
     [(''component'', JStr component), (''event'', JStr name)] @
     (if turn \<noteq> kNoTurn then [(''turn_id'', JRaw (dec_nat (unat turn)))] else []) @ map (\<lambda>(k, v). (k, JStr v)) kv"

lemma event_line:
  assumes "CHR '']'' \<notin> set component" and "plain_text ts"
  shows "sink_line ts level (event_payload component name turn kv) =
    ''{'' @ json_write_members log_escape_char (head_fields ts level @ event_fields component name turn kv) @ ''}'' @ [CHR 0x0A]"
proof -
  let ?T = "(if turn \<noteq> kNoTurn then [(''turn_id'', JRaw (dec_nat (unat turn)))] else [])"
  let ?K = "concat (map (\<lambda>(k, v). '','' @ escape_string k @ '':'' @ escape_string v) kv)"
  have fields: "json_write_members log_escape_char (event_fields component name turn kv) =
      q @ ''component'' @ q @ '':'' @ escape_string component @ '','' @ q @ ''event'' @ q @ '':'' @ escape_string name @
      (if turn \<noteq> kNoTurn then '','' @ q @ ''turn_id'' @ q @ '':'' @ dec_nat (unat turn) else []) @ ?K"
    using write_strings[of "[(''component'', JStr component), (''event'', JStr name)] @ ?T" kv]
    by (simp add: event_fields_def json_write_value_def escape_string_def plain_lit plain_keys)
  have split: "split_component (event_payload component name turn kv) = Some (component, kEventMarker @ q @ ''event'' @ q @ '':'' @ escape_string name @
      (if turn \<noteq> kNoTurn then '','' @ q @ ''turn_id'' @ q @ '':'' @ dec_nat (unat turn) else []) @ ?K)"
    unfolding event_payload_def by (rule split_prefixed[OF assms(1)])
  have "json_write_members log_escape_char (head_fields ts level @ event_fields component name turn kv) =
      json_write_members log_escape_char (head_fields ts level) @ CHR '','' # json_write_members log_escape_char (event_fields component name turn kv)"
    by (rule write_append) (simp_all add: head_fields_def event_fields_def)
  then show ?thesis
    unfolding sink_line_def split head_written[OF assms(2)] fields by (simp add: Let_def q_def)
qed

lemma log_line_read:
  assumes "CHR '']'' \<notin> set component" and "plain_text ts"
  shows "json_object (butlast (sink_line ts level (event_payload component name turn kv))) =
    Some (head_fields ts level @ event_fields component name turn kv)"
proof -
  have "list_all (\<lambda>(k, v). json_raw_ok v) (head_fields ts level @ event_fields component name turn kv)"
    by (auto simp: head_fields_def event_fields_def dec_nat_raw list_all_iff)
  then show ?thesis
    using read_line[OF _ _ event_line[OF assms]] by (simp add: head_fields_def)
qed

text \<open>A plain message comes back as one string.\<close>

lemma plain_line_read:
  assumes "CHR '']'' \<notin> set component" and "plain_text ts" and "take (length kEventMarker) message \<noteq> kEventMarker"
  shows "json_object (butlast (sink_line ts level (plain_payload component message))) =
    Some (head_fields ts level @ [(''component'', JStr component), (''msg'', JStr message)])"
proof -
  let ?kvs = "head_fields ts level @ [(''component'', JStr component), (''msg'', JStr message)]"
  have fields: "json_write_members log_escape_char [(''component'', JStr component), (''msg'', JStr message)] =
      q @ ''component'' @ q @ '':'' @ escape_string component @ '','' @ q @ ''msg'' @ q @ '':'' @ escape_string message"
    by (simp add: json_write_value_def escape_string_def plain_lit plain_keys)
  have "json_write_members log_escape_char ?kvs = json_write_members log_escape_char (head_fields ts level) @
      CHR '','' # json_write_members log_escape_char [(''component'', JStr component), (''msg'', JStr message)]"
    by (rule write_append) (simp_all add: head_fields_def)
  then have "sink_line ts level (plain_payload component message) = ''{'' @ json_write_members log_escape_char ?kvs @ ''}'' @ [CHR 0x0A]"
    unfolding sink_line_def plain_payload_def split_prefixed[OF assms(1)] fields head_written[OF assms(2)]
    using assms(3) by (simp add: q_def)
  from read_line[OF _ _ this] show ?thesis by (simp add: head_fields_def)
qed

text \<open>A component name that contains the separator is cut there, and the marker is then not recognised.\<close>

lemma component_separator_splits:
  "split_component (plain_payload ''a] b'' m) = Some (''a'', ''b] '' @ m)"
  by (simp add: plain_payload_def split_component_def)

text \<open>
  A structured log event is written as one line holding one JSON object, and reading it back gives the
  time stamp, level, component, event name, turn and the key-value pairs in order, whatever
  characters the event name, the keys and the values contain.
\<close>

theorem log_events_read_back:
  assumes "CHR '']'' \<notin> set component" and "plain_text ts"
  shows "json_object (butlast (sink_line ts level (event_payload component name turn kv))) =
    Some (head_fields ts level @ event_fields component name turn kv)"
  using assms by (rule log_line_read)

lemma log_events_read_back_witness:
  "json_object (butlast (sink_line ''2026'' LvInfo (event_payload ''trace'' ''final'' 7 [(''text'', [CHR 0x22, CHR ''}'', CHR 0x01])]))) =
     Some [(''ts'', JStr ''2026''), (''level'', JStr ''info''), (''component'', JStr ''trace''), (''event'', JStr ''final''),
       (''turn_id'', JRaw ''7''), (''text'', JStr [CHR 0x22, CHR ''}'', CHR 0x01])]"
proof -
  have "dec_nat 7 = ''7''" by code_simp
  moreover have "CHR '']'' \<notin> set ''trace''" "plain_text ''2026''" by (simp_all add: plain_text_def)
  ultimately show ?thesis
    using log_events_read_back[of "''trace''" "''2026''" LvInfo "''final''" 7 "[(''text'', [CHR 0x22, CHR ''}'', CHR 0x01])]"]
    by (simp add: head_fields_def event_fields_def level_name_def kNoTurn_def)
qed

end
