(* ===== verification/Config.thy ===== *)
theory Config
  imports Prelude
begin

text \<open>
  The configuration of \<open>src/config/config.hpp\<close> and \<open>src/config/config.cpp\<close>: every section with its
  defaults, the validation in the order of its checks, the personality overlay and the resolution of
  the model aliases. A \<open>std::map\<close> is an association list kept in key order, because its iteration
  order decides which error is reported. The YAML reader is an argument.
\<close>

section \<open>Maps in key order\<close>

type_synonym 'a smap = "(string \<times> 'a) list"

fun str_less :: "string \<Rightarrow> string \<Rightarrow> bool" where
  "str_less _ [] = False"
| "str_less [] (d # t) = True"
| "str_less (c # s) (d # t) = ((of_char c :: nat) < of_char d \<or> c = d \<and> str_less s t)"

fun smap_put :: "string \<Rightarrow> 'a \<Rightarrow> 'a smap \<Rightarrow> 'a smap" where
  "smap_put k v [] = [(k, v)]"
| "smap_put k v ((l, w) # m) =
     (if k = l then (k, v) # m else if str_less k l then (k, v) # (l, w) # m else (l, w) # smap_put k v m)"

definition smap_has :: "string \<Rightarrow> 'a smap \<Rightarrow> bool" where
  "smap_has k m \<longleftrightarrow> map_of m k \<noteq> None"

lemma map_of_smap_put [simp]: "map_of (smap_put k v m) = (map_of m)(k \<mapsto> v)"
  by (induction m rule: smap_put.induct) (auto simp: fun_eq_iff)

definition smap_overlay :: "'a smap \<Rightarrow> 'a smap \<Rightarrow> 'a smap" where
  "smap_overlay upper m = foldl (\<lambda>acc (k, v). smap_put k v acc) m upper"

lemma map_of_foldl_put: "map_of (foldl (\<lambda>acc (k, v). smap_put k v acc) m upper) = map_of m ++ map_of (rev upper)"
  by (induction upper arbitrary: m) (auto simp: map_add_def fun_eq_iff split: option.splits)

section \<open>The sections\<close>

datatype log_sink = LsStderr | LsJournal | LsFile | LsDir

record logging_config =
  clog_level :: string
  clog_sink :: string
  clog_file_path :: "string option"
  clog_dir_path :: "string option"
  clog_mirror_to_stderr :: bool
  clog_vram_monitor_interval_ms :: "32 word"
  clog_vram_low_threshold_mib :: "32 word"
  clog_trace_events :: bool

definition logging_default :: logging_config where
  "logging_default =
     \<lparr>clog_level = ''info'', clog_sink = ''stderr'', clog_file_path = None, clog_dir_path = None,
      clog_mirror_to_stderr = False, clog_vram_monitor_interval_ms = 1000, clog_vram_low_threshold_mib = 100,
      clog_trace_events = True\<rparr>"

record control_config =
  cctl_bind :: string
  cctl_port :: "16 word"

definition control_default :: control_config where
  "control_default = \<lparr>cctl_bind = ''127.0.0.1'', cctl_port = 9876\<rparr>"

record fake_pipeline_config =
  cpip_fake_driver_enabled :: bool
  cpip_fake_sentences_per_turn :: "32 word"
  cpip_fake_idle_between_turns_ms :: "32 word"
  cpip_fake_barge_in_probability :: cfloat

definition fake_pipeline_default :: fake_pipeline_config where
  "fake_pipeline_default =
     \<lparr>cpip_fake_driver_enabled = False, cpip_fake_sentences_per_turn = 3, cpip_fake_idle_between_turns_ms = 1500,
      cpip_fake_barge_in_probability = Fin 0\<rparr>"

record health_config =
  chea_health_url :: string
  chea_fail_pipeline_if_down :: bool
  chea_probe_interval_healthy_ms :: "32 word"
  chea_probe_interval_degraded_ms :: "32 word"
  chea_degraded_max_failures :: "32 word"

definition health_default :: health_config where
  "health_default =
     \<lparr>chea_health_url = [], chea_fail_pipeline_if_down = True, chea_probe_interval_healthy_ms = 5000,
      chea_probe_interval_degraded_ms = 1000, chea_degraded_max_failures = 3\<rparr>"

record llm_config =
  cllm_base_url :: string
  cllm_model :: string
  cllm_unit :: string
  cllm_temperature :: cfloat
  cllm_top_p :: cfloat
  cllm_repeat_penalty :: cfloat
  cllm_max_tokens :: "32 word"
  cllm_max_prompt_tokens :: "32 word"
  cllm_request_timeout_seconds :: "32 word"
  cllm_keep_alive_interval_seconds :: "32 word"
  cllm_health :: health_config

definition llm_default :: llm_config where
  "llm_default =
     \<lparr>cllm_base_url = ''http://127.0.0.1:8081/v1'', cllm_model = ''qwen2.5-7b-instruct'', cllm_unit = ''acva-llama.service'',
      cllm_temperature = Fin 0.7, cllm_top_p = Fin 1, cllm_repeat_penalty = Fin 1, cllm_max_tokens = 400,
      cllm_max_prompt_tokens = 3000, cllm_request_timeout_seconds = 60, cllm_keep_alive_interval_seconds = 60,
      cllm_health = health_default\<rparr>"

record stt_config =
  cstt_base_url :: string
  cstt_model :: string
  cstt_request_timeout_seconds :: "32 word"
  cstt_language :: string
  cstt_streaming :: bool
  cstt_warmup_on_startup :: bool
  cstt_min_utterance_rms :: "32 word"
  cstt_health :: health_config

definition stt_default :: stt_config where
  "stt_default =
     \<lparr>cstt_base_url = [], cstt_model = [], cstt_request_timeout_seconds = 30, cstt_language = ''en'', cstt_streaming = True,
      cstt_warmup_on_startup = True, cstt_min_utterance_rms = 200, cstt_health = health_default\<rparr>"

record tts_voice =
  cvoi_model_id :: string
  cvoi_voice_id :: string

record tts_config =
  ctts_health :: health_config
  ctts_base_url :: string
  ctts_voices :: "string smap"
  ctts_voices_resolved :: "tts_voice smap"
  ctts_fallback_lang :: string
  ctts_request_timeout_seconds :: "32 word"
  ctts_tempo_wpm :: "32 word"

definition tts_default :: tts_config where
  "tts_default =
     \<lparr>ctts_health = health_default, ctts_base_url = [], ctts_voices = [], ctts_voices_resolved = [],
      ctts_fallback_lang = ''en'', ctts_request_timeout_seconds = 10, ctts_tempo_wpm = 200\<rparr>"

record supervisor_config =
  csup_pipeline_fail_grace_seconds :: "32 word"
  csup_probe_timeout_ms :: "32 word"

definition supervisor_default :: supervisor_config where
  "supervisor_default = \<lparr>csup_pipeline_fail_grace_seconds = 30, csup_probe_timeout_ms = 3000\<rparr>"

record summary_config =
  csum_trigger :: string
  csum_turn_threshold :: "32 word"
  csum_token_threshold :: "32 word"
  csum_idle_seconds :: "32 word"
  csum_language :: string

record facts_config =
  cfac_policy :: string
  cfac_confidence_threshold :: cfloat

record memory_config =
  cmem_db_path :: string
  cmem_recent_turns_n :: "32 word"
  cmem_write_queue_capacity :: "32 word"
  cmem_summary :: summary_config
  cmem_facts :: facts_config

definition memory_default :: memory_config where
  "memory_default =
     \<lparr>cmem_db_path = [], cmem_recent_turns_n = 10, cmem_write_queue_capacity = 256,
      cmem_summary = \<lparr>csum_trigger = ''turns'', csum_turn_threshold = 15, csum_token_threshold = 4000,
        csum_idle_seconds = 120, csum_language = ''dominant''\<rparr>,
      cmem_facts = \<lparr>cfac_policy = ''conservative'', cfac_confidence_threshold = Fin 0.7\<rparr>\<rparr>"

record splitter_limits =
  cspl_max_sentence_chars :: "32 word"
  cspl_detect_code_fences :: bool

record self_listen_config =
  csel_enabled :: bool
  csel_max_in_flight :: "32 word"

record dialogue_config =
  cdia_recent_turns_n :: "32 word"
  cdia_max_assistant_sentences :: "32 word"
  cdia_max_assistant_tokens :: "32 word"
  cdia_self_listen :: self_listen_config
  cdia_max_tts_queue_sentences :: "32 word"
  cdia_fallback_language :: string
  cdia_system_prompts :: "string smap"
  cdia_sentence_splitter :: splitter_limits

definition dialogue_default :: dialogue_config where
  "dialogue_default =
     \<lparr>cdia_recent_turns_n = 10, cdia_max_assistant_sentences = 6, cdia_max_assistant_tokens = 400,
      cdia_self_listen = \<lparr>csel_enabled = False, csel_max_in_flight = 1\<rparr>, cdia_max_tts_queue_sentences = 3,
      cdia_fallback_language = ''en'', cdia_system_prompts = [],
      cdia_sentence_splitter = \<lparr>cspl_max_sentence_chars = 600, cspl_detect_code_fences = True\<rparr>\<rparr>"

record loopback_config =
  clop_ring_seconds :: "32 word"

record audio_config =
  caud_output_device :: string
  caud_input_device :: string
  caud_capture_enabled :: bool
  caud_sample_rate_hz :: "32 word"
  caud_buffer_frames :: "32 word"
  caud_half_duplex_while_speaking :: bool
  caud_half_duplex_hangover_ms :: "32 word"
  caud_loopback :: loopback_config
  caud_skip_alsa_full_probe :: bool

definition audio_default :: audio_config where
  "audio_default =
     \<lparr>caud_output_device = ''default'', caud_input_device = ''default'', caud_capture_enabled = False,
      caud_sample_rate_hz = 48000, caud_buffer_frames = 480, caud_half_duplex_while_speaking = False,
      caud_half_duplex_hangover_ms = 200, caud_loopback = \<lparr>clop_ring_seconds = 2\<rparr>, caud_skip_alsa_full_probe = True\<rparr>"

record apm_config =
  capm_aec_enabled :: bool
  capm_ns_enabled :: bool
  capm_agc_enabled :: bool
  capm_initial_delay_estimate_ms :: "32 word"
  capm_max_delay_ms :: "32 word"
  capm_use_system_aec :: bool

definition apm_default :: apm_config where
  "apm_default =
     \<lparr>capm_aec_enabled = True, capm_ns_enabled = True, capm_agc_enabled = True, capm_initial_delay_estimate_ms = 50,
      capm_max_delay_ms = 250, capm_use_system_aec = False\<rparr>"

record playback_config =
  cpla_max_queue_chunks :: "32 word"
  cpla_underrun_log_throttle_ms :: "32 word"
  cpla_prefill_ms :: "32 word"

record vad_config =
  cvad_provider :: string
  cvad_model_path :: string
  cvad_onset_threshold :: cfloat
  cvad_offset_threshold :: cfloat
  cvad_min_speech_ms :: "32 word"
  cvad_hangover_ms :: "32 word"
  cvad_pre_padding_ms :: "32 word"
  cvad_post_padding_ms :: "32 word"

definition vad_default :: vad_config where
  "vad_default =
     \<lparr>cvad_provider = ''silero'', cvad_model_path = [], cvad_onset_threshold = Fin 0.5, cvad_offset_threshold = Fin 0.35,
      cvad_min_speech_ms = 200, cvad_hangover_ms = 600, cvad_pre_padding_ms = 300, cvad_post_padding_ms = 100\<rparr>"

record utterance_config =
  cutt_max_in_flight :: "32 word"
  cutt_max_duration_ms :: "32 word"

record barge_in_section =
  cbar_enabled :: bool
  cbar_require_aec_converged :: bool
  cbar_min_aec_erle_db :: cfloat
  cbar_min_vad_probability :: cfloat
  cbar_cool_down_after_turn_ms :: "32 word"
  cbar_min_real_utterance_chars :: "32 word"

record llm_model_entry =
  mllm_file :: string
  mllm_url :: string
  mllm_size :: "64 word"
  mllm_purpose :: string

record stt_model_entry =
  mstt_id :: string
  mstt_purpose :: string

record tts_model_entry =
  mtts_id :: string
  mtts_voice :: string
  mtts_purpose :: string

record vad_model_entry =
  mvad_file :: string
  mvad_url :: string
  mvad_size :: "64 word"
  mvad_purpose :: string

record models_config =
  cmod_llm :: "llm_model_entry smap"
  cmod_stt :: "stt_model_entry smap"
  cmod_tts :: "tts_model_entry smap"
  cmod_vad :: "vad_model_entry smap"

record llm_override =
  pllm_temperature :: "cfloat option"
  pllm_top_p :: "cfloat option"
  pllm_repeat_penalty :: "cfloat option"

record dialogue_override =
  pdia_max_assistant_sentences :: "32 word option"
  pdia_max_assistant_tokens :: "32 word option"
  pdia_max_sentence_chars :: "32 word option"

record personality =
  pers_description :: string
  pers_system_prompts :: "string smap"
  pers_voices :: "string smap"
  pers_tempo_wpm :: "32 word option"
  pers_llm :: llm_override
  pers_dialogue :: dialogue_override

record config =
  cfg_models :: models_config
  cfg_logging :: logging_config
  cfg_control :: control_config
  cfg_pipeline :: fake_pipeline_config
  cfg_llm :: llm_config
  cfg_stt :: stt_config
  cfg_tts :: tts_config
  cfg_supervisor :: supervisor_config
  cfg_memory :: memory_config
  cfg_dialogue :: dialogue_config
  cfg_audio :: audio_config
  cfg_playback :: playback_config
  cfg_vad :: vad_config
  cfg_utterance :: utterance_config
  cfg_apm :: apm_config
  cfg_barge_in :: barge_in_section
  cfg_personalities :: "personality smap"
  cfg_active_personality :: string

definition config_default :: config where
  "config_default =
     \<lparr>cfg_models = \<lparr>cmod_llm = [], cmod_stt = [], cmod_tts = [], cmod_vad = []\<rparr>, cfg_logging = logging_default,
      cfg_control = control_default, cfg_pipeline = fake_pipeline_default, cfg_llm = llm_default, cfg_stt = stt_default,
      cfg_tts = tts_default, cfg_supervisor = supervisor_default, cfg_memory = memory_default,
      cfg_dialogue = dialogue_default, cfg_audio = audio_default,
      cfg_playback = \<lparr>cpla_max_queue_chunks = 0, cpla_underrun_log_throttle_ms = 1000, cpla_prefill_ms = 100\<rparr>,
      cfg_vad = vad_default, cfg_utterance = \<lparr>cutt_max_in_flight = 3, cutt_max_duration_ms = 60000\<rparr>,
      cfg_apm = apm_default,
      cfg_barge_in = \<lparr>cbar_enabled = True, cbar_require_aec_converged = True, cbar_min_aec_erle_db = Fin 15,
        cbar_min_vad_probability = Fin 0.6, cbar_cool_down_after_turn_ms = 300, cbar_min_real_utterance_chars = 3\<rparr>,
      cfg_personalities = [], cfg_active_personality = []\<rparr>"

section \<open>Validation\<close>

definition kValidLogLevels :: "string list" where
  "kValidLogLevels = [''trace'', ''debug'', ''info'', ''warn'', ''error'', ''critical'', ''off'']"

definition kValidSinks :: "string list" where
  "kValidSinks = [''stderr'', ''journal'', ''file'', ''dir'']"

definition parse_log_sink :: "string \<Rightarrow> log_sink" where
  "parse_log_sink s =
     (if s = ''journal'' then LsJournal else if s = ''file'' then LsFile else if s = ''dir'' then LsDir else LsStderr)"

fun has_part :: "string \<Rightarrow> string \<Rightarrow> bool" where
  "has_part p [] = (p = [])"
| "has_part p (c # s) = (take (length p) (c # s) = p \<or> has_part p s)"

definition apos :: string where
  "apos = [CHR 0x27]"

definition em_dash :: string where
  "em_dash = [CHR 0xE2, CHR 0x80, CHR 0x94]"

text \<open>A check is the condition of an early return and its message; the first that applies is the answer.\<close>

type_synonym check = "bool \<times> string"

fun first_error :: "check list \<Rightarrow> string option" where
  "first_error [] = None"
| "first_error ((bad, message) # cs) = (if bad then Some message else first_error cs)"

text \<open>The messages are long literals: the simplifier is kept out of them.\<close>

lemma check_cong: "bad = bad' \<Longrightarrow> (bad, m :: string) = (bad', m)"
  by simp

lemma first_error_Cons: "first_error ((bad, m) # cs) = None \<longleftrightarrow> \<not> bad \<and> first_error cs = None"
  by simp

lemma first_error_append_None: "first_error (cs @ ds) = None \<longleftrightarrow> first_error cs = None \<and> first_error ds = None"
  by (induction cs rule: first_error.induct) auto

lemma first_error_concat_None:
  "first_error (concat (map f xs)) = None \<longleftrightarrow> (\<forall>x \<in> set xs. first_error (f x) = None)"
  by (induction xs) (simp_all add: first_error_append_None)

lemma first_error_None: "first_error cs = None \<longleftrightarrow> (\<forall>(bad, m) \<in> set cs. \<not> bad)"
  by (induction cs rule: first_error.induct) auto

lemma first_error_append [simp]:
  "first_error (cs @ ds) = (case first_error cs of None \<Rightarrow> first_error ds | Some m \<Rightarrow> Some m)"
  by (induction cs rule: first_error.induct) auto

definition outside :: "real \<Rightarrow> real \<Rightarrow> cfloat \<Rightarrow> bool" where
  "outside lo hi x \<longleftrightarrow> cfloat_lt x (Fin lo) \<or> cfloat_lt (Fin hi) x"

definition logging_checks :: "config \<Rightarrow> check list" where
  "logging_checks c =
     (let l = cfg_logging c
      in [(clog_level l \<notin> set kValidLogLevels,
            ''config: logging.level: invalid value '' @ apos @ clog_level l @ apos),
          (clog_sink l \<notin> set kValidSinks,
            ''config: logging.sink: invalid value '' @ apos @ clog_sink l @ apos),
          (clog_sink l = ''file'' \<and> clog_file_path l = None,
            ''config: logging.sink='' @ apos @ ''file'' @ apos @ '' requires logging.file_path''),
          (clog_sink l = ''dir'' \<and> clog_dir_path l = None,
            ''config: logging.sink='' @ apos @ ''dir'' @ apos @ '' requires logging.dir_path''),
          (cctl_port (cfg_control c) = 0, ''config: control.port: must be non-zero'')])"

definition llm_checks :: "config \<Rightarrow> check list" where
  "llm_checks c =
     [(outside 0 1 (cpip_fake_barge_in_probability (cfg_pipeline c)),
        ''config: pipeline.fake_barge_in_probability: must be in [0, 1]''),
      (cpip_fake_sentences_per_turn (cfg_pipeline c) = 0, ''config: pipeline.fake_sentences_per_turn: must be > 0''),
      (outside 0 2 (cllm_temperature (cfg_llm c)), ''config: llm.temperature: must be in [0, 2]''),
      (cfloat_ge (Fin 0) (cllm_top_p (cfg_llm c)) \<or> cfloat_lt (Fin 1) (cllm_top_p (cfg_llm c)),
        ''config: llm.top_p: must be in (0, 1]''),
      (outside 0 2 (cllm_repeat_penalty (cfg_llm c)), ''config: llm.repeat_penalty: must be in [0, 2]''),
      (cllm_max_tokens (cfg_llm c) = 0, ''config: llm.max_tokens: must be > 0''),
      (cllm_max_prompt_tokens (cfg_llm c) = 0, ''config: llm.max_prompt_tokens: must be > 0'')]"

definition memory_checks :: "config \<Rightarrow> check list" where
  "memory_checks c =
     [(cmem_recent_turns_n (cfg_memory c) = 0, ''config: memory.recent_turns_n: must be > 0''),
      (csum_trigger (cmem_summary (cfg_memory c)) \<notin> {''turns'', ''tokens'', ''idle'', ''hybrid''},
        ''config: memory.summary.trigger: must be one of turns|tokens|idle|hybrid''),
      (cfac_policy (cmem_facts (cfg_memory c)) \<notin> {''conservative'', ''moderate'', ''aggressive'', ''manual_only''},
        ''config: memory.facts.policy: must be conservative|moderate|aggressive|manual_only''),
      (cdia_max_assistant_sentences (cfg_dialogue c) = 0, ''config: dialogue.max_assistant_sentences: must be > 0'')]"

text \<open>The loop over the three services; a service without a probe is skipped.\<close>

definition health_checks :: "string \<times> health_config \<Rightarrow> check list" where
  "health_checks nh =
     (case nh of (name, h) \<Rightarrow>
        if chea_health_url h = [] then []
        else [(chea_probe_interval_healthy_ms h = 0, ''config: '' @ name @ ''.health.probe_interval_healthy_ms: must be > 0''),
              (chea_probe_interval_degraded_ms h = 0, ''config: '' @ name @ ''.health.probe_interval_degraded_ms: must be > 0''),
              (chea_degraded_max_failures h = 0, ''config: '' @ name @ ''.health.degraded_max_failures: must be > 0'')])"

definition service_checks :: "config \<Rightarrow> check list" where
  "service_checks c =
     concat (map health_checks [(''llm'', cllm_health (cfg_llm c)), (''stt'', cstt_health (cfg_stt c)), (''tts'', ctts_health (cfg_tts c))]) @
     [(csup_probe_timeout_ms (cfg_supervisor c) = 0, ''config: supervisor.probe_timeout_ms: must be > 0''),
      (cdia_system_prompts (cfg_dialogue c) \<noteq> [] \<and>
         \<not> smap_has (cdia_fallback_language (cfg_dialogue c)) (cdia_system_prompts (cfg_dialogue c)),
        ''config: dialogue.system_prompts: must contain an entry for the fallback_language ('' @ apos @
        cdia_fallback_language (cfg_dialogue c) @ apos @ '')'')]"

definition stt_checks :: "config \<Rightarrow> check list" where
  "stt_checks c =
     [(ctts_request_timeout_seconds (cfg_tts c) = 0, ''config: tts.request_timeout_seconds: must be > 0''),
      (ctts_tempo_wpm (cfg_tts c) \<noteq> 0 \<and> (ctts_tempo_wpm (cfg_tts c) < 50 \<or> ctts_tempo_wpm (cfg_tts c) > 400),
        ''config: tts.tempo_wpm: must be 0 or in [50, 400]'')] @
     (if cstt_base_url (cfg_stt c) = [] then []
      else [(\<not> has_part ''://'' (cstt_base_url (cfg_stt c)), ''config: stt.base_url: must include scheme (http://...)''),
            (cstt_model (cfg_stt c) = [], ''config: stt.model: required when stt.base_url is set''),
            (cstt_request_timeout_seconds (cfg_stt c) = 0, ''config: stt.request_timeout_seconds: must be > 0'')])"

text \<open>The loop over the configured voices.\<close>

definition voice_checks :: "tts_voice smap \<Rightarrow> string \<times> string \<Rightarrow> check list" where
  "voice_checks resolved la =
     (case la of (lang, alias) \<Rightarrow>
       [(alias = [], ''config: tts.voices['' @ lang @ '']: alias name required (e.g. en-amy, ru-irina)''),
        (map_of resolved lang = None,
          ''config: tts.voices['' @ lang @ '']: unknown alias '' @ apos @ alias @ apos @ '' '' @ em_dash @
          '' register it under models.tts or pick a configured one''),
        (case map_of resolved lang of None \<Rightarrow> False | Some v \<Rightarrow> cvoi_model_id v = [] \<or> cvoi_voice_id v = [],
          ''config: models.tts['' @ alias @ '']: id + voice required'')])"

definition tts_checks :: "config \<Rightarrow> check list" where
  "tts_checks c =
     (let t = cfg_tts c
      in [(ctts_voices t \<noteq> [] \<and> ctts_base_url t = [], ''config: tts.base_url: must be set when tts.voices is non-empty''),
          (ctts_base_url t \<noteq> [] \<and> \<not> has_part ''://'' (ctts_base_url t),
            ''config: tts.base_url: must include scheme (http://...)'')] @
         concat (map (voice_checks (ctts_voices_resolved t)) (ctts_voices t)) @
         [(ctts_voices t \<noteq> [] \<and> \<not> smap_has (ctts_fallback_lang t) (ctts_voices t),
            ''config: tts.fallback_lang ('' @ apos @ ctts_fallback_lang t @ apos @ '') must match one of tts.voices keys'')])"

definition audio_checks :: "config \<Rightarrow> check list" where
  "audio_checks c =
     [(caud_sample_rate_hz (cfg_audio c) = 0, ''config: audio.sample_rate_hz: must be > 0''),
      (caud_buffer_frames (cfg_audio c) = 0, ''config: audio.buffer_frames: must be > 0''),
      (cdia_max_tts_queue_sentences (cfg_dialogue c) = 0, ''config: dialogue.max_tts_queue_sentences: must be > 0''),
      (outside 0 1 (cvad_onset_threshold (cfg_vad c)), ''config: vad.onset_threshold: must be in [0, 1]''),
      (outside 0 1 (cvad_offset_threshold (cfg_vad c)), ''config: vad.offset_threshold: must be in [0, 1]''),
      (cfloat_lt (cvad_onset_threshold (cfg_vad c)) (cvad_offset_threshold (cfg_vad c)),
        ''config: vad.offset_threshold must be <= vad.onset_threshold (otherwise the hysteresis band collapses)''),
      (cvad_min_speech_ms (cfg_vad c) = 0, ''config: vad.min_speech_ms: must be > 0''),
      (cvad_hangover_ms (cfg_vad c) = 0, ''config: vad.hangover_ms: must be > 0''),
      (cutt_max_in_flight (cfg_utterance c) = 0, ''config: utterance.max_in_flight: must be > 0''),
      (cutt_max_duration_ms (cfg_utterance c) = 0, ''config: utterance.max_duration_ms: must be > 0'')]"

definition barge_in_checks :: "config \<Rightarrow> check list" where
  "barge_in_checks c =
     [(clop_ring_seconds (caud_loopback (cfg_audio c)) = 0, ''config: audio.loopback.ring_seconds: must be > 0''),
      (capm_max_delay_ms (cfg_apm c) = 0, ''config: apm.max_delay_ms: must be > 0''),
      (capm_initial_delay_estimate_ms (cfg_apm c) > capm_max_delay_ms (cfg_apm c),
        ''config: apm.initial_delay_estimate_ms must be <= apm.max_delay_ms''),
      (cfloat_lt (cbar_min_aec_erle_db (cfg_barge_in c)) (Fin 0), ''config: barge_in.min_aec_erle_db: must be >= 0''),
      (outside 0 1 (cbar_min_vad_probability (cfg_barge_in c)), ''config: barge_in.min_vad_probability: must be in [0, 1]''),
      (cfg_active_personality c \<noteq> [] \<and> \<not> smap_has (cfg_active_personality c) (cfg_personalities c),
        ''config: active_personality: '' @ apos @ cfg_active_personality c @ apos @ '' is not a key in personalities '' @ em_dash @
        '' pick one of the configured presets, or leave active_personality empty'')]"

definition validate :: "config \<Rightarrow> string option" where
  "validate c =
     first_error (logging_checks c @ llm_checks c @ memory_checks c @ service_checks c @ stt_checks c @ tts_checks c @
       audio_checks c @ barge_in_checks c)"

section \<open>Overlay and aliases\<close>

definition set_if :: "'a option \<Rightarrow> ('a \<Rightarrow> 'b \<Rightarrow> 'b) \<Rightarrow> 'b \<Rightarrow> 'b" where
  "set_if x f y = (case x of None \<Rightarrow> y | Some v \<Rightarrow> f v y)"

definition overlay_dialogue :: "personality \<Rightarrow> dialogue_config \<Rightarrow> dialogue_config" where
  "overlay_dialogue p d =
     (let o' = pers_dialogue p;
          d1 = d\<lparr>cdia_system_prompts := smap_overlay (pers_system_prompts p) (cdia_system_prompts d)\<rparr>;
          d2 = set_if (pdia_max_assistant_sentences o') (\<lambda>v x. x\<lparr>cdia_max_assistant_sentences := v\<rparr>) d1;
          d3 = set_if (pdia_max_assistant_tokens o') (\<lambda>v x. x\<lparr>cdia_max_assistant_tokens := v\<rparr>) d2
      in set_if (pdia_max_sentence_chars o')
           (\<lambda>v x. x\<lparr>cdia_sentence_splitter := (cdia_sentence_splitter x)\<lparr>cspl_max_sentence_chars := v\<rparr>\<rparr>) d3)"

definition overlay_tts :: "personality \<Rightarrow> tts_config \<Rightarrow> tts_config" where
  "overlay_tts p t =
     set_if (pers_tempo_wpm p) (\<lambda>v x. x\<lparr>ctts_tempo_wpm := v\<rparr>)
       (t\<lparr>ctts_voices := smap_overlay (pers_voices p) (ctts_voices t)\<rparr>)"

definition overlay_llm :: "personality \<Rightarrow> llm_config \<Rightarrow> llm_config" where
  "overlay_llm p l =
     set_if (pllm_repeat_penalty (pers_llm p)) (\<lambda>v x. x\<lparr>cllm_repeat_penalty := v\<rparr>)
       (set_if (pllm_top_p (pers_llm p)) (\<lambda>v x. x\<lparr>cllm_top_p := v\<rparr>)
         (set_if (pllm_temperature (pers_llm p)) (\<lambda>v x. x\<lparr>cllm_temperature := v\<rparr>) l))"

definition apply_active_personality :: "config \<Rightarrow> config" where
  "apply_active_personality c =
     (if cfg_active_personality c = [] then c
      else case map_of (cfg_personalities c) (cfg_active_personality c) of
          None \<Rightarrow> c
        | Some p \<Rightarrow>
            c\<lparr>cfg_dialogue := overlay_dialogue p (cfg_dialogue c), cfg_tts := overlay_tts p (cfg_tts c),
              cfg_llm := overlay_llm p (cfg_llm c)\<rparr>)"

text \<open>One round of the loop that fills \<open>voices_resolved\<close>; an unknown alias is left out.\<close>

definition resolve_voice :: "tts_model_entry smap \<Rightarrow> tts_voice smap \<Rightarrow> string \<times> string \<Rightarrow> tts_voice smap" where
  "resolve_voice models acc la =
     (case la of (lang, alias) \<Rightarrow>
        case map_of models alias of
          None \<Rightarrow> acc
        | Some e \<Rightarrow> smap_put lang \<lparr>cvoi_model_id = mtts_id e, cvoi_voice_id = mtts_voice e\<rparr> acc)"

definition resolve_stt :: "config \<Rightarrow> config" where
  "resolve_stt c =
     (case map_of (cmod_stt (cfg_models c)) (cstt_model (cfg_stt c)) of
        None \<Rightarrow> c | Some e \<Rightarrow> c\<lparr>cfg_stt := (cfg_stt c)\<lparr>cstt_model := mstt_id e\<rparr>\<rparr>)"

definition resolve_vad :: "config \<Rightarrow> config" where
  "resolve_vad c =
     (case map_of (cmod_vad (cfg_models c)) (cvad_model_path (cfg_vad c)) of
        None \<Rightarrow> c | Some e \<Rightarrow> c\<lparr>cfg_vad := (cfg_vad c)\<lparr>cvad_model_path := ''models/silero/'' @ mvad_file e\<rparr>\<rparr>)"

definition resolve_tts :: "config \<Rightarrow> config" where
  "resolve_tts c =
     c\<lparr>cfg_tts := (cfg_tts c)\<lparr>ctts_voices_resolved :=
         foldl (resolve_voice (cmod_tts (cfg_models c))) [] (ctts_voices (cfg_tts c))\<rparr>\<rparr>"

definition resolve_aliases :: "config \<Rightarrow> config" where
  "resolve_aliases c = resolve_tts (resolve_vad (resolve_stt (apply_active_personality c)))"

text \<open>The YAML reader fills a default configuration, or fails with its message.\<close>

definition load_from_string :: "(string \<Rightarrow> config \<Rightarrow> string + config) \<Rightarrow> string \<Rightarrow> string + config" where
  "load_from_string read_yaml yaml =
     (case read_yaml yaml config_default of
        Inl m \<Rightarrow> Inl (''config: parse error: '' @ m)
      | Inr c \<Rightarrow>
          (let r = resolve_aliases c in case validate r of Some m \<Rightarrow> Inl m | None \<Rightarrow> Inr r))"

definition load_from_file ::
  "(string \<Rightarrow> config \<Rightarrow> string + config) \<Rightarrow> (string \<Rightarrow> string option) \<Rightarrow> string \<Rightarrow> string + config" where
  "load_from_file read_yaml files path =
     (case files path of
        None \<Rightarrow> Inl (''config: cannot open file: '' @ path)
      | Some yaml \<Rightarrow> load_from_string read_yaml yaml)"

section \<open>What a loaded configuration promises\<close>

lemma str_less_irrefl [simp]: "\<not> str_less s s"
  by (induction s) auto

lemma str_less_trans: "str_less a b \<Longrightarrow> str_less b c \<Longrightarrow> str_less a c"
proof (induction a b arbitrary: c rule: str_less.induct)
  case (2 d t)
  then show ?case by (cases c) auto
next
  case (3 x s d t)
  then show ?case by (cases c) auto
qed simp

lemma str_less_linear: "str_less a b \<or> a = b \<or> str_less b a"
proof (induction a b rule: str_less.induct)
  case (1 s)
  then show ?case by (cases s) auto
next
  case (3 c s d t)
  show ?case
  proof (cases "c = d")
    case False
    then have "(of_char c :: nat) < of_char d \<or> (of_char d :: nat) < of_char c" by (metis char_of_char linorder_neqE_nat)
    then show ?thesis by auto
  qed (use 3 in auto)
qed simp

definition smap_ok :: "'a smap \<Rightarrow> bool" where
  "smap_ok m \<longleftrightarrow> sorted_wrt str_less (map fst m)"

lemma keys_smap_put: "fst ` set (smap_put k v m) = insert k (fst ` set m)"
  by (induction m rule: smap_put.induct) auto

lemma smap_ok_put: "smap_ok m \<Longrightarrow> smap_ok (smap_put k v m)"
proof (induction m rule: smap_put.induct)
  case (2 k v l w m)
  have keys: "\<forall>x \<in> fst ` set m. str_less l x" using "2.prems" by (auto simp: smap_ok_def)
  consider "k = l" | "str_less k l" | "str_less l k" "k \<noteq> l" "\<not> str_less k l"
    using str_less_linear[of k l] str_less_trans[of k l k] by auto
  then show ?case
  proof cases
    case 2
    then show ?thesis using "2.prems" keys str_less_trans[of k l] by (auto simp: smap_ok_def)
  next
    case 3
    have "smap_ok (smap_put k v m)" using 3 "2.IH" "2.prems" by (auto simp: smap_ok_def)
    moreover have "\<forall>x \<in> fst ` set (smap_put k v m). str_less l x" using keys 3(1) by (auto simp: keys_smap_put)
    ultimately show ?thesis using 3 by (auto simp: smap_ok_def)
  qed (use "2.prems" in \<open>auto simp: smap_ok_def\<close>)
qed (simp add: smap_ok_def)

text \<open>Writing what is already there changes nothing.\<close>

lemma smap_put_same: "smap_ok m \<Longrightarrow> map_of m k = Some v \<Longrightarrow> smap_put k v m = m"
proof (induction m rule: smap_put.induct)
  case (2 k v l w m)
  show ?case
  proof (cases "k = l")
    case False
    then have "(k, v) \<in> set m" using "2.prems"(2) by (auto dest: map_of_SomeD)
    then have "str_less l k" using "2.prems"(1) by (force simp: smap_ok_def)
    then have "\<not> str_less k l" using str_less_trans[of k l k] by auto
    then show ?thesis using False 2 by (auto simp: smap_ok_def)
  qed (use "2.prems" in auto)
qed simp

lemma smap_ok_overlay: "smap_ok m \<Longrightarrow> smap_ok (smap_overlay upper m)"
  unfolding smap_overlay_def by (induction upper arbitrary: m) (auto simp: smap_ok_put)

lemma map_of_rev_distinct: "distinct (map fst m) \<Longrightarrow> map_of (rev m) = map_of m"
proof (induction m)
  case (Cons x m)
  moreover have "map_of m (fst x) = None" using Cons.prems by (force simp: map_of_eq_None_iff)
  ultimately show ?case by (cases x) (auto simp: map_add_def fun_eq_iff split: option.splits)
qed simp

lemma overlay_lookup:
  "distinct (map fst upper) \<Longrightarrow>
   map_of (smap_overlay upper m) k = (case map_of upper k of None \<Rightarrow> map_of m k | Some v \<Rightarrow> Some v)"
  by (simp add: smap_overlay_def map_of_foldl_put map_of_rev_distinct map_add_def)

lemma put_all_same:
  "smap_ok m \<Longrightarrow> \<forall>(k, v) \<in> set upper. map_of m k = Some v \<Longrightarrow> foldl (\<lambda>acc (k, v). smap_put k v acc) m upper = m"
  by (induction upper) (auto simp: smap_put_same)

lemma overlay_twice:
  assumes "smap_ok m" and "distinct (map fst upper)"
  shows "smap_overlay upper (smap_overlay upper m) = smap_overlay upper m"
proof -
  have "\<forall>(k, v) \<in> set upper. map_of (smap_overlay upper m) k = Some v"
    using assms(2) by (auto simp: overlay_lookup)
  with smap_ok_overlay[OF assms(1), of upper] show ?thesis
    unfolding smap_overlay_def[of upper "smap_overlay upper m"] by (intro put_all_same)
qed

lemma smap_ok_distinct: "smap_ok m \<Longrightarrow> distinct (map fst m)"
  unfolding smap_ok_def by (induction m) (auto dest: bspec)

lemma set_if_same: "(\<And>v x. f v (f v x) = f v x) \<Longrightarrow> set_if o' f (set_if o' f y) = set_if o' f y"
  by (simp add: set_if_def split: option.splits)

text \<open>The maps of a configuration are maps.\<close>

definition config_maps_ok :: "config \<Rightarrow> bool" where
  "config_maps_ok c \<longleftrightarrow>
     smap_ok (ctts_voices (cfg_tts c)) \<and> smap_ok (cdia_system_prompts (cfg_dialogue c)) \<and>
     (\<forall>(_, p) \<in> set (cfg_personalities c). smap_ok (pers_voices p) \<and> smap_ok (pers_system_prompts p))"

lemma overlay_dialogue_twice:
  "smap_ok (cdia_system_prompts d) \<Longrightarrow> smap_ok (pers_system_prompts p) \<Longrightarrow>
   overlay_dialogue p (overlay_dialogue p d) = overlay_dialogue p d"
  by (simp add: overlay_dialogue_def set_if_def Let_def overlay_twice smap_ok_distinct split: option.splits)

lemma overlay_tts_twice:
  "smap_ok (ctts_voices t) \<Longrightarrow> smap_ok (pers_voices p) \<Longrightarrow> overlay_tts p (overlay_tts p t) = overlay_tts p t"
  by (simp add: overlay_tts_def set_if_def overlay_twice smap_ok_distinct split: option.splits)

lemma overlay_llm_twice: "overlay_llm p (overlay_llm p l) = overlay_llm p l"
  by (simp add: overlay_llm_def set_if_def split: option.splits)

lemma apply_personality_twice:
  assumes "config_maps_ok c"
  shows "apply_active_personality (apply_active_personality c) = apply_active_personality c"
proof (cases "cfg_active_personality c = [] \<or> map_of (cfg_personalities c) (cfg_active_personality c) = None")
  case True
  then show ?thesis by (auto simp: apply_active_personality_def split: option.splits)
next
  case False
  then obtain p where p: "map_of (cfg_personalities c) (cfg_active_personality c) = Some p" by auto
  then have "smap_ok (pers_voices p)" "smap_ok (pers_system_prompts p)"
    using assms by (auto simp: config_maps_ok_def dest: map_of_SomeD)
  then show ?thesis using False p assms
    by (simp add: apply_active_personality_def config_maps_ok_def overlay_dialogue_twice overlay_tts_twice overlay_llm_twice)
qed

text \<open>The overlay touches neither the model names nor the resolved voices.\<close>

definition with_resolved :: "tts_voice smap \<Rightarrow> config \<Rightarrow> config" where
  "with_resolved x c = c\<lparr>cfg_tts := (cfg_tts c)\<lparr>ctts_voices_resolved := x\<rparr>\<rparr>"

lemma overlay_tts_resolved:
  "overlay_tts p (t\<lparr>ctts_voices_resolved := x\<rparr>) = (overlay_tts p t)\<lparr>ctts_voices_resolved := x\<rparr>"
  by (simp add: overlay_tts_def set_if_def split: option.splits)

lemma apply_resolved: "apply_active_personality (with_resolved x c) = with_resolved x (apply_active_personality c)"
  by (simp add: apply_active_personality_def with_resolved_def overlay_tts_resolved split: option.splits)

lemma apply_stt: "apply_active_personality (c\<lparr>cfg_stt := x\<rparr>) = (apply_active_personality c)\<lparr>cfg_stt := x\<rparr>"
  by (simp add: apply_active_personality_def split: option.splits)

lemma apply_vad: "apply_active_personality (c\<lparr>cfg_vad := x\<rparr>) = (apply_active_personality c)\<lparr>cfg_vad := x\<rparr>"
  by (simp add: apply_active_personality_def split: option.splits)

lemma resolve_tts_alt:
  "resolve_tts c = with_resolved (foldl (resolve_voice (cmod_tts (cfg_models c))) [] (ctts_voices (cfg_tts c))) c"
  by (simp add: resolve_tts_def with_resolved_def)

lemma apply_resolve:
  assumes "apply_active_personality c = c"
  shows "apply_active_personality (resolve_tts (resolve_vad (resolve_stt c))) = resolve_tts (resolve_vad (resolve_stt c))"
proof -
  have "apply_active_personality (resolve_stt c) = resolve_stt c"
    using assms by (simp add: resolve_stt_def apply_stt split: option.splits)
  then have "apply_active_personality (resolve_vad (resolve_stt c)) = resolve_vad (resolve_stt c)"
    by (simp add: resolve_vad_def apply_vad split: option.splits)
  then show ?thesis by (simp add: resolve_tts_alt apply_resolved)
qed

lemma resolve_tts_twice: "resolve_tts (resolve_tts c) = resolve_tts c"
  by (simp add: resolve_tts_def)

lemma resolve_idempotent:
  assumes "config_maps_ok c"
    and "map_of (cmod_stt (cfg_models c)) (cstt_model (cfg_stt (resolve_aliases c))) = None"
    and "map_of (cmod_vad (cfg_models c)) (cvad_model_path (cfg_vad (resolve_aliases c))) = None"
  shows "resolve_aliases (resolve_aliases c) = resolve_aliases c"
proof -
  have "apply_active_personality (resolve_aliases c) = resolve_aliases c"
    unfolding resolve_aliases_def by (rule apply_resolve [OF apply_personality_twice [OF assms(1)]])
  moreover have "cfg_models (resolve_aliases c) = cfg_models c"
    by (simp add: resolve_aliases_def resolve_tts_def resolve_vad_def resolve_stt_def apply_active_personality_def
        split: option.splits)
  ultimately have "resolve_stt (apply_active_personality (resolve_aliases c)) = resolve_aliases c"
    and "resolve_vad (resolve_aliases c) = resolve_aliases c"
    using assms(2,3) by (simp_all add: resolve_stt_def resolve_vad_def)
  moreover have "resolve_tts (resolve_aliases c) = resolve_aliases c"
    by (simp add: resolve_aliases_def resolve_tts_twice)
  ultimately show ?thesis by (simp add: resolve_aliases_def [of "resolve_aliases c"])
qed

text \<open>An alias whose resource is itself registered is resolved one step further by each pass.\<close>

definition chained_config :: config where
  "chained_config = config_default\<lparr>cfg_models := \<lparr>cmod_llm = [],
       cmod_stt = [(''a'', \<lparr>mstt_id = ''b'', mstt_purpose = []\<rparr>), (''b'', \<lparr>mstt_id = ''c'', mstt_purpose = []\<rparr>)], cmod_tts = [], cmod_vad = []\<rparr>,
     cfg_stt := stt_default\<lparr>cstt_model := ''a''\<rparr>\<rparr>"

lemma resolve_not_idempotent:
  "cstt_model (cfg_stt (resolve_aliases chained_config)) = ''b'' \<and>
   cstt_model (cfg_stt (resolve_aliases (resolve_aliases chained_config))) = ''c''"
  by (simp add: resolve_aliases_def resolve_tts_def resolve_vad_def resolve_stt_def apply_active_personality_def
      chained_config_def config_default_def stt_default_def vad_default_def)

text \<open>What validation leaves of a voice.\<close>

lemma validate_parts:
  "validate c = None \<longleftrightarrow>
     first_error (logging_checks c) = None \<and> first_error (llm_checks c) = None \<and> first_error (memory_checks c) = None \<and>
     first_error (service_checks c) = None \<and> first_error (stt_checks c) = None \<and> first_error (tts_checks c) = None \<and>
     first_error (audio_checks c) = None \<and> first_error (barge_in_checks c) = None"
  by (auto simp: validate_def split: option.splits)

lemma accepted_voice:
  assumes "validate c = None" and "(lang, alias) \<in> set (ctts_voices (cfg_tts c))"
  shows "\<exists>v. map_of (ctts_voices_resolved (cfg_tts c)) lang = Some v \<and> cvoi_model_id v \<noteq> [] \<and> cvoi_voice_id v \<noteq> []"
proof -
  have "first_error (tts_checks c) = None" using assms(1) by (simp add: validate_parts)
  then have "first_error (voice_checks (ctts_voices_resolved (cfg_tts c)) (lang, alias)) = None"
    unfolding tts_checks_def Let_def first_error_append_None first_error_concat_None using assms(2) by blast
  then show ?thesis
    unfolding voice_checks_def prod.case first_error_Cons by (auto split: option.splits)
qed

lemma accepted_fallback:
  assumes "validate c = None" and "ctts_voices (cfg_tts c) \<noteq> []"
  shows "ctts_base_url (cfg_tts c) \<noteq> [] \<and> (\<exists>alias. (ctts_fallback_lang (cfg_tts c), alias) \<in> set (ctts_voices (cfg_tts c)))"
proof -
  have "first_error (tts_checks c) = None" using assms(1) by (simp add: validate_parts)
  then have "ctts_base_url (cfg_tts c) \<noteq> [] \<and> smap_has (ctts_fallback_lang (cfg_tts c)) (ctts_voices (cfg_tts c))"
    unfolding tts_checks_def Let_def first_error_append_None first_error_Cons using assms(2) by blast
  then show ?thesis by (auto simp: smap_has_def dest: map_of_SomeD)
qed

lemma accepted_audio:
  assumes "validate c = None"
  shows "caud_sample_rate_hz (cfg_audio c) \<noteq> 0 \<and> caud_buffer_frames (cfg_audio c) \<noteq> 0 \<and>
    cutt_max_in_flight (cfg_utterance c) \<noteq> 0 \<and> clop_ring_seconds (caud_loopback (cfg_audio c)) \<noteq> 0 \<and>
    cdia_max_assistant_sentences (cfg_dialogue c) \<noteq> 0"
proof -
  have "first_error (audio_checks c) = None" "first_error (barge_in_checks c) = None" "first_error (memory_checks c) = None"
    using assms by (simp_all add: validate_parts)
  then show ?thesis
    unfolding audio_checks_def barge_in_checks_def memory_checks_def first_error_Cons by blast
qed

lemma default_is_valid: "validate config_default = None"
  by (simp add: validate_def logging_checks_def llm_checks_def memory_checks_def service_checks_def stt_checks_def
      tts_checks_def audio_checks_def barge_in_checks_def health_checks_def outside_def config_default_def
      logging_default_def control_default_def fake_pipeline_default_def llm_default_def stt_default_def tts_default_def
      supervisor_default_def memory_default_def dialogue_default_def audio_default_def vad_default_def apm_default_def
      health_default_def kValidLogLevels_def kValidSinks_def)

lemma load_default: "load_from_string (\<lambda>_ c. Inr c) yaml = Inr config_default"
proof -
  have "resolve_aliases config_default = config_default"
    by (simp add: resolve_aliases_def resolve_tts_def resolve_vad_def resolve_stt_def apply_active_personality_def
        config_default_def tts_default_def)
  then show ?thesis by (simp add: load_from_string_def default_is_valid)
qed

text \<open>The range checks are written so that a value that is not a number passes them.\<close>

lemma nan_passes: "validate (config_default\<lparr>cfg_llm := llm_default\<lparr>cllm_temperature := NaN, cllm_top_p := NaN\<rparr>\<rparr>) = None"
  by (simp add: validate_def logging_checks_def llm_checks_def memory_checks_def service_checks_def stt_checks_def
      tts_checks_def audio_checks_def barge_in_checks_def health_checks_def outside_def config_default_def
      logging_default_def control_default_def fake_pipeline_default_def llm_default_def stt_default_def tts_default_def
      supervisor_default_def memory_default_def dialogue_default_def audio_default_def vad_default_def apm_default_def
      health_default_def kValidLogLevels_def kValidSinks_def)

text \<open>The personality wins where it says something, the top level elsewhere.\<close>

lemma personality_prompts:
  assumes "cfg_active_personality c \<noteq> []" and "map_of (cfg_personalities c) (cfg_active_personality c) = Some p"
    and "smap_ok (pers_system_prompts p)"
  shows "map_of (cdia_system_prompts (cfg_dialogue (resolve_aliases c))) lang =
    (case map_of (pers_system_prompts p) lang of
       None \<Rightarrow> map_of (cdia_system_prompts (cfg_dialogue c)) lang | Some x \<Rightarrow> Some x)"
proof -
  have "cfg_dialogue (resolve_aliases c) = overlay_dialogue p (cfg_dialogue c)"
    using assms(1,2)
    by (simp add: resolve_aliases_def resolve_tts_def resolve_vad_def resolve_stt_def apply_active_personality_def
        split: option.splits)
  then have "cdia_system_prompts (cfg_dialogue (resolve_aliases c)) =
      smap_overlay (pers_system_prompts p) (cdia_system_prompts (cfg_dialogue c))"
    by (simp add: overlay_dialogue_def set_if_def Let_def split: option.splits)
  then show ?thesis using overlay_lookup[OF smap_ok_distinct[OF assms(3)]] by simp
qed

definition demo_personality :: personality where
  "demo_personality =
     \<lparr>pers_description = [], pers_system_prompts = [(''en'', ''Be brief.'')], pers_voices = [(''ru'', ''ru-ruslan'')],
      pers_tempo_wpm = Some 120, pers_llm = \<lparr>pllm_temperature = Some (Fin 1), pllm_top_p = None, pllm_repeat_penalty = None\<rparr>,
      pers_dialogue = \<lparr>pdia_max_assistant_sentences = Some 2, pdia_max_assistant_tokens = None, pdia_max_sentence_chars = None\<rparr>\<rparr>"

definition demo_config :: config where
  "demo_config = config_default\<lparr>
     cfg_models := \<lparr>cmod_llm = [], cmod_stt = [(''m'', \<lparr>mstt_id = ''org/x'', mstt_purpose = []\<rparr>)],
       cmod_tts = [(''en-amy'', \<lparr>mtts_id = ''piper'', mtts_voice = ''amy'', mtts_purpose = []\<rparr>),
         (''ru-ruslan'', \<lparr>mtts_id = ''piper-ru'', mtts_voice = ''ruslan'', mtts_purpose = []\<rparr>)], cmod_vad = []\<rparr>,
     cfg_stt := stt_default\<lparr>cstt_model := ''m''\<rparr>,
     cfg_tts := tts_default\<lparr>ctts_base_url := ''http://h'', ctts_voices := [(''en'', ''en-amy'')]\<rparr>,
     cfg_personalities := [(''p'', demo_personality)], cfg_active_personality := ''p''\<rparr>"

lemmas demo_config_simps = demo_config_def demo_personality_def config_default_def stt_default_def tts_default_def
  dialogue_default_def llm_default_def vad_default_def

lemmas resolve_defs = resolve_aliases_def resolve_tts_def resolve_vad_def resolve_stt_def apply_active_personality_def
  overlay_dialogue_def overlay_tts_def overlay_llm_def set_if_def smap_overlay_def resolve_voice_def

text \<open>
  Resolving the aliases of a configuration and overlaying its personality a second time changes
  nothing, when no resolved model name is itself an alias; every map of it is kept in key order.
\<close>

theorem aliases_resolve_once:
  assumes "config_maps_ok c"
    and "map_of (cmod_stt (cfg_models c)) (cstt_model (cfg_stt (resolve_aliases c))) = None"
    and "map_of (cmod_vad (cfg_models c)) (cvad_model_path (cfg_vad (resolve_aliases c))) = None"
  shows "resolve_aliases (resolve_aliases c) = resolve_aliases c"
  using assms by (rule resolve_idempotent)

lemma aliases_resolve_once_witness:
  "resolve_aliases (resolve_aliases demo_config) = resolve_aliases demo_config \<and>
   map_of (ctts_voices_resolved (cfg_tts (resolve_aliases demo_config))) ''ru'' =
     Some \<lparr>cvoi_model_id = ''piper-ru'', cvoi_voice_id = ''ruslan''\<rparr>"
proof -
  have "config_maps_ok demo_config" by (simp add: config_maps_ok_def smap_ok_def demo_config_simps)
  moreover have "map_of (cmod_stt (cfg_models demo_config)) (cstt_model (cfg_stt (resolve_aliases demo_config))) = None"
    "map_of (cmod_vad (cfg_models demo_config)) (cvad_model_path (cfg_vad (resolve_aliases demo_config))) = None"
    by (simp_all add: resolve_defs demo_config_simps)
  ultimately have "resolve_aliases (resolve_aliases demo_config) = resolve_aliases demo_config"
    by (rule aliases_resolve_once)
  moreover have "map_of (ctts_voices_resolved (cfg_tts (resolve_aliases demo_config))) ''ru'' =
     Some \<lparr>cvoi_model_id = ''piper-ru'', cvoi_voice_id = ''ruslan''\<rparr>"
    by (simp add: resolve_defs demo_config_simps)
  ultimately show ?thesis by (rule conjI)
qed

end
