(* ===== verification/Log_Setup.thy ===== *)
theory Log_Setup
  imports Json_Log Config Text_Format
begin

text \<open>
  Setting up the log, \<open>init\<close> of \<open>src/log/log.cpp\<close>: the choice of the sinks, the per-run file, the
  level, and the time stamp of \<open>src/log/json_sink.cpp\<close>. The file system and the broken-down
  local time are the environment.
\<close>

section \<open>Time stamps\<close>

record tm_local =
  tm_year :: int
  tm_mon :: int
  tm_mday :: int
  tm_hour :: int
  tm_min :: int
  tm_sec :: int
  tm_gmtoff :: int

text \<open>The format specifications \<open>{:0wd}\<close> and \<open>{:+0wd}\<close>: the sign counts towards the width.\<close>

definition pad0 :: "nat \<Rightarrow> string \<Rightarrow> string" where
  "pad0 w ds = replicate (w - length ds) (CHR ''0'') @ ds"

definition fmt_0d :: "nat \<Rightarrow> int \<Rightarrow> string" where
  "fmt_0d w i = (if i < 0 then CHR ''-'' # pad0 (w - 1) (dec_nat (nat (- i))) else pad0 w (dec_nat (nat i)))"

definition fmt_plus :: "nat \<Rightarrow> int \<Rightarrow> string" where
  "fmt_plus w i = (if i < 0 then CHR ''-'' else CHR ''+'') # pad0 (w - 1) (dec_nat (nat \<bar>i\<bar>))"

text \<open>A time point in milliseconds is cut to seconds towards zero; \<open>to_local\<close> is \<open>localtime_r\<close>.\<close>

definition format_timestamp :: "(int \<Rightarrow> tm_local) \<Rightarrow> int \<Rightarrow> string" where
  "format_timestamp to_local tp =
     (let secs = trunc_div tp 1000; ms = tp - secs * 1000; tm = to_local secs
      in fmt_0d 4 (tm_year tm + 1900) @ ''-'' @ fmt_0d 2 (tm_mon tm + 1) @ ''-'' @ fmt_0d 2 (tm_mday tm) @ ''T'' @
         fmt_0d 2 (tm_hour tm) @ '':'' @ fmt_0d 2 (tm_min tm) @ '':'' @ fmt_0d 2 (tm_sec tm) @ ''.'' @ fmt_0d 3 ms @
         fmt_plus 3 (trunc_div (tm_gmtoff tm) 3600) @
         fmt_0d 2 (trunc_div \<bar>tm_gmtoff tm - 3600 * trunc_div (tm_gmtoff tm) 3600\<bar> 60))"

definition per_run_filename :: "(int \<Rightarrow> tm_local) \<Rightarrow> int \<Rightarrow> string" where
  "per_run_filename to_local t =
     (let tm = to_local t
      in ''acva-'' @ fmt_0d 4 (tm_year tm + 1900) @ fmt_0d 2 (tm_mon tm + 1) @ fmt_0d 2 (tm_mday tm) @ ''-'' @
         fmt_0d 2 (tm_hour tm) @ fmt_0d 2 (tm_min tm) @ fmt_0d 2 (tm_sec tm) @ ''.log'')"

text \<open>An offset of less than an hour west of Greenwich is printed as one to the east.\<close>

lemma half_hour_west:
  "drop 23 (format_timestamp (\<lambda>_. \<lparr>tm_year = 126, tm_mon = 0, tm_mday = 1, tm_hour = 0, tm_min = 0, tm_sec = 0, tm_gmtoff = - 1800\<rparr>) 0) =
     ''+0030''"
  by code_simp

section \<open>Sinks\<close>

datatype log_target = LtStderr | LtFile string

record file_system =
  fs_opens :: "string \<Rightarrow> bool"         \<comment> \<open>\<open>fopen\<close> for appending succeeds\<close>
  fs_makes_dir :: "string \<Rightarrow> bool"     \<comment> \<open>\<open>create_directories\<close> reports no error\<close>

text \<open>\<open>std::filesystem::path\<close> division: an absolute right side replaces the left one.\<close>

definition is_absolute :: "string \<Rightarrow> bool" where
  "is_absolute p \<longleftrightarrow> p \<noteq> [] \<and> hd p = CHR ''/''"

definition path_join :: "string \<Rightarrow> string \<Rightarrow> string" where
  "path_join d f =
     (if is_absolute f \<or> d = [] then f else if last d = CHR ''/'' then d @ f else d @ ''/'' @ f)"

definition open_dir_sink :: "file_system \<Rightarrow> string \<Rightarrow> string \<Rightarrow> log_target option" where
  "open_dir_sink fs name d =
     (if \<not> fs_makes_dir fs d then None
      else if \<not> fs_opens fs (path_join d name) then None
      else Some (LtFile (path_join d name)))"

record log_state =
  lg_sinks :: "log_target list"
  lg_level :: log_level

definition log_init :: "file_system \<Rightarrow> string \<Rightarrow> logging_config \<Rightarrow> string + log_state" where
  "log_init fs name cfg =
     (let kind = parse_log_sink (clog_sink cfg);
          primary =
            (case kind of
               LsFile \<Rightarrow>
                 (case clog_file_path cfg of
                    None \<Rightarrow> Inl ''log: file_path required for sink=file''
                  | Some p \<Rightarrow> if fs_opens fs p then Inr (LtFile p) else Inl (''log: failed to open '' @ p))
             | LsDir \<Rightarrow>
                 (case clog_dir_path cfg of
                    None \<Rightarrow> Inl ''log: dir_path required for sink=dir''
                  | Some d \<Rightarrow> Inr (case open_dir_sink fs name d of Some t \<Rightarrow> t | None \<Rightarrow> LtStderr))
             | _ \<Rightarrow> Inr LtStderr)
      in case primary of
          Inl e \<Rightarrow> Inl e
        | Inr t \<Rightarrow>
            Inr \<lparr>lg_sinks = [t] @ (if clog_mirror_to_stderr cfg \<and> kind \<noteq> LsStderr \<and> kind \<noteq> LsJournal then [LtStderr] else []),
                 lg_level = parse_level (clog_level cfg)\<rparr>)"

lemma accepted_logging:
  assumes "validate c = None"
  shows "clog_level (cfg_logging c) \<in> set kValidLogLevels \<and>
    (clog_sink (cfg_logging c) = ''file'' \<longrightarrow> clog_file_path (cfg_logging c) \<noteq> None) \<and>
    (clog_sink (cfg_logging c) = ''dir'' \<longrightarrow> clog_dir_path (cfg_logging c) \<noteq> None)"
proof -
  have "first_error (logging_checks c) = None" using assms by (simp add: validate_parts)
  then show ?thesis unfolding logging_checks_def Let_def first_error_Cons by argo
qed

text \<open>With the fallback of the directory sink every line would come out twice on the same stream.\<close>

lemma fallback_doubles:
  "log_init \<lparr>fs_opens = \<lambda>_. True, fs_makes_dir = \<lambda>_. False\<rparr> name
     (logging_default\<lparr>clog_sink := ''dir'', clog_dir_path := Some d, clog_mirror_to_stderr := True\<rparr>) =
   Inr \<lparr>lg_sinks = [LtStderr, LtStderr], lg_level = LvInfo\<rparr>"
  by (simp add: log_init_def open_dir_sink_def parse_log_sink_def logging_default_def parse_level_def)

lemma valid_level: "l \<in> set kValidLogLevels \<Longrightarrow> level_name (parse_level l) = l"
  by (auto simp: kValidLogLevels_def parse_level_def level_name_def)

text \<open>
  A configuration that loads can be logged with: setting up the log fails only when the
  configured file itself cannot be opened (a directory falls back to the standard error), there
  is always a sink, and the level in force is the one named.
\<close>

lemma loaded_log:
  assumes "load_from_string rd yaml = Inr c"
  shows "(case log_init fs name (cfg_logging c) of
      Inl e \<Rightarrow> clog_sink (cfg_logging c) = ''file'' \<and>
        (\<exists>p. clog_file_path (cfg_logging c) = Some p \<and> \<not> fs_opens fs p \<and> e = ''log: failed to open '' @ p)
    | Inr g \<Rightarrow> lg_sinks g \<noteq> [] \<and> level_name (lg_level g) = clog_level (cfg_logging c))"
proof -
  have "validate c = None"
    using assms by (auto simp: load_from_string_def Let_def split: sum.splits option.splits)
  from accepted_logging[OF this] valid_level show ?thesis
    by (auto simp: log_init_def parse_log_sink_def Let_def split: option.splits if_splits sum.splits)
qed

end
