(* ===== verification/Tts_Client.thy ===== *)
theory Tts_Client
  imports Config Json_Text Tts_Bridge Wav Text_Format
begin

text \<open>
  The client of the speech server, \<open>src/tts/openai_tts_client.hpp\<close> and \<open>src/tts/openai_tts_client.cpp\<close>:
  the route of a language, the request, and the write callback that cuts the received bytes into
  samples. libcurl is the environment: the reads it delivers, each with whether the token is
  cancelled by then, its result code and the HTTP status. The error texts, which the bridge only
  logs, are left out. The last section joins the client to the bridge that drives it.
\<close>

section \<open>Route and request\<close>

record voice_route =
  vr_model_id :: string
  vr_voice_id :: string

definition route_for :: "tts_config \<Rightarrow> string \<Rightarrow> voice_route" where
  "route_for cfg lang =
     (case map_of (ctts_voices_resolved cfg) lang of
        Some v \<Rightarrow> \<lparr>vr_model_id = cvoi_model_id v, vr_voice_id = cvoi_voice_id v\<rparr>
      | None \<Rightarrow>
          (case map_of (ctts_voices_resolved cfg) (ctts_fallback_lang cfg) of
             Some v \<Rightarrow> \<lparr>vr_model_id = cvoi_model_id v, vr_voice_id = cvoi_voice_id v\<rparr>
           | None \<Rightarrow> \<lparr>vr_model_id = [], vr_voice_id = []\<rparr>))"

definition drop_slash :: "string \<Rightarrow> string" where
  "drop_slash url = (if url \<noteq> [] \<and> last url = CHR ''/'' then butlast url else url)"

definition speech_url :: "tts_config \<Rightarrow> string" where
  "speech_url cfg = drop_slash (ctts_base_url cfg) @ ''/audio/speech''"

text \<open>\<open>speed\<close> prints the tempo over 160 words per minute to three decimals.\<close>

abbreviation dq :: char where
  "dq \<equiv> CHR 0x22"

definition build_body :: "(32 word \<Rightarrow> string) \<Rightarrow> string \<Rightarrow> string \<Rightarrow> string \<Rightarrow> 32 word \<Rightarrow> string" where
  "build_body speed model voice spoken tempo =
     ''{'' @ dq # ''model'' @ dq # '':'' @ dq # json_escape model @
     dq # '','' @ dq # ''input'' @ dq # '':'' @ dq # json_escape spoken @
     dq # '','' @
     (if voice \<noteq> [] then dq # ''voice'' @ dq # '':'' @ dq # json_escape voice @ dq # '','' else []) @
     (if tempo > 0 then dq # ''speed'' @ dq # '':'' @ speed tempo @ '','' else []) @
     dq # ''response_format'' @ dq # '':'' @ dq # ''pcm'' @ dq # ''}''"

section \<open>The stream of samples\<close>

record tts_write =
  tw_announced :: bool
  tw_carry :: "byte option"

definition tts_write_new :: tts_write where
  "tts_write_new = \<lparr>tw_announced = False, tw_carry = None\<rparr>"

text \<open>The write callback: \<open>None\<close> aborts the transfer.\<close>

definition tts_curl_write :: "bool \<Rightarrow> byte list \<Rightarrow> tts_write \<Rightarrow> (callback list \<times> tts_write) option" where
  "tts_curl_write cancelled bytes w =
     (if cancelled then None
      else if bytes = [] then Some ([], w)
      else let format = (if tw_announced w then [] else [CbFormat 22050]);
               (one, rest) = (case tw_carry w of
                   None \<Rightarrow> ([], bytes)
                 | Some c \<Rightarrow> ([CbAudio [read_u16le [c, hd bytes] 0]], List.tl bytes));
               pairs = length rest div 2;
               view = (if 0 < pairs then [CbAudio (bytes_samples (take (2 * pairs) rest))] else [])
           in Some (format @ one @ view,
                \<lparr>tw_announced = True, tw_carry = (if length rest mod 2 = 1 then Some (rest ! (2 * pairs)) else None)\<rparr>))"

fun tts_transfer :: "(bool \<times> byte list) list \<Rightarrow> tts_write \<Rightarrow> callback list \<times> tts_write" where
  "tts_transfer [] w = ([], w)"
| "tts_transfer ((cancelled, bytes) # rs) w =
     (case tts_curl_write cancelled bytes w of
        None \<Rightarrow> ([], w)
      | Some (cs, w1) \<Rightarrow> (case tts_transfer rs w1 of (ds, w2) \<Rightarrow> (cs @ ds, w2)))"

section \<open>One request\<close>

record tts_exchange =
  te_cancelled_before :: bool
  te_curl :: bool
  te_reads :: "(bool \<times> byte list) list"
  te_cancelled_after :: bool
  te_code_ok :: bool
  te_status :: nat

text \<open>The callbacks of one \<open>submit\<close>, in order.\<close>

definition tts_submit :: "tts_config \<Rightarrow> string \<Rightarrow> tts_exchange \<Rightarrow> callback list" where
  "tts_submit cfg lang x =
     (if ctts_base_url cfg = [] then [CbError]
      else if vr_model_id (route_for cfg lang) = [] then [CbError]
      else if te_cancelled_before x then [CbError]
      else if \<not> te_curl x then [CbError]
      else fst (tts_transfer (te_reads x) tts_write_new) @
        [if te_cancelled_after x then CbError
         else if \<not> te_code_ok x then CbError
         else if te_status x < 200 \<or> 300 \<le> te_status x then CbError
         else CbFinished])"

text \<open>\<open>probe\<close>: \<open>head\<close> gives the result of the transfer and the status, \<open>None\<close> without a handle.\<close>

definition tts_probe_url :: "tts_config \<Rightarrow> string" where
  "tts_probe_url cfg =
     (let url = (case find_text ''/v1'' (ctts_base_url cfg) of None \<Rightarrow> ctts_base_url cfg | Some p \<Rightarrow> take p (ctts_base_url cfg))
      in (if url \<noteq> [] \<and> last url \<noteq> CHR ''/'' then url @ ''/'' else url) @ ''health'')"

definition tts_probe :: "tts_config \<Rightarrow> (string \<Rightarrow> (bool \<times> nat) option) \<Rightarrow> bool" where
  "tts_probe cfg head =
     (if ctts_base_url cfg = [] then False
      else case head (tts_probe_url cfg) of
          None \<Rightarrow> False
        | Some (rc_ok, code) \<Rightarrow> rc_ok \<and> 200 \<le> (if rc_ok then code else 0) \<and> (if rc_ok then code else 0) < 300)"

section \<open>Samples do not depend on the reads\<close>

lemma bytes_samples_append:
  "even (length as) \<Longrightarrow> bytes_samples (as @ bs) = bytes_samples as @ bytes_samples bs"
  by (induction as rule: bytes_samples.induct) auto

lemma bytes_samples_short: "length bs < 2 \<Longrightarrow> bytes_samples bs = []"
  by (cases bs rule: bytes_samples.cases) auto

lemma bytes_samples_Nil: "bytes_samples bs = [] \<longleftrightarrow> length bs < 2"
  by (cases bs rule: bytes_samples.cases) auto

definition carried :: "tts_write \<Rightarrow> byte list" where
  "carried w = (case tw_carry w of None \<Rightarrow> [] | Some c \<Rightarrow> [c])"

fun audio_of :: "callback list \<Rightarrow> sample list list" where
  "audio_of [] = []"
| "audio_of (CbAudio xs # cs) = xs # audio_of cs"
| "audio_of (_ # cs) = audio_of cs"

lemma audio_of_append [simp]: "audio_of (cs @ ds) = audio_of cs @ audio_of ds"
  by (induction cs rule: audio_of.induct) auto

lemma audio_of_map [simp]: "audio_of (map CbAudio css) = css"
  by (induction css) auto

text \<open>The bytes after an even prefix.\<close>

lemma half_twice: "min n (2 * (n div 2)) = 2 * (n div (2::nat))"
  by (rule min_absorb2) simp

lemma even_part:
  fixes bs :: "byte list"
  shows "bytes_samples (bs @ cs) = bytes_samples (take (2 * (length bs div 2)) bs) @
    bytes_samples ((if length bs mod 2 = 1 then [bs ! (2 * (length bs div 2))] else []) @ cs)"
proof -
  let ?n = "2 * (length bs div 2)"
  have tail: "drop ?n bs = (if length bs mod 2 = 1 then [bs ! ?n] else [])"
  proof (cases "length bs mod 2 = 1")
    case True
    then have n: "length bs = Suc ?n" by presburger
    then have "drop ?n bs = bs ! ?n # drop (Suc ?n) bs" by (intro Cons_nth_drop_Suc[symmetric]) simp
    with n True show ?thesis by simp
  next
    case False
    then have "length bs = ?n" by presburger
    then show ?thesis using False by (metis drop_all order_refl)
  qed
  have "bytes_samples (bs @ cs) = bytes_samples (take ?n bs @ drop ?n bs @ cs)" by (simp only: append_assoc[symmetric] append_take_drop_id)
  also have "\<dots> = bytes_samples (take ?n bs) @ bytes_samples (drop ?n bs @ cs)"
    by (rule bytes_samples_append) (simp add: half_twice)
  finally show ?thesis by (simp only: tail)
qed

lemma write_step:
  assumes "tts_curl_write False bytes w = Some (cs, w')"
  shows "\<exists>css. cs = (if bytes = [] \<or> tw_announced w then [] else [CbFormat 22050]) @ map CbAudio css \<and>
    (\<forall>xs \<in> set css. xs \<noteq> []) \<and> tw_announced w' = (tw_announced w \<or> bytes \<noteq> []) \<and>
    (\<forall>more. bytes_samples (carried w @ bytes @ more) = concat css @ bytes_samples (carried w' @ more))"
proof (cases "bytes = []")
  case True
  then show ?thesis using assms by (intro exI[of _ "[]"]) (auto simp: tts_curl_write_def carried_def)
next
  case False
  define rest where "rest = (if tw_carry w = None then bytes else List.tl bytes)"
  define one where "one = (case tw_carry w of None \<Rightarrow> [] | Some c \<Rightarrow> [[read_u16le [c, hd bytes] 0]])"
  define n where "n = length rest div 2"
  define view where "view = (if 0 < n then [bytes_samples (take (2 * n) rest)] else [])"
  have res: "cs = (if tw_announced w then [] else [CbFormat 22050]) @ map CbAudio (one @ view)"
    "w' = \<lparr>tw_announced = True, tw_carry = (if length rest mod 2 = 1 then Some (rest ! (2 * n)) else None)\<rparr>"
    using assms False by (auto simp: tts_curl_write_def Let_def rest_def one_def n_def view_def split: option.splits)
  have some: "bytes_samples (take (2 * n) rest) \<noteq> []" if "0 < n"
    using that by (simp add: bytes_samples_Nil n_def half_twice)
  have "\<forall>xs \<in> set (one @ view). xs \<noteq> []"
    using some by (auto simp: one_def view_def split: option.splits)
  moreover have "bytes_samples (carried w @ bytes @ more) = concat (one @ view) @ bytes_samples (carried w' @ more)" for more
  proof -
    have "bytes_samples (carried w @ bytes @ more) = concat one @ bytes_samples (rest @ more)"
      using False by (cases bytes) (auto simp: carried_def one_def rest_def split: option.splits)
    also have "bytes_samples (rest @ more) = bytes_samples (take (2 * n) rest) @ bytes_samples (carried w' @ more)"
      using even_part[of rest more] by (simp add: res(2) carried_def n_def)
    also have "bytes_samples (take (2 * n) rest) = concat view"
      by (simp add: view_def)
    finally show ?thesis by simp
  qed
  ultimately show ?thesis using res False by (intro exI[of _ "one @ view"]) auto
qed

lemma transfer_samples:
  "list_all (\<lambda>(cancelled, _). \<not> cancelled) rs \<Longrightarrow>
   \<exists>css. fst (tts_transfer rs w) = (if concat (map snd rs) = [] \<or> tw_announced w then [] else [CbFormat 22050]) @ map CbAudio css \<and>
     (\<forall>xs \<in> set css. xs \<noteq> []) \<and> concat css = bytes_samples (carried w @ concat (map snd rs))"
proof (induction rs arbitrary: w)
  case Nil
  then show ?case by (intro exI[of _ "[]"]) (auto simp: carried_def bytes_samples_short split: option.splits)
next
  case (Cons r rs)
  obtain bytes where r: "r = (False, bytes)" using Cons.prems by (cases r) auto
  obtain cs w1 where w1: "tts_curl_write False bytes w = Some (cs, w1)"
    by (cases "tts_curl_write False bytes w") (auto simp: tts_curl_write_def Let_def split: if_splits option.splits prod.splits)
  from write_step[OF w1] obtain as where as:
    "cs = (if bytes = [] \<or> tw_announced w then [] else [CbFormat 22050]) @ map CbAudio as"
    "\<forall>xs \<in> set as. xs \<noteq> []" "tw_announced w1 = (tw_announced w \<or> bytes \<noteq> [])"
    "\<And>more. bytes_samples (carried w @ bytes @ more) = concat as @ bytes_samples (carried w1 @ more)" by blast
  from Cons.IH[of w1] Cons.prems obtain bs where bs:
    "fst (tts_transfer rs w1) = (if concat (map snd rs) = [] \<or> tw_announced w1 then [] else [CbFormat 22050]) @ map CbAudio bs"
    "\<forall>xs \<in> set bs. xs \<noteq> []" "concat bs = bytes_samples (carried w1 @ concat (map snd rs))" by auto
  have silent: "as = []" if "bytes = []"
    using that as(1) w1 by (simp add: tts_curl_write_def)
  have "fst (tts_transfer (r # rs) w) = cs @ fst (tts_transfer rs w1)"
    by (simp add: r w1 split: prod.splits)
  then show ?case
    using as bs silent r by (intro exI[of _ "as @ bs"]) (auto simp: as(4)[of "concat (map snd rs)"])
qed

lemma speech_samples:
  assumes "list_all (\<lambda>(cancelled, _). \<not> cancelled) rs" and "concat (map snd rs) \<noteq> []"
  shows "\<exists>css. fst (tts_transfer rs tts_write_new) = CbFormat 22050 # map CbAudio css \<and>
    (\<forall>xs \<in> set css. xs \<noteq> []) \<and> concat css = bytes_samples (concat (map snd rs))"
proof -
  have new: "\<not> tw_announced tts_write_new" "carried tts_write_new = []" by (simp_all add: tts_write_new_def carried_def)
  from transfer_samples[OF assms(1), of tts_write_new] obtain css where
    "fst (tts_transfer rs tts_write_new) = (if concat (map snd rs) = [] \<or> tw_announced tts_write_new then [] else [CbFormat 22050]) @ map CbAudio css"
    "\<forall>xs \<in> set css. xs \<noteq> []" "concat css = bytes_samples (carried tts_write_new @ concat (map snd rs))" by blast
  with assms(2) new(1) show ?thesis by (simp only: new(2) if_False simp_thms append_Nil append_Cons) blast
qed

text \<open>A last odd byte is dropped without a word.\<close>

lemma odd_tail_dropped: "bytes_samples (bs @ [b]) = bytes_samples bs" if "even (length bs)"
  using that by (simp add: bytes_samples_append bytes_samples_short)

text \<open>The body of an error response is handed on as audio before the status is looked at.\<close>

lemma error_page_is_played:
  "ctts_base_url cfg \<noteq> [] \<Longrightarrow> vr_model_id (route_for cfg lang) \<noteq> [] \<Longrightarrow>
   tts_submit cfg lang \<lparr>te_cancelled_before = False, te_curl = True, te_reads = [(False, [0x7B, 0x22, 0x7D])],
     te_cancelled_after = False, te_code_ok = True, te_status = 500\<rparr> = [CbFormat 22050, CbAudio [0x227B], CbError]"
  by (simp add: tts_submit_def tts_curl_write_def tts_write_new_def read_u16le_def Let_def)

text \<open>Exactly one of the two last callbacks, and as the last.\<close>

lemma transfer_no_end: "CbFinished \<notin> set (fst (tts_transfer rs w)) \<and> CbError \<notin> set (fst (tts_transfer rs w))"
proof (induction rs arbitrary: w)
  case (Cons r rs)
  obtain c bytes where r: "r = (c, bytes)" by (cases r)
  show ?case
  proof (cases "tts_curl_write c bytes w")
    case (Some p)
    obtain cs w1 where p: "p = (cs, w1)" by (cases p)
    have "CbFinished \<notin> set cs \<and> CbError \<notin> set cs"
      using Some p by (auto simp: tts_curl_write_def Let_def split: if_splits option.splits prod.splits)
    with Cons.IH[of w1] Some p r show ?thesis by (auto split: prod.splits)
  qed (simp add: r)
qed simp

lemma submit_ends_once:
  "\<exists>cs e. tts_submit cfg lang x = cs @ [e] \<and> (e = CbFinished \<or> e = CbError) \<and>
     CbFinished \<notin> set cs \<and> CbError \<notin> set cs"
  using transfer_no_end[of "te_reads x" tts_write_new] by (auto simp: tts_submit_def)

section \<open>The request body is the object it is meant to be\<close>

definition body_fields :: "(32 word \<Rightarrow> string) \<Rightarrow> string \<Rightarrow> string \<Rightarrow> string \<Rightarrow> 32 word \<Rightarrow> (string \<times> json_value) list" where
  "body_fields speed model voice spoken tempo =
     [(''model'', JStr model), (''input'', JStr spoken)] @
     (if voice \<noteq> [] then [(''voice'', JStr voice)] else []) @
     (if tempo > 0 then [(''speed'', JRaw (speed tempo))] else []) @ [(''response_format'', JStr ''pcm'')]"

lemma tts_plain: "c \<noteq> CHR 0x22 \<Longrightarrow> c \<noteq> CHR 0x5C \<Longrightarrow> 32 \<le> (of_char c :: nat) \<Longrightarrow> tts_escape_char c = [c]"
  by (auto simp: tts_escape_char_def)

lemma body_written:
  "build_body speed model voice spoken tempo = ''{'' @ json_write_members tts_escape_char (body_fields speed model voice spoken tempo) @ ''}''"
  by (simp add: build_body_def body_fields_def json_lit_def json_write_value_def json_escape_def tts_plain)

lemma body_read:
  "json_raw_ok (JRaw (speed tempo)) \<Longrightarrow>
   json_object (build_body speed model voice spoken tempo) = Some (body_fields speed model voice spoken tempo)"
  unfolding body_written by (rule tts_json.object_read) (auto simp: body_fields_def json_raw_ok_def)

section \<open>A loaded configuration always has a voice\<close>

lemma fold_resolve_keep:
  "lang \<notin> fst ` set voices \<Longrightarrow> map_of (foldl (resolve_voice models) acc voices) lang = map_of acc lang"
  by (induction voices arbitrary: acc) (auto simp: resolve_voice_def split: option.splits)

lemma resolved_subset:
  "map_of (foldl (resolve_voice models) acc voices) lang = Some v \<Longrightarrow>
   map_of acc lang = Some v \<or> (\<exists>alias. (lang, alias) \<in> set voices)"
  using fold_resolve_keep[of lang voices models acc] by (cases "lang \<in> fst ` set voices") force+

lemma load_parts:
  assumes "load_from_string rd yaml = Inr c"
  shows "\<exists>c0. c = resolve_aliases c0 \<and> validate c = None"
  using assms by (auto simp: load_from_string_def Let_def split: sum.splits option.splits)

lemma resolved_only_voices:
  "map_of (ctts_voices_resolved (cfg_tts (resolve_aliases c))) lang = Some v \<Longrightarrow>
   \<exists>alias. (lang, alias) \<in> set (ctts_voices (cfg_tts (resolve_aliases c)))"
  using resolved_subset[of _ "[]" "ctts_voices (cfg_tts (resolve_vad (resolve_stt (apply_active_personality c))))" lang v]
  by (auto simp: resolve_aliases_def resolve_tts_def)

lemma loaded_route:
  assumes "load_from_string rd yaml = Inr c" and "ctts_voices (cfg_tts c) \<noteq> []"
  shows "ctts_base_url (cfg_tts c) \<noteq> [] \<and>
    vr_model_id (route_for (cfg_tts c) lang) \<noteq> [] \<and> vr_voice_id (route_for (cfg_tts c) lang) \<noteq> []"
proof -
  obtain c0 where c: "c = resolve_aliases c0" "validate c = None" using load_parts[OF assms(1)] by blast
  obtain fba where fb: "ctts_base_url (cfg_tts c) \<noteq> []" "(ctts_fallback_lang (cfg_tts c), fba) \<in> set (ctts_voices (cfg_tts c))"
    using accepted_fallback[OF c(2) assms(2)] by blast
  show ?thesis
  proof (cases "map_of (ctts_voices_resolved (cfg_tts c)) lang")
    case None
    with fb accepted_voice[OF c(2) fb(2)] show ?thesis by (auto simp: route_for_def)
  next
    case (Some v)
    then obtain a where "(lang, a) \<in> set (ctts_voices (cfg_tts c))" using resolved_only_voices c(1) by blast
    with Some fb(1) accepted_voice[OF c(2)] show ?thesis by (fastforce simp: route_for_def)
  qed
qed

section \<open>A request driven by the bridge\<close>

text \<open>The exchange of a request that nothing goes wrong with.\<close>

definition answered :: "tts_config \<Rightarrow> string \<Rightarrow> tts_exchange \<Rightarrow> bool" where
  "answered cfg lang x \<longleftrightarrow>
     ctts_base_url cfg \<noteq> [] \<and> vr_model_id (route_for cfg lang) \<noteq> [] \<and> \<not> te_cancelled_before x \<and> te_curl x \<and>
     list_all (\<lambda>(cancelled, _). \<not> cancelled) (te_reads x) \<and> \<not> te_cancelled_after x \<and> te_code_ok x \<and>
     200 \<le> te_status x \<and> te_status x < 300"

lemma answered_callbacks:
  assumes "answered cfg lang x" and "concat (map snd (te_reads x)) \<noteq> []"
  shows "\<exists>css. tts_submit cfg lang x = CbFormat 22050 # map CbAudio css @ [CbFinished] \<and>
    (\<forall>xs \<in> set css. xs \<noteq> []) \<and> concat css = bytes_samples (concat (map snd (te_reads x)))"
proof -
  have "tts_submit cfg lang x = fst (tts_transfer (te_reads x) tts_write_new) @ [CbFinished]"
    using assms(1) by (simp add: tts_submit_def answered_def)
  with assms speech_samples[of "te_reads x"] show ?thesis by (auto simp: answered_def simp del: concat_eq_Nil_conv)
qed

text \<open>
  The sound does not depend on the network. However the server's bytes are cut into reads,
  also inside a sample, and with empty reads among them, a request that nothing goes wrong with
  announces 22050 Hz once and first, hands on no empty chunk, reports its end once and last, and
  the chunks put together are the samples of the bytes put together.
\<close>

theorem speech_independent_of_reads:
  assumes "answered cfg lang x" and "concat (map snd (te_reads x)) \<noteq> []"
  shows "\<exists>css. tts_submit cfg lang x = CbFormat 22050 # map CbAudio css @ [CbFinished] \<and>
    (\<forall>xs \<in> set css. xs \<noteq> []) \<and> concat css = bytes_samples (concat (map snd (te_reads x)))"
  using assms by (rule answered_callbacks)

text \<open>One German voice; the bytes 1, 0, 2, 0 arrive as three reads, two of them inside a sample.\<close>

definition demo_tts_config :: tts_config where
  "demo_tts_config = tts_default\<lparr>ctts_base_url := ''u'', ctts_fallback_lang := ''de'',
     ctts_voices_resolved := [(''de'', \<lparr>cvoi_model_id = ''m'', cvoi_voice_id = ''v''\<rparr>)]\<rparr>"

definition demo_exchange :: tts_exchange where
  "demo_exchange = \<lparr>te_cancelled_before = False, te_curl = True,
     te_reads = [(False, [1]), (False, [0, 2]), (False, []), (False, [0])],
     te_cancelled_after = False, te_code_ok = True, te_status = 200\<rparr>"

lemma demo_answered: "answered demo_tts_config ''en'' demo_exchange"
  by (simp add: answered_def demo_tts_config_def demo_exchange_def route_for_def)

theorem speech_independent_of_reads_witness:
  "\<exists>css. tts_submit demo_tts_config ''en'' demo_exchange = CbFormat 22050 # map CbAudio css @ [CbFinished] \<and>
    concat css = [1, 2]"
  using speech_independent_of_reads[OF demo_answered]
  by (fastforce simp: demo_exchange_def read_u16le_def)

section \<open>From the configuration to the playback queue\<close>

text \<open>The steps of the I/O thread around the callbacks of one request.\<close>

fun callback_acts :: "callback list \<Rightarrow> tb_act list" where
  "callback_acts [] = []"
| "callback_acts (CbAudio xs # cs) = [Callback (CbAudio xs), IoGoesOn, IoGoesOn] @ callback_acts cs"
| "callback_acts (cb # cs) = Callback cb # callback_acts cs"

definition request_acts :: "callback list \<Rightarrow> nat \<Rightarrow> tb_act list" where
  "request_acts cs n = [IoGoesOn, IoGoesOn, IoGoesOn] @ callback_acts cs @ Callback CbReturn # replicate n IoGoesOn"

lemma callback_acts_audio: "callback_acts (map CbAudio css @ cs) = audio_acts css @ callback_acts cs"
  by (induction css) (simp_all add: audio_acts_def)

lemma request_acts_synth:
  "request_acts (CbFormat rate # map CbAudio css @ [CbFinished]) n = synth_acts rate css CbFinished n"
  by (simp add: request_acts_def synth_acts_def callback_acts_audio)

text \<open>
  What is asked of the resampler: from \<open>rate\<close> to the device's rate it turns the samples \<open>xs\<close> into
  \<open>ys\<close>, its tail included, however they are cut into chunks.
\<close>

definition resamples :: "('s, 'z) soxr_scheme \<Rightarrow> nat \<Rightarrow> nat \<Rightarrow> sample list \<Rightarrow> sample list \<Rightarrow> bool" where
  "resamples sx rate device xs ys \<longleftrightarrow>
     (\<exists>r0. format_resampler sx rate device = Ok r0 \<and>
        (\<forall>css. concat css = xs \<longrightarrow>
           (\<exists>outs r1 tail. resampler_stream sx r0 css = Ok (outs, r1) \<and> resampler_tail sx r1 = Some tail \<and>
              concat outs @ tail = ys)))"

lemma no_resampler_stream: "resampler_stream sx None css = Ok (css, None)"
  by (induction css) auto

lemma device_rate_resamples: "resamples sx rate rate xs xs"
  by (auto simp: resamples_def format_resampler_def no_resampler_stream resampler_tail_def)

lemma concat_solid [simp]: "concat (solid xss) = concat xss"
  by (induction xss) auto

lemma concat_chunk_samples: "concat (map ch_samples (map (\<lambda>xs. job_chunk j xs b) xss)) = concat xss"
  by (induction xss) (simp_all add: job_chunk_def)

text \<open>What the transport has to do for a request of a loaded configuration to be answered.\<close>

definition transported :: "tts_exchange \<Rightarrow> bool" where
  "transported x \<longleftrightarrow>
     \<not> te_cancelled_before x \<and> te_curl x \<and> list_all (\<lambda>(cancelled, _). \<not> cancelled) (te_reads x) \<and>
     \<not> te_cancelled_after x \<and> te_code_ok x \<and> 200 \<le> te_status x \<and> te_status x < 300 \<and>
     concat (map snd (te_reads x)) \<noteq> []"

lemma loaded_answered:
  "load_from_string rd yaml = Inr c \<Longrightarrow> ctts_voices (cfg_tts c) \<noteq> [] \<Longrightarrow> transported x \<Longrightarrow> answered (cfg_tts c) lang x"
  using loaded_route[of rd yaml c lang] by (simp add: answered_def transported_def)

lemma speech_queued:
  fixes sx :: "('s, 'z) soxr_scheme" and s :: "'s tts_bridge"
  assumes "load_from_string rd yaml = Inr c" and "ctts_voices (cfg_tts c) \<noteq> []" and "transported x"
    and "tb_io s = IoWait" and "tb_pending s = [j]" and "\<not> tb_stopping s"
    and "\<not> is_cancelled (tb_heap s) (jb_cancel j)" and "pq_cap (tb_queue s) = 0"
    and "resamples sx 22050 (tb_device_rate s) (bytes_samples (concat (map snd (te_reads x)))) ys"
  shows "\<exists>N new. \<forall>n \<ge> N.
    let s' = tb_run sx s (request_acts (tts_submit (cfg_tts c) (ls_lang (jb_sentence j)) x) n) in
    pq_q (tb_queue s') = pq_q (tb_queue s) @ new \<and> concat (map ch_samples new) = ys \<and>
    ch_eos (last new) \<and> (\<forall>ch \<in> set (butlast new). \<not> ch_eos ch) \<and> (\<forall>ch \<in> set new. ch_turn ch = job_turn j) \<and>
    tb_io s' = IoWait \<and> tb_synthesized s' = tb_synthesized s + 1"
proof -
  have body: "concat (map snd (te_reads x)) \<noteq> []" using assms(3) by (simp only: transported_def simp_thms)
  from answered_callbacks[OF loaded_answered[OF assms(1-3)] body] obtain css where
    sub: "tts_submit (cfg_tts c) (ls_lang (jb_sentence j)) x = CbFormat 22050 # map CbAudio css @ [CbFinished]"
    and css: "concat css = bytes_samples (concat (map snd (te_reads x)))" by blast
  from assms(9) css obtain r0 outs r1 tail where r:
    "format_resampler sx 22050 (tb_device_rate s) = Ok r0" "resampler_stream sx r0 css = Ok (outs, r1)"
    "resampler_tail sx r1 = Some tail" "concat outs @ tail = ys" unfolding resamples_def by blast
  define new where "new = map (\<lambda>xs. job_chunk j xs False) (solid outs) @ [job_chunk j tail True]"
  have "concat (map ch_samples new) = ys"
    using r(4) concat_chunk_samples[of j False "solid outs"] by (simp add: new_def) (simp add: job_chunk_def)
  moreover have "ch_eos (last new)" "\<forall>ch \<in> set (butlast new). \<not> ch_eos ch" "\<forall>ch \<in> set new. ch_turn ch = job_turn j"
    by (auto simp: new_def job_chunk_def)
  moreover obtain N where "\<forall>n \<ge> N. let s' = tb_run sx s (synth_acts 22050 css CbFinished n) in
      pq_q (tb_queue s') = pq_q (tb_queue s) @ new \<and> tb_io s' = IoWait \<and> tb_synthesized s' = tb_synthesized s + 1"
    using synthesized_sentence[of s j 22050 CbFinished sx r0 css outs r1 tail] assms(4-8) r(1-3)
    by (auto simp: Let_def new_def)
  ultimately show ?thesis
    unfolding sub request_acts_synth Let_def by (intro exI[of _ N] exI[of _ new]) blast
qed


text \<open>One voice, for German; the waiting sentence is English and falls back to it.\<close>

definition demo_voice_config :: config where
  "demo_voice_config = config_default\<lparr>
     cfg_models := \<lparr>cmod_llm = [], cmod_stt = [], cmod_tts = [(''a'', \<lparr>mtts_id = ''m'', mtts_voice = ''v'', mtts_purpose = []\<rparr>)],
       cmod_vad = []\<rparr>,
     cfg_tts := tts_default\<lparr>ctts_base_url := ''http://h'', ctts_voices := [(''de'', ''a'')], ctts_fallback_lang := ''de''\<rparr>\<rparr>"

definition demo_voice_loaded :: config where
  "demo_voice_loaded = demo_voice_config\<lparr>cfg_tts := (cfg_tts demo_voice_config)\<lparr>
     ctts_voices_resolved := [(''de'', \<lparr>cvoi_model_id = ''m'', cvoi_voice_id = ''v''\<rparr>)]\<rparr>\<rparr>"

lemma demo_voice_valid: "validate demo_voice_loaded = None"
  by (simp add: validate_def logging_checks_def llm_checks_def memory_checks_def service_checks_def stt_checks_def
      tts_checks_def voice_checks_def audio_checks_def barge_in_checks_def health_checks_def outside_def
      demo_voice_loaded_def demo_voice_config_def smap_has_def config_default_def
      logging_default_def control_default_def fake_pipeline_default_def llm_default_def stt_default_def tts_default_def
      supervisor_default_def memory_default_def dialogue_default_def audio_default_def vad_default_def apm_default_def
      health_default_def kValidLogLevels_def kValidSinks_def)

lemma demo_voice_load: "load_from_string (\<lambda>_ _. Inr demo_voice_config) [] = Inr demo_voice_loaded"
proof -
  have "resolve_aliases demo_voice_config = demo_voice_loaded"
    by (simp add: resolve_defs demo_config_simps demo_voice_loaded_def demo_voice_config_def)
  then show ?thesis by (simp add: load_from_string_def demo_voice_valid)
qed

definition demo_22050 :: "sample list tts_bridge" where
  "demo_22050 = tb_run demo_delay (tb_new 22050 False (pq_new 0))
     [Start, Deliver (LlmStarted 7), Deliver (LlmSentence \<lparr>ls_turn = 7, ls_seq = 0, ls_text = ''a'', ls_lang = ''en''\<rparr>)]"


end
