(* ===== verification/Stt_Client.thy ===== *)
theory Stt_Client
  imports Config Json_Text Tts_Bridge Utterance Wav Text_Format
begin

text \<open>
  Transcription by request: the client \<open>src/stt/openai_stt_client.cpp\<close>, the worker thread
  that drains the finished utterances into it (\<open>src/orchestrator/stt_stack.cpp\<close>), and the
  self-listen loop of \<open>src/orchestrator/tts_stack.cpp\<close>, which sends synthesized sentences
  back through the same client. libcurl and the JSON reader are the environment: an exchange
  says what the transport did, \<open>parse\<close> what the reader makes of a body.
\<close>

section \<open>The client\<close>

definition trim_to_authority :: "string \<Rightarrow> string" where
  "trim_to_authority url =
     (case find_text ''://'' url of
        None \<Rightarrow> url
      | Some p \<Rightarrow> (case find_char_from (CHR ''/'') (p + 3) url of None \<Rightarrow> url | Some slash \<Rightarrow> take slash url))"

definition stt_probe_url :: "stt_config \<Rightarrow> string" where
  "stt_probe_url cfg = trim_to_authority (cstt_base_url cfg) @ ''/health''"

text \<open>\<open>probe\<close>: the result of the transfer and the HTTP status, \<open>None\<close> when the handle cannot be made.\<close>

definition stt_probe :: "stt_config \<Rightarrow> (string \<Rightarrow> (bool \<times> nat) option) \<Rightarrow> bool" where
  "stt_probe cfg head =
     (if cstt_base_url cfg = [] then False
      else case head (stt_probe_url cfg) of
          None \<Rightarrow> False
        | Some (rc_ok, code) \<Rightarrow> rc_ok \<and> 200 \<le> (if rc_ok then code else 0) \<and> (if rc_ok then code else 0) < 300)"

record stt_request =
  rq_turn :: turn_id
  rq_slice :: "audio_slice option"
  rq_lang_hint :: string

text \<open>The multipart form: texts are handed over zero-terminated.\<close>

record stt_form =
  form_url :: string
  form_file :: "byte list"
  form_model :: string
  form_language :: "string option"

record stt_exchange =
  xs_cancelled_before :: bool
  xs_curl :: bool
  xs_reads :: "string list"
  xs_cancelled_after :: bool
  xs_failure :: "string option"   \<comment> \<open>the text of a libcurl result other than \<open>CURLE_OK\<close>\<close>
  xs_status :: nat
  xs_elapsed :: millis

datatype stt_callback = SttFinal final_transcript | SttError string

definition c_string :: "string \<Rightarrow> string" where
  "c_string = takeWhile (\<lambda>c. c \<noteq> CHR 0x00)"

definition transcriptions_url :: "stt_config \<Rightarrow> string" where
  "transcriptions_url cfg =
     (let url = cstt_base_url cfg
      in (if url \<noteq> [] \<and> last url = CHR ''/'' then butlast url else url) @ ''/audio/transcriptions'')"

definition stt_form_of :: "stt_config \<Rightarrow> stt_request \<Rightarrow> audio_slice \<Rightarrow> stt_form" where
  "stt_form_of cfg rq sl =
     \<lparr>form_url = c_string (transcriptions_url cfg),
      form_file = make_wav (slice_samples sl) (word_of_nat (slice_rate sl)),
      form_model = c_string (cstt_model cfg),
      form_language = (if rq_lang_hint rq \<noteq> [] then Some (c_string (rq_lang_hint rq)) else None)\<rparr>"

text \<open>\<open>parse\<close> gives the text field of the reply, or the reader's message.\<close>

definition stt_answer ::
  "(string \<Rightarrow> string + string) \<Rightarrow> stt_config \<Rightarrow> stt_request \<Rightarrow> audio_slice \<Rightarrow> stt_exchange \<Rightarrow> stt_callback" where
  "stt_answer parse cfg rq sl x =
     (let body = concat (xs_reads x)
      in if xs_cancelled_after x then SttError ''cancelled''
         else case xs_failure x of
             Some e \<Rightarrow> SttError (''openai_stt: curl: '' @ e)
           | None \<Rightarrow>
               (if xs_status x < 200 \<or> 300 \<le> xs_status x
                then SttError (''openai_stt: http '' @ dec_nat (xs_status x) @ '' from '' @
                       transcriptions_url cfg @ '': '' @ take 200 body)
                else case parse body of
                    Inl e \<Rightarrow> SttError (''openai_stt: response parse: '' @ e)
                  | Inr t \<Rightarrow> SttFinal \<lparr>ft_turn = rq_turn rq, ft_text = t, ft_lang = rq_lang_hint rq,
                      ft_confidence = Fin 0, ft_audio_duration = slice_duration sl,
                      ft_processing_duration = xs_elapsed x\<rparr>))"

text \<open>\<open>submit\<close>: the form sent, if any, and the one callback.\<close>

definition stt_submit ::
  "(string \<Rightarrow> string + string) \<Rightarrow> stt_config \<Rightarrow> stt_request \<Rightarrow> stt_exchange \<Rightarrow> stt_form option \<times> stt_callback" where
  "stt_submit parse cfg rq x =
     (if cstt_base_url cfg = [] then (None, SttError ''openai_stt: cfg.stt.base_url is empty'')
      else if cstt_model cfg = [] then (None, SttError ''openai_stt: cfg.stt.model is empty'')
      else case rq_slice rq of
          None \<Rightarrow> (None, SttError ''openai_stt: empty audio slice'')
        | Some sl \<Rightarrow>
            (if xs_cancelled_before x then (None, SttError ''cancelled'')
             else if \<not> xs_curl x then (None, SttError ''openai_stt: curl_easy_init failed'')
             else (Some (stt_form_of cfg rq sl), stt_answer parse cfg rq sl x)))"

text \<open>\<open>warmup\<close> sends one second of silence and keeps the error text.\<close>

record warmup_result =
  wr_ok :: bool
  wr_error :: string

definition stt_warmup :: "(string \<Rightarrow> string + string) \<Rightarrow> stt_config \<Rightarrow> time_point \<Rightarrow> stt_exchange \<Rightarrow> warmup_result" where
  "stt_warmup parse cfg now x =
     (if cstt_base_url cfg = [] then \<lparr>wr_ok = False, wr_error = ''stt.base_url empty''\<rparr>
      else let kRateHz = 16000;
               fixture = \<lparr>slice_samples = replicate kRateHz 0, slice_rate = kRateHz, slice_started_at = now,
                          slice_ended_at = now\<rparr>;
               rq = \<lparr>rq_turn = kNoTurn, rq_slice = Some fixture, rq_lang_hint = cstt_language cfg\<rparr>;
               err = (case snd (stt_submit parse cfg rq x) of SttFinal _ \<Rightarrow> [] | SttError e \<Rightarrow> e)
           in \<lparr>wr_ok = (err = []), wr_error = err\<rparr>)"

text \<open>No error text is empty, so the warm-up is a success exactly when a transcript came back.\<close>

lemma error_text: "snd (stt_submit parse cfg rq x) = SttError e \<Longrightarrow> e \<noteq> []"
  by (auto simp: stt_submit_def stt_answer_def Let_def split: if_splits option.splits sum.splits)

lemma warmup_ok:
  "wr_ok (stt_warmup parse cfg now x) \<longleftrightarrow>
     cstt_base_url cfg \<noteq> [] \<and> (\<exists>ft. snd (stt_submit parse cfg
       \<lparr>rq_turn = kNoTurn, rq_slice = Some \<lparr>slice_samples = replicate 16000 0, slice_rate = 16000, slice_started_at = now,
          slice_ended_at = now\<rparr>, rq_lang_hint = cstt_language cfg\<rparr> x) = SttFinal ft)"
  using error_text by (auto simp: stt_warmup_def Let_def split: stt_callback.splits)

lemma authority_cut:
  assumes "find_text ''://'' url = Some p" and "find_char_from (CHR ''/'') (p + 3) url = Some k"
  shows "p + 3 \<le> k \<and> trim_to_authority url = take k url"
  using assms by (auto simp: trim_to_authority_def find_char_from_def)

section \<open>The worker of the request path\<close>

text \<open>
  The points of the worker thread at which another thread can come in between. \<open>SwDecided\<close> is the
  moment in which the wait predicate was false and the thread is not yet asleep: it holds the
  queue's mutex there, but not against the thread that stores \<open>stop_\<close>.
\<close>

datatype stt_worker = SwTest | SwPred | SwDecided | SwAsleep | SwSubmit stt_request | SwExit

record stt_stack =
  ss_cfg :: stt_config
  ss_queue :: "stt_request list"
  ss_stop :: bool
  ss_worker :: stt_worker
  ss_submitted :: "stt_request list"
  ss_published :: "event list"

definition stt_stack_new :: "stt_config \<Rightarrow> stt_stack" where
  "stt_stack_new cfg =
     \<lparr>ss_cfg = cfg, ss_queue = [], ss_stop = False, ss_worker = SwTest, ss_submitted = [], ss_published = []\<rparr>"

text \<open>The handler of \<open>UtteranceReady\<close>; it blocks while the worker holds the mutex.\<close>

definition stt_on_utterance :: "turn_id \<Rightarrow> audio_slice option \<Rightarrow> stt_stack \<Rightarrow> stt_stack exec" where
  "stt_on_utterance t ready s =
     (case ready of
        None \<Rightarrow> Done s
      | Some sl \<Rightarrow>
          (if ss_worker s = SwDecided then Blocked
           else Done (s\<lparr>ss_queue := ss_queue s @
                   [\<lparr>rq_turn = t, rq_slice = Some sl, rq_lang_hint = cstt_language (ss_cfg s)\<rparr>],
                  ss_worker := (if ss_worker s = SwAsleep then SwPred else ss_worker s)\<rparr>)))"

text \<open>One step of the worker; the exchange is the one of the request it may submit.\<close>

definition stt_worker_step :: "(string \<Rightarrow> string + string) \<Rightarrow> stt_exchange \<Rightarrow> stt_stack \<Rightarrow> stt_stack" where
  "stt_worker_step parse x s =
     (case ss_worker s of
        SwTest \<Rightarrow> s\<lparr>ss_worker := (if ss_stop s then SwExit else SwPred)\<rparr>
      | SwPred \<Rightarrow>
          (if ss_stop s then s\<lparr>ss_worker := SwExit\<rparr>
           else case ss_queue s of
               [] \<Rightarrow> s\<lparr>ss_worker := SwDecided\<rparr>
             | rq # rqs \<Rightarrow> s\<lparr>ss_queue := rqs, ss_worker := SwSubmit rq\<rparr>)
      | SwDecided \<Rightarrow> s\<lparr>ss_worker := SwAsleep\<rparr>
      | SwAsleep \<Rightarrow> s
      | SwSubmit rq \<Rightarrow>
          s\<lparr>ss_submitted := ss_submitted s @ [rq],
            ss_published := ss_published s @
              (case snd (stt_submit parse (ss_cfg s) rq x) of SttFinal ft \<Rightarrow> [FinalTranscript ft] | SttError _ \<Rightarrow> []),
            ss_worker := SwTest\<rparr>
      | SwExit \<Rightarrow> s)"

text \<open>\<open>stop\<close> stores the flag and notifies, without taking the mutex; the join then waits for the exit.\<close>

definition stt_stop_store :: "stt_stack \<Rightarrow> stt_stack" where
  "stt_stop_store s = s\<lparr>ss_stop := True\<rparr>"

definition stt_stop_notify :: "stt_stack \<Rightarrow> stt_stack" where
  "stt_stop_notify s = s\<lparr>ss_worker := (if ss_worker s = SwAsleep then SwPred else ss_worker s)\<rparr>"

datatype stt_act =
  Utterance turn_id "audio_slice option" | Worker stt_exchange | StopStore | StopNotify | Spurious

text \<open>A blocked handler is retried later: the step in which it is blocked does nothing.\<close>

fun stt_do :: "(string \<Rightarrow> string + string) \<Rightarrow> stt_stack \<Rightarrow> stt_act \<Rightarrow> stt_stack" where
  "stt_do parse s (Utterance t sl) = (case stt_on_utterance t sl s of Done s' \<Rightarrow> s' | _ \<Rightarrow> s)"
| "stt_do parse s (Worker x) = stt_worker_step parse x s"
| "stt_do parse s StopStore = stt_stop_store s"
| "stt_do parse s StopNotify = stt_stop_notify s"
| "stt_do parse s Spurious = stt_stop_notify s"

text \<open>The requests the handler accepted along a run, and where they are.\<close>

fun stt_accepted :: "(string \<Rightarrow> string + string) \<Rightarrow> stt_stack \<Rightarrow> stt_act list \<Rightarrow> stt_request list" where
  "stt_accepted parse s [] = []"
| "stt_accepted parse s (a # as) =
     (case a of
        Utterance t (Some sl) \<Rightarrow>
          (if ss_worker s = SwDecided then []
           else [\<lparr>rq_turn = t, rq_slice = Some sl, rq_lang_hint = cstt_language (ss_cfg s)\<rparr>])
      | _ \<Rightarrow> []) @ stt_accepted parse (stt_do parse s a) as"

definition in_hand :: "stt_stack \<Rightarrow> stt_request list" where
  "in_hand s = (case ss_worker s of SwSubmit rq \<Rightarrow> [rq] | _ \<Rightarrow> [])"

definition stt_line :: "stt_stack \<Rightarrow> stt_request list" where
  "stt_line s = ss_submitted s @ in_hand s @ ss_queue s"

lemmas stt_stack_defs = stt_on_utterance_def stt_worker_step_def stt_stop_store_def stt_stop_notify_def
  in_hand_def stt_line_def

lemma stt_do_line: "stt_line (stt_do parse s a) = stt_line s @ stt_accepted parse s [a]"
  by (cases a) (auto simp: stt_stack_defs split: option.splits stt_worker.splits list.splits)

lemma stt_accepted_Cons: "stt_accepted parse s (a # as) = stt_accepted parse s [a] @ stt_accepted parse (stt_do parse s a) as"
  by simp

lemma stt_run_line: "stt_line (foldl (stt_do parse) s as) = stt_line s @ stt_accepted parse s as"
proof (induction as arbitrary: s)
  case (Cons a as)
  show ?case
    by (subst stt_accepted_Cons) (simp only: foldl_Cons Cons.IH stt_do_line append_assoc)
qed simp

text \<open>Every transcript published is that of a submitted request, in the same order.\<close>

definition transcript_of :: "stt_request \<Rightarrow> event \<Rightarrow> bool" where
  "transcript_of rq ev \<longleftrightarrow> (\<exists>ft sl. ev = FinalTranscript ft \<and> ft_turn ft = rq_turn rq \<and> ft_lang ft = rq_lang_hint rq \<and>
     rq_slice rq = Some sl \<and> ft_audio_duration ft = slice_duration sl)"

inductive answers :: "stt_request list \<Rightarrow> event list \<Rightarrow> bool" where
  none: "answers [] []"
| failed: "answers rqs evs \<Longrightarrow> answers (rqs @ [rq]) evs"
| heard: "answers rqs evs \<Longrightarrow> transcript_of rq ev \<Longrightarrow> answers (rqs @ [rq]) (evs @ [ev])"

lemma submit_transcript:
  "snd (stt_submit parse cfg rq x) = SttFinal ft \<Longrightarrow> transcript_of rq (FinalTranscript ft)"
  by (auto simp: stt_submit_def stt_answer_def transcript_of_def Let_def split: if_splits option.splits sum.splits)

lemma stt_do_answers:
  "answers (ss_submitted s) (ss_published s) \<Longrightarrow>
   answers (ss_submitted (stt_do parse s a)) (ss_published (stt_do parse s a))"
proof (cases a)
  case (Worker x)
  assume inv: "answers (ss_submitted s) (ss_published s)"
  show ?thesis
  proof (cases "ss_worker s")
    case (SwSubmit rq)
    then show ?thesis
      using inv submit_transcript[of parse "ss_cfg s" rq x]
      by (cases "snd (stt_submit parse (ss_cfg s) rq x)")
        (auto simp: Worker stt_worker_step_def intro: answers.failed answers.heard)
  qed (use inv in \<open>simp_all add: Worker stt_worker_step_def split: list.splits\<close>)
qed (auto simp: stt_stack_defs split: option.splits)

interpretation stt: step_machine "stt_do parse" "\<lambda>s. answers (ss_submitted s) (ss_published s)" for parse
  by unfold_locales (rule stt_do_answers)

text \<open>
  C34. Transcription requests are neither lost nor reordered. Under every interleaving of finished
  utterances, worker steps, spurious wake-ups and the stop, the utterances accepted so far are, in
  order, those submitted, the one in the worker's hand and those still queued; and the transcripts
  published belong to submitted requests, at most one each and in their order, with their turn,
  language and duration.
\<close>

theorem transcripts_in_order:
  "let s = foldl (stt_do parse) (stt_stack_new cfg) acts in
     ss_submitted s @ in_hand s @ ss_queue s = stt_accepted parse (stt_stack_new cfg) acts \<and>
     answers (ss_submitted s) (ss_published s)"
proof -
  have "stt_line (stt_stack_new cfg) = []" "answers (ss_submitted (stt_stack_new cfg)) (ss_published (stt_stack_new cfg))"
    by (simp_all add: stt_line_def in_hand_def stt_stack_new_def answers.none)
  then show ?thesis
    using stt_run_line[of parse "stt_stack_new cfg" acts] stt.run_inv[of "stt_stack_new cfg" parse acts]
    by (simp add: Let_def stt_line_def)
qed

section \<open>Shutting the worker down\<close>

text \<open>The worker after the notification, with the flag stored: the steps left to the exit.\<close>

lemma stopped_worker_exits:
  assumes "ss_stop s" and "ss_worker s \<noteq> SwDecided" and "ss_worker s \<noteq> SwAsleep"
  shows "ss_worker (stt_worker_step parse x (stt_worker_step parse x s)) = SwExit"
  using assms by (cases "ss_worker s") (simp_all add: stt_worker_step_def)

lemma sleeping_worker_sleeps:
  "ss_worker s = SwDecided \<or> ss_worker s = SwAsleep \<Longrightarrow>
   ss_worker (foldl (stt_do parse) s (map Worker xs)) \<noteq> SwExit"
proof (induction xs arbitrary: s)
  case (Cons x xs)
  then have "ss_worker (stt_do parse s (Worker x)) = SwAsleep" by (auto simp: stt_worker_step_def)
  then show ?case using Cons.IH by simp
qed auto

text \<open>
  C35. When the shutdown returns. \<open>stop\<close> joins the worker after storing the flag and notifying; if
  no other utterance arrives and no wake-up is spurious, the join returns if and only if the
  notification did not hit the worker between its test of the wait condition and its sleep. In that
  window, which the mutex does not protect because \<open>stop\<close> does not take it, the wake-up is lost and
  the worker sleeps for ever, whatever number of steps it is given; otherwise two steps suffice.
\<close>

theorem shutdown_returns_iff:
  "(\<exists>xs. ss_worker (foldl (stt_do parse) (stt_stop_notify (stt_stop_store s)) (map Worker xs)) = SwExit) \<longleftrightarrow>
     ss_worker s \<noteq> SwDecided"
proof
  assume exits: "\<exists>xs. ss_worker (foldl (stt_do parse) (stt_stop_notify (stt_stop_store s)) (map Worker xs)) = SwExit"
  show "ss_worker s \<noteq> SwDecided"
  proof
    assume "ss_worker s = SwDecided"
    then have "ss_worker (stt_stop_notify (stt_stop_store s)) = SwDecided"
      by (simp add: stt_stop_notify_def stt_stop_store_def)
    with sleeping_worker_sleeps exits show False by blast
  qed
next
  let ?s = "stt_stop_notify (stt_stop_store s)"
  assume "ss_worker s \<noteq> SwDecided"
  then have "ss_stop ?s" "ss_worker ?s \<noteq> SwDecided" "ss_worker ?s \<noteq> SwAsleep"
    by (auto simp: stt_stop_notify_def stt_stop_store_def)
  from stopped_worker_exits[OF this] show "\<exists>xs. ss_worker (foldl (stt_do parse) ?s (map Worker xs)) = SwExit"
    by (intro exI[of _ "[undefined, undefined]"]) simp
qed

text \<open>The window is reached by two steps of an idle worker.\<close>

lemma lost_wakeup_reachable:
  "ss_worker (foldl (stt_do parse) (stt_stack_new cfg) [Worker x, Worker x]) = SwDecided"
  by (simp add: stt_worker_step_def stt_stack_new_def)

section \<open>What is uploaded\<close>

lemma loaded_stt_model:
  assumes "load_from_string rd yaml = Inr c" and "cstt_base_url (cfg_stt c) \<noteq> []"
  shows "cstt_model (cfg_stt c) \<noteq> []"
proof -
  have "validate c = None"
    using assms(1) by (auto simp: load_from_string_def Let_def split: sum.splits option.splits)
  then have "first_error (stt_checks c) = None" by (simp add: validate_parts)
  then show ?thesis using assms(2) unfolding stt_checks_def by (simp only: if_False first_error_append_None first_error_Cons) blast
qed

text \<open>
  C8. An utterance leaves as the file it should be. With any configuration that loads and has a
  transcription server, a request with a slice that is neither cancelled before nor denied its
  handle sends a form to that server whose file, read back by the program's own reader, is exactly
  the samples and the rate of the slice.
\<close>

theorem utterance_uploaded:
  assumes "load_from_string rd yaml = Inr c" and "cstt_base_url (cfg_stt c) \<noteq> []"
    and "rq_slice rq = Some sl" and "\<not> xs_cancelled_before x" and "xs_curl x"
    and "2 * length (slice_samples sl) < 2 ^ 32" and "0 < slice_rate sl" and "slice_rate sl < 2 ^ 32"
  shows "\<exists>form. fst (stt_submit parse (cfg_stt c) rq x) = Some form \<and>
    form_url form = c_string (transcriptions_url (cfg_stt c)) \<and>
    read_wav_file (Some (form_file form)) = Some (Done (Some (slice_samples sl, word_of_nat (slice_rate sl))))"
proof -
  have rate: "(word_of_nat (slice_rate sl) :: 32 word) \<noteq> 0"
    using assms(7,8) by (auto simp: word_of_nat_eq_0_iff dest: nat_dvd_not_less)
  have "fst (stt_submit parse (cfg_stt c) rq x) = Some (stt_form_of (cfg_stt c) rq sl)"
    using assms(2-5) loaded_stt_model[OF assms(1,2)] by (simp add: stt_submit_def)
  with wav_roundtrip[OF assms(6) rate] show ?thesis by (simp add: stt_form_of_def)
qed

definition demo_stt_config :: config where
  "demo_stt_config = config_default\<lparr>cfg_stt := stt_default\<lparr>cstt_base_url := ''http://h'', cstt_model := ''w''\<rparr>\<rparr>"

lemma demo_stt_load: "load_from_string (\<lambda>_ _. Inr demo_stt_config) [] = Inr demo_stt_config"
proof -
  have "resolve_aliases demo_stt_config = demo_stt_config"
    by (simp add: resolve_defs demo_config_simps demo_stt_config_def)
  moreover have "validate demo_stt_config = None"
    by (simp add: validate_def logging_checks_def llm_checks_def memory_checks_def service_checks_def stt_checks_def
      tts_checks_def voice_checks_def audio_checks_def barge_in_checks_def health_checks_def outside_def
      demo_stt_config_def smap_has_def config_default_def
      logging_default_def control_default_def fake_pipeline_default_def llm_default_def stt_default_def tts_default_def
      supervisor_default_def memory_default_def dialogue_default_def audio_default_def vad_default_def apm_default_def
      health_default_def kValidLogLevels_def kValidSinks_def)
  ultimately show ?thesis by (simp add: load_from_string_def)
qed

theorem utterance_uploaded_witness:
  "\<exists>form. fst (stt_submit (\<lambda>_. Inr []) (cfg_stt demo_stt_config)
      \<lparr>rq_turn = 3, rq_slice = Some \<lparr>slice_samples = [5, 6], slice_rate = 16000, slice_started_at = 0, slice_ended_at = 0\<rparr>,
       rq_lang_hint = ''en''\<rparr>
      \<lparr>xs_cancelled_before = False, xs_curl = True, xs_reads = [], xs_cancelled_after = False, xs_failure = None,
       xs_status = 200, xs_elapsed = 0\<rparr>) = Some form \<and>
     read_wav_file (Some (form_file form)) = Some (Done (Some ([5, 6], 16000)))"
proof -
  let ?sl = "\<lparr>slice_samples = [5, 6], slice_rate = 16000, slice_started_at = 0, slice_ended_at = 0\<rparr> :: audio_slice"
  have "cstt_base_url (cfg_stt demo_stt_config) \<noteq> []" by (simp add: demo_stt_config_def)
  from utterance_uploaded[OF demo_stt_load this, of "\<lparr>rq_turn = 3, rq_slice = Some ?sl, rq_lang_hint = ''en''\<rparr>" ?sl
      "\<lparr>xs_cancelled_before = False, xs_curl = True, xs_reads = [], xs_cancelled_after = False, xs_failure = None,
       xs_status = 200, xs_elapsed = 0\<rparr>" "\<lambda>_. Inr []"]
  show ?thesis by auto
qed

section \<open>Listening to oneself\<close>

text \<open>
  The bridge's hand-over makes room before it appends: \<open>while (size >= sl_max * 4) pop_front\<close>, the
  product in 32 bits. On an empty deque \<open>pop_front\<close> is undefined.
\<close>

fun sl_make_room :: "nat \<Rightarrow> 'a list \<Rightarrow> 'a list exec" where
  "sl_make_room limit [] = (if limit \<le> 0 then UB else Done [])"
| "sl_make_room limit (j # js) = (if limit \<le> length (j # js) then sl_make_room limit js else Done (j # js))"

definition sl_max :: "dialogue_config \<Rightarrow> 32 word" where
  "sl_max d = max 1 (csel_max_in_flight (cdia_self_listen d))"

definition sl_push :: "32 word \<Rightarrow> heard \<Rightarrow> heard list \<Rightarrow> heard list exec" where
  "sl_push most j js = (case sl_make_room (unat (most * 4)) js of Done js' \<Rightarrow> Done (js' @ [j]) | Blocked \<Rightarrow> Blocked | UB \<Rightarrow> UB)"

lemma sl_make_room_newest: "0 < limit \<Longrightarrow> sl_make_room limit js = Done (drop (length js + 1 - limit) js)"
  by (induction limit js rule: sl_make_room.induct) (auto simp: Suc_diff_le)

text \<open>The newest jobs are kept, at most four times the configured number.\<close>

lemma sl_push_newest:
  assumes "0 < unat (most * 4)"
  shows "sl_push most j js = Done (take_last (unat (most * 4)) (js @ [j]))"
  using assms by (simp add: sl_push_def sl_make_room_newest take_last_def)

text \<open>A limit of \<open>2^30\<close> wraps to zero: the first sentence then pops an empty deque.\<close>

lemma sl_push_wraps: "csel_max_in_flight (cdia_self_listen d) = 0x40000000 \<Longrightarrow> sl_push (sl_max d) j js = UB"
proof -
  have "sl_make_room 0 js = UB" by (induction js) auto
  then show "csel_max_in_flight (cdia_self_listen d) = 0x40000000 \<Longrightarrow> ?thesis" by (simp add: sl_push_def sl_max_def max_def)
qed

text \<open>The samples sent: the whole sentence through a fresh resampler to 16 kHz, its tail included.\<close>

definition heard_slice :: "('s, 'z) soxr_scheme \<Rightarrow> time_point \<Rightarrow> nat \<Rightarrow> sample list \<Rightarrow> audio_slice outcome" where
  "heard_slice sx now rate xs =
     bind_outcome (resampler_new sx rate 16000) (\<lambda>r.
     bind_outcome (resampler_process sx xs r) (\<lambda>(resampled, r1).
     bind_outcome (case resampler_flush sx [] r1 of None \<Rightarrow> Diverge | Some res \<Rightarrow> res) (\<lambda>(tail, _).
       Ok \<lparr>slice_samples = resampled @ tail, slice_rate = 16000, slice_started_at = now, slice_ended_at = now\<rparr>)))"

text \<open>Cut after 600 bytes, with an ellipsis in UTF-8.\<close>

definition sl_trim :: "string \<Rightarrow> string" where
  "sl_trim s = (if 600 < length s then take 600 s @ [CHR 0xE2, CHR 0x80, CHR 0xA6] else s)"

text \<open>The fields of the event logged for one job.\<close>

definition sl_fields :: "heard \<Rightarrow> millis \<Rightarrow> stt_callback \<Rightarrow> (string \<times> string) list" where
  "sl_fields job ms cb =
     (case job of (turn, seq, expected, lang, rate, xs) \<Rightarrow>
       let seq_field = (''seq'', dec_nat (unat seq)); expected_chars = (''expected_chars'', dec_nat (length expected));
           audio_ms = (''audio_ms'', dec_nat (length xs * 1000 div rate)); stt_ms = (''stt_ms'', dec_int ms)
       in case cb of
           SttError e \<Rightarrow> [seq_field, expected_chars, audio_ms, stt_ms, (''error'', e)]
         | SttFinal ft \<Rightarrow> [seq_field, expected_chars, (''heard_chars'', dec_nat (length (ft_text ft))), audio_ms, stt_ms,
             (''expected'', sl_trim expected), (''heard'', sl_trim (ft_text ft))])"

text \<open>One job; an exception of the resampler ends the thread and with it the program.\<close>

definition self_listen_job ::
  "('s, 'z) soxr_scheme \<Rightarrow> (string \<Rightarrow> string + string) \<Rightarrow> stt_config \<Rightarrow> time_point \<Rightarrow> stt_exchange \<Rightarrow> millis \<Rightarrow> heard \<Rightarrow>
   (string \<times> string) list outcome" where
  "self_listen_job sx parse cfg now x ms job =
     (case job of (turn, seq, expected, lang, rate, xs) \<Rightarrow>
       bind_outcome (heard_slice sx now rate xs) (\<lambda>sl.
         Ok (sl_fields job ms (snd (stt_submit parse cfg \<lparr>rq_turn = turn, rq_slice = Some sl, rq_lang_hint = lang\<rparr> x)))))"

text \<open>
  What its loop takes next: nothing (it ends), a job, or \<open>Blocked\<close> while it waits. \<open>head\<close> and
  \<open>wake\<close> are the flag as read by the loop and after the wait; a job already queued is still taken
  when the stop comes between the two, the ones behind it are left.
\<close>

definition sl_next :: "bool \<Rightarrow> bool \<Rightarrow> heard list \<Rightarrow> (heard \<times> heard list) option exec" where
  "sl_next head wake js =
     (if head then Done None
      else if \<not> wake \<and> js = [] then Blocked
      else case js of [] \<Rightarrow> Done None | j # rest \<Rightarrow> Done (Some (j, rest)))"

end
