(* ===== verification/Fake_Driver.thy ===== *)
theory Fake_Driver
  imports Dialogue_Fsm Text_Format
begin

text \<open>
  The synthetic event generator, \<open>src/pipeline/fake_driver.hpp\<close> and \<open>src/pipeline/fake_driver.cpp\<close>: the
  script of one turn with and without a barge-in, the loop over turns, and what \<open>stop\<close> cuts off.
  A script is a list of publications and sleeps; the random decisions and the moments at which the
  running flag is found cleared are arguments. The last section drives the dialogue machine with it.
\<close>

record fd_options =
  fd_idle_between_turns :: millis
  fd_user_speech_duration :: millis
  fd_stt_processing :: millis
  fd_llm_first_token_delay :: millis
  fd_llm_per_sentence :: millis
  fd_tts_first_audio :: millis
  fd_playback_per_sentence :: millis
  fd_sentences_per_turn :: "32 word"
  fd_suppress_speech_events :: bool

definition fd_default :: fd_options where
  "fd_default =
     \<lparr>fd_idle_between_turns = 1500, fd_user_speech_duration = 800, fd_stt_processing = 300,
      fd_llm_first_token_delay = 400, fd_llm_per_sentence = 600, fd_tts_first_audio = 200,
      fd_playback_per_sentence = 900, fd_sentences_per_turn = 3, fd_suppress_speech_events = False\<rparr>"

text \<open>Sleeping in steps of 50 ms; \<open>running i\<close> is the flag at the \<open>i\<close>th look.\<close>

function sleep_for_or_stop :: "(nat \<Rightarrow> bool) \<Rightarrow> nat \<Rightarrow> millis \<Rightarrow> millis list" where
  "sleep_for_or_stop running i remaining =
     (if 0 < remaining \<and> running i
      then let chunk = (if remaining < 50 then remaining else 50)
           in chunk # sleep_for_or_stop running (Suc i) (remaining - chunk)
      else [])"
  by pat_completeness auto
termination by (relation "measure (\<lambda>(_, _, r). nat r)") auto

declare sleep_for_or_stop.simps [simp del]

text \<open>The whole time is slept while the flag is set, and a cleared flag is noticed within a step.\<close>

lemma sleeps_all: "0 \<le> d \<Longrightarrow> sum_list (sleep_for_or_stop (\<lambda>_. True) i d) = d"
proof (induction "nat d" arbitrary: i d rule: less_induct)
  case less
  then show ?case by (subst sleep_for_or_stop.simps) (auto simp: Let_def)
qed

lemma sleep_steps: "c \<in> set (sleep_for_or_stop running i d) \<Longrightarrow> 0 < c \<and> c \<le> 50"
proof (induction running i d rule: sleep_for_or_stop.induct)
  case (1 running i d)
  then show ?case by (subst (asm) (2) sleep_for_or_stop.simps) (auto simp: Let_def split: if_splits)
qed

lemma sleep_stops: "\<not> running (i + k) \<Longrightarrow> length (sleep_for_or_stop running i d) \<le> k"
proof (induction running i d arbitrary: k rule: sleep_for_or_stop.induct)
  case (1 running i d)
  show ?case
  proof (cases "0 < d \<and> running i")
    case True
    then obtain k' where "k = Suc k'" using "1.prems" by (cases k) auto
    then show ?thesis using 1 True by (subst sleep_for_or_stop.simps) (simp add: Let_def)
  next
    case False
    then show ?thesis by (subst sleep_for_or_stop.simps) auto
  qed
qed

section \<open>Scripts\<close>

text \<open>\<open>Sleep\<close> is followed by a look at the flag and a return; \<open>Nap\<close> is not.\<close>

datatype fd_item = Publish "time_point \<Rightarrow> event" | Sleep millis | Nap millis

definition speech_item :: "fd_options \<Rightarrow> (time_point \<Rightarrow> event) \<Rightarrow> fd_item list" where
  "speech_item opts ev = (if fd_suppress_speech_events opts then [] else [Publish ev])"

definition fd_transcript :: "fd_options \<Rightarrow> turn_id \<Rightarrow> string \<Rightarrow> cfloat \<Rightarrow> event" where
  "fd_transcript opts t text conf =
     FinalTranscript \<lparr>ft_turn = t, ft_text = text, ft_lang = ''en'', ft_confidence = conf,
       ft_audio_duration = fd_user_speech_duration opts, ft_processing_duration = fd_stt_processing opts\<rparr>"

definition fd_opening :: "fd_options \<Rightarrow> turn_id \<Rightarrow> string \<Rightarrow> cfloat \<Rightarrow> fd_item list" where
  "fd_opening opts t text conf =
     speech_item opts (SpeechStarted t) @ [Sleep (fd_user_speech_duration opts)] @
     speech_item opts (SpeechEnded t) @ [Sleep (fd_stt_processing opts)] @
     [Publish (\<lambda>_. fd_transcript opts t text conf), Publish (\<lambda>_. LlmStarted t), Sleep (fd_llm_first_token_delay opts)]"

definition fd_sentence_text :: "turn_id \<Rightarrow> seq_no \<Rightarrow> string" where
  "fd_sentence_text t s = ''This is synthetic sentence '' @ dec_nat (unat s) @ '' of turn '' @ dec_nat (unat t) @ ''.''"

definition fd_sentence :: "fd_options \<Rightarrow> turn_id \<Rightarrow> seq_no \<Rightarrow> fd_item list" where
  "fd_sentence opts t s =
     [Publish (\<lambda>_. LlmSentence \<lparr>ls_turn = t, ls_seq = s, ls_text = fd_sentence_text t s, ls_lang = ''en''\<rparr>),
      Sleep (fd_tts_first_audio opts), Publish (\<lambda>_. TtsStarted t s), Publish (\<lambda>_. TtsAudioChunk t s 1024),
      Publish (\<lambda>_. TtsFinished t s), Publish (\<lambda>_. PlaybackStarted t s), Sleep (fd_playback_per_sentence opts),
      Publish (\<lambda>_. PlaybackFinished t s), Sleep (fd_llm_per_sentence opts)]"

text \<open>The loop \<open>for (s = 1; s <= n; ++s)\<close> over a \<open>uint32_t\<close>: \<open>None\<close> when it never ends.\<close>

partial_function (option) fd_sentences :: "fd_options \<Rightarrow> turn_id \<Rightarrow> 32 word \<Rightarrow> fd_item list option" where
  "fd_sentences opts t s =
     (if s \<le> fd_sentences_per_turn opts
      then Option.bind (fd_sentences opts t (s + 1)) (\<lambda>rest. Some (fd_sentence opts t s @ rest))
      else Some [])"

definition run_one_turn :: "fd_options \<Rightarrow> turn_id \<Rightarrow> fd_item list option" where
  "run_one_turn opts t =
     Option.bind (fd_sentences opts t 1) (\<lambda>body.
       Some (fd_opening opts t ''what is the weather today'' (Fin 0.95) @ body @
         [Publish (\<lambda>_. LlmFinished t False (unat (fd_sentences_per_turn opts * 12)))]))"

definition run_one_turn_with_barge_in :: "fd_options \<Rightarrow> turn_id \<Rightarrow> fd_item list" where
  "run_one_turn_with_barge_in opts t =
     fd_opening opts t ''longer question please answer at length'' (Fin 0.9) @
     [Publish (\<lambda>_. LlmSentence \<lparr>ls_turn = t, ls_seq = 1,
        ls_text = ''I am about to be cut off mid-sentence by an impatient user.'', ls_lang = ''en''\<rparr>),
      Nap (fd_tts_first_audio opts), Publish (\<lambda>_. TtsStarted t 1), Publish (\<lambda>_. TtsAudioChunk t 1 1024),
      Publish (\<lambda>_. TtsFinished t 1), Publish (\<lambda>_. PlaybackStarted t 1), Nap (fd_playback_per_sentence opts),
      Publish (\<lambda>_. PlaybackFinished t 1), Publish (UserInterrupted t),
      Publish (\<lambda>_. LlmSentence \<lparr>ls_turn = t, ls_seq = 2, ls_text = ''stale sentence'', ls_lang = ''en''\<rparr>),
      Publish (\<lambda>_. PlaybackFinished t 2), Publish (\<lambda>_. LlmFinished t True 12)]"

text \<open>
  What of a script is published when the flag is found cleared at the \<open>k\<close>th look: everything
  before it. \<open>clock\<close> gives the readings, one per publication.
\<close>

fun fd_published :: "(nat \<Rightarrow> time_point) \<Rightarrow> nat \<Rightarrow> fd_item list \<Rightarrow> (time_point \<times> event) list" where
  "fd_published clock k [] = []"
| "fd_published clock k (Publish ev # is) = (clock 0, ev (clock 0)) # fd_published (clock \<circ> Suc) k is"
| "fd_published clock k (Nap d # is) = fd_published clock k is"
| "fd_published clock k (Sleep d # is) = (case k of 0 \<Rightarrow> [] | Suc k' \<Rightarrow> fd_published clock k' is)"

text \<open>The loop over turns with the decisions of the random numbers; it counts from 1.\<close>

fun run_loop :: "fd_options \<Rightarrow> turn_id \<Rightarrow> bool list \<Rightarrow> fd_item list option" where
  "run_loop opts t [] = Some []"
| "run_loop opts t (barge_in # ds) =
     Option.bind (if barge_in then Some (run_one_turn_with_barge_in opts t) else run_one_turn opts t) (\<lambda>turn.
     Option.bind (run_loop opts (t + 1) ds) (\<lambda>rest. Some (Sleep (fd_idle_between_turns opts) # turn @ rest)))"

definition run_loop_start :: "fd_options \<Rightarrow> bool list \<Rightarrow> fd_item list option" where
  "run_loop_start opts ds = run_loop opts 1 ds"

definition sleeps :: "fd_item list \<Rightarrow> nat" where
  "sleeps is = length (filter (\<lambda>i. case i of Sleep _ \<Rightarrow> True | _ \<Rightarrow> False) is)"

lemma sleeps_simps [simp]:
  "sleeps [] = 0" "sleeps (Publish ev # is) = sleeps is" "sleeps (Nap d # is) = sleeps is"
  "sleeps (Sleep d # is) = Suc (sleeps is)" "sleeps (is @ js) = sleeps is + sleeps js"
  by (simp_all add: sleeps_def)

lemma fd_published_append:
  "sleeps is \<le> k \<Longrightarrow>
   \<exists>clock'. fd_published clock k (is @ js) = fd_published clock k is @ fd_published clock' (k - sleeps is) js"
proof (induction clock k "is" rule: fd_published.induct)
  case (4 clock k d "is")
  then show ?case by (cases k) auto
qed auto

section \<open>The loop over sentences\<close>

text \<open>With the largest count the index never exceeds it: the loop has no end.\<close>

lemma fd_sentences_endless: "fd_sentences_per_turn opts = - 1 \<Longrightarrow> fd_sentences opts t s = None"
proof (rule ccontr)
  assume n: "fd_sentences_per_turn opts = - 1" and "fd_sentences opts t s \<noteq> None"
  then obtain r where r: "fd_sentences opts t s = Some r" by auto
  have "fd_sentences_per_turn opts \<noteq> - 1"
    by (rule fd_sentences.raw_induct [OF _ r, of "\<lambda>opts t s r. fd_sentences_per_turn opts \<noteq> - 1"])
      (auto split: if_splits bind_splits)
  with n show False by simp
qed

lemma fd_sentences_ends:
  assumes "fd_sentences_per_turn opts \<noteq> - 1" and "unat s \<le> unat (fd_sentences_per_turn opts) + 1"
  shows "fd_sentences opts t s = Some (concat (map (\<lambda>i. fd_sentence opts t (of_nat i)) [unat s..<unat (fd_sentences_per_turn opts) + 1]))"
  using assms(2)
proof (induction "unat (fd_sentences_per_turn opts) + 1 - unat s" arbitrary: s)
  case 0
  then show ?case by (subst fd_sentences.simps) (simp add: word_le_nat_alt)
next
  case (Suc d)
  have less: "unat s \<le> unat (fd_sentences_per_turn opts)" using Suc.hyps(2) by simp
  have "unat (fd_sentences_per_turn opts) \<noteq> unat (- 1 :: 32 word)" using assms(1) by (metis unsigned_word_eqI)
  moreover have "unat (fd_sentences_per_turn opts) < 2 ^ 32" using unsigned_less[of "fd_sentences_per_turn opts"] by simp
  ultimately have "unat s + 1 < 2 ^ 32" using less by (simp add: unsigned_minus_1_eq_mask mask_eq_exp_minus_1)
  then have s1: "unat (s + 1) = unat s + 1" by (simp add: unat_word_ariths)
  have "fd_sentences opts t (s + 1) = Some (concat (map (\<lambda>i. fd_sentence opts t (of_nat i))
      [unat (s + 1)..<unat (fd_sentences_per_turn opts) + 1]))"
    using Suc.hyps(2) less s1 by (intro Suc.hyps(1)) auto
  moreover have "[unat s..<unat (fd_sentences_per_turn opts) + 1] = unat s # [unat s + 1..<unat (fd_sentences_per_turn opts) + 1]"
    using less by (simp add: upt_conv_Cons del: upt_Suc)
  ultimately show ?case
    using less by (subst fd_sentences.simps) (simp add: word_le_nat_alt s1 del: upt_Suc)
qed

section \<open>Driving the dialogue machine\<close>

text \<open>The machine in the middle of a synthetic turn: \<open>j\<close> sentences produced and played.\<close>

definition mid_turn :: "turn_id \<Rightarrow> nat \<Rightarrow> fsm \<Rightarrow> fsm \<Rightarrow> bool" where
  "mid_turn t j s0 s \<longleftrightarrow>
     fsm_state s = (if j = 0 then Thinking else Speaking) \<and> fsm_sentences_received s = of_nat j \<and>
     fsm_sentences_played s = of_nat j \<and> tc_id (fsm_active s) = t \<and> \<not> fsm_llm_finished_seen s \<and>
     tf_next (fsm_turns s) = t + 1 \<and> fsm_outcome_log s = fsm_outcome_log s0 \<and>
     fsm_turns_completed s = fsm_turns_completed s0 \<and> fsm_turns_interrupted s = fsm_turns_interrupted s0"

text \<open>The machine between two synthetic turns, with the outcomes so far.\<close>

definition between_turns :: "turn_id \<Rightarrow> turn_outcome list \<Rightarrow> fsm \<Rightarrow> bool" where
  "between_turns t outs s \<longleftrightarrow>
     fsm_state s = Listening \<and> tf_next (fsm_turns s) = t \<and> fsm_outcome_log s = outs \<and>
     fsm_turns_completed s = of_nat (count_list outs OutCompleted) \<and>
     fsm_turns_interrupted s = of_nat (count_list outs OutInterrupted)"

lemma three_more: "3 \<le> k \<Longrightarrow> \<exists>k'. k = Suc (Suc (Suc k'))"
  by (auto simp: numeral_3_eq_3 dest!: le_Suc_ex)

lemma opening_run:
  assumes "between_turns t outs s" and "\<not> fd_suppress_speech_events opts" and "3 \<le> k"
  shows "mid_turn t 0 s (fsm_run s (fd_published clock k (fd_opening opts t text conf)))"
proof -
  obtain k' where "k = Suc (Suc (Suc k'))" using three_more[OF assms(3)] by blast
  with assms(1,2) show ?thesis
    by (simp add: fd_opening_def speech_item_def fd_transcript_def fsm_step_def fsm_handler_defs fsm_transition_def
        mint_def new_token_def between_turns_def mid_turn_def)
qed

lemma sleeps_opening: "sleeps (fd_opening opts t text conf) = 3"
  by (simp add: fd_opening_def speech_item_def)

lemma sentence_run:
  assumes "mid_turn t j s0 s" and "3 \<le> k"
  shows "mid_turn t (Suc j) s0 (fsm_run s (fd_published clock k (fd_sentence opts t i)))"
proof -
  obtain k' where "k = Suc (Suc (Suc k'))" using three_more[OF assms(2)] by blast
  with assms(1) show ?thesis
    by (simp add: fd_sentence_def fsm_step_def fsm_handler_defs fsm_transition_def mid_turn_def Let_def split: if_splits)
qed

lemma sleeps_sentence: "sleeps (fd_sentence opts t i) = 3"
  by (simp add: fd_sentence_def)

lemma sentences_run:
  "mid_turn t j s0 s \<Longrightarrow> 3 * length is \<le> k \<Longrightarrow>
   mid_turn t (j + length is) s0 (fsm_run s (fd_published clock k (concat (map (fd_sentence opts t) is))))"
proof (induction "is" arbitrary: j s k clock)
  case (Cons i "is")
  have "sleeps (fd_sentence opts t i) \<le> k" using Cons.prems(2) by (simp add: sleeps_sentence)
  from fd_published_append[OF this, of clock "concat (map (fd_sentence opts t) is)"] obtain clock' where
    split: "fd_published clock k (concat (map (fd_sentence opts t) (i # is))) =
      fd_published clock k (fd_sentence opts t i) @ fd_published clock' (k - 3) (concat (map (fd_sentence opts t) is))"
    by (auto simp: sleeps_sentence)
  have "mid_turn t (Suc j) s0 (fsm_run s (fd_published clock k (fd_sentence opts t i)))"
    using Cons.prems by (intro sentence_run) auto
  from Cons.IH[OF this, of "k - 3" clock'] show ?case
    using Cons.prems(2) unfolding split foldl_append by simp
qed simp

lemma finish_run:
  "mid_turn t j s0 s \<Longrightarrow> between_turns t outs s0 \<Longrightarrow> j < 2 ^ 32 \<Longrightarrow>
   between_turns (t + 1) (outs @ [OutCompleted]) (fsm_run s (fd_published clock k [Publish (\<lambda>_. LlmFinished t False n)]))"
  by (auto simp: mid_turn_def between_turns_def fsm_step_def handle_llm_finished_def fsm_complete_def Let_def fsm_transition_def)

lemma full_turn_run:
  assumes "between_turns t outs s" and "\<not> fd_suppress_speech_events opts" and "fd_sentences_per_turn opts \<noteq> - 1"
  shows "\<exists>turn. run_one_turn opts t = Some turn \<and>
    (\<forall>clock k. sleeps turn \<le> k \<longrightarrow> between_turns (t + 1) (outs @ [OutCompleted]) (fsm_run s (fd_published clock k turn)))"
proof -
  let ?n = "unat (fd_sentences_per_turn opts)"
  define nums where "nums = map of_nat [1..<?n + 1] @ ([] :: 32 word list)"
  define body where "body = concat (map (fd_sentence opts t) nums)"
  define op where "op = fd_opening opts t ''what is the weather today'' (Fin 0.95)"
  define fin where "fin = [Publish (\<lambda>_. LlmFinished t False (unat (fd_sentences_per_turn opts * 12)))]"
  have n: "?n < 2 ^ 32" using unsigned_less[of "fd_sentences_per_turn opts"] by simp
  have "fd_sentences opts t 1 = Some body"
    using fd_sentences_ends[OF assms(3), of 1 t] by (simp add: body_def nums_def comp_def)
  then have turn: "run_one_turn opts t = Some (op @ body @ fin)"
    by (simp add: run_one_turn_def op_def fin_def)
  have len: "length nums = ?n" by (simp add: nums_def)
  have sl: "sleeps body = 3 * ?n"
    unfolding body_def len[symmetric] by (induction nums) (simp_all add: sleeps_sentence)
  have "between_turns (t + 1) (outs @ [OutCompleted]) (fsm_run s (fd_published clock k (op @ body @ fin)))"
    if k: "sleeps (op @ body @ fin) \<le> k" for clock k
  proof -
    have k3: "3 \<le> k" "3 * ?n \<le> k - 3" using k by (simp_all add: op_def sleeps_opening sl)
    obtain c1 where c1: "fd_published clock k (op @ body @ fin) = fd_published clock k op @ fd_published c1 (k - 3) (body @ fin)"
      using fd_published_append[of op k clock "body @ fin"] k3 by (auto simp: op_def sleeps_opening)
    obtain c2 where c2: "fd_published c1 (k - 3) (body @ fin) = fd_published c1 (k - 3) body @ fd_published c2 (k - 3 - 3 * ?n) fin"
      using fd_published_append[of body "k - 3" c1 fin] k3 sl by auto
    have "mid_turn t 0 s (fsm_run s (fd_published clock k op))"
      unfolding op_def using assms(1,2) k3(1) by (rule opening_run)
    then have "mid_turn t (0 + ?n) s (fsm_run (fsm_run s (fd_published clock k op)) (fd_published c1 (k - 3) body))"
      unfolding body_def len[symmetric] using k3(2) len by (intro sentences_run) simp_all
    then have "between_turns (t + 1) (outs @ [OutCompleted])
        (fsm_run (fsm_run (fsm_run s (fd_published clock k op)) (fd_published c1 (k - 3) body)) (fd_published c2 (k - 3 - 3 * ?n) fin))"
      unfolding fin_def using assms(1) n by (intro finish_run) simp_all
    then show ?thesis by (simp only: c1 c2 foldl_append)
  qed
  with turn show ?thesis by blast
qed

lemma barge_in_turn_run:
  assumes "between_turns t outs s" and "\<not> fd_suppress_speech_events opts" and "sleeps (run_one_turn_with_barge_in opts t) \<le> k"
  shows "between_turns (t + 1) (outs @ [OutInterrupted]) (fsm_run s (fd_published clock k (run_one_turn_with_barge_in opts t)))"
proof -
  define op where "op = fd_opening opts t ''longer question please answer at length'' (Fin 0.9)"
  define rest where "rest = drop (length op) (run_one_turn_with_barge_in opts t)"
  have split: "run_one_turn_with_barge_in opts t = op @ rest"
    by (simp add: rest_def op_def run_one_turn_with_barge_in_def)
  have k3: "3 \<le> k" using assms(3) by (simp add: split op_def sleeps_opening)
  obtain c where c: "fd_published clock k (op @ rest) = fd_published clock k op @ fd_published c (k - 3) rest"
    using fd_published_append[of op k clock rest] k3 by (auto simp: op_def sleeps_opening)
  have mid: "mid_turn t 0 s (fsm_run s (fd_published clock k op))"
    unfolding op_def using assms(1,2) k3 by (rule opening_run)
  have rest: "between_turns (t + 1) (outs @ [OutInterrupted]) (fsm_run s1 (fd_published c j rest))" if "mid_turn t 0 s s1" for s1 j
    using that assms(1)
    by (simp add: rest_def op_def run_one_turn_with_barge_in_def fsm_step_def fsm_handler_defs fsm_transition_def
        mid_turn_def between_turns_def Let_def split: option.splits)
  show ?thesis unfolding split c foldl_append by (rule rest[OF mid])
qed

text \<open>The outcome of a turn by its decision.\<close>

definition decided :: "bool \<Rightarrow> turn_outcome" where
  "decided barge_in = (if barge_in then OutInterrupted else OutCompleted)"

lemma loop_run:
  assumes "between_turns t outs s" and "\<not> fd_suppress_speech_events opts" and "fd_sentences_per_turn opts \<noteq> - 1"
  shows "\<exists>script. run_loop opts t ds = Some script \<and>
    (\<forall>clock k. sleeps script \<le> k \<longrightarrow>
       between_turns (t + of_nat (length ds)) (outs @ map decided ds) (fsm_run s (fd_published clock k script)))"
  using assms(1)
proof (induction ds arbitrary: t outs s)
  case (Cons d ds)
  obtain turn where turn: "(if d then Some (run_one_turn_with_barge_in opts t) else run_one_turn opts t) = Some turn"
    and run: "\<And>clock k. sleeps turn \<le> k \<Longrightarrow> between_turns (t + 1) (outs @ [decided d]) (fsm_run s (fd_published clock k turn))"
    using full_turn_run[OF Cons.prems assms(2,3)] barge_in_turn_run[OF Cons.prems assms(2)]
    by (cases d) (auto simp: decided_def)
  from Cons.IH[OF run[OF order_refl, of "\<lambda>_. 0"]] obtain rest where rest: "run_loop opts (t + 1) ds = Some rest" by blast
  have loop: "run_loop opts t (d # ds) = Some (Sleep (fd_idle_between_turns opts) # turn @ rest)"
    unfolding run_loop.simps turn rest by simp
  have "between_turns (t + of_nat (length (d # ds))) (outs @ map decided (d # ds))
      (fsm_run s (fd_published clock k (Sleep (fd_idle_between_turns opts) # turn @ rest)))"
    if k: "sleeps (Sleep (fd_idle_between_turns opts) # turn @ rest) \<le> k" for clock k
  proof -
    obtain k' where k': "k = Suc k'" "sleeps turn \<le> k'" "sleeps rest \<le> k' - sleeps turn" using k by (cases k) auto
    from fd_published_append[OF k'(2), of clock rest] obtain c where
      c: "fd_published clock k' (turn @ rest) = fd_published clock k' turn @ fd_published c (k' - sleeps turn) rest" by blast
    from Cons.IH[OF run[OF k'(2), of clock]] rest k'(3) show ?thesis
      by (auto simp: k'(1) c algebra_simps)
  qed
  with loop show ?case by blast
qed simp

text \<open>
  The synthetic driver and the dialogue machine agree. With speech events on, any number of
  sentences but the largest, any sequence of barge-in decisions and any sleeping times, the loop
  produces its events, and the started machine that receives all of them is listening again after
  them, with one outcome per turn: completed for a turn that was left alone, interrupted for one
  that was barged into, none discarded, and the next turn id the driver's.
\<close>

theorem synthetic_turns:
  assumes "\<not> fd_suppress_speech_events opts" and "fd_sentences_per_turn opts \<noteq> - 1"
  shows "\<exists>script. run_loop_start opts ds = Some script \<and>
    (\<forall>clock k. sleeps script \<le> k \<longrightarrow>
       (let s = fsm_run (fsm_start t0 (fsm_new tf_new h)) (fd_published clock k script) in
          fsm_state s = Listening \<and> tf_next (fsm_turns s) = 1 + of_nat (length ds) \<and>
          fsm_outcome_log s = map (\<lambda>b. if b then OutInterrupted else OutCompleted) ds))"
proof -
  have "between_turns 1 [] (fsm_start t0 (fsm_new tf_new h))"
    by (simp add: between_turns_def fsm_start_def fsm_new_def fsm_transition_def tf_new_def)
  from loop_run[OF this assms, of ds] show ?thesis
    by (auto simp: run_loop_start_def between_turns_def decided_def[abs_def] Let_def)
qed

theorem synthetic_turns_witness:
  "\<exists>script. run_loop_start fd_default [False, True] = Some script \<and>
    (\<forall>clock k. sleeps script \<le> k \<longrightarrow>
       fsm_outcome_log (fsm_run (fsm_start 0 (fsm_new tf_new [])) (fd_published clock k script)) = [OutCompleted, OutInterrupted])"
  using synthetic_turns[of fd_default "[False, True]" 0 "[]"] by (auto simp: fd_default_def Let_def)

text \<open>
  The late events of an interrupted turn carry the id that is still active, so the machine counts
  the stale sentence and its playback instead of rejecting them.
\<close>

lemma late_playback_counted:
  assumes "fsm_state s = Listening" and "tc_id (fsm_active s) = t"
  shows "fsm_sentences_played (fsm_on_event now (PlaybackFinished t 2) s) = fsm_sentences_played s + 1"
  using assms by (simp add: handle_playback_finished_def Let_def)

end
