(* ===== verification/Metrics.thy ===== *)
theory Metrics
  imports Supervisor Dialogue_Fsm
begin

text \<open>
  The metrics registry, \<open>src/metrics/registry.hpp\<close> and \<open>src/metrics/registry.cpp\<close>, and the handlers of
  \<open>src/orchestrator/supervisor_setup.cpp\<close> and \<open>src/main.cpp\<close> that mirror the health, pipeline and
  dialogue states into it. The Prometheus library is the environment: the model keeps the calls
  made to it, in order, and what a series shows is what was last set in it. Doubles are reals.
\<close>

unbundle bit_operations_syntax

section \<open>Families\<close>

datatype metric_kind = Counter | Gauge | Histogram

type_synonym labels = "(string \<times> string) list"

datatype metric_call =
    Family metric_kind string
  | AddSeries string labels
  | AddBuckets string "real list"
  | SetTo string labels real
  | Increment string labels real
  | Observe string real

definition kAllStates :: "string list" where
  "kAllStates = [''idle'', ''listening'', ''user_speaking'', ''transcribing'', ''thinking'', ''speaking'',
     ''completed'', ''interrupted'']"

definition kAllHealthStates :: "string list" where
  "kAllHealthStates = [''unknown'', ''healthy'', ''degraded'', ''unhealthy'']"

definition kAllPipelineStates :: "string list" where
  "kAllPipelineStates = [''ok'', ''failed'', ''no_configured_critical_services'']"

abbreviation one_series :: "metric_kind \<Rightarrow> string \<Rightarrow> metric_call list" where
  "one_series k n \<equiv> [Family k n, AddSeries n []]"

text \<open>The constructor, in the order of the source.\<close>

definition registry_init :: "metric_call list" where
  "registry_init =
     [Family Counter ''voice_events_published_total'', Family Counter ''voice_turns_total'',
      Family Counter ''voice_events_dropped_total'', Family Counter ''voice_service_restarts_total'',
      Family Gauge ''voice_fsm_state''] @ map (\<lambda>s. SetTo ''voice_fsm_state'' [(''state'', s)] 0) kAllStates @
     [Family Counter ''voice_llm_keepalive_total'', AddSeries ''voice_llm_keepalive_total'' [(''outcome'', ''fired'')],
      AddSeries ''voice_llm_keepalive_total'' [(''outcome'', ''skipped'')],
      Family Gauge ''voice_health_state'', Family Gauge ''voice_pipeline_state''] @
     map (\<lambda>s. SetTo ''voice_pipeline_state'' [(''state'', s)] 0) kAllPipelineStates @
     [SetTo ''voice_pipeline_state'' [(''state'', ''no_configured_critical_services'')] 1,
      Family Histogram ''voice_llm_first_token_ms'',
      AddBuckets ''voice_llm_first_token_ms'' [50, 100, 200, 350, 500, 750, 1000, 1500, 2000, 3000, 5000, 10000],
      Family Histogram ''voice_llm_tokens_per_sec'', AddBuckets ''voice_llm_tokens_per_sec'' [5, 10, 20, 40, 80, 120, 200, 400],
      Family Histogram ''voice_tts_first_audio_ms'',
      AddBuckets ''voice_tts_first_audio_ms'' [25, 50, 100, 200, 350, 500, 750, 1000, 1500, 3000]] @
     one_series Counter ''voice_tts_audio_bytes_total'' @
     concat (map (one_series Gauge)
       [''voice_playback_queue_depth'', ''voice_playback_underruns_total'', ''voice_playback_chunks_played_total'',
        ''voice_playback_drops_total'', ''voice_capture_frames_total'', ''voice_capture_ring_overruns_total'',
        ''voice_audio_pipeline_frames_total'', ''voice_vad_false_starts_total'', ''voice_utterances_total'',
        ''voice_utterance_drops_total'', ''voice_utterance_in_flight'', ''voice_aec_delay_estimate_ms'',
        ''voice_aec_erle_db'', ''voice_aec_frames_processed_total'']) @
     [Family Histogram ''voice_barge_in_latency_ms'',
      AddBuckets ''voice_barge_in_latency_ms'' [10, 25, 50, 100, 150, 200, 300, 400, 600, 1000]] @
     one_series Gauge ''voice_barge_in_fires_total'' @
     [Family Gauge ''voice_barge_in_suppressed_total'', AddSeries ''voice_barge_in_suppressed_total'' [(''cause'', ''any'')],
      AddSeries ''voice_barge_in_suppressed_total'' [(''cause'', ''cooldown'')],
      AddSeries ''voice_barge_in_suppressed_total'' [(''cause'', ''aec'')]]"

fun family_name :: "metric_call \<Rightarrow> string" where
  "family_name (Family _ n) = n"
| "family_name (AddSeries n _) = n"
| "family_name (AddBuckets n _) = n"
| "family_name (SetTo n _ _) = n"
| "family_name (Increment n _ _) = n"
| "family_name (Observe n _) = n"

section \<open>State and operations\<close>

record turn_timer =
  tt_started_at :: time_point
  tt_seen :: bool

record registry =
  mr_calls :: "metric_call list"
  mr_health_services :: "string list"
  mr_timers :: "turn_id \<rightharpoonup> turn_timer"
  mr_tts_timers :: "64 word \<rightharpoonup> turn_timer"

definition registry_new :: registry where
  "registry_new = \<lparr>mr_calls = registry_init, mr_health_services = [], mr_timers = Map.empty, mr_tts_timers = Map.empty\<rparr>"

definition mr_call :: "metric_call list \<Rightarrow> registry \<Rightarrow> registry" where
  "mr_call cs r = r\<lparr>mr_calls := mr_calls r @ cs\<rparr>"

definition on_event_published :: "string \<Rightarrow> registry \<Rightarrow> registry" where
  "on_event_published name = mr_call [Increment ''voice_events_published_total'' [(''event'', name)] 1]"

definition on_turn_outcome :: "string \<Rightarrow> registry \<Rightarrow> registry" where
  "on_turn_outcome outcome = mr_call [Increment ''voice_turns_total'' [(''outcome'', outcome)] 1]"

definition on_queue_drop :: "string \<Rightarrow> registry \<Rightarrow> registry" where
  "on_queue_drop queue = mr_call [Increment ''voice_events_dropped_total'' [(''queue'', queue)] 1]"

definition on_service_restart :: "string \<Rightarrow> registry \<Rightarrow> registry" where
  "on_service_restart service = mr_call [Increment ''voice_service_restarts_total'' [(''service'', service)] 1]"

text \<open>One gauge per label: 1 for the named one, 0 for the others.\<close>

definition grid :: "string \<Rightarrow> labels \<Rightarrow> string list \<Rightarrow> (string \<Rightarrow> real) \<Rightarrow> metric_call list" where
  "grid name ls states v = map (\<lambda>s. SetTo name (ls @ [(''state'', s)]) (v s)) states"

definition one_hot :: "string \<Rightarrow> string \<Rightarrow> real" where
  "one_hot name s = (if s = name then 1 else 0)"

definition set_fsm_state :: "string \<Rightarrow> registry \<Rightarrow> registry" where
  "set_fsm_state name = mr_call (grid ''voice_fsm_state'' [] kAllStates (one_hot name))"

definition set_pipeline_state :: "string \<Rightarrow> registry \<Rightarrow> registry" where
  "set_pipeline_state name = mr_call (grid ''voice_pipeline_state'' [] kAllPipelineStates (one_hot name))"

definition register_service_for_health :: "string \<Rightarrow> registry \<Rightarrow> registry" where
  "register_service_for_health service r =
     (if service \<in> set (mr_health_services r) then r
      else mr_call (grid ''voice_health_state'' [(''service'', service)] kAllHealthStates (\<lambda>_. 0) @
             [SetTo ''voice_health_state'' [(''service'', service), (''state'', ''unknown'')] 1])
           (r\<lparr>mr_health_services := mr_health_services r @ [service]\<rparr>))"

definition set_health_state :: "string \<Rightarrow> string \<Rightarrow> registry \<Rightarrow> registry" where
  "set_health_state service name r =
     (let r1 = (if service \<in> set (mr_health_services r) then r
                else mr_call (grid ''voice_health_state'' [(''service'', service)] kAllHealthStates (\<lambda>_. 0))
                       (r\<lparr>mr_health_services := mr_health_services r @ [service]\<rparr>))
      in mr_call (grid ''voice_health_state'' [(''service'', service)] kAllHealthStates (one_hot name)) r1)"

definition on_keep_alive :: "bool \<Rightarrow> registry \<Rightarrow> registry" where
  "on_keep_alive fired =
     mr_call [Increment ''voice_llm_keepalive_total'' [(''outcome'', if fired then ''fired'' else ''skipped'')] 1]"

definition on_tts_first_audio :: "real \<Rightarrow> registry \<Rightarrow> registry" where
  "on_tts_first_audio ms = (if 0 \<le> ms then mr_call [Observe ''voice_tts_first_audio_ms'' ms] else id)"

definition on_tts_audio_bytes :: "nat \<Rightarrow> registry \<Rightarrow> registry" where
  "on_tts_audio_bytes bytes = (if 0 < bytes then mr_call [Increment ''voice_tts_audio_bytes_total'' [] (real bytes)] else id)"

definition on_barge_in_latency :: "real \<Rightarrow> registry \<Rightarrow> registry" where
  "on_barge_in_latency ms = (if 0 \<le> ms then mr_call [Observe ''voice_barge_in_latency_ms'' ms] else id)"

text \<open>The setters the pollers call with absolute values.\<close>

definition set_gauge :: "string \<Rightarrow> labels \<Rightarrow> real \<Rightarrow> registry \<Rightarrow> registry" where
  "set_gauge name ls v = mr_call [SetTo name ls v]"

section \<open>Subscriptions\<close>

definition nanos_ms :: "int \<Rightarrow> real" where
  "nanos_ms d = of_int d / 1000000"

definition nanos_secs :: "int \<Rightarrow> real" where
  "nanos_secs d = of_int d / 1000000000"

fun metrics_llm :: "time_point \<Rightarrow> event \<Rightarrow> registry \<Rightarrow> registry" where
  "metrics_llm now (LlmStarted t) r = r\<lparr>mr_timers := (mr_timers r)(t \<mapsto> \<lparr>tt_started_at = now, tt_seen = False\<rparr>)\<rparr>"
| "metrics_llm now (LlmToken t x) r =
     (case mr_timers r t of
        None \<Rightarrow> r
      | Some tm \<Rightarrow>
          (if tt_seen tm then r
           else let ms = nanos_ms (now - tt_started_at tm); r1 = r\<lparr>mr_timers := (mr_timers r)(t \<mapsto> tm\<lparr>tt_seen := True\<rparr>)\<rparr>
                in if 0 \<le> ms then mr_call [Observe ''voice_llm_first_token_ms'' ms] r1 else r1))"
| "metrics_llm now (LlmFinished t c tokens) r =
     (case mr_timers r t of
        None \<Rightarrow> r
      | Some tm \<Rightarrow>
          (let secs = nanos_secs (now - tt_started_at tm);
               tps = (if 0 < secs \<and> 0 < tokens then real tokens / secs else 0);
               r1 = r\<lparr>mr_timers := (mr_timers r)(t := None)\<rparr>
           in if 0 < tps then mr_call [Observe ''voice_llm_tokens_per_sec'' tps] r1 else r1))"
| "metrics_llm now _ r = r"

definition tts_key :: "turn_id \<Rightarrow> seq_no \<Rightarrow> 64 word" where
  "tts_key t s = push_bit 32 t OR ucast s"

fun metrics_tts :: "time_point \<Rightarrow> event \<Rightarrow> registry \<Rightarrow> registry" where
  "metrics_tts now (TtsStarted t s) r =
     r\<lparr>mr_tts_timers := (mr_tts_timers r)(tts_key t s \<mapsto> \<lparr>tt_started_at = now, tt_seen = False\<rparr>)\<rparr>"
| "metrics_tts now (TtsAudioChunk t s bytes) r =
     (let (ms, r1) =
        (case mr_tts_timers r (tts_key t s) of
           None \<Rightarrow> (- 1, r)
         | Some tm \<Rightarrow>
             (if tt_seen tm then (- 1, r)
              else (nanos_ms (now - tt_started_at tm),
                    r\<lparr>mr_tts_timers := (mr_tts_timers r)(tts_key t s \<mapsto> tm\<lparr>tt_seen := True\<rparr>)\<rparr>)))
      in on_tts_audio_bytes bytes (on_tts_first_audio ms r1))"
| "metrics_tts now (TtsFinished t s) r = r\<lparr>mr_tts_timers := (mr_tts_timers r)(tts_key t s := None)\<rparr>"
| "metrics_tts now _ r = r"

definition metrics_events :: "event \<Rightarrow> registry \<Rightarrow> registry" where
  "metrics_events e = on_event_published (event_name e)"

text \<open>The handler of \<open>HealthChanged\<close>, of the pipeline state and of the dialogue state.\<close>

definition health_label :: "health_state \<Rightarrow> string" where
  "health_label h = (case h of HsUnknown \<Rightarrow> ''unknown'' | HsHealthy \<Rightarrow> ''healthy'' | HsDegraded \<Rightarrow> ''degraded'' | HsUnhealthy \<Rightarrow> ''unhealthy'')"

definition metrics_health :: "event \<Rightarrow> registry \<Rightarrow> registry" where
  "metrics_health e r = (case e of HealthChanged service h _ \<Rightarrow> set_health_state service (health_label h) r | _ \<Rightarrow> r)"

definition metrics_fsm :: "fsm_snapshot \<Rightarrow> registry \<Rightarrow> registry" where
  "metrics_fsm snap = set_fsm_state (fsm_state_to_string (snap_state snap))"

definition pipeline_state_to_string :: "pipeline_state \<Rightarrow> string" where
  "pipeline_state_to_string p =
     (case p of PipeOk \<Rightarrow> ''ok'' | PipeFailed \<Rightarrow> ''failed'' | PipeNoCritical \<Rightarrow> ''no_configured_critical_services'')"

definition metrics_pipeline :: "pipeline_state \<Rightarrow> registry \<Rightarrow> registry" where
  "metrics_pipeline p = set_pipeline_state (pipeline_state_to_string p)"

text \<open>The series the pollers write, by number, and everything the program does to the registry.\<close>

definition polled :: "(string \<times> labels) list" where
  "polled =
     map (\<lambda>n. (n, []))
       [''voice_playback_queue_depth'', ''voice_playback_underruns_total'', ''voice_playback_chunks_played_total'',
        ''voice_playback_drops_total'', ''voice_capture_frames_total'', ''voice_capture_ring_overruns_total'',
        ''voice_audio_pipeline_frames_total'', ''voice_vad_false_starts_total'', ''voice_utterances_total'',
        ''voice_utterance_drops_total'', ''voice_utterance_in_flight'', ''voice_aec_delay_estimate_ms'',
        ''voice_aec_erle_db'', ''voice_aec_frames_processed_total'', ''voice_barge_in_fires_total''] @
     map (\<lambda>c. (''voice_barge_in_suppressed_total'', [(''cause'', c)])) [''any'', ''cooldown'', ''aec'']"

datatype mr_op =
    OpEvent event
  | OpLlm time_point event
  | OpTts time_point event
  | OpHealth event
  | OpFsm fsm_snapshot
  | OpPipeline pipeline_state
  | OpRegister string
  | OpKeepAlive bool
  | OpOutcome turn_outcome
  | OpPoll nat real
  | OpBargeIn real

fun mr_do :: "registry \<Rightarrow> mr_op \<Rightarrow> registry" where
  "mr_do r (OpEvent e) = metrics_events e r"
| "mr_do r (OpLlm now e) = metrics_llm now e r"
| "mr_do r (OpTts now e) = metrics_tts now e r"
| "mr_do r (OpHealth e) = metrics_health e r"
| "mr_do r (OpFsm snap) = metrics_fsm snap r"
| "mr_do r (OpPipeline p) = metrics_pipeline p r"
| "mr_do r (OpRegister service) = register_service_for_health service r"
| "mr_do r (OpKeepAlive fired) = on_keep_alive fired r"
| "mr_do r (OpOutcome out) = on_turn_outcome (turn_outcome_to_string out) r"
| "mr_do r (OpPoll i v) = (if i < length polled then set_gauge (fst (polled ! i)) (snd (polled ! i)) v r else r)"
| "mr_do r (OpBargeIn ms) = on_barge_in_latency ms r"

section \<open>What a gauge shows\<close>

fun shown :: "string \<Rightarrow> labels \<Rightarrow> metric_call list \<Rightarrow> real option" where
  "shown n ls [] = None"
| "shown n ls (SetTo m ks v # cs) =
     (case shown n ls cs of Some w \<Rightarrow> Some w | None \<Rightarrow> if m = n \<and> ks = ls then Some v else None)"
| "shown n ls (_ # cs) = shown n ls cs"

lemma shown_append: "shown n ls (cs @ ds) = (case shown n ls ds of Some v \<Rightarrow> Some v | None \<Rightarrow> shown n ls cs)"
  by (induction n ls cs rule: shown.induct) (auto split: option.splits)

lemma shown_other: "(\<And>v. SetTo n ls v \<notin> set cs) \<Longrightarrow> shown n ls cs = None"
  by (induction n ls cs rule: shown.induct) (auto split: option.splits)

lemma shown_grid: "s \<in> set states \<Longrightarrow> shown n (ls @ [(''state'', s)]) (grid n ls states v) = Some (v s)"
proof (induction states)
  case (Cons x states)
  show ?case
  proof (cases "s \<in> set states")
    case False
    then have "shown n (ls @ [(''state'', s)]) (grid n ls states v) = None"
      by (intro shown_other) (auto simp: grid_def)
    with Cons.prems False show ?thesis by (simp add: grid_def)
  qed (use Cons.IH in \<open>simp add: grid_def\<close>)
qed simp

text \<open>The gauges \<open>n\<close> with the labels \<open>ls\<close> show the state \<open>s\<close>: 1 there and 0 at every other.\<close>

definition shows_state :: "string \<Rightarrow> labels \<Rightarrow> string list \<Rightarrow> string \<Rightarrow> metric_call list \<Rightarrow> bool" where
  "shows_state n ls states s cs \<longleftrightarrow>
     s \<in> set states \<and> (\<forall>x \<in> set states. shown n (ls @ [(''state'', x)]) cs = Some (if x = s then 1 else 0))"

lemma shows_state_set: "s \<in> set states \<Longrightarrow> shows_state n ls states s (cs @ grid n ls states (one_hot s))"
  by (simp add: shows_state_def shown_append shown_grid one_hot_def)

lemma shows_state_kept:
  "shows_state n ls states s cs \<Longrightarrow> (\<And>x v. SetTo n (ls @ [(''state'', x)]) v \<notin> set ds) \<Longrightarrow> shows_state n ls states s (cs @ ds)"
  by (simp add: shows_state_def shown_append shown_other)

definition health_shown :: "registry \<Rightarrow> bool" where
  "health_shown r \<longleftrightarrow>
     (\<forall>service \<in> set (mr_health_services r). \<exists>h.
        shows_state ''voice_health_state'' [(''service'', service)] kAllHealthStates (health_label h) (mr_calls r))"

lemma health_label_known: "health_label h \<in> set kAllHealthStates"
  by (cases h) (simp_all add: health_label_def kAllHealthStates_def)

lemma health_kept:
  assumes "health_shown r" and "mr_health_services r' = mr_health_services r" and "mr_calls r' = mr_calls r @ ds"
    and "\<And>ls v. SetTo ''voice_health_state'' ls v \<notin> set ds"
  shows "health_shown r'"
  using assms by (fastforce simp: health_shown_def intro: shows_state_kept)

lemma health_call: "health_shown r \<Longrightarrow> (\<And>ls v. SetTo ''voice_health_state'' ls v \<notin> set cs) \<Longrightarrow> health_shown (mr_call cs r)"
  by (rule health_kept) (simp_all add: mr_call_def)

lemma health_set: "health_shown r \<Longrightarrow> health_shown (set_health_state service (health_label h) r)"
proof -
  assume r: "health_shown r"
  define cs where "cs = (if service \<in> set (mr_health_services r) then []
    else grid ''voice_health_state'' [(''service'', service)] kAllHealthStates (\<lambda>_. 0)) @
    grid ''voice_health_state'' [(''service'', service)] kAllHealthStates (one_hot (health_label h))"
  have calls: "mr_calls (set_health_state service (health_label h) r) = mr_calls r @ cs"
    and svcs: "set (mr_health_services (set_health_state service (health_label h) r)) = insert service (set (mr_health_services r))"
    by (auto simp: set_health_state_def mr_call_def cs_def Let_def)
  have other: "SetTo ''voice_health_state'' ([(''service'', x)] @ [(''state'', s)]) v \<notin> set cs" if "x \<noteq> service" for x s v
    using that by (auto simp: cs_def grid_def)
  show ?thesis
    unfolding health_shown_def calls svcs
  proof
    fix x assume x: "x \<in> insert service (set (mr_health_services r))"
    show "\<exists>h. shows_state ''voice_health_state'' [(''service'', x)] kAllHealthStates (health_label h) (mr_calls r @ cs)"
    proof (cases "x = service")
      case True
      have "mr_calls r @ cs = (mr_calls r @ (if service \<in> set (mr_health_services r) then []
          else grid ''voice_health_state'' [(''service'', service)] kAllHealthStates (\<lambda>_. 0))) @
          grid ''voice_health_state'' [(''service'', service)] kAllHealthStates (one_hot (health_label h))"
        by (simp add: cs_def)
      then show ?thesis using True health_label_known shows_state_set by metis
    next
      case False
      with x r obtain h' where
        "shows_state ''voice_health_state'' [(''service'', x)] kAllHealthStates (health_label h') (mr_calls r)"
        by (auto simp: health_shown_def)
      with other[OF False] show ?thesis by (blast intro: shows_state_kept)
    qed
  qed
qed

lemma health_register: "health_shown r \<Longrightarrow> health_shown (register_service_for_health service r)"
proof (cases "service \<in> set (mr_health_services r)")
  case False
  assume r: "health_shown r"
  define cs where "cs = grid ''voice_health_state'' [(''service'', service)] kAllHealthStates (\<lambda>_. 0) @
    [SetTo ''voice_health_state'' [(''service'', service), (''state'', ''unknown'')] 1]"
  have reg: "register_service_for_health service r =
      mr_call cs (r\<lparr>mr_health_services := mr_health_services r @ [service]\<rparr>)"
    using False by (simp add: register_service_for_health_def cs_def)
  have "shows_state ''voice_health_state'' [(''service'', service)] kAllHealthStates ''unknown'' cs"
    by (auto simp: shows_state_def cs_def shown_append grid_def kAllHealthStates_def)
  then have "shows_state ''voice_health_state'' [(''service'', service)] kAllHealthStates (health_label HsUnknown) (mr_calls r @ cs)"
    by (simp add: shows_state_def shown_append health_label_def)
  moreover have "shows_state ''voice_health_state'' [(''service'', x)] kAllHealthStates s (mr_calls r @ cs)"
    if "x \<noteq> service" "shows_state ''voice_health_state'' [(''service'', x)] kAllHealthStates s (mr_calls r)" for x s
    using that by (intro shows_state_kept) (auto simp: cs_def grid_def)
  ultimately show ?thesis
    using r False unfolding reg health_shown_def by (fastforce simp: mr_call_def)
qed (simp add: register_service_for_health_def)

lemmas registry_ops = metrics_events_def on_event_published_def metrics_fsm_def set_fsm_state_def metrics_pipeline_def
  set_pipeline_state_def on_keep_alive_def on_turn_outcome_def set_gauge_def on_barge_in_latency_def on_tts_first_audio_def
  on_tts_audio_bytes_def

lemma polled_not_health: "i < length polled \<Longrightarrow> fst (polled ! i) \<noteq> ''voice_health_state''"
proof -
  have "\<forall>x \<in> set polled. fst x \<noteq> ''voice_health_state''" by (simp add: polled_def)
  then show "i < length polled \<Longrightarrow> ?thesis" using nth_mem by blast
qed

lemma metrics_llm_health: "health_shown r \<Longrightarrow> health_shown (metrics_llm now e r)"
  by (cases e)
    (auto simp: Let_def split: option.splits intro!: health_call elim: health_kept[where ds = "[]"])

lemma metrics_tts_health: "health_shown r \<Longrightarrow> health_shown (metrics_tts now e r)"
  by (cases e)
    (auto simp: Let_def on_tts_first_audio_def on_tts_audio_bytes_def split: option.splits prod.splits
      intro!: health_call elim: health_kept[where ds = "[]"])

lemma mr_do_health: "health_shown r \<Longrightarrow> health_shown (mr_do r a)"
proof (cases a)
  case (OpHealth e)
  assume "health_shown r"
  then show ?thesis by (cases e) (simp_all add: OpHealth metrics_health_def health_set)
next
  case (OpPoll i v)
  assume "health_shown r"
  then show ?thesis using polled_not_health[of i] by (auto simp: OpPoll set_gauge_def intro!: health_call)
qed (auto simp: registry_ops grid_def health_register metrics_llm_health metrics_tts_health intro!: health_call)

interpretation registry: step_machine mr_do health_shown
  by unfold_locales (rule mr_do_health)

text \<open>
  C37. The health gauges always name one state. Under every interleaving of the registry's handlers,
  the pollers and the registrations, each service the registry knows has, of its four gauges,
  exactly one showing 1, that of a health state, and 0 in the three others, from its registration
  on and after every event.
\<close>

theorem health_gauges_one_hot:
  "let r = foldl mr_do registry_new ops in
     \<forall>service \<in> set (mr_health_services r). \<exists>h. \<forall>h'.
       shown ''voice_health_state'' [(''service'', service), (''state'', health_label h')] (mr_calls r) =
         Some (if h' = h then 1 else 0)"
proof -
  let ?r = "foldl mr_do registry_new ops"
  have "health_shown registry_new" by (simp add: health_shown_def registry_new_def)
  then have "health_shown ?r" by (rule registry.run_inv)
  have label_inj: "health_label h' = health_label h \<longleftrightarrow> h' = h" for h h'
    by (cases h; cases h') (simp_all add: health_label_def)
  show ?thesis
    unfolding Let_def
  proof
    fix service assume "service \<in> set (mr_health_services ?r)"
    with \<open>health_shown ?r\<close> obtain h where
      "shows_state ''voice_health_state'' [(''service'', service)] kAllHealthStates (health_label h) (mr_calls ?r)"
      unfolding health_shown_def by blast
    then have "shown ''voice_health_state'' [(''service'', service), (''state'', health_label h')] (mr_calls ?r) =
        Some (if h' = h then 1 else 0)" for h'
      using health_label_known[of h'] by (simp add: shows_state_def label_inj)
    then show "\<exists>h. \<forall>h'. shown ''voice_health_state'' [(''service'', service), (''state'', health_label h')] (mr_calls ?r) =
        Some (if h' = h then 1 else 0)" by blast
  qed
qed

theorem health_gauges_one_hot_witness:
  "\<exists>h. \<forall>h'. shown ''voice_health_state'' [(''service'', ''llm''), (''state'', health_label h')]
     (mr_calls (foldl mr_do registry_new [OpRegister ''llm'', OpHealth (HealthChanged ''llm'' HsHealthy ''up''), OpKeepAlive True])) =
       Some (if h' = h then 1 else 0)"
  using health_gauges_one_hot [of "[OpRegister ''llm'', OpHealth (HealthChanged ''llm'' HsHealthy ''up''), OpKeepAlive True]"]
  by (simp add: register_service_for_health_def metrics_health_def set_health_state_def on_keep_alive_def mr_call_def registry_new_def Let_def)

text \<open>The dialogue gauge shows the state of the snapshot, for every state there is.\<close>

lemma fsm_gauge: "shows_state ''voice_fsm_state'' [] kAllStates (fsm_state_to_string (snap_state snap)) (mr_calls (metrics_fsm snap r))"
proof -
  have "fsm_state_to_string (snap_state snap) \<in> set kAllStates" by (cases "snap_state snap") (simp_all add: kAllStates_def)
  then show ?thesis by (simp add: metrics_fsm_def set_fsm_state_def mr_call_def shows_state_set)
qed

text \<open>Until the first event no dialogue state is shown at all.\<close>

lemma fsm_gauge_initially: "s \<in> set kAllStates \<Longrightarrow> shown ''voice_fsm_state'' [(''state'', s)] (mr_calls registry_new) = Some 0"
proof -
  assume s: "s \<in> set kAllStates"
  define post where "post = drop (5 + length kAllStates) registry_init"
  define pre where "pre = take 5 registry_init"
  have init: "registry_init = pre @ grid ''voice_fsm_state'' [] kAllStates (\<lambda>_. 0) @ post"
    by (simp add: pre_def post_def registry_init_def grid_def kAllStates_def)
  have "shown ''voice_fsm_state'' [(''state'', s)] post = None"
    by (rule shown_other) (simp add: post_def registry_init_def kAllStates_def kAllPipelineStates_def)
  moreover have "shown ''voice_fsm_state'' ([] @ [(''state'', s)]) (grid ''voice_fsm_state'' [] kAllStates (\<lambda>_. 0)) = Some 0"
    by (rule shown_grid[OF s])
  ultimately have "shown ''voice_fsm_state'' [(''state'', s)] registry_init = Some 0"
    unfolding init by (simp add: shown_append)
  then show ?thesis by (simp add: registry_new_def)
qed

section \<open>Timers\<close>

text \<open>A sentence whose end is never announced keeps its timer, as does one of the turn 2^32 later.\<close>

lemma tts_timer_leak:
  "(\<And>t' s'. TtsFinished t' s' \<in> set (map snd es) \<Longrightarrow> tts_key t' s' \<noteq> tts_key t s) \<Longrightarrow>
   mr_tts_timers r (tts_key t s) \<noteq> None \<Longrightarrow>
   mr_tts_timers (foldl (\<lambda>r (now, e). metrics_tts now e r) r es) (tts_key t s) \<noteq> None"
proof (induction es arbitrary: r)
  case (Cons x es)
  obtain now e where x: "x = (now, e)" by (cases x)
  have "mr_tts_timers (metrics_tts now e r) (tts_key t s) \<noteq> None"
  proof (cases e)
    case (TtsFinished a b)
    then have "tts_key a b \<noteq> tts_key t s" using Cons.prems(1)[of a b] x by simp
    then show ?thesis using Cons.prems(2) TtsFinished by auto
  qed (use Cons.prems(2) in \<open>auto simp: registry_ops mr_call_def Let_def split: option.splits prod.splits if_splits\<close>)
  then show ?case using Cons by (simp add: x)
qed simp

lemma tts_key_collision: "tts_key (t + 2 ^ 32) s = tts_key t s"
proof -
  have "push_bit 32 (t + 2 ^ 32) = (push_bit 32 t :: 64 word)"
    by (simp add: push_bit_eq_mult distrib_right)
  then show ?thesis by (simp add: tts_key_def)
qed

text \<open>The answers started and not finished, in the order of the events the subscription sees.\<close>

fun open_answers :: "turn_id set \<Rightarrow> event list \<Rightarrow> turn_id set" where
  "open_answers ts [] = ts"
| "open_answers ts (LlmStarted t # es) = open_answers (insert t ts) es"
| "open_answers ts (LlmFinished t c n # es) = open_answers (ts - {t}) es"
| "open_answers ts (_ # es) = open_answers ts es"

definition first_tokens :: "registry \<Rightarrow> nat" where
  "first_tokens r = length (filter (\<lambda>c. \<exists>v. c = Observe ''voice_llm_first_token_ms'' v) (mr_calls r))"

definition unseen :: "registry \<Rightarrow> turn_id set" where
  "unseen r = {t. \<exists>tm. mr_timers r t = Some tm \<and> \<not> tt_seen tm}"

fun starts :: "event list \<Rightarrow> nat" where
  "starts [] = 0"
| "starts (LlmStarted t # es) = Suc (starts es)"
| "starts (_ # es) = starts es"

abbreviation llm_run :: "registry \<Rightarrow> (time_point \<times> event) list \<Rightarrow> registry" where
  "llm_run \<equiv> foldl (\<lambda>r (now, e). metrics_llm now e r)"

lemma timers_open: "dom (mr_timers (llm_run r es)) = open_answers (dom (mr_timers r)) (map snd es)"
proof (induction es arbitrary: r)
  case (Cons x es)
  obtain now e where x: "x = (now, e)" by (cases x)
  have "dom (mr_timers (metrics_llm now e r)) = open_answers (dom (mr_timers r)) [e]"
  proof (cases e)
    case (LlmToken t y)
    then show ?thesis by (cases "mr_timers r t") (simp_all add: mr_call_def Let_def insert_absorb domI)
  next
    case (LlmFinished t c n)
    then show ?thesis by (cases "mr_timers r t") (simp_all add: mr_call_def Let_def domIff)
  qed simp_all
  moreover have "open_answers ts (e # es') = open_answers (open_answers ts [e]) es'" for ts es'
    by (cases e) simp_all
  ultimately have "open_answers (dom (mr_timers r)) (e # map snd es) = open_answers (dom (mr_timers (metrics_llm now e r))) (map snd es)"
    by metis
  then show ?case using Cons by (simp add: x)
qed simp

text \<open>Observations made and timers that can still make one are bounded by the starts.\<close>

lemma metrics_llm_budget:
  assumes "finite (unseen r)"
  shows "finite (unseen (metrics_llm now e r)) \<and>
    first_tokens (metrics_llm now e r) + card (unseen (metrics_llm now e r)) \<le> first_tokens r + card (unseen r) + starts [e]"
proof (cases e)
  case (LlmStarted t)
  have "unseen (metrics_llm now e r) = insert t (unseen r)" by (auto simp: LlmStarted unseen_def split: if_splits)
  then show ?thesis using assms card_insert_le_m1 by (simp add: LlmStarted first_tokens_def card_insert_if)
next
  case (LlmToken t x)
  show ?thesis
  proof (cases "t \<in> unseen r")
    case True
    then obtain tm where tm: "mr_timers r t = Some tm" "\<not> tt_seen tm" by (auto simp: unseen_def)
    have "unseen (metrics_llm now e r) = unseen r - {t}"
      using tm by (auto simp: LlmToken unseen_def mr_call_def Let_def split: if_splits)
    moreover have "0 < card (unseen r)" using True assms card_gt_0_iff by blast
    ultimately show ?thesis
      using tm True assms by (simp add: LlmToken first_tokens_def mr_call_def Let_def)
  next
    case False
    then have "metrics_llm now e r = r" by (auto simp: LlmToken unseen_def split: option.splits)
    then show ?thesis using assms by (simp add: LlmToken)
  qed
next
  case (LlmFinished t c n)
  have "unseen (metrics_llm now e r) = unseen r - {t}"
    by (auto simp: LlmFinished unseen_def mr_call_def Let_def split: option.splits if_splits)
  moreover have "first_tokens (metrics_llm now e r) = first_tokens r"
    by (auto simp: LlmFinished first_tokens_def mr_call_def Let_def split: option.splits)
  ultimately show ?thesis using assms by (simp add: LlmFinished card_Diff1_le)
qed (use assms in simp_all)

lemma starts_Cons: "starts (e # es) = starts [e] + starts es"
  by (cases e) simp_all

lemma llm_run_budget:
  "finite (unseen r) \<Longrightarrow> first_tokens (llm_run r es) + card (unseen (llm_run r es)) \<le> first_tokens r + card (unseen r) + starts (map snd es)"
proof (induction es arbitrary: r)
  case (Cons x es)
  obtain now e where x: "x = (now, e)" by (cases x)
  from metrics_llm_budget[OF Cons.prems, of now e] Cons.IH[of "metrics_llm now e r"] show ?case
    by (simp add: x starts_Cons[of e "map snd es"])
qed simp

text \<open>
  Latencies are counted once per answer. Whatever the events and their order, the first-token
  histogram receives at most one observation for every answer started, and a timer is kept for
  exactly the answers started and not yet finished.
\<close>

theorem first_token_once:
  "let r = llm_run registry_new es in
     first_tokens r \<le> starts (map snd es) \<and> dom (mr_timers r) = open_answers {} (map snd es)"
proof -
  have "unseen registry_new = {}" by (simp add: unseen_def registry_new_def)
  moreover have "first_tokens registry_new = 0"
    by (auto simp: first_tokens_def registry_new_def registry_init_def kAllStates_def kAllPipelineStates_def polled_def)
  ultimately show ?thesis
    using llm_run_budget[of registry_new es] timers_open[of registry_new es] by (simp add: Let_def registry_new_def)
qed

end
