(* ===== verification/Status.thy ===== *)
theory Status
  imports Json_Log Metrics
begin

text \<open>
  What an operator sees: the event tracer of \<open>src/orchestrator/event_tracer.cpp\<close>, which logs the
  control events, and the status report of \<open>src/http/server.cpp\<close> with the fragment added by
  \<open>src/orchestrator/status_extra.cpp\<close>. The HTTP library and the two-digit format of a float are the
  environment.
\<close>

section \<open>The event tracer\<close>

record tallies =
  tl_llm_tokens :: nat
  tl_tts_chunks :: nat
  tl_tts_bytes :: nat

definition tallies_new :: tallies where
  "tallies_new = \<lparr>tl_llm_tokens = 0, tl_tts_chunks = 0, tl_tts_bytes = 0\<rparr>"

definition ellipsis :: string where
  "ellipsis = [CHR 0xE2, CHR 0x80, CHR 0xA6]"

definition truncate_text :: "string \<Rightarrow> nat \<Rightarrow> string" where
  "truncate_text s most = (if length s \<le> most then s else take most s @ ellipsis)"

text \<open>The name, turn and fields of the line logged for an event, if any, and the new tallies.\<close>

fun trace_event :: "event \<Rightarrow> tallies \<Rightarrow> (string \<times> turn_id \<times> (string \<times> string) list) option \<times> tallies" where
  "trace_event (SpeechStarted t _) y = (Some (''speech_started'', t, []), y)"
| "trace_event (SpeechEnded t _) y = (Some (''speech_ended'', t, []), y)"
| "trace_event (PartialTranscript p) y =
     (Some (''partial_transcript'', pt_turn p,
        [(''seq'', dec_nat (unat (pt_seq p))), (''lang'', pt_lang p), (''text'', truncate_text (pt_text p) 200)]), y)"
| "trace_event (FinalTranscript f) y =
     (Some (''final_transcript'', ft_turn f,
        [(''lang'', ft_lang f), (''audio_duration_ms'', dec_int (ft_audio_duration f)),
         (''processing_duration_ms'', dec_int (ft_processing_duration f)), (''text'', ft_text f)]), y)"
| "trace_event (LlmStarted t) y = (Some (''llm_started'', t, []), y\<lparr>tl_llm_tokens := 0\<rparr>)"
| "trace_event (LlmToken _ _) y = (None, y\<lparr>tl_llm_tokens := tl_llm_tokens y + 1\<rparr>)"
| "trace_event (LlmSentence x) y =
     (Some (''llm_sentence'', ls_turn x,
        [(''seq'', dec_nat (unat (ls_seq x))), (''lang'', ls_lang x), (''text'', ls_text x)]), y)"
| "trace_event (LlmFinished t c _) y =
     (Some (''llm_finished'', t,
        [(''tokens'', dec_nat (tl_llm_tokens y)), (''cancelled'', if c then ''true'' else ''false'')]), y)"
| "trace_event (TtsStarted t s) y = (Some (''tts_started'', t, [(''seq'', dec_nat (unat s))]), y)"
| "trace_event (TtsAudioChunk _ _ bytes) y =
     (None, y\<lparr>tl_tts_chunks := tl_tts_chunks y + 1, tl_tts_bytes := tl_tts_bytes y + bytes\<rparr>)"
| "trace_event (TtsFinished t s) y =
     (Some (''tts_finished'', t,
        [(''seq'', dec_nat (unat s)), (''chunks'', dec_nat (tl_tts_chunks y)), (''bytes'', dec_nat (tl_tts_bytes y))]),
      y\<lparr>tl_tts_chunks := 0, tl_tts_bytes := 0\<rparr>)"
| "trace_event (PlaybackStarted t s) y = (Some (''playback_started'', t, [(''seq'', dec_nat (unat s))]), y)"
| "trace_event (PlaybackFinished t s) y = (Some (''playback_finished'', t, [(''seq'', dec_nat (unat s))]), y)"
| "trace_event (UserInterrupted t _) y = (Some (''user_interrupted'', t, []), y)"
| "trace_event (CancelGeneration t) y = (Some (''cancel_generation'', t, []), y)"
| "trace_event _ y = (None, y)"

text \<open>The lines written for a sequence of events, each with its time stamp.\<close>

fun trace_lines :: "(string \<times> event) list \<Rightarrow> tallies \<Rightarrow> string list" where
  "trace_lines [] y = []"
| "trace_lines ((ts, e) # es) y =
     (case trace_event e y of
        (None, y') \<Rightarrow> trace_lines es y'
      | (Some (name, t, kv), y') \<Rightarrow> sink_line ts LvInfo (event_payload ''trace'' name t kv) # trace_lines es y')"

text \<open>The records read back from such lines.\<close>

fun trace_records :: "(string \<times> event) list \<Rightarrow> tallies \<Rightarrow> (string \<times> json_value) list list" where
  "trace_records [] y = []"
| "trace_records ((ts, e) # es) y =
     (case trace_event e y of
        (None, y') \<Rightarrow> trace_records es y'
      | (Some (name, t, kv), y') \<Rightarrow> (head_fields ts LvInfo @ event_fields ''trace'' name t kv) # trace_records es y')"

lemma trace_read:
  "list_all (\<lambda>(ts, _). plain_text ts) es \<Longrightarrow>
   map (\<lambda>line. json_object (butlast line)) (trace_lines es y) = map Some (trace_records es y)"
proof (induction es arbitrary: y)
  case (Cons x es)
  obtain ts e where x: "x = (ts, e)" by (cases x)
  obtain o' y' where te: "trace_event e y = (o', y')" by (cases "trace_event e y")
  have "CHR '']'' \<notin> set ''trace''" by simp
  with Cons show ?case by (cases o') (auto simp: x te log_line_read)
qed simp



text \<open>The tallies of a sentence whose end is never announced are added to those of the next one.\<close>

lemma trace_tallies_carry_over:
  "fst (trace_event (TtsFinished 1 1) (snd (trace_event (TtsAudioChunk 1 1 8) (snd (trace_event (TtsStarted 1 1)
     (snd (trace_event (TtsAudioChunk 1 0 100) (snd (trace_event (TtsStarted 1 0) tallies_new))))))))) =
   Some (''tts_finished'', 1, [(''seq'', dec_nat 1), (''chunks'', dec_nat 2), (''bytes'', dec_nat 108)])"
  by (simp add: tallies_new_def numeral_2_eq_2)

section \<open>The status report\<close>

definition raw_pair :: "string \<Rightarrow> string \<Rightarrow> string" where
  "raw_pair k v = q @ k @ q @ '':'' @ v"

definition text_pair :: "string \<Rightarrow> string \<Rightarrow> string" where
  "text_pair k v = raw_pair k (q @ v @ q)"

fun commas :: "string list \<Rightarrow> string" where
  "commas [] = []"
| "commas [x] = x"
| "commas (x # xs) = x @ '','' @ commas xs"

definition fsm_status :: "fsm_snapshot \<Rightarrow> string" where
  "fsm_status snap = commas
     [text_pair ''state'' (fsm_state_to_string (snap_state snap)),
      raw_pair ''active_turn'' (dec_nat (unat (snap_active_turn snap))),
      text_pair ''outcome'' (turn_outcome_to_string (snap_outcome snap)),
      raw_pair ''sentences_played'' (dec_nat (unat (snap_sentences_played snap))),
      raw_pair ''turns_completed'' (dec_nat (unat (snap_turns_completed snap))),
      raw_pair ''turns_interrupted'' (dec_nat (unat (snap_turns_interrupted snap))),
      raw_pair ''turns_discarded'' (dec_nat (unat (snap_turns_discarded snap)))]"

text \<open>\<open>extra\<close>: no supplier, one that throws, or its fragment.\<close>

datatype extra = NoExtra | ExtraThrows | Fragment string

definition serialize_status :: "fsm_snapshot option \<Rightarrow> extra \<Rightarrow> string" where
  "serialize_status fsm x =
     (let body = (case fsm of None \<Rightarrow> text_pair ''state'' ''unknown'' | Some snap \<Rightarrow> fsm_status snap);
          body1 = (case x of Fragment frag \<Rightarrow> if frag \<noteq> [] then body @ '','' @ frag else body | _ \<Rightarrow> body)
      in ''{'' @ body1 @ ''}'' @ [CHR 0x0A])"

record service_line =
  svl_name :: string
  svl_state :: service_state
  svl_last_ok_at :: time_point
  svl_consecutive_failures :: nat
  svl_total_probes :: nat
  svl_total_failures :: nat
  svl_last_http_status :: int

record apm_line =
  apl_active :: bool
  apl_delay_ms :: int
  apl_erle :: cfloat
  apl_frames :: nat

definition last_ok_ms_ago :: "time_point \<Rightarrow> service_line \<Rightarrow> int" where
  "last_ok_ms_ago now s = (if svl_last_ok_at s = 0 then - 1 else to_millis (now - svl_last_ok_at s))"

definition service_status :: "time_point \<Rightarrow> service_line \<Rightarrow> string" where
  "service_status now s =
     ''{'' @ commas
       [text_pair ''name'' (svl_name s), text_pair ''state'' (service_state_to_string (svl_state s)),
        raw_pair ''last_ok_ms_ago'' (dec_int (last_ok_ms_ago now s)),
        raw_pair ''consecutive_failures'' (dec_nat (svl_consecutive_failures s)),
        raw_pair ''total_probes'' (dec_nat (svl_total_probes s)),
        raw_pair ''total_failures'' (dec_nat (svl_total_failures s)),
        raw_pair ''last_http_status'' (dec_int (svl_last_http_status s))] @ ''}''"

definition apm_status :: "(cfloat \<Rightarrow> string) \<Rightarrow> apm_line \<Rightarrow> string" where
  "apm_status fmt2 a =
     '','' @ raw_pair ''apm'' (''{'' @ commas
       [raw_pair ''active'' (if apl_active a then ''true'' else ''false''),
        raw_pair ''delay_ms'' (dec_int (apl_delay_ms a)),
        raw_pair ''erle_db'' (if apl_erle a = NaN then ''null'' else fmt2 (apl_erle a)),
        raw_pair ''frames_processed'' (dec_nat (apl_frames a))] @ ''}'')"

definition status_extra :: "(cfloat \<Rightarrow> string) \<Rightarrow> time_point \<Rightarrow> pipeline_state \<Rightarrow> service_line list \<Rightarrow> apm_line option \<Rightarrow> string" where
  "status_extra fmt2 now p svcs apm =
     text_pair ''pipeline_state'' (pipeline_state_to_string p) @ '','' @
     raw_pair ''services'' (''['' @ commas (map (service_status now) svcs) @ '']'') @
     (case apm of None \<Rightarrow> [] | Some a \<Rightarrow> apm_status fmt2 a)"

text \<open>The report read back: the dialogue part alone, without a fragment.\<close>

definition fsm_fields :: "fsm_snapshot \<Rightarrow> (string \<times> json_value) list" where
  "fsm_fields snap =
     [(''state'', JStr (fsm_state_to_string (snap_state snap))),
      (''active_turn'', JRaw (dec_nat (unat (snap_active_turn snap)))),
      (''outcome'', JStr (turn_outcome_to_string (snap_outcome snap))),
      (''sentences_played'', JRaw (dec_nat (unat (snap_sentences_played snap)))),
      (''turns_completed'', JRaw (dec_nat (unat (snap_turns_completed snap)))),
      (''turns_interrupted'', JRaw (dec_nat (unat (snap_turns_interrupted snap)))),
      (''turns_discarded'', JRaw (dec_nat (unat (snap_turns_discarded snap))))]"

lemma plain_states: "plain_text (fsm_state_to_string st)" "plain_text (turn_outcome_to_string out)"
  by (cases st; simp add: plain_text_def) (cases out; simp add: plain_text_def)

lemma status_keys: "plain_text ''state''" "plain_text ''active_turn''" "plain_text ''outcome''" "plain_text ''sentences_played''"
  "plain_text ''turns_completed''" "plain_text ''turns_interrupted''" "plain_text ''turns_discarded''"
  by (simp_all add: plain_text_def)

lemma fsm_status_written: "fsm_status snap = json_write_members log_escape_char (fsm_fields snap)"
  by (simp add: fsm_status_def fsm_fields_def text_pair_def raw_pair_def json_write_value_def plain_lit plain_states status_keys)

lemma status_read:
  "x = NoExtra \<or> x = ExtraThrows \<or> x = Fragment [] \<Longrightarrow>
   json_object (butlast (serialize_status (Some snap) x)) = Some (fsm_fields snap)"
proof -
  assume x: "x = NoExtra \<or> x = ExtraThrows \<or> x = Fragment []"
  have "serialize_status (Some snap) x = ''{'' @ json_write_members log_escape_char (fsm_fields snap) @ ''}'' @ [CHR 0x0A]"
    using x by (auto simp: serialize_status_def fsm_status_written)
  from read_line[OF _ _ this] show ?thesis by (simp add: fsm_fields_def dec_nat_raw)
qed

end
