(* ===== verification/System_Aec.thy ===== *)
theory System_Aec
  imports Text_Format Config
begin

text \<open>
  The system echo canceller, \<open>src/orchestrator/system_aec.cpp\<close>: reading the module list of the sound
  server, adopting or loading its echo-cancel module, and unloading it. The commands run through
  the shell are the environment: each is answered with its output and whether it succeeded.
\<close>

section \<open>Reading the module list\<close>

text \<open>\<open>find_first_of\<close> from a position on.\<close>

fun first_of :: "char list \<Rightarrow> string \<Rightarrow> nat option" where
  "first_of set_cs [] = None"
| "first_of set_cs (c # s) = (if c \<in> set set_cs then Some 0 else map_option Suc (first_of set_cs s))"

definition first_of_from :: "char list \<Rightarrow> nat \<Rightarrow> string \<Rightarrow> nat option" where
  "first_of_from cs n s = map_option (\<lambda>k. n + k) (first_of cs (drop n s))"

definition blank_tab :: "char list" where
  "blank_tab = [CHR '' '', CHR 0x09]"

definition extract_kv :: "string \<Rightarrow> string \<Rightarrow> string" where
  "extract_kv args key =
     (case find_text key args of
        None \<Rightarrow> []
      | Some p \<Rightarrow>
          (let pos = p + length key
           in case first_of_from (blank_tab @ [CHR 0x0A]) pos args of
               None \<Rightarrow> drop pos args
             | Some e \<Rightarrow> take (e - pos) (drop pos args)))"

record echo_cancel_module =
  ec_id :: string
  ec_source_name :: string
  ec_sink_name :: string

definition all_digits :: "string \<Rightarrow> bool" where
  "all_digits s = list_all (\<lambda>c. 48 \<le> (of_char c :: nat) \<and> (of_char c :: nat) \<le> 57) s"

definition kModuleName :: string where
  "kModuleName = ''module-echo-cancel''"

definition parse_echo_cancel_module_line :: "string \<Rightarrow> echo_cancel_module option" where
  "parse_echo_cancel_module_line line =
     (case find_text kModuleName line of
        None \<Rightarrow> None
      | Some name_pos \<Rightarrow>
          (case first_of blank_tab line of
             None \<Rightarrow> None
           | Some first_ws \<Rightarrow>
               (if first_ws = 0 then None
                else if \<not> all_digits (take first_ws line) then None
                else
                  (let args = (case first_of_from blank_tab (name_pos + length kModuleName) line of
                                 None \<Rightarrow> [] | Some a \<Rightarrow> drop a line)
                   in Some \<lparr>ec_id = take first_ws line, ec_source_name = extract_kv args ''source_name='',
                            ec_sink_name = extract_kv args ''sink_name=''\<rparr>))))"

text \<open>The loop over the output: a line ends at each line feed, and the tail is tried as one.\<close>

fun scan_lines :: "string \<Rightarrow> string \<Rightarrow> echo_cancel_module option" where
  "scan_lines line [] = parse_echo_cancel_module_line line"
| "scan_lines line (c # out) =
     (if c = CHR 0x0A
      then case parse_echo_cancel_module_line line of Some m \<Rightarrow> Some m | None \<Rightarrow> scan_lines [] out
      else scan_lines (line @ [c]) out)"

definition find_existing_echo_cancel :: "bool \<times> string \<Rightarrow> echo_cancel_module option" where
  "find_existing_echo_cancel listing = (if fst listing then scan_lines [] (snd listing) else None)"

definition is_space_char :: "char \<Rightarrow> bool" where
  "is_space_char c \<longleftrightarrow> c \<in> {CHR '' '', CHR 0x09, CHR 0x0A, CHR 0x0D}"

definition trim_text :: "string \<Rightarrow> string" where
  "trim_text s = rev (dropWhile is_space_char (rev (dropWhile is_space_char s)))"

definition load_module :: "bool \<times> string \<Rightarrow> string" where
  "load_module reply =
     (let out = trim_text (snd reply)
      in if \<not> fst reply \<or> out = [] then [] else if \<not> all_digits out then [] else out)"

section \<open>Construction and destruction\<close>

text \<open>What the object does to the outside: shell commands and environment variables.\<close>

datatype aec_effect = ListModules | LoadModule | UnloadModule string | SetEnv string string

record system_aec =
  sa_module_id :: string
  sa_source_name :: string
  sa_sink_name :: string
  sa_owned :: bool
  sa_active :: bool
  sa_failed :: bool   \<comment> \<open>\<open>startup_error_\<close> is set\<close>

definition sa_empty :: system_aec where
  "sa_empty = \<lparr>sa_module_id = [], sa_source_name = [], sa_sink_name = [], sa_owned = False, sa_active = False, sa_failed = False\<rparr>"

definition kAcvaSource :: string where
  "kAcvaSource = ''acva-echo-source''"

definition kAcvaSink :: string where
  "kAcvaSink = ''acva-echo-sink''"

definition sa_activate :: "system_aec \<Rightarrow> aec_effect list \<Rightarrow> system_aec \<times> aec_effect list" where
  "sa_activate s es =
     (s\<lparr>sa_active := True\<rparr>, es @ [SetEnv ''PULSE_SINK'' (sa_sink_name s), SetEnv ''PULSE_SOURCE'' (sa_source_name s)])"

text \<open>The constructor, with the replies of the two commands it may run.\<close>

definition system_aec_new :: "bool \<Rightarrow> bool \<times> string \<Rightarrow> bool \<times> string \<Rightarrow> system_aec \<times> aec_effect list" where
  "system_aec_new use_system_aec listing load_reply =
     (if \<not> use_system_aec then (sa_empty, [])
      else case find_existing_echo_cancel listing of
          Some m \<Rightarrow>
            (if ec_source_name m = [] \<or> ec_sink_name m = [] then (sa_empty\<lparr>sa_failed := True\<rparr>, [ListModules])
             else sa_activate
               (sa_empty\<lparr>sa_module_id := ec_id m, sa_source_name := ec_source_name m, sa_sink_name := ec_sink_name m,
                 sa_owned := (ec_source_name m = kAcvaSource \<and> ec_sink_name m = kAcvaSink)\<rparr>) [ListModules])
        | None \<Rightarrow>
            (let i = load_module load_reply
             in if i = [] then (sa_empty\<lparr>sa_failed := True\<rparr>, [ListModules, LoadModule])
                else sa_activate
                  (sa_empty\<lparr>sa_module_id := i, sa_owned := True, sa_source_name := kAcvaSource, sa_sink_name := kAcvaSink\<rparr>)
                  [ListModules, LoadModule]))"

definition system_aec_delete :: "system_aec \<Rightarrow> aec_effect list" where
  "system_aec_delete s =
     (if \<not> sa_owned s then [] else if sa_module_id s = [] then [] else [UnloadModule (sa_module_id s)])"

section \<open>Properties\<close>

lemma parsed_id:
  assumes "parse_echo_cancel_module_line line = Some m"
  shows "ec_id m \<noteq> [] \<and> all_digits (ec_id m)"
proof -
  obtain w where w: "first_of blank_tab line = Some w" "w \<noteq> 0" "all_digits (take w line)" "ec_id m = take w line"
    using assms by (auto simp: parse_echo_cancel_module_line_def Let_def split: option.splits if_splits)
  from w(1,2) have "line \<noteq> []" by (cases line) auto
  with w show ?thesis by simp
qed

lemma scan_result: "scan_lines line out = Some m \<Longrightarrow> \<exists>l. parse_echo_cancel_module_line l = Some m"
  by (induction line out rule: scan_lines.induct) (auto split: if_splits option.splits)

lemma loaded_id: "load_module reply \<noteq> [] \<Longrightarrow> all_digits (load_module reply)"
  by (auto simp: load_module_def Let_def split: if_splits)

text \<open>A line as the sound server prints it is read back.\<close>

lemma first_of_skip: "(\<And>c. c \<in> set s \<Longrightarrow> c \<notin> set cs) \<Longrightarrow> d \<in> set cs \<Longrightarrow> first_of cs (s @ d # t) = Some (length s)"
  by (induction s) auto

lemma first_of_none: "(\<And>c. c \<in> set s \<Longrightarrow> c \<notin> set cs) \<Longrightarrow> first_of cs s = None"
  by (induction s) auto

lemma find_text_here: "find_text p (p @ s) = Some 0"
  by (cases "p @ s"; cases p) auto

lemma find_text_skip:
  assumes "p \<noteq> []" and "\<And>c. c \<in> set u \<Longrightarrow> c \<noteq> hd p"
  shows "find_text p (u @ s) = map_option (\<lambda>k. length u + k) (find_text p s)"
  using assms(2)
proof (induction u)
  case Nil
  then show ?case by (cases "find_text p s") auto
next
  case (Cons c u)
  have "take (length p) ((c # u) @ s) \<noteq> p" using Cons.prems[of c] assms(1) by (cases p) auto
  with Cons show ?case by (cases "find_text p s") auto
qed


definition demo_listing :: string where
  "demo_listing = ''7'' @ [CHR 0x09] @ ''module-x'' @ [CHR 0x0A] @
     ''12'' @ [CHR 0x09] @ ''module-echo-cancel'' @ [CHR 0x09] @ ''source_name=mic sink_name=out'' @ [CHR 0x0A]"

lemma demo_module: "find_existing_echo_cancel (True, demo_listing) = Some \<lparr>ec_id = ''12'', ec_source_name = ''mic'', ec_sink_name = ''out''\<rparr>"
  by code_simp


text \<open>The name is looked for anywhere in the line, so another module that mentions it is taken for it.\<close>

lemma other_module_taken:
  "parse_echo_cancel_module_line (''9'' @ [CHR 0x09] @ ''module-x'' @ [CHR 0x09] @ ''next=module-echo-cancel source_name=a sink_name=b'') =
     Some \<lparr>ec_id = ''9'', ec_source_name = ''a'', ec_sink_name = ''b''\<rparr>"
  by code_simp

end
