(* ===== verification/Startup.thy ===== *)
theory Startup
  imports Log_Setup System_Aec
begin

text \<open>
  From the command line to the running program: \<open>src/cli/args.cpp\<close>, \<open>src/config/paths.cpp\<close>,
  \<open>src/orchestrator/bootstrap.cpp\<close> and the first part of \<open>main\<close> in \<open>src/main.cpp\<close>, up to the point
  where the threads are built. The environment variables, the file system, the YAML reader and the
  sound server's replies are arguments.
\<close>

section \<open>The command line\<close>

record cli_args =
  ca_config_path :: string
  ca_show_help :: bool
  ca_stdin_mode :: bool
  ca_stdin_lang :: string
  ca_demo :: string
  ca_demo_args :: "string list"

definition cli_default :: cli_args where
  "cli_default = \<lparr>ca_config_path = [], ca_show_help = False, ca_stdin_mode = False, ca_stdin_lang = [], ca_demo = [], ca_demo_args = []\<rparr>"

definition starts_with :: "string \<Rightarrow> string \<Rightarrow> bool" where
  "starts_with p s \<longleftrightarrow> take (length p) s = p"

text \<open>\<open>None\<close> is the exit on an unknown argument; the program's name is not in the list.\<close>

fun parse_args :: "cli_args \<Rightarrow> string list \<Rightarrow> cli_args option" where
  "parse_args args [] = Some args"
| "parse_args args (a # rest) =
     (if a = ''-h'' \<or> a = ''--help'' then parse_args (args\<lparr>ca_show_help := True\<rparr>) rest
      else if a = ''--stdin'' then parse_args (args\<lparr>ca_stdin_mode := True\<rparr>) rest
      else if a = ''--stdin-lang'' \<and> rest \<noteq> [] then parse_args (args\<lparr>ca_stdin_lang := hd rest\<rparr>) (List.tl rest)
      else if starts_with ''--stdin-lang='' a then parse_args (args\<lparr>ca_stdin_lang := drop (length ''--stdin-lang='') a\<rparr>) rest
      else if a = ''--config'' \<and> rest \<noteq> [] then parse_args (args\<lparr>ca_config_path := hd rest\<rparr>) (List.tl rest)
      else if starts_with ''--config='' a then parse_args (args\<lparr>ca_config_path := drop (length ''--config='') a\<rparr>) rest
      else if a = ''demo'' then
        (if rest \<noteq> [] \<and> \<not> starts_with ''-'' (hd rest)
         then Some (args\<lparr>ca_demo := hd rest, ca_demo_args := List.tl rest\<rparr>)
         else Some (args\<lparr>ca_demo := ''list'', ca_demo_args := rest\<rparr>))
      else None)"

text \<open>An empty demo name is taken as given, and the program then starts as if none had been asked for.\<close>

lemma empty_demo_name: "parse_args cli_default [''demo'', []] = Some cli_default"
  by (simp add: cli_default_def starts_with_def)

section \<open>Paths\<close>

type_synonym environ = "string \<Rightarrow> string option"

definition getenv_path :: "environ \<Rightarrow> string \<Rightarrow> string" where
  "getenv_path env name = (case env name of None \<Rightarrow> [] | Some v \<Rightarrow> v)"

definition xdg_data_home :: "environ \<Rightarrow> string" where
  "xdg_data_home env =
     (let x = getenv_path env ''XDG_DATA_HOME''; h = getenv_path env ''HOME''
      in if x \<noteq> [] then x else if h = [] then [] else path_join (path_join h ''.local'') ''share'')"

definition xdg_config_home :: "environ \<Rightarrow> string" where
  "xdg_config_home env =
     (let x = getenv_path env ''XDG_CONFIG_HOME''; h = getenv_path env ''HOME''
      in if x \<noteq> [] then x else if h = [] then [] else path_join h ''.config'')"

definition resolve_data_path :: "environ \<Rightarrow> string \<Rightarrow> string \<Rightarrow> string" where
  "resolve_data_path env input default_filename =
     (let root = xdg_data_home env
      in if input = [] then (if root = [] then default_filename else path_join (path_join root ''acva'') default_filename)
         else if is_absolute input then input
         else if root = [] then input else path_join (path_join root ''acva'') input)"

text \<open>The candidates in a message, with a separator between them.\<close>

fun separated_by :: "string \<Rightarrow> string list \<Rightarrow> string list" where
  "separated_by sep [] = []"
| "separated_by sep [x] = [x]"
| "separated_by sep (x # xs) = x # sep # separated_by sep xs"

definition config_candidates :: "environ \<Rightarrow> string list" where
  "config_candidates env =
     (let ch = xdg_config_home env
      in [if ch = [] then [] else path_join (path_join ch ''acva'') ''default.yaml'',
          path_join ''config'' ''default.yaml'', ''/etc/acva/default.yaml''])"

text \<open>\<open>present p\<close>: the file exists and asking for it reports no error.\<close>

definition resolve_config_path :: "environ \<Rightarrow> (string \<Rightarrow> bool) \<Rightarrow> string \<Rightarrow> string + string" where
  "resolve_config_path env present cli =
     (if cli \<noteq> [] then Inr cli
      else let tried = filter (\<lambda>c. c \<noteq> []) (config_candidates env)
           in case find present tried of
               Some c \<Rightarrow> Inr c
             | None \<Rightarrow> Inl (''config: no config file found; tried '' @ concat (separated_by '', '' tried) @
                 '' '' @ em_dash @ '' pass --config PATH or place a default.yaml in one of those locations''))"

text \<open>The first candidate that is there wins, and an explicit path wins over all of them.\<close>

lemma config_path_found:
  assumes "resolve_config_path env present [] = Inr p"
  shows "p \<in> set (config_candidates env) \<and> p \<noteq> [] \<and> present p \<and>
    (\<forall>c \<in> set (takeWhile (\<lambda>c. c \<noteq> p) (config_candidates env)). c \<noteq> [] \<longrightarrow> \<not> present c)"
proof -
  obtain a b d where c: "config_candidates env = [a, b, d]" by (simp add: config_candidates_def Let_def)
  show ?thesis
    using assms by (auto simp: resolve_config_path_def c Let_def split: if_splits option.splits)
qed

lemma data_path_absolute_or_local:
  "input \<noteq> [] \<Longrightarrow> is_absolute input \<Longrightarrow> resolve_data_path env input d = input"
  by (simp add: resolve_data_path_def Let_def)

section \<open>Loading and resolving the configuration\<close>

record file_env =
  fe_environ :: environ
  fe_present :: "string \<Rightarrow> bool"
  fe_content :: "string \<Rightarrow> string option"
  fe_logs :: file_system

definition resolve_vad_path :: "file_env \<Rightarrow> vad_config \<Rightarrow> vad_config" where
  "resolve_vad_path fe v =
     (if cvad_model_path v = []
      then let resolved = resolve_data_path (fe_environ fe) [] ''models/silero/silero_vad.onnx''
           in if fe_present fe resolved then v\<lparr>cvad_model_path := resolved\<rparr> else v
      else v\<lparr>cvad_model_path := resolve_data_path (fe_environ fe) (cvad_model_path v) ''silero/silero_vad.onnx''\<rparr>)"

definition post_process :: "file_env \<Rightarrow> bool \<Rightarrow> config \<Rightarrow> config" where
  "post_process fe stdin_mode c =
     (let c1 = (if stdin_mode then c\<lparr>cfg_pipeline := (cfg_pipeline c)\<lparr>cpip_fake_driver_enabled := False\<rparr>\<rparr> else c);
          c2 = c1\<lparr>cfg_memory := (cfg_memory c1)\<lparr>cmem_db_path := resolve_data_path (fe_environ fe) (cmem_db_path (cfg_memory c1)) ''acva.db''\<rparr>\<rparr>
      in c2\<lparr>cfg_vad := resolve_vad_path fe (cfg_vad c2)\<rparr>)"

definition load_and_resolve_config ::
  "(string \<Rightarrow> config \<Rightarrow> string + config) \<Rightarrow> file_env \<Rightarrow> string \<Rightarrow> bool \<Rightarrow> string + config \<times> string" where
  "load_and_resolve_config rd fe cli stdin_mode =
     (case resolve_config_path (fe_environ fe) (fe_present fe) cli of
        Inl m \<Rightarrow> Inl m
      | Inr path \<Rightarrow>
          (case load_from_file rd (fe_content fe) path of
             Inl m \<Rightarrow> Inl m
           | Inr c \<Rightarrow> Inr (post_process fe stdin_mode c, path)))"

section \<open>The start of the program\<close>

definition stdin_lang_errors :: "cli_args \<Rightarrow> config \<Rightarrow> string list" where
  "stdin_lang_errors args c =
     (if ca_stdin_mode args \<and> ca_stdin_lang args \<noteq> [] then
        (if cdia_system_prompts (cfg_dialogue c) \<noteq> [] \<and> \<not> smap_has (ca_stdin_lang args) (cdia_system_prompts (cfg_dialogue c))
         then [''dialogue.system_prompts has no entry for '' @ apos @ ca_stdin_lang args @ apos] else []) @
        (if ctts_voices (cfg_tts c) \<noteq> [] \<and> \<not> smap_has (ca_stdin_lang args) (ctts_voices (cfg_tts c))
         then [''tts.voices has no entry for '' @ apos @ ca_stdin_lang args @ apos] else [])
      else [])"

text \<open>The language stamped on the lines typed in.\<close>

definition stdin_language :: "cli_args \<Rightarrow> config \<Rightarrow> string" where
  "stdin_language args c = (if ca_stdin_lang args = [] then cdia_fallback_language (cfg_dialogue c) else ca_stdin_lang args)"

text \<open>
  The way the start ends: an exit with its success, an exception that leaves \<open>main\<close>, a demo, or the
  running program with its configuration and its canceller.
\<close>

datatype start_result = Exits bool | Dies string | RunsDemo string config | Runs config system_aec

record start_env =
  se_files :: file_env
  se_read_yaml :: "string \<Rightarrow> config \<Rightarrow> string + config"
  se_log_name :: string
  se_modules :: "bool \<times> string"
  se_loaded_module :: "bool \<times> string"
  se_demos :: "string list"
  se_memory_opens :: "string \<Rightarrow> bool"
  se_recovery_ok :: bool
  se_control_binds :: bool
  se_session_ok :: bool

text \<open>
  The part behind the canceller; leaving it by a return destroys the canceller. A demo name ends the
  start there. Otherwise the memory is opened and swept, then the control server binds its port, and
  with a language model configured a session is inserted.
\<close>

definition start_demo :: "start_env \<Rightarrow> cli_args \<Rightarrow> config \<Rightarrow> start_result option" where
  "start_demo se args c =
     (if ca_demo args = [] then None
      else if ca_demo args = ''list'' then Some (Exits True)
      else if ca_demo args \<notin> set (se_demos se) then Some (Exits False)
      else Some (RunsDemo (ca_demo args) c))"

definition start_memory :: "start_env \<Rightarrow> config \<Rightarrow> bool" where
  "start_memory se c \<longleftrightarrow> se_memory_opens se (cmem_db_path (cfg_memory c)) \<and> se_recovery_ok se"

definition start_session :: "start_env \<Rightarrow> config \<Rightarrow> bool" where
  "start_session se c \<longleftrightarrow> cllm_base_url (cfg_llm c) = [] \<or> se_session_ok se"

definition start_runtime :: "start_env \<Rightarrow> cli_args \<Rightarrow> config \<Rightarrow> system_aec \<Rightarrow> start_result" where
  "start_runtime se args c aec =
     (case start_demo se args c of
        Some res \<Rightarrow> res
      | None \<Rightarrow>
          (if start_memory se c \<and> se_control_binds se \<and> start_session se c then Runs c aec else Exits False))"

lemmas start_runtime_defs = start_runtime_def start_demo_def start_memory_def start_session_def

definition main_start :: "start_env \<Rightarrow> string list \<Rightarrow> start_result \<times> aec_effect list" where
  "main_start se argv =
     (case parse_args cli_default argv of
        None \<Rightarrow> (Exits False, [])
      | Some args \<Rightarrow>
          (if ca_show_help args then (Exits True, [])
           else case load_and_resolve_config (se_read_yaml se) (se_files se) (ca_config_path args) (ca_stdin_mode args) of
               Inl m \<Rightarrow> (Exits False, [])
             | Inr (c, path) \<Rightarrow>
                 (case log_init (fe_logs (se_files se)) (se_log_name se) (cfg_logging c) of
                    Inl m \<Rightarrow> (Dies m, [])
                  | Inr g \<Rightarrow>
                      (if stdin_lang_errors args c \<noteq> [] then (Exits False, [])
                       else case system_aec_new (capm_use_system_aec (cfg_apm c)) (se_modules se) (se_loaded_module se) of
                           (aec, es) \<Rightarrow>
                             (if sa_failed aec then (Exits False, es @ system_aec_delete aec)
                              else let res = start_runtime se args c aec
                                   in (res, es @ (case res of Runs _ _ \<Rightarrow> [] | _ \<Rightarrow> system_aec_delete aec)))))))"

section \<open>What a started program can rely on\<close>

text \<open>The validation looks at nothing that is resolved after it.\<close>

lemma validate_cong:
  assumes "cfg_logging d = cfg_logging c" "cfg_control d = cfg_control c" "cfg_llm d = cfg_llm c" "cfg_stt d = cfg_stt c"
    "cfg_tts d = cfg_tts c" "cfg_supervisor d = cfg_supervisor c" "cfg_dialogue d = cfg_dialogue c" "cfg_audio d = cfg_audio c"
    "cfg_utterance d = cfg_utterance c" "cfg_apm d = cfg_apm c" "cfg_barge_in d = cfg_barge_in c"
    "cfg_personalities d = cfg_personalities c" "cfg_active_personality d = cfg_active_personality c"
    "cmem_recent_turns_n (cfg_memory d) = cmem_recent_turns_n (cfg_memory c)"
    "cmem_summary (cfg_memory d) = cmem_summary (cfg_memory c)" "cmem_facts (cfg_memory d) = cmem_facts (cfg_memory c)"
    "cpip_fake_sentences_per_turn (cfg_pipeline d) = cpip_fake_sentences_per_turn (cfg_pipeline c)"
    "cpip_fake_barge_in_probability (cfg_pipeline d) = cpip_fake_barge_in_probability (cfg_pipeline c)"
    "cvad_onset_threshold (cfg_vad d) = cvad_onset_threshold (cfg_vad c)"
    "cvad_offset_threshold (cfg_vad d) = cvad_offset_threshold (cfg_vad c)"
    "cvad_min_speech_ms (cfg_vad d) = cvad_min_speech_ms (cfg_vad c)" "cvad_hangover_ms (cfg_vad d) = cvad_hangover_ms (cfg_vad c)"
  shows "validate d = validate c"
  unfolding validate_def logging_checks_def llm_checks_def memory_checks_def service_checks_def stt_checks_def
    tts_checks_def audio_checks_def barge_in_checks_def Let_def assms by (rule refl)

lemma validate_post_process: "validate (post_process fe b c) = validate c"
  by (rule validate_cong) (simp_all add: post_process_def resolve_vad_path_def Let_def)

lemma loaded_valid:
  "load_and_resolve_config rd fe cli b = Inr (c, path) \<Longrightarrow> validate c = None"
  by (auto simp: load_and_resolve_config_def load_from_file_def load_from_string_def validate_post_process Let_def
      split: sum.splits option.splits)

lemma path_join_nonempty: "f \<noteq> [] \<Longrightarrow> path_join d f \<noteq> []"
  by (simp add: path_join_def)

lemma data_path_nonempty: "d \<noteq> [] \<Longrightarrow> resolve_data_path env input d \<noteq> []"
  by (auto simp: resolve_data_path_def Let_def path_join_nonempty)

lemma loaded_db_path:
  "load_and_resolve_config rd fe cli b = Inr (c, path) \<Longrightarrow> cmem_db_path (cfg_memory c) \<noteq> []"
  by (auto simp: load_and_resolve_config_def post_process_def Let_def data_path_nonempty split: sum.splits)

lemma main_start_cases:
  assumes "main_start se argv = (res, es)"
  shows "(\<exists>b. res = Exits b) \<or> (\<exists>m. res = Dies m) \<or>
    (\<exists>args c path g aec es0. parse_args cli_default argv = Some args \<and>
       load_and_resolve_config (se_read_yaml se) (se_files se) (ca_config_path args) (ca_stdin_mode args) = Inr (c, path) \<and>
       log_init (fe_logs (se_files se)) (se_log_name se) (cfg_logging c) = Inr g \<and> stdin_lang_errors args c = [] \<and>
       system_aec_new (capm_use_system_aec (cfg_apm c)) (se_modules se) (se_loaded_module se) = (aec, es0) \<and> \<not> sa_failed aec \<and>
       res = start_runtime se args c aec \<and> es = es0 @ (case res of Runs _ _ \<Rightarrow> [] | _ \<Rightarrow> system_aec_delete aec))"
  using assms unfolding main_start_def Let_def
  by (auto split: option.splits sum.splits prod.splits if_splits)

lemma runs_same: "start_runtime se args c aec = Runs c' aec' \<Longrightarrow> c' = c \<and> aec' = aec \<and> ca_demo args = [] \<and>
    se_memory_opens se (cmem_db_path (cfg_memory c)) \<and> se_recovery_ok se \<and> se_control_binds se"
  by (auto simp: start_runtime_defs split: if_splits option.splits)

lemma aec_not_unloaded: "system_aec_new b ml lr = (aec, es) \<Longrightarrow> UnloadModule i \<notin> set es"
  by (auto simp: system_aec_new_def sa_activate_def Let_def split: if_splits option.splits)

lemma aec_active: "system_aec_new True ml lr = (aec, es) \<Longrightarrow> \<not> sa_failed aec \<Longrightarrow> sa_active aec"
  by (auto simp: system_aec_new_def sa_activate_def Let_def split: if_splits option.splits)

text \<open>
  C39. A program that runs is prepared. Whatever the command line, the environment and the files,
  when the start reaches the running program its configuration has passed the validation, the log
  has at least one sink, the memory's path is not empty and was opened and swept, a language given
  for typed input has a prompt and a voice wherever any are configured, the system echo
  canceller is in force if it was asked for, and nothing it loaded has been unloaded.
\<close>

theorem start_prepared:
  assumes "main_start se argv = (Runs c aec, es)"
  shows "validate c = None \<and>
    (\<exists>g. log_init (fe_logs (se_files se)) (se_log_name se) (cfg_logging c) = Inr g \<and> lg_sinks g \<noteq> []) \<and>
    cmem_db_path (cfg_memory c) \<noteq> [] \<and> se_memory_opens se (cmem_db_path (cfg_memory c)) \<and> se_recovery_ok se \<and>
    (\<exists>args. parse_args cli_default argv = Some args \<and> ca_demo args = [] \<and> stdin_lang_errors args c = []) \<and>
    (capm_use_system_aec (cfg_apm c) \<longrightarrow> sa_active aec) \<and> (\<forall>i. UnloadModule i \<notin> set es)"
proof -
  from main_start_cases[OF assms] obtain args c0 path g aec0 es0 where s:
    "parse_args cli_default argv = Some args"
    "load_and_resolve_config (se_read_yaml se) (se_files se) (ca_config_path args) (ca_stdin_mode args) = Inr (c0, path)"
    "log_init (fe_logs (se_files se)) (se_log_name se) (cfg_logging c0) = Inr g" "stdin_lang_errors args c0 = []"
    "system_aec_new (capm_use_system_aec (cfg_apm c0)) (se_modules se) (se_loaded_module se) = (aec0, es0)" "\<not> sa_failed aec0"
    "Runs c aec = start_runtime se args c0 aec0" "es = es0"
    by auto
  from runs_same[OF s(7)[symmetric]] have r: "c = c0" "aec = aec0" "ca_demo args = []"
    "se_memory_opens se (cmem_db_path (cfg_memory c0))" "se_recovery_ok se" by auto
  have "lg_sinks g \<noteq> []" using s(3) by (auto simp: log_init_def Let_def split: sum.splits option.splits)
  with s r loaded_valid[OF s(2)] loaded_db_path[OF s(2)] aec_not_unloaded[OF s(5)] aec_active show ?thesis
    by metis
qed

text \<open>A return after the canceller was set up, also from a demo, unloads the module that was loaded.\<close>

lemma early_exit_unloads:
  assumes "main_start se argv = (res, es)" and "LoadModule \<in> set es" and "load_module (se_loaded_module se) \<noteq> []"
    and "\<not> (\<exists>c aec. res = Runs c aec)"
  shows "UnloadModule (load_module (se_loaded_module se)) \<in> set es"
  using assms unfolding main_start_def Let_def
  by (auto simp: system_aec_new_def system_aec_delete_def sa_activate_def sa_empty_def Let_def
      split: option.splits sum.splits prod.splits if_splits start_result.splits)

definition demo_start :: start_env where
  "demo_start = \<lparr>se_files = \<lparr>fe_environ = \<lambda>_. None, fe_present = \<lambda>_. False, fe_content = \<lambda>_. Some [],
       fe_logs = \<lparr>fs_opens = \<lambda>_. True, fs_makes_dir = \<lambda>_. True\<rparr>\<rparr>, se_read_yaml = \<lambda>_ c. Inr c, se_log_name = ''l'',
     se_modules = (True, []), se_loaded_module = (True, ''1''), se_demos = [], se_memory_opens = \<lambda>_. True,
     se_recovery_ok = True, se_control_binds = True, se_session_ok = True\<rparr>"

theorem start_prepared_witness:
  "\<exists>c. main_start demo_start [''--config'', ''x''] = (Runs c sa_empty, []) \<and> validate c = None \<and>
     cmem_db_path (cfg_memory c) = ''acva.db''"
proof -
  define c where "c = post_process (se_files demo_start) False config_default"
  have sel: "cfg_logging c = logging_default" "cfg_apm c = apm_default" "cllm_base_url (cfg_llm c) = cllm_base_url llm_default"
    "cmem_db_path (cfg_memory c) = ''acva.db''"
    by (simp_all add: c_def post_process_def config_default_def memory_default_def demo_start_def resolve_data_path_def
        xdg_data_home_def getenv_path_def Let_def)
  have args: "parse_args cli_default [''--config'', ''x''] = Some (cli_default\<lparr>ca_config_path := ''x''\<rparr>)"
    by (simp add: starts_with_def)
  have load: "load_and_resolve_config (se_read_yaml demo_start) (se_files demo_start) ''x'' False = Inr (c, ''x'')"
    unfolding c_def by (simp add: load_and_resolve_config_def resolve_config_path_def load_from_file_def demo_start_def load_default)
  have log: "log_init (fe_logs (se_files demo_start)) (se_log_name demo_start) (cfg_logging c) = Inr \<lparr>lg_sinks = [LtStderr], lg_level = LvInfo\<rparr>"
    by (simp add: sel log_init_def logging_default_def parse_log_sink_def parse_level_def)
  have run: "main_start demo_start [''--config'', ''x''] = (Runs c sa_empty, [])"
    unfolding main_start_def args option.case cli_args.simps
    using load log
    by (simp add: cli_default_def stdin_lang_errors_def sel apm_default_def system_aec_new_def start_runtime_defs sa_empty_def)
      (simp add: demo_start_def)
  from start_prepared[OF this] run sel show ?thesis by blast
qed

section \<open>The VRAM monitor\<close>

text \<open>One round: the reading of used and free memory, negative when it failed.\<close>

definition vram_round :: "32 word \<Rightarrow> int \<times> int \<Rightarrow> bool \<Rightarrow> string list \<times> bool" where
  "vram_round threshold_mib v low =
     (if 0 \<le> fst v then
        (let now_low = snd v < int (unat threshold_mib)
         in if now_low \<and> \<not> low then ([''vram_low''], True)
            else if \<not> now_low \<and> low then ([''vram_recovered''], False)
            else ([], low))
      else ([], low))"

fun vram_rounds :: "32 word \<Rightarrow> (int \<times> int) list \<Rightarrow> bool \<Rightarrow> string list \<times> bool" where
  "vram_rounds th [] low = ([], low)"
| "vram_rounds th (v # vs) low =
     (case vram_round th v low of (es, low1) \<Rightarrow> case vram_rounds th vs low1 of (fs, low2) \<Rightarrow> (es @ fs, low2))"

text \<open>The whole thread: it ends at once when the first reading fails.\<close>

definition vram_monitor :: "32 word \<Rightarrow> 32 word \<Rightarrow> (int \<times> int) list \<Rightarrow> string list" where
  "vram_monitor interval_ms threshold_mib readings =
     (if interval_ms = 0 then []
      else case readings of
          [] \<Rightarrow> []
        | first # vs \<Rightarrow> (if fst first < 0 then [] else fst (vram_rounds threshold_mib vs False)))"

text \<open>The reports alternate, beginning with the low one: a steady state is silent.\<close>

fun alternates :: "bool \<Rightarrow> string list \<Rightarrow> bool \<Rightarrow> bool" where
  "alternates low [] low' = (low = low')"
| "alternates low (e # es) low' = (e = (if low then ''vram_recovered'' else ''vram_low'') \<and> alternates (\<not> low) es low')"

lemma vram_alternates: "vram_rounds th vs low = (es, low') \<Longrightarrow> alternates low es low'"
  by (induction th vs low arbitrary: es low' rule: vram_rounds.induct)
    (auto simp: vram_round_def Let_def split: prod.splits if_splits)

end
