(* ===== verification/Conversation.thy ===== *)
theory Conversation
  imports Manager Turn_Writer Barge_In Endpointer
begin

text \<open>
  The components of a conversation at work together: what the manager publishes of an answer, seen
  by the dialogue machine of \<open>src/dialogue/fsm.cpp\<close>, and the wiring of \<open>src/orchestrator\<close> that makes
  them agree: the manager asks the machine for the turn (\<open>dialogue_stack.cpp\<close>), the barge-in detector
  reads its snapshot, and its transitions open and shut the half-duplex gate (\<open>capture_stack.cpp\<close>).
\<close>

section \<open>The stream of one answer\<close>

definition stream_event :: "event \<Rightarrow> bool" where
  "stream_event e \<longleftrightarrow>
     (case e of LlmStarted t \<Rightarrow> True | LlmSentence s \<Rightarrow> True | LlmToken t x \<Rightarrow> True | LlmFinished t c n \<Rightarrow> True
      | _ \<Rightarrow> False)"

lemma stream_step_None [simp]: "stream_step None e = None"
  by (cases e) simp_all

lemma stream_run_None [simp]: "foldl stream_step None es = None"
  by (induction es) simp_all

text \<open>Inside a stream, up to its end, only its own sentences occur, numbered on, and no stream starts or ends.\<close>

lemma stream_body:
  assumes "foldl stream_step (Some (Some (t, n))) es \<noteq> None" and "\<forall>c k. LlmFinished t c k \<notin> set es"
  shows "map ls_seq (emitted t es) = map of_nat [n..<n + length (emitted t es)] \<and>
    (\<forall>s. LlmSentence s \<in> set es \<longrightarrow> s \<in> set (emitted t es)) \<and> (\<forall>u c k. LlmFinished u c k \<notin> set es)"
  using assms
proof (induction es arbitrary: n)
  case Nil
  then show ?case by (simp add: emitted_def)
next
  case (Cons e es)
  have fin: "\<forall>c k. LlmFinished t c k \<notin> set es" using Cons.prems(2) by simp
  show ?case
  proof (cases e)
    case (LlmSentence s)
    with Cons.prems(1) have s: "ls_turn s = t" "ls_seq s = of_nat n" by (auto split: if_splits)
    with Cons.prems(1) LlmSentence have "foldl stream_step (Some (Some (t, Suc n))) es \<noteq> None" by simp
    note ih = Cons.IH [OF this fin]
    have "emitted t (e # es) = s # emitted t es" using LlmSentence s(1) by (simp add: emitted_def)
    with ih s(2) LlmSentence show ?thesis by (simp add: upt_conv_Cons del: upt_Suc)
  next
    case (LlmToken u x)
    with Cons.prems(1) have "foldl stream_step (Some (Some (t, n))) es \<noteq> None" by (auto split: if_splits)
    from Cons.IH [OF this fin] LlmToken show ?thesis by (simp add: emitted_def)
  next
    case (UserInterrupted u w)
    with Cons.prems(1) have "foldl stream_step (Some (Some (t, n))) es \<noteq> None" by simp
    from Cons.IH [OF this fin] UserInterrupted show ?thesis by (simp add: emitted_def)
  qed (use Cons.prems in \<open>auto split: if_splits\<close>)
qed

lemma emitted_filter: "emitted t (filter stream_event es) = emitted t es"
  by (induction es) (auto simp: emitted_def stream_event_def split: event.splits)

text \<open>A stream cut out of what the manager has published, from its announcement to its first end.\<close>

definition published_stream :: "json_chunk \<Rightarrow> mg_act list \<Rightarrow> manager \<Rightarrow> turn_id \<Rightarrow> event list \<Rightarrow> event \<Rightarrow> bool" where
  "published_stream decode acts m t body fin \<longleftrightarrow>
     (\<exists>pre post c k. fin = LlmFinished t c k \<and> mg_run_ok decode m acts \<and>
        mg_bus (foldl (mg_do decode) m acts) = pre @ LlmStarted t # body @ fin # post) \<and>
     (\<forall>c k. LlmFinished t c k \<notin> set body)"

lemma published_body:
  assumes "published_stream decode acts (mg_new cfg f h) t body fin"
  shows "map ls_seq (emitted t body) = map of_nat [0..<length (emitted t body)] \<and>
    (\<forall>s. LlmSentence s \<in> set body \<longrightarrow> s \<in> set (emitted t body)) \<and> (\<forall>u c k. LlmFinished u c k \<notin> set body)"
proof -
  from assms obtain pre post c k where run: "mg_run_ok decode (mg_new cfg f h) acts"
    and bus: "mg_bus (foldl (mg_do decode) (mg_new cfg f h) acts) = pre @ LlmStarted t # body @ LlmFinished t c k # post"
    and none: "\<forall>c k. LlmFinished t c k \<notin> set body"
    unfolding published_stream_def by blast
  have "stream_state (mg_bus (foldl (mg_do decode) (mg_new cfg f h) acts)) \<noteq> None"
    using mg_run_inv [OF run mg_new_inv] by (auto simp: mg_inv_def split: mg_io.splits)
  then have ne: "foldl stream_step (foldl stream_step (stream_step (stream_state pre) (LlmStarted t)) body)
      (LlmFinished t c k # post) \<noteq> None"
    by (simp add: bus stream_state_append)
  have "stream_step (stream_state pre) (LlmStarted t) = Some (Some (t, 0))"
  proof (rule ccontr)
    assume "stream_step (stream_state pre) (LlmStarted t) \<noteq> Some (Some (t, 0))"
    then have "stream_step (stream_state pre) (LlmStarted t) = None"
      by (cases "(stream_state pre, LlmStarted t)" rule: stream_step.cases) auto
    with ne show False by simp
  qed
  with ne have "foldl stream_step (Some (Some (t, 0))) body \<noteq> None"
    by (cases "foldl stream_step (Some (Some (t, 0))) body") auto
  from stream_body [OF this none] show ?thesis by auto
qed


section \<open>An answer heard to its end\<close>

lemma unat_of_nat32: "a < 2 ^ 32 \<Longrightarrow> unat (of_nat a :: 32 word) = a"
  by (simp add: unsigned_of_nat take_bit_nat_eq_self)

lemma word32_eq: "a < 2 ^ 32 \<Longrightarrow> b < 2 ^ 32 \<Longrightarrow> of_nat a = (of_nat b :: 32 word) \<longleftrightarrow> a = b"
  using unat_of_nat32 [of a] unat_of_nat32 [of b] by metis

definition plays :: "turn_id \<Rightarrow> event list \<Rightarrow> nat" where
  "plays t es = length (filter (\<lambda>e. case e of PlaybackFinished u q \<Rightarrow> u = t | _ \<Rightarrow> False) es)"

lemma plays_simps [simp]:
  "plays t [] = 0" "plays t (es @ es') = plays t es + plays t es'"
  by (simp_all add: plays_def)

text \<open>
  The machine in turn \<open>t\<close> after \<open>r\<close> sentences and \<open>p\<close> of their playbacks, \<open>fin\<close> telling whether the end of
  the stream was seen; \<open>before\<close> are the outcomes of the turns before.
\<close>

definition in_turn :: "turn_id \<Rightarrow> turn_outcome list \<Rightarrow> nat \<Rightarrow> nat \<Rightarrow> bool \<Rightarrow> fsm \<Rightarrow> bool" where
  "in_turn t before r p fin s \<longleftrightarrow>
     tc_id (fsm_active s) = t \<and> fsm_sentences_received s = of_nat r \<and> fsm_sentences_played s = of_nat p \<and>
     fsm_llm_finished_seen s = fin \<and>
     (if fin \<and> p = r then fsm_state s = Listening \<and> fsm_outcome_log s = before @ [OutCompleted]
      else fsm_state s = (if r = 0 then Thinking else Speaking) \<and> fsm_outcome_log s = before)"

lemma in_turn_sentence: "in_turn t before r p False s \<Longrightarrow> in_turn t before (Suc r) p False (fsm_on_event now (LlmSentence x) s)"
  by (auto simp: in_turn_def handle_llm_sentence_def Let_def)

lemma in_turn_finished:
  assumes "in_turn t before r p False s" and "p \<le> r" and "r < 2 ^ 32"
  shows "in_turn t before r p True (fsm_on_event now (LlmFinished u c k) s)"
proof -
  have "fsm_sentences_played s = fsm_sentences_received s \<longleftrightarrow> p = r" "fsm_sentences_received s = 0 \<longleftrightarrow> r = 0"
    using assms word32_eq [of p r] word32_eq [of r 0] by (simp_all add: in_turn_def)
  with assms show ?thesis
    by (cases "r = 0") (simp_all add: in_turn_def handle_llm_finished_def Let_def)
qed

lemma in_turn_played:
  assumes "in_turn t before r p fin s" and "p < r" and "r < 2 ^ 32"
  shows "in_turn t before r (Suc p) fin (fsm_on_event now (PlaybackFinished t q) s)"
proof -
  have "fsm_sentences_played s + 1 = fsm_sentences_received s \<longleftrightarrow> Suc p = r"
    using assms word32_eq [of "Suc p" r] by (simp add: in_turn_def add.commute)
  with assms show ?thesis
    by (cases fin; cases "Suc p = r") (simp_all add: in_turn_def handle_playback_finished_def Let_def add.commute)
qed

text \<open>The events the machine does not act on during a turn.\<close>

definition idle_event :: "turn_id \<Rightarrow> event \<Rightarrow> bool" where
  "idle_event t e \<longleftrightarrow>
     (case e of SpeechStarted u w \<Rightarrow> False | UserInterrupted u w \<Rightarrow> False | LlmSentence x \<Rightarrow> False | LlmFinished u c k \<Rightarrow> False
      | PlaybackFinished u q \<Rightarrow> u \<noteq> t | _ \<Rightarrow> True)"

lemma in_turn_idle: "in_turn t before r p fin s \<Longrightarrow> idle_event t e \<Longrightarrow> in_turn t before r p fin (fsm_on_event now e s)"
  by (cases e)
    (auto simp: idle_event_def in_turn_def handle_speech_ended_def handle_final_transcript_def handle_playback_finished_def
      split: if_splits)

text \<open>What the machine has seen at any point of the answer.\<close>

definition ended :: "event list \<Rightarrow> bool" where
  "ended es \<longleftrightarrow> (\<exists>u c k. LlmFinished u c k \<in> set es)"

lemma in_turn_step:
  assumes "in_turn t before (length (emitted t es)) (plays t es) (ended es) s"
    and "\<And>x. e = LlmSentence x \<Longrightarrow> ls_turn x = t \<and> \<not> ended es" and "\<And>u c k. e = LlmFinished u c k \<Longrightarrow> \<not> ended es"
    and "\<And>u w. e \<noteq> SpeechStarted u w \<and> e \<noteq> UserInterrupted u w"
    and "plays t (es @ [e]) \<le> length (emitted t (es @ [e]))" and "plays t es \<le> length (emitted t es)"
    and "length (emitted t (es @ [e])) < 2 ^ 32"
  shows "in_turn t before (length (emitted t (es @ [e]))) (plays t (es @ [e])) (ended (es @ [e])) (fsm_on_event now e s)"
proof -
  have same: "in_turn t before (length (emitted t es)) (plays t es) (ended es) (fsm_on_event now e s)" if "idle_event t e"
    by (rule in_turn_idle [OF assms(1) that])
  show ?thesis
  proof (cases e)
    case (LlmSentence y)
    with assms(2) [of y] in_turn_sentence [of t before _ _ s now y] assms(1) show ?thesis
      by (auto simp: emitted_append emitted_def plays_def ended_def)
  next
    case (LlmFinished u c k)
    with assms(3) [of u c k] in_turn_finished [of t before _ _ s now u c k] assms(1,6,7) show ?thesis
      by (auto simp: emitted_append emitted_def plays_def ended_def)
  next
    case (PlaybackFinished u q)
    show ?thesis
    proof (cases "u = t")
      case True
      have "in_turn t before (length (emitted t es)) (Suc (plays t es)) (ended es) (fsm_on_event now e s)"
        using in_turn_played [OF assms(1), of now q] assms(5,7) True PlaybackFinished
        by (simp add: emitted_append emitted_def plays_def)
      with True PlaybackFinished show ?thesis by (simp add: emitted_append emitted_def plays_def ended_def)
    qed (use same PlaybackFinished in \<open>simp add: idle_event_def emitted_append emitted_def plays_def ended_def\<close>)
  qed (use same assms(4) in \<open>auto simp: idle_event_def emitted_append emitted_def plays_def ended_def\<close>)
qed

lemma before_last: "filter P (p @ x # q) = zs @ [w] \<Longrightarrow> P x \<Longrightarrow> set (filter P p) \<subseteq> set zs"
proof -
  assume "filter P (p @ x # q) = zs @ [w]" "P x"
  then have "filter P p @ butlast (x # filter P q) = zs"
    by (metis butlast_append butlast_snoc filter.simps(2) filter_append list.distinct(1))
  then show ?thesis by auto
qed

lemma answer_run:
  assumes "published_stream decode acts (mg_new cfg f h) t body fin"
    and "filter stream_event (map snd es) = LlmStarted t # filter stream_event body @ [fin]"
    and "\<forall>e \<in> set (map snd es). \<forall>u w. e \<noteq> SpeechStarted u w \<and> e \<noteq> UserInterrupted u w"
    and "\<forall>n. plays t (take n (map snd es)) \<le> length (emitted t (take n (map snd es)))"
    and "length (emitted t body) < 2 ^ 32" and "in_turn t before 0 0 False s"
  shows "in_turn t before (length (emitted t (map snd es))) (plays t (map snd es)) (ended (map snd es)) (fsm_run s es)"
proof -
  note body = published_body [OF assms(1)]
  have total: "emitted t (map snd es) = emitted t body"
  proof -
    from assms(1) obtain c k where "fin = LlmFinished t c k" unfolding published_stream_def by blast
    then have "emitted t (LlmStarted t # filter stream_event body @ [fin]) = emitted t body"
      by (simp add: emitted_def) (simp add: emitted_def [symmetric] emitted_filter)
    then show ?thesis by (metis assms(2) emitted_filter)
  qed
  have "in_turn t before (length (emitted t (map snd p))) (plays t (map snd p)) (ended (map snd p)) (fsm_run s p)"
    if "es = p @ q" for p q
    using that
  proof (induction p arbitrary: q rule: rev_induct)
    case Nil
    with assms(6) show ?case by (simp add: emitted_def ended_def)
  next
    case (snoc x p)
    obtain now e where x: "x = (now, e)" by (cases x)
    have es: "map snd es = map snd p @ e # map snd q" using snoc.prems x by simp
    have pre: "take (length p) (map snd es) = map snd p" "take (Suc (length p)) (map snd es) = map snd p @ [e]"
      by (simp_all add: es)
    have open_stream: "\<not> ended (map snd p)" if "stream_event e"
    proof
      assume "ended (map snd p)"
      then obtain u c k where "LlmFinished u c k \<in> set (filter stream_event (map snd p))"
        by (auto simp: ended_def stream_event_def)
      moreover have "filter stream_event (map snd p @ e # map snd q) = (LlmStarted t # filter stream_event body) @ [fin]"
        using assms(2) unfolding es by simp
      ultimately have "LlmFinished u c k \<in> set (LlmStarted t # filter stream_event body)"
        using before_last [of stream_event, OF _ that] by blast
      with body show False by simp
    qed
    have mine: "ls_turn y = t" if "e = LlmSentence y" for y
    proof -
      have "e \<in> set (filter stream_event (map snd es))" using that by (simp add: es stream_event_def)
      then have "e \<in> set body" unfolding assms(2) using that assms(1) by (auto simp: published_stream_def)
      with that body have "y \<in> set (emitted t body)" by blast
      then show ?thesis by (auto simp: emitted_def split: event.splits if_splits)
    qed
    have "length (emitted t (map snd p @ [e])) \<le> length (emitted t (map snd es))" by (simp add: es) (simp add: emitted_def)
    then have small: "length (emitted t (map snd p @ [e])) < 2 ^ 32" using total assms(5) by simp
    have "in_turn t before (length (emitted t (map snd p @ [e]))) (plays t (map snd p @ [e])) (ended (map snd p @ [e]))
        (fsm_on_event now e (fsm_run s p))"
    proof (rule in_turn_step)
      show "in_turn t before (length (emitted t (map snd p))) (plays t (map snd p)) (ended (map snd p)) (fsm_run s p)"
        using snoc.IH [of "x # q"] snoc.prems by simp
      show "plays t (map snd p @ [e]) \<le> length (emitted t (map snd p @ [e]))"
        "plays t (map snd p) \<le> length (emitted t (map snd p))"
        using assms(4)[rule_format, of "Suc (length p)"] assms(4)[rule_format, of "length p"] unfolding pre by simp_all
      show "e \<noteq> SpeechStarted u w \<and> e \<noteq> UserInterrupted u w" for u w using assms(3) by (simp add: es)
    qed (use open_stream mine small in \<open>auto simp: stream_event_def\<close>)
    then show ?case by (simp add: x fsm_step_def [of _ "(now, e)"])
  qed
  from this [of es "[]"] show ?thesis by simp
qed

text \<open>The three events that open a spoken turn.\<close>

definition spoken :: "time_point \<Rightarrow> final_transcript \<Rightarrow> (time_point \<times> event) list" where
  "spoken now ft = [(now, SpeechStarted kNoTurn now), (now + 1, SpeechEnded kNoTurn (now + 1)), (now + 2, FinalTranscript ft)]"

lemma spoken_run:
  assumes "fsm_state s = Listening" and "t = tf_next (fsm_turns s)"
  shows "in_turn t (fsm_outcome_log s) 0 0 False (fsm_run s (spoken now ft))"
    and "fsm_state (fsm_run s (spoken now ft)) = Thinking"
  using assms by (simp_all add: spoken_def fsm_step_def in_turn_def fsm_handler_defs mint_def new_token_def)

text \<open>The turn the machine names is the one the manager answers under.\<close>

lemma adopted_stream:
  "mg_io m = MgStart e \<Longrightarrow> t \<noteq> kNoTurn \<Longrightarrow>
   mg_bus (mg_io_step decode p' now' body' act' (mg_io_step decode (Some t) now body act m)) = mg_bus m @ [LlmStarted t]"
  by (simp add: mg_io_step_def mg_choose_turn_def adopt_def new_token_def mg_begin_stream_def mg_publish_def Let_def
      split: prod.splits)

text \<open>
  C3. A spoken turn is served to its end. From Listening, an utterance and its transcript bring the
  machine to Thinking in a new turn \<open>t\<close>; the manager, handed the machine's snapshot, announces its
  stream under this very turn. Let the machine then see any stream the manager publishes under \<open>t\<close>,
  interleaved in any way with the playbacks of its sentences, none heard before it was said, with
  the playbacks of other turns and with everything else but speech and interruptions. Once all of
  it is seen, the turn is recorded as completed, once, and the machine is listening again, whether
  the stream ended by itself or was cut off at the sentence limit.
\<close>

theorem answer_played_out:
  assumes "fsm_state s = Listening" and "t = tf_next (fsm_turns s)"
    and "published_stream decode acts (mg_new cfg f h) t body fin" and "length (emitted t body) < 2 ^ 32"
    and "filter stream_event (map snd es) = LlmStarted t # filter stream_event body @ [fin]"
    and "\<forall>e \<in> set (map snd es). \<forall>u w. e \<noteq> SpeechStarted u w \<and> e \<noteq> UserInterrupted u w"
    and "\<forall>n. plays t (take n (map snd es)) \<le> length (emitted t (take n (map snd es)))"
    and "plays t (map snd es) = length (emitted t body)"
  shows "let s1 = fsm_run s (spoken now ft); s2 = fsm_run s1 es in
    fsm_state s1 = Thinking \<and> snap_active_turn (fsm_snapshot_of s1) = t \<and>
    fsm_state s2 = Listening \<and> tc_id (fsm_active s2) = t \<and> fsm_outcome_log s2 = fsm_outcome_log s @ [OutCompleted] \<and>
    (\<forall>m e. mg_io m = MgStart e \<and> t \<noteq> kNoTurn \<longrightarrow>
       mg_bus (mg_io_step decode p' now' body' act'
         (mg_io_step decode (Some (snap_active_turn (fsm_snapshot_of s1))) now' body' act' m)) = mg_bus m @ [LlmStarted t])"
proof -
  let ?s1 = "fsm_run s (spoken now ft)"
  note start = spoken_run [OF assms(1,2), of now ft]
  have "emitted t (map snd es) = emitted t (LlmStarted t # filter stream_event body @ [fin])"
    using assms(5) by (metis emitted_filter)
  then have em: "emitted t (map snd es) = emitted t body"
    using assms(3) emitted_filter [of t body] by (auto simp: published_stream_def emitted_def)
  have "fin \<in> set (filter stream_event (map snd es))" unfolding assms(5) by simp
  then have fin: "ended (map snd es)" using assms(3) by (force simp: published_stream_def ended_def)
  from answer_run [OF assms(3,5,6,7,4) start(1)]
  have "in_turn t (fsm_outcome_log s) (length (emitted t body)) (length (emitted t body)) True (fsm_run ?s1 es)"
    unfolding em assms(8) using fin by simp
  moreover have "snap_active_turn (fsm_snapshot_of ?s1) = t"
    using start(1) by (simp add: in_turn_def fsm_snapshot_of_def)
  ultimately show ?thesis
    unfolding Let_def using start(2) adopted_stream by (auto simp: in_turn_def)
qed

definition demo_answer :: "mg_act list" where
  "demo_answer = demo_acts @
     [MgWork None 6 [] (CurlBytes (sse_frame ''xHello there. Go'' @ sse_frame ''xod bye.'')), MgWork None 7 [] (CurlEnds CurlOk 200)]"

definition demo_body :: "event list" where
  "demo_body =
     [LlmSentence \<lparr>ls_turn = 1, ls_seq = 0, ls_text = ''Hello there.'', ls_lang = ''en''\<rparr>,
      LlmToken 1 ''Hello there. Go'', LlmToken 1 ''od bye.'',
      LlmSentence \<lparr>ls_turn = 1, ls_seq = 1, ls_text = ''Good bye.'', ls_lang = ''en''\<rparr>]"

lemma demo_answer_bus:
  "mg_bus (foldl (mg_do demo_decode) demo_manager demo_answer) = LlmStarted 1 # demo_body @ [LlmFinished 1 False 2]"
  "mg_run_ok demo_decode demo_manager demo_answer"
  by code_simp+

lemma demo_published: "published_stream demo_decode demo_answer demo_manager 1 demo_body (LlmFinished 1 False 2)"
proof -
  have "mg_bus (foldl (mg_do demo_decode) demo_manager demo_answer) = [] @ LlmStarted 1 # demo_body @ LlmFinished 1 False 2 # []"
    by (simp add: demo_answer_bus)
  moreover have "\<forall>c k. LlmFinished 1 c k \<notin> set demo_body" by (simp add: demo_body_def)
  ultimately show ?thesis unfolding published_stream_def using demo_answer_bus(2) by blast
qed

lemma demo_emitted:
  "emitted 1 demo_body =
     [\<lparr>ls_turn = 1, ls_seq = 0, ls_text = ''Hello there.'', ls_lang = ''en''\<rparr>,
      \<lparr>ls_turn = 1, ls_seq = 1, ls_text = ''Good bye.'', ls_lang = ''en''\<rparr>]"
  by (simp add: demo_body_def emitted_def)

text \<open>The first sentence is heard while the second is still awaited; the last playback comes after the end.\<close>

definition demo_heard :: "(time_point \<times> event) list" where
  "demo_heard = map (Pair 5)
     ([LlmStarted 1] @ take 2 demo_body @ [PlaybackStarted 1 0, PlaybackFinished 1 0, PlaybackFinished 9 0] @ drop 2 demo_body @
      [LlmFinished 1 False 2, PlaybackFinished 1 1])"

theorem answer_played_out_witness:
  "fsm_outcome_log (fsm_run (fsm_run (fsm_start 0 (fsm_new tf_new [])) (spoken 1 (demo_transcript 0))) demo_heard) = [OutCompleted]"
proof -
  let ?s = "fsm_start 0 (fsm_new tf_new [])"
  have s: "fsm_state ?s = Listening" "1 = tf_next (fsm_turns ?s)" "fsm_outcome_log ?s = []"
    by (simp_all add: fsm_start_def fsm_new_def fsm_transition_def tf_new_def)
  have evs: "map snd demo_heard = [LlmStarted 1] @ take 2 demo_body @ [PlaybackStarted 1 0, PlaybackFinished 1 0, PlaybackFinished 9 0] @
      drop 2 demo_body @ [LlmFinished 1 False 2, PlaybackFinished 1 1]"
    by (simp add: demo_heard_def demo_body_def)
  have conds: "filter stream_event (map snd demo_heard) = LlmStarted 1 # filter stream_event demo_body @ [LlmFinished 1 False 2]"
    "\<forall>e \<in> set (map snd demo_heard). \<forall>u w. e \<noteq> SpeechStarted u w \<and> e \<noteq> UserInterrupted u w"
    "\<forall>n. plays 1 (take n (map snd demo_heard)) \<le> length (emitted 1 (take n (map snd demo_heard)))"
    "plays 1 (map snd demo_heard) = length (emitted 1 demo_body)" "length (emitted 1 demo_body) < 2 ^ 32"
    unfolding evs demo_emitted
    by (simp_all add: demo_body_def stream_event_def plays_def emitted_def take_Cons split: nat.splits)
  from answer_played_out [OF s(1,2) demo_published [unfolded demo_manager_def] conds(5,1,2,3,4), of 1 "demo_transcript 0"] s(3)
  show ?thesis by (simp add: Let_def)
qed

section \<open>Speaking over the answer\<close>

lemma listening_stays:
  "fsm_state s = Listening \<Longrightarrow> \<forall>e \<in> set (map snd es). \<forall>u w. e \<noteq> SpeechStarted u w \<Longrightarrow>
   fsm_state (fsm_run s es) = Listening \<and> fsm_active (fsm_run s es) = fsm_active s \<and>
   fsm_outcome_log (fsm_run s es) = fsm_outcome_log s \<and> fsm_published (fsm_run s es) = fsm_published s"
proof (induction es arbitrary: s)
  case (Cons x es)
  obtain now e where x: "x = (now, e)" by (cases x)
  have "fsm_state (fsm_on_event now e s) = Listening \<and> fsm_active (fsm_on_event now e s) = fsm_active s \<and>
      fsm_outcome_log (fsm_on_event now e s) = fsm_outcome_log s \<and> fsm_published (fsm_on_event now e s) = fsm_published s"
    using Cons.prems by (cases e) (auto simp: x fsm_handler_defs Let_def)
  with Cons.IH [of "fsm_on_event now e s"] Cons.prems(2) show ?case by (simp add: x fsm_step_def [of _ "(now, e)"])
qed simp

text \<open>The program's reaction to an onset of speech: the machine sees it, and the detector what the machine then shows.\<close>

definition speech_onset :: "time_point \<Rightarrow> apm_reading \<Rightarrow> fsm \<Rightarrow> barge_in \<Rightarrow> fsm \<times> barge_in" where
  "speech_onset now apm s d =
     (let s1 = fsm_on_event now (SpeechStarted kNoTurn now) s
      in (s1, bi_on_speech_started (fsm_snapshot_of s1) now apm d))"


definition demo_spoken_over :: "(time_point \<times> event) list" where
  "demo_spoken_over = [(900, SpeechEnded kNoTurn 900), (901, FinalTranscript (demo_transcript 0)), (902, LlmStarted 1),
     (903, LlmSentence \<lparr>ls_turn = 1, ls_seq = 0, ls_text = ''a'', ls_lang = ''en''\<rparr>), (904, LlmFinished 1 False 1),
     (905, PlaybackFinished 1 0)]"


text \<open>An interruption that comes late is not compared with the active turn: it ends the next one.\<close>

lemma late_interruption_discards_next_turn:
  "fsm_state s = UserSpeaking \<Longrightarrow> fsm_sentences_played s = 0 \<Longrightarrow> t \<noteq> tc_id (fsm_active s) \<Longrightarrow>
   fsm_state (fsm_on_event now (UserInterrupted t w) s) = Listening \<and>
   fsm_outcome_log (fsm_on_event now (UserInterrupted t w) s) = fsm_outcome_log s @ [OutDiscarded]"
  by (simp add: handle_user_interrupted_def Let_def split: option.splits)

section \<open>The half-duplex gate follows the machine\<close>

text \<open>The observer installed on the machine; \<open>now\<close> is the clock reading \<open>set_speaking\<close> may take.\<close>

definition half_duplex_observer :: "time_point \<Rightarrow> fsm_state \<times> fsm_state \<Rightarrow> half_duplex_gate \<Rightarrow> half_duplex_gate" where
  "half_duplex_observer now tr g =
     (let was_speaking = (fst tr = Speaking); is_speaking = (snd tr = Speaking)
      in if was_speaking \<noteq> is_speaking then hd_set_speaking now is_speaking g else g)"

text \<open>One event of the machine with the observer installed: it is called for every transition to another state.\<close>

definition gated_step :: "fsm \<times> half_duplex_gate \<Rightarrow> time_point \<times> event \<Rightarrow> fsm \<times> half_duplex_gate" where
  "gated_step sg te =
     (let s1 = fsm_step (fst sg) te
      in (s1, foldl (\<lambda>g tr. half_duplex_observer (fst te) tr g) (snd sg)
                (drop (length (fsm_state_log (fst sg))) (fsm_state_log s1))))"

text \<open>When the machine last left Speaking.\<close>

fun last_left :: "fsm \<Rightarrow> (time_point \<times> event) list \<Rightarrow> time_point option \<Rightarrow> time_point option" where
  "last_left s [] e = e"
| "last_left s (te # es) e =
     last_left (fsm_step s te) es (if fsm_state s = Speaking \<and> fsm_state (fsm_step s te) \<noteq> Speaking then Some (fst te) else e)"

definition gate_agrees :: "fsm \<Rightarrow> time_point option \<Rightarrow> millis \<Rightarrow> half_duplex_gate \<Rightarrow> bool" where
  "gate_agrees s e hangover g \<longleftrightarrow>
     hd_hangover g = hangover \<and> (hd_speaking g \<longleftrightarrow> fsm_state s = Speaking) \<and>
     (fsm_state s \<noteq> Speaking \<longrightarrow> hd_in_hangover g = (e \<noteq> None) \<and> (\<forall>w. e = Some w \<longrightarrow> hd_ended_at g = w)) \<and>
     (fsm_state s = Speaking \<longrightarrow> \<not> hd_in_hangover g)"

lemmas gate_defs = half_duplex_observer_def hd_set_speaking_def gate_agrees_def Let_def

lemma gated_step_agrees:
  assumes "gate_agrees s e hangover g"
  shows "gate_agrees (fst (gated_step (s, g) te))
    (if fsm_state s = Speaking \<and> fsm_state (fsm_step s te) \<noteq> Speaking then Some (fst te) else e) hangover (snd (gated_step (s, g) te))"
proof -
  obtain now ev where te: "te = (now, ev)" by (cases te)
  show ?thesis
    using assms unfolding gated_step_def te fsm_step_def
    by (cases ev)
      (auto simp: gate_defs fsm_handler_defs fsm_transition_def fsm_complete_def mint_def new_token_def split: option.splits if_splits)
qed

lemma gated_run:
  "gate_agrees s e hangover g \<Longrightarrow>
   fst (foldl gated_step (s, g) es) = fsm_run s es \<and>
   gate_agrees (fsm_run s es) (last_left s es e) hangover (snd (foldl gated_step (s, g) es))"
proof (induction es arbitrary: s g e)
  case (Cons te es)
  obtain s1 g1 where step: "gated_step (s, g) te = (s1, g1)" by fastforce
  then have "s1 = fsm_step s te" by (simp add: gated_step_def Let_def)
  with gated_step_agrees [OF Cons.prems, of te] Cons.IH step show ?case by simp
qed simp

text \<open>
  C23. The microphone is deaf exactly while the machine speaks. Install the observer of the capture
  stack on the started machine: after any events at all, the gate drops input if and only if the
  machine is in Speaking, or has left it and the hangover since it last did has not passed.
\<close>

theorem half_duplex_follows_dialogue:
  "let s0 = fsm_start t0 (fsm_new f h); (s, g) = foldl gated_step (s0, hd_new hangover) es in
     s = fsm_run s0 es \<and>
     (hd_should_drop now g \<longleftrightarrow>
        fsm_state s = Speaking \<or> (\<exists>w. last_left s0 es None = Some w \<and> to_millis (now - w) < hangover))"
proof -
  let ?s0 = "fsm_start t0 (fsm_new f h)"
  have "gate_agrees ?s0 None hangover (hd_new hangover)"
    by (simp add: gate_agrees_def hd_new_def fsm_start_def fsm_new_def fsm_transition_def)
  from gated_run [OF this, of es] show ?thesis
    by (cases "foldl gated_step (?s0, hd_new hangover) es") (auto simp: gate_agrees_def hd_should_drop_def Let_def)
qed

end
