(* ===== verification/Assembly.thy ===== *)
theory Assembly
  imports Audio_Pipeline Config Fake_Driver Playback_Engine Barge_In Manager Metrics
begin

text \<open>
  How the program is put together from its configuration: \<open>src/orchestrator/capture_stack.cpp\<close>,
  \<open>tts_stack.cpp\<close>, \<open>dialogue_stack.cpp\<close> and \<open>supervisor_setup.cpp\<close> with the constructors of
  \<open>src/audio/pipeline.cpp\<close> and \<open>src/audio/apm.cpp\<close>. Threads, devices and log lines are left out; the
  activity detector's model and WebRTC's processor are arguments.
\<close>

section \<open>The capture side\<close>

record apm_settings =
  as_aec :: bool
  as_ns :: bool
  as_agc :: bool
  as_initial_delay :: int
  as_max_delay :: int
  as_near_rate :: nat
  as_reverse_rate :: nat

definition apm_settings_default :: apm_settings where
  "apm_settings_default =
     \<lparr>as_aec = True, as_ns = True, as_agc = True, as_initial_delay = 50, as_max_delay = 250,
      as_near_rate = 16000, as_reverse_rate = 48000\<rparr>"

text \<open>The settings the capture stack makes; the casts to \<open>int\<close> wrap.\<close>

definition capture_apm_settings :: "config \<Rightarrow> apm_settings" where
  "capture_apm_settings c =
     apm_settings_default
       \<lparr>as_aec := capm_aec_enabled (cfg_apm c), as_ns := capm_ns_enabled (cfg_apm c), as_agc := capm_agc_enabled (cfg_apm c),
        as_initial_delay := sint (capm_initial_delay_estimate_ms (cfg_apm c)), as_max_delay := sint (capm_max_delay_ms (cfg_apm c))\<rparr>"

text \<open>
  The wrapper's constructor. \<open>webrtc\<close> is the library's processor, \<open>None\<close> when it cannot be created; an
  inactive wrapper never reads the processor or the resampler it is given here.
\<close>

definition apm_new ::
  "('s, 'w, 'v) engines \<Rightarrow> 'w option \<Rightarrow> 'w \<Rightarrow> 's resampler \<Rightarrow> apm_settings \<Rightarrow> ('s, 'w) apm outcome" where
  "apm_new eng webrtc unused_w unused_ref st =
     (let inactive = \<lparr>apm_aec_enabled = as_aec st, apm_active = False, apm_near_rate = as_near_rate st,
            apm_reverse_rate = as_reverse_rate st, apm_delay = as_initial_delay st, apm_webrtc = unused_w,
            apm_ref = unused_ref, apm_frames = 0\<rparr>
      in if \<not> as_aec st \<and> \<not> as_ns st \<and> \<not> as_agc st then Ok inactive
         else case webrtc of
             None \<Rightarrow> Ok inactive
           | Some w \<Rightarrow> bind_outcome (resampler_new eng (as_reverse_rate st) (as_near_rate st)) (\<lambda>rs.
               Ok (inactive\<lparr>apm_active := True, apm_webrtc := w, apm_ref := rs\<rparr>)))"

definition capture_rate :: nat where
  "capture_rate = 16000"

definition capture_endpointer :: "config \<Rightarrow> endpointer_config" where
  "capture_endpointer c =
     \<lparr>ec_onset = cvad_onset_threshold (cfg_vad c), ec_offset = cvad_offset_threshold (cfg_vad c),
      ec_min_speech = uint (cvad_min_speech_ms (cfg_vad c)), ec_hangover = uint (cvad_hangover_ms (cfg_vad c))\<rparr>"

definition capture_pipeline_config :: "config \<Rightarrow> pipeline_config" where
  "capture_pipeline_config c =
     \<lparr>pc_output_rate = capture_rate, pc_pre_padding = uint (cvad_pre_padding_ms (cfg_vad c)),
      pc_min_rms = unat (cstt_min_utterance_rms (cfg_stt c))\<rparr>"

text \<open>
  The pipeline that is built; \<open>None\<close> when capture is disabled. \<open>load_vad\<close> gives the detector loaded from
  a path, \<open>None\<close> when that fails, and \<open>live\<close> tells whether a streaming sink will be installed.
\<close>

definition build_capture ::
  "('s, 'w, 'v) engines \<Rightarrow> (string \<Rightarrow> 'v silero_vad option) \<Rightarrow> 'w option \<Rightarrow> 'w \<Rightarrow> loopback option \<Rightarrow> bool \<Rightarrow> config \<Rightarrow>
     ('s, 'w, 'v) pipeline outcome option" where
  "build_capture eng load_vad webrtc unused_w lb live c =
     (if \<not> caud_capture_enabled (cfg_audio c) then None
      else Some (bind_outcome (resampler_new eng (unat (caud_sample_rate_hz (cfg_audio c))) capture_rate) (\<lambda>rs.
        let vad = (if cvad_model_path (cfg_vad c) = [] then None else load_vad (cvad_model_path (cfg_vad c)))
        in bind_outcome
             (case lb of
                None \<Rightarrow> Ok None
              | Some l \<Rightarrow> bind_outcome (apm_new eng webrtc unused_w rs ((capture_apm_settings c)\<lparr>as_near_rate := capture_rate\<rparr>))
                  (\<lambda>a. Ok (Some a)))
             (\<lambda>apm. Ok (pl_new (capture_pipeline_config c) (capture_endpointer c) (uint (cvad_post_padding_ms (cfg_vad c)))
                (unat (cutt_max_in_flight (cfg_utterance c))) (uint (cutt_max_duration_ms (cfg_utterance c)))
                (rs_soxr rs) vad apm live (Fin (- 1)))))))"

section \<open>The playback side\<close>

text \<open>The queue, the engine and the reference ring, in \<open>size_t\<close> arithmetic that cannot overflow.\<close>

definition loopback_capacity :: "config \<Rightarrow> nat" where
  "loopback_capacity c = unat (clop_ring_seconds (caud_loopback (cfg_audio c))) * unat (caud_sample_rate_hz (cfg_audio c))"

definition build_playback :: "config \<Rightarrow> (playback_queue \<times> playback_engine \<times> loopback option) option" where
  "build_playback c =
     (if ctts_voices (cfg_tts c) = [] then None
      else let lb = (if caud_capture_enabled (cfg_audio c)
                     then Some (lb_new (loopback_capacity c) (unat (caud_sample_rate_hz (cfg_audio c)))) else None)
           in Some (pq_new (unat (cpla_max_queue_chunks (cfg_playback c))),
                en_new (unat (cpla_prefill_ms (cfg_playback c))) (unat (caud_sample_rate_hz (cfg_audio c))) lb, lb))"

lemma loopback_capacity_fits: "loopback_capacity c < 2 ^ 64"
proof -
  have "unat x \<le> 2 ^ 32 - 1" for x :: "32 word"
    using unsigned_less [where ?'a = nat, of x] by simp
  then have "loopback_capacity c \<le> (2 ^ 32 - 1) * (2 ^ 32 - 1)"
    unfolding loopback_capacity_def by (intro mult_mono) simp_all
  also have "\<dots> < 2 ^ 64" by simp
  finally show ?thesis .
qed

section \<open>The dialogue side\<close>

definition fake_driver_options :: "config \<Rightarrow> fd_options option" where
  "fake_driver_options c =
     (if cpip_fake_driver_enabled (cfg_pipeline c)
      then Some (fd_default
        \<lparr>fd_sentences_per_turn := cpip_fake_sentences_per_turn (cfg_pipeline c),
         fd_idle_between_turns := uint (cpip_fake_idle_between_turns_ms (cfg_pipeline c)),
         fd_suppress_speech_events := caud_capture_enabled (cfg_audio c)\<rparr>)
      else None)"

definition manager_settings :: "config \<Rightarrow> manager_config" where
  "manager_settings c =
     \<lparr>mc_fallback_language = cdia_fallback_language (cfg_dialogue c), mc_cap = cdia_max_assistant_sentences (cfg_dialogue c),
      mc_min_chars = cbar_min_real_utterance_chars (cfg_barge_in c),
      mc_splitter = \<lparr>sc_max_chars = unat (cspl_max_sentence_chars (cdia_sentence_splitter (cfg_dialogue c))),
        sc_fences = cspl_detect_code_fences (cdia_sentence_splitter (cfg_dialogue c))\<rparr>\<rparr>"

definition build_barge_in :: "config \<Rightarrow> barge_in" where
  "build_barge_in c =
     bi_new \<lparr>bc_enabled = cbar_enabled (cfg_barge_in c), bc_require_aec_converged = cbar_require_aec_converged (cfg_barge_in c),
        bc_min_aec_erle_db = cbar_min_aec_erle_db (cfg_barge_in c),
        bc_cool_down_after_turn_ms = unat (cbar_cool_down_after_turn_ms (cfg_barge_in c))\<rparr>
       (capm_use_system_aec (cfg_apm c))"

text \<open>What the manager and the idle timer are told of the other components.\<close>

definition pipeline_gate_answer :: "pipeline_state \<Rightarrow> gate_answer" where
  "pipeline_gate_answer p = GateSays (p \<noteq> PipeFailed)"

definition keep_alive_fires :: "fsm_snapshot \<Rightarrow> bool" where
  "keep_alive_fires snap \<longleftrightarrow> snap_state snap = Listening"

section \<open>The supervisor\<close>

definition from_health :: "string \<Rightarrow> health_config \<Rightarrow> service_config" where
  "from_health name h =
     \<lparr>sv_name = name, sv_health_url = chea_health_url h, sv_fail_pipeline = chea_fail_pipeline_if_down h,
      sv_interval_healthy = uint (chea_probe_interval_healthy_ms h), sv_interval_degraded = uint (chea_probe_interval_degraded_ms h),
      sv_degraded_max = chea_degraded_max_failures h\<rparr>"

definition configured_services :: "config \<Rightarrow> service_config list" where
  "configured_services c =
     [from_health ''llm'' (cllm_health (cfg_llm c)), from_health ''stt'' (cstt_health (cfg_stt c)),
      from_health ''tts'' (ctts_health (cfg_tts c))]"

definition build_monitors :: "config \<Rightarrow> service_monitor list" where
  "build_monitors c = foldl (\<lambda>ms svc. su_register svc ms) [] (configured_services c)"

definition register_gauges :: "config \<Rightarrow> registry \<Rightarrow> registry" where
  "register_gauges c r =
     (let r1 = (if chea_health_url (cllm_health (cfg_llm c)) \<noteq> [] then register_service_for_health ''llm'' r else r);
          r2 = (if chea_health_url (cstt_health (cfg_stt c)) \<noteq> [] then register_service_for_health ''stt'' r1 else r1)
      in if chea_health_url (ctts_health (cfg_tts c)) \<noteq> [] then register_service_for_health ''tts'' r2 else r2)"

text \<open>A service has gauges from the start exactly when its monitor probes.\<close>

lemma gauges_of_probed_services:
  "mr_health_services (register_gauges c registry_new) =
     map (\<lambda>m. sv_name (sm_cfg m)) (filter (\<lambda>m. sm_state m = SvcProbing) (build_monitors c))"
  by (simp add: register_gauges_def register_service_for_health_def mr_call_def registry_new_def build_monitors_def
      configured_services_def from_health_def su_register_def sm_new_def Let_def)

section \<open>The capture worker runs on\<close>

lemma bind_outcome_Diverge:
  "bind_outcome m f = Diverge \<longleftrightarrow> m = Diverge \<or> (\<exists>x. m = Ok x \<and> f x = Diverge)"
  by (cases m) auto

lemma resampler_returns: "resampler_process eng xs r \<noteq> Diverge"
  by (auto simp: resampler_process_def split: option.splits)

lemma apm_process_returns: "apm_process eng lb mic t a \<noteq> Diverge"
  by (auto simp: apm_process_def Let_def bind_outcome_Diverge resampler_returns split: prod.splits)

lemma apm_blocks_return: "0 < n \<Longrightarrow> apm_blocks eng lb t n carry a \<noteq> Diverge"
proof (induction eng lb t n carry a rule: apm_blocks.induct)
  case (1 eng lb t n carry a)
  then show ?case
    by (subst apm_blocks.simps) (auto simp: bind_outcome_Diverge apm_process_returns)
qed

lemma aec_stage_returns: "100 \<le> pc_output_rate (pl_cfg pl) \<Longrightarrow> pl_aec_stage eng lb t xs pl \<noteq> Diverge"
  by (auto simp: pl_aec_stage_def bind_outcome_Diverge apm_blocks_return split: option.splits)

lemma speech_ended_returns: "pl_speech_ended expired t out pl \<noteq> Diverge"
  by (auto simp: pl_speech_ended_def ub_speech_ended_def ub_track_def Let_def split: exec.splits option.splits list.splits if_splits)

lemma endpoint_stage_returns: "pl_endpoint_stage eng expired t xs pl \<noteq> Diverge"
  by (simp add: pl_endpoint_stage_def Let_def speech_ended_returns split: prod.split frame_outcome.split)

lemma process_frame_returns:
  "100 \<le> pc_output_rate (pl_cfg pl) \<Longrightarrow> process_frame eng lb expired frame pl \<noteq> Diverge"
  by (auto simp: process_frame_def Let_def bind_outcome_Diverge resampler_returns endpoint_stage_returns aec_stage_returns
      split: prod.splits option.splits if_splits)

lemma aec_stage_cfg: "pl_aec_stage eng lb t xs pl = Ok (chunk, pl') \<Longrightarrow> pl_cfg pl' = pl_cfg pl"
  by (auto simp: pl_aec_stage_def bind_outcome_Ok split: option.splits if_splits)

lemma pl_probability_cfg [simp]: "pl_cfg (pl_probability eng xs pl) = pl_cfg pl"
  by (auto simp: pl_probability_def Let_def split: option.splits prod.splits)

lemma endpoint_stage_cfg: "pl_endpoint_stage eng expired t xs pl = Ok (out, pl') \<Longrightarrow> pl_cfg pl' = pl_cfg pl"
  by (auto simp: pl_endpoint_stage_def pl_speech_started_def pl_speech_ended_def Let_def
      split: prod.splits frame_outcome.splits exec.splits option.splits if_splits)

lemma process_frame_cfg: "process_frame eng lb expired frame pl = Ok (out, pl') \<Longrightarrow> pl_cfg pl' = pl_cfg pl"
  by (auto simp: process_frame_def Let_def bind_outcome_Ok dest!: aec_stage_cfg endpoint_stage_cfg
      split: if_splits option.splits)

lemma pl_run_returns: "100 \<le> pc_output_rate (pl_cfg pl) \<Longrightarrow> pl_run eng fs pl \<noteq> Diverge"
proof (induction fs arbitrary: pl)
  case (Cons f fs)
  obtain lb expired frame where f: "f = (lb, expired, frame)" by (metis prod_cases3)
  show ?case
  proof
    assume "pl_run eng (f # fs) pl = Diverge"
    with process_frame_returns [OF Cons.prems] obtain out pl1 where
      step: "process_frame eng lb expired frame pl = Ok (out, pl1)" and "pl_run eng fs pl1 = Diverge"
      by (auto simp: f bind_outcome_Diverge split: prod.splits)
    with Cons.IH [of pl1] Cons.prems process_frame_cfg [OF step] show False by simp
  qed
qed simp


definition demo_capture_config :: config where
  "demo_capture_config = config_default\<lparr>cfg_audio := audio_default\<lparr>caud_capture_enabled := True\<rparr>\<rparr>"

lemma demo_capture_loads: "load_from_string (\<lambda>_ _. Inr demo_capture_config) [] = Inr demo_capture_config"
proof -
  have "resolve_aliases demo_capture_config = demo_capture_config"
    by (simp add: resolve_aliases_def resolve_tts_def resolve_vad_def resolve_stt_def apply_active_personality_def
        demo_capture_config_def config_default_def tts_default_def)
  moreover have "validate demo_capture_config = None"
    by (simp add: validate_def logging_checks_def llm_checks_def memory_checks_def service_checks_def stt_checks_def
        tts_checks_def audio_checks_def barge_in_checks_def health_checks_def outside_def demo_capture_config_def config_default_def
        logging_default_def control_default_def fake_pipeline_default_def llm_default_def stt_default_def tts_default_def
        supervisor_default_def memory_default_def dialogue_default_def audio_default_def vad_default_def apm_default_def
        health_default_def kValidLogLevels_def kValidSinks_def)
  ultimately show ?thesis by (simp add: load_from_string_def)
qed


text \<open>The rate of the reference ring is the device's, but the canceller is left with its default.\<close>

lemma reference_rate_not_passed_on:
  "as_reverse_rate (capture_apm_settings c) = 48000"
  "build_playback c = Some (pq, en, Some lb) \<Longrightarrow> lb_rate lb = unat (caud_sample_rate_hz (cfg_audio c))"
  by (auto simp: capture_apm_settings_def apm_settings_default_def build_playback_def lb_new_def Let_def split: if_splits)

end
