(* ===== verification/Audio_Device.thy ===== *)
theory Audio_Device
  imports Capture
begin

text \<open>
  Opening and closing the audio devices: the device choice (\<open>pick_device\<close> of
  \<open>src/playback/engine.cpp\<close>, \<open>pick_input_device\<close> of \<open>src/audio/capture.cpp\<close>), the attempt to
  open a stream with its fall-backs to headless mode, and \<open>start\<close> and \<open>stop\<close> of the capture
  engine. PortAudio itself is a parameter: what its calls answer is a record. The lemmas give the
  choice's meaning, where the playback version is undefined, and that a stream is open only while
  the engine runs.
\<close>

section \<open>What PortAudio answers\<close>

record pa_device =
  pd_name :: "string option"  \<comment> \<open>\<open>None\<close> is a null pointer\<close>
  pd_channels :: int          \<comment> \<open>of the direction asked for\<close>

record pa_api =
  pa_initialize :: bool
  pa_default_device :: int
  pa_devices :: "pa_device option list"
  pa_open_stream :: "int \<Rightarrow> bool"
  pa_start_stream :: "int \<Rightarrow> bool"

definition paNoDevice :: int where
  "paNoDevice = - 1"

section \<open>Choosing a device\<close>

text \<open>
  \<open>std::tolower\<close> in the C locale. The capture engine passes an \<open>unsigned char\<close>; the playback
  engine passes the plain \<open>char\<close>, which is negative from 128 on, where the call is undefined.
\<close>

definition c_tolower :: "char \<Rightarrow> char" where
  "c_tolower c =
     (if 65 \<le> (of_char c :: nat) \<and> (of_char c :: nat) \<le> 90 then char_of (of_char c + 32 :: nat) else c)"

definition lower_unsigned :: "string \<Rightarrow> string option" where
  "lower_unsigned s = Some (map c_tolower s)"

definition lower_plain :: "string \<Rightarrow> string option" where
  "lower_plain s = (if \<exists>c \<in> set s. 128 \<le> (of_char c :: nat) then None else Some (map c_tolower s))"

primrec contains_text :: "string \<Rightarrow> string \<Rightarrow> bool" where
  "contains_text needle [] = (needle = [])"
| "contains_text needle (c # cs) =
     (take (length needle) (c # cs) = needle \<or> contains_text needle cs)"

definition device_name :: "pa_device \<Rightarrow> string" where
  "device_name d = (case pd_name d of None \<Rightarrow> [] | Some n \<Rightarrow> n)"

text \<open>The scan of the device list from index \<open>i\<close> on; \<open>None\<close> is undefined behaviour.\<close>

fun scan_devices ::
  "(string \<Rightarrow> string option) \<Rightarrow> string \<Rightarrow> int \<Rightarrow> pa_device option list \<Rightarrow> int option" where
  "scan_devices lower selector i [] = Some paNoDevice"
| "scan_devices lower selector i (None # ds) = scan_devices lower selector (i + 1) ds"
| "scan_devices lower selector i (Some d # ds) =
     (if pd_channels d \<le> 0 then scan_devices lower selector (i + 1) ds
      else case (lower (device_name d), lower selector) of
             (Some name, Some needle) \<Rightarrow>
               (if contains_text needle name then Some i else scan_devices lower selector (i + 1) ds)
           | _ \<Rightarrow> None)"

definition pick_device :: "string \<Rightarrow> pa_api \<Rightarrow> int option" where
  "pick_device selector api =
     (if selector = [] \<or> selector = ''default'' then Some (pa_default_device api)
      else scan_devices lower_plain selector 0 (pa_devices api))"

definition pick_input_device :: "string \<Rightarrow> pa_api \<Rightarrow> int option" where
  "pick_input_device selector api =
     (if selector = [] \<or> selector = ''default'' then Some (pa_default_device api)
      else scan_devices lower_unsigned selector 0 (pa_devices api))"

section \<open>Opening a stream\<close>

text \<open>
  The middle part of both \<open>start\<close> functions: whether a stream is open and started at the end, and
  the flag \<open>pa_initialized\<close>. Every failure falls back to headless mode; a stream that does not
  start is closed again.
\<close>

definition open_device :: "bool \<Rightarrow> (pa_api \<Rightarrow> int option) \<Rightarrow> pa_api \<Rightarrow> bool \<Rightarrow> (bool \<times> bool) option" where
  "open_device wants_headless pick api initialized =
     (if wants_headless then Some (False, initialized)
      else if \<not> initialized \<and> \<not> pa_initialize api then Some (False, False)
      else case pick api of
             None \<Rightarrow> None
           | Some device \<Rightarrow>
               (if device = paNoDevice then Some (False, True)
                else if \<not> pa_open_stream api device then Some (False, True)
                else Some (pa_start_stream api device, True)))"

section \<open>The capture engine's start and stop\<close>

record capture_device =
  cd_engine :: capture_engine
  cd_input_device :: string
  cd_force_headless :: bool
  cd_running :: bool
  cd_headless :: bool
  cd_stream :: bool
  cd_initialized :: bool

definition cd_new :: "nat \<Rightarrow> string \<Rightarrow> capture_device" where
  "cd_new rate device =
     \<lparr>cd_engine = ce_new rate, cd_input_device = device, cd_force_headless = False, cd_running = False,
      cd_headless = False, cd_stream = False, cd_initialized = False\<rparr>"

definition cd_force :: "capture_device \<Rightarrow> capture_device" where
  "cd_force c = c\<lparr>cd_force_headless := True\<rparr>"

definition capture_start :: "pa_api \<Rightarrow> capture_device \<Rightarrow> (bool \<times> capture_device) option" where
  "capture_start api c =
     (if cd_running c then Some (True, c)
      else
        let wants_headless = cd_force_headless c \<or> cd_input_device c = ''none'' \<or> cd_input_device c = []
        in case open_device wants_headless (pick_input_device (cd_input_device c)) api (cd_initialized c) of
             None \<Rightarrow> None
           | Some (opened, ini) \<Rightarrow>
               Some (True, c\<lparr>cd_initialized := ini, cd_stream := opened, cd_running := True,
                             cd_headless := \<not> opened\<rparr>))"

definition capture_stop :: "capture_device \<Rightarrow> capture_device" where
  "capture_stop c =
     (if \<not> cd_running c then c else c\<lparr>cd_running := False, cd_stream := False, cd_initialized := False\<rparr>)"

text \<open>PortAudio calls back only while a stream is open; tests may inject at any time.\<close>

definition capture_callback ::
  "time_point \<Rightarrow> time_point \<Rightarrow> half_duplex_gate option \<Rightarrow> sample list option \<Rightarrow> capture_device \<Rightarrow>
     capture_device option" where
  "capture_callback now tick gate input c =
     (if cd_stream c then Some (c\<lparr>cd_engine := on_input now tick gate input (cd_engine c)\<rparr>) else None)"

section \<open>What the choice means\<close>

lemma contains_text_iff: "contains_text needle hay \<longleftrightarrow> (\<exists>xs ys. hay = xs @ needle @ ys)"
proof (induction hay)
  case (Cons c cs)
  have "take (length needle) (c # cs) = needle \<longleftrightarrow> (\<exists>ys. c # cs = needle @ ys)"
    by (metis append_eq_conv_conj append_take_drop_id)
  moreover have "(\<exists>xs ys. c # cs = xs @ needle @ ys) \<longleftrightarrow>
      (\<exists>ys. c # cs = needle @ ys) \<or> (\<exists>xs ys. cs = xs @ needle @ ys)"
    by (metis append_Cons append_Nil neq_Nil_conv list.inject)
  ultimately show ?case using Cons.IH by simp
qed simp

definition device_matches :: "(string \<Rightarrow> string option) \<Rightarrow> string \<Rightarrow> pa_device option \<Rightarrow> bool" where
  "device_matches lower selector d =
     (case d of
        None \<Rightarrow> False
      | Some d' \<Rightarrow> 0 < pd_channels d' \<and>
          (\<exists>name needle. lower (device_name d') = Some name \<and> lower selector = Some needle \<and>
             contains_text needle name))"

lemma scan_devices_result:
  assumes "scan_devices lower selector i ds = Some k"
  shows "k = paNoDevice \<and> (\<forall>d \<in> set ds. \<not> device_matches lower selector d) \<or>
    (\<exists>n < length ds. k = i + int n \<and> device_matches lower selector (ds ! n) \<and>
       (\<forall>m < n. \<not> device_matches lower selector (ds ! m)))"
  using assms
proof (induction lower selector i ds rule: scan_devices.induct)
  case (2 lower selector i ds)
  have none: "\<not> device_matches lower selector None" by (simp add: device_matches_def)
  from 2 consider "k = paNoDevice" "\<forall>d \<in> set ds. \<not> device_matches lower selector d"
    | n where "n < length ds" "k = i + 1 + int n" "device_matches lower selector (ds ! n)"
      "\<forall>m < n. \<not> device_matches lower selector (ds ! m)" by auto
  then show ?case
  proof cases
    case (2 n)
    with none show ?thesis
      by (intro disjI2 exI [of _ "Suc n"]) (auto simp: less_Suc_eq_0_disj)
  qed (simp add: none)
next
  case (3 lower selector i d ds)
  show ?case
  proof (cases "device_matches lower selector (Some d)")
    case True
    with 3(3) show ?thesis
      by (intro disjI2 exI [of _ 0]) (auto simp: device_matches_def split: if_splits)
  next
    case False
    with 3(3) have rec: "scan_devices lower selector (i + 1) ds = Some k"
      by (auto simp: device_matches_def split: if_splits option.splits)
    have "k = paNoDevice \<and> (\<forall>d \<in> set ds. \<not> device_matches lower selector d) \<or>
      (\<exists>n < length ds. k = i + 1 + int n \<and> device_matches lower selector (ds ! n) \<and>
         (\<forall>m < n. \<not> device_matches lower selector (ds ! m)))"
    proof (cases "pd_channels d \<le> 0")
      case True then show ?thesis using 3(1) rec by blast
    next
      case False
      with 3(3) obtain name needle where "lower (device_name d) = Some name" "lower selector = Some needle"
        by (auto split: option.splits)
      moreover from this \<open>\<not> device_matches lower selector (Some d)\<close> False
      have "\<not> contains_text needle name" by (auto simp: device_matches_def)
      ultimately show ?thesis using 3(2) [OF False] rec by auto
    qed
    then show ?thesis
    proof (elim disjE exE conjE)
      fix n assume "n < length ds" "k = i + 1 + int n" "device_matches lower selector (ds ! n)"
        "\<forall>m < n. \<not> device_matches lower selector (ds ! m)"
      with False show ?thesis
        by (intro disjI2 exI [of _ "Suc n"]) (auto simp: less_Suc_eq_0_disj)
    qed (use False in simp)
  qed
qed auto

text \<open>The capture engine's choice is always defined; the playback engine's only for ASCII names.\<close>

lemma scan_unsigned_defined: "scan_devices lower_unsigned selector i ds \<noteq> None"
  by (induction lower_unsigned selector i ds rule: scan_devices.induct)
    (auto simp: lower_unsigned_def)

lemma pick_input_device_defined: "pick_input_device selector api \<noteq> None"
  using scan_unsigned_defined [of selector 0 "pa_devices api"] by (auto simp: pick_input_device_def)

lemma pick_device_undefined:
  "pick_device ''hp'' \<lparr>pa_initialize = True, pa_default_device = 0,
     pa_devices = [Some \<lparr>pd_name = Some [CHR 0xC3, CHR 0x89], pd_channels = 2\<rparr>],
     pa_open_stream = (\<lambda>_. True), pa_start_stream = (\<lambda>_. True)\<rparr> = None"
  by (simp add: pick_device_def lower_plain_def device_name_def)

lemma lower_plain_ascii: "\<forall>c \<in> set s. (of_char c :: nat) < 128 \<Longrightarrow> lower_plain s = lower_unsigned s"
  by (auto simp: lower_plain_def lower_unsigned_def)

lemma scan_plain_ascii:
  assumes "\<forall>c \<in> set selector. (of_char c :: nat) < 128"
    and "\<forall>d. Some d \<in> set ds \<longrightarrow> (\<forall>c \<in> set (device_name d). (of_char c :: nat) < 128)"
  shows "scan_devices lower_plain selector i ds = scan_devices lower_unsigned selector i ds"
  using assms
proof (induction ds arbitrary: i)
  case (Cons d ds)
  have IH: "scan_devices lower_plain selector j ds = scan_devices lower_unsigned selector j ds" for j
    using Cons by (meson list.set_intros(2))
  show ?case
  proof (cases d)
    case (Some d')
    then have "lower_plain (device_name d') = lower_unsigned (device_name d')"
      using Cons.prems(2) by (simp add: lower_plain_ascii)
    with Some IH lower_plain_ascii [OF Cons.prems(1)] show ?thesis by (auto split: option.splits)
  qed (simp add: IH)
qed simp

section \<open>The capture engine's life\<close>

definition cd_inv :: "capture_device \<Rightarrow> bool" where
  "cd_inv c \<longleftrightarrow> (cd_stream c \<longrightarrow> cd_running c \<and> cd_initialized c) \<and>
     (cd_running c \<longrightarrow> cd_headless c = (\<not> cd_stream c))"

lemma cd_new_inv: "cd_inv (cd_new rate device)"
  by (simp add: cd_inv_def cd_new_def)

lemma open_device_initialized: "open_device h pick api ini = Some (True, ini') \<Longrightarrow> ini'"
  by (auto simp: open_device_def split: if_splits option.splits)

lemma capture_start_runs:
  assumes "cd_inv c"
  obtains c' where "capture_start api c = Some (True, c')" "cd_running c'" "cd_inv c'"
    "cd_engine c' = cd_engine c"
proof (cases "cd_running c")
  case True
  with assms that [of c] show ?thesis by (simp add: capture_start_def)
next
  case False
  define od where "od = open_device (cd_force_headless c \<or> cd_input_device c = ''none'' \<or> cd_input_device c = [])
    (pick_input_device (cd_input_device c)) api (cd_initialized c)"
  have "od \<noteq> None"
    using pick_input_device_defined [of "cd_input_device c" api]
    by (auto simp: od_def open_device_def split: option.splits)
  then obtain opened ini where od: "od = Some (opened, ini)" by auto
  let ?c = "c\<lparr>cd_initialized := ini, cd_stream := opened, cd_running := True, cd_headless := \<not> opened\<rparr>"
  have "capture_start api c = Some (True, ?c)"
    using False od by (simp add: capture_start_def od_def Let_def)
  moreover have "cd_inv ?c"
    using open_device_initialized od by (auto simp: cd_inv_def od_def)
  ultimately show ?thesis using that [of ?c] by simp
qed

lemma capture_stop_inv: "cd_inv c \<Longrightarrow> cd_inv (capture_stop c)"
  by (cases "cd_running c") (simp_all add: capture_stop_def cd_inv_def)

text \<open>After \<open>stop\<close> no callback captures anything, and \<open>start\<close> opens the device again.\<close>

lemma stopped_capture_silent:
  assumes "cd_inv c"
  shows "capture_callback now tick gate input (capture_stop c) = None"
proof -
  have "\<not> cd_stream (capture_stop c)"
    using assms by (cases "cd_running c") (simp_all add: capture_stop_def cd_inv_def)
  then show ?thesis by (simp add: capture_callback_def)
qed

end
