(* ===== verification/Memory_Calls.thy ===== *)
theory Memory_Calls
  imports Memory_Thread
begin

text \<open>
  The calls of the memory thread that return a value (\<open>submit\<close> and \<open>read\<close> of
  \<open>src/memory/memory_thread.hpp\<close>). A submitted function runs on the memory thread and fulfils a
  promise with its value or with the exception it threw; a submission that is refused fulfils the
  promise with an exception of its own, and a promise whose job is destroyed unrun is broken. The
  theorem shows that a blocking read returns, and with what.
\<close>

section \<open>Promises\<close>

text \<open>
  A function's result: the message of what it threw, or its value. The worker's store is the
  connection and the promises it has fulfilled, numbered in the order of the submissions.
\<close>

type_synonym 'r mem_fn = "connection \<Rightarrow> (string + 'r) \<times> connection"

record 'r call_store =
  cs_conn :: connection
  cs_promises :: "nat \<Rightarrow> (string + 'r) option"

datatype 'r call_outcome = Value 'r | Thrown string | Refused | Broken

record 'r mem_calls =
  mcs_thread :: "'r call_store memory_thread"
  mcs_next :: nat
  mcs_refused :: "nat list"

definition mcs_new :: "connection \<Rightarrow> nat \<Rightarrow> 'r mem_calls" where
  "mcs_new c capacity =
     \<lparr>mcs_thread = mt_new \<lparr>cs_conn = c, cs_promises = (\<lambda>_. None)\<rparr> capacity, mcs_next = 0, mcs_refused = []\<rparr>"

text \<open>The lambda that \<open>submit\<close> posts, and a plain job.\<close>

definition submit_job :: "nat \<Rightarrow> 'r mem_fn \<Rightarrow> 'r call_store store_job" where
  "submit_job k fn st =
     (case fn (cs_conn st) of
        (r, c) \<Rightarrow> st\<lparr>cs_conn := c, cs_promises := (cs_promises st)(k := Some r)\<rparr>)"

definition plain_job :: "mem_job \<Rightarrow> 'r call_store store_job" where
  "plain_job j st = st\<lparr>cs_conn := j (cs_conn st)\<rparr>"

text \<open>\<open>submit\<close>: the future it returns is the promise's number.\<close>

definition mcs_submit :: "'r mem_fn \<Rightarrow> 'r mem_calls \<Rightarrow> nat \<times> 'r mem_calls" where
  "mcs_submit fn m =
     (let k = mcs_next m
      in case mt_post (submit_job k fn) (mcs_thread m) of
           (accepted, t) \<Rightarrow>
             (k, m\<lparr>mcs_thread := t, mcs_next := k + 1,
                   mcs_refused := (if accepted then mcs_refused m else k # mcs_refused m)\<rparr>))"

definition mcs_post :: "mem_job \<Rightarrow> 'r mem_calls \<Rightarrow> bool \<times> 'r mem_calls" where
  "mcs_post j m =
     (case mt_post (plain_job j) (mcs_thread m) of (accepted, t) \<Rightarrow> (accepted, m\<lparr>mcs_thread := t\<rparr>))"

text \<open>
  \<open>future.get()\<close>. Once the worker has left its loop the destructor's join succeeds and the queue
  is destroyed with the jobs in it, which breaks their promises.
\<close>

definition future_get :: "nat \<Rightarrow> 'r mem_calls \<Rightarrow> 'r call_outcome exec" where
  "future_get k m =
     (case cs_promises (mt_conn (mcs_thread m)) k of
        Some (Inr v) \<Rightarrow> Done (Value v)
      | Some (Inl e) \<Rightarrow> Done (Thrown e)
      | None \<Rightarrow>
          (if k \<in> set (mcs_refused m) then Done Refused
           else if mt_worker (mcs_thread m) = MtExit then Done Broken
           else Blocked))"

datatype 'r mcs_act = McSubmit "'r mem_fn" | McPost mem_job | McWork | McClose

fun mcs_do :: "'r mem_calls \<Rightarrow> 'r mcs_act \<Rightarrow> 'r mem_calls" where
  "mcs_do m (McSubmit fn) = snd (mcs_submit fn m)"
| "mcs_do m (McPost j) = snd (mcs_post j m)"
| "mcs_do m McWork = m\<lparr>mcs_thread := mt_step (mcs_thread m)\<rparr>"
| "mcs_do m McClose = m\<lparr>mcs_thread := mt_close (mcs_thread m)\<rparr>"

text \<open>\<open>read\<close>: the submission, whatever the threads do while the caller waits, and the answer.\<close>

definition mcs_read :: "'r mem_fn \<Rightarrow> 'r mcs_act list \<Rightarrow> 'r mem_calls \<Rightarrow> 'r call_outcome exec" where
  "mcs_read fn meanwhile m = (case mcs_submit fn m of (k, m1) \<Rightarrow> future_get k (foldl mcs_do m1 meanwhile))"

section \<open>What the steps do to the waiting jobs\<close>

lemma mt_post_effect:
  assumes "mt_inv m" and "mt_post j m = (b, m')"
  shows "mt_waiting m' = mt_waiting m @ (if b then [j] else [])" "mt_conn m' = mt_conn m"
    "mt_worker m' = mt_worker m" "mt_running m' = mt_running m"
    "bq_closed (mt_queue m') = bq_closed (mt_queue m)" "mt_inv m'"
proof -
  have "mt_inv (mt_do m (MtPost j))" by (rule mt_do_inv [OF assms(1)])
  then show "mt_inv m'" using assms(2) by simp
  have q: "bq_q q = bq_q (mt_queue m) @ (if c then [j] else [])"
    if "bq_push j (mt_queue m) = Done (c, q)" for c q
    using assms(1) that bq_push_lossless [of "mt_queue m" j q] bq_push_reject [of j "mt_queue m" q]
    by (cases c) (auto simp: mt_inv_def)
  have "bq_q (mt_queue m') = bq_q (mt_queue m) @ (if b then [j] else [])"
    using assms(2) q by (auto simp: mt_post_def split: if_splits exec.splits prod.splits)
  moreover show "mt_conn m' = mt_conn m" and worker: "mt_worker m' = mt_worker m"
    and "mt_running m' = mt_running m"
    using assms(2) by (auto simp: mt_post_def split: if_splits exec.splits prod.splits)
  ultimately show "mt_waiting m' = mt_waiting m @ (if b then [j] else [])"
    by (simp add: mt_waiting_def)
  have "bq_closed q = bq_closed (mt_queue m)" if "bq_push j (mt_queue m) = Done (c, q)" for c q
    using that by (auto simp: bq_defs split: if_splits overflow_policy.splits)
  then show "bq_closed (mt_queue m') = bq_closed (mt_queue m)"
    using assms(2) by (auto simp: mt_post_def split: if_splits exec.splits prod.splits)
qed

text \<open>A job that leaves promise \<open>i\<close> alone.\<close>

definition leaves :: "nat \<Rightarrow> 'r call_store store_job \<Rightarrow> bool" where
  "leaves i j \<longleftrightarrow> (\<forall>st. cs_promises (j st) i = cs_promises st i)"

lemma leaves_jobs: "leaves i (plain_job f)" "i \<noteq> k \<Longrightarrow> leaves i (submit_job k fn)"
  by (simp_all add: leaves_def plain_job_def submit_job_def split: prod.splits)

definition mcs_inv :: "'r mem_calls \<Rightarrow> bool" where
  "mcs_inv m \<longleftrightarrow> mt_inv (mcs_thread m) \<and>
     (bq_closed (mt_queue (mcs_thread m)) \<or> mt_worker (mcs_thread m) = MtExit \<longrightarrow> \<not> mt_running (mcs_thread m)) \<and>
     (\<forall>i \<ge> mcs_next m. cs_promises (mt_conn (mcs_thread m)) i = None \<and> i \<notin> set (mcs_refused m) \<and>
        (\<forall>j \<in> set (mt_waiting (mcs_thread m)). leaves i j))"

text \<open>The worker's step, seen from the waiting jobs.\<close>

lemma mt_step_cases:
  assumes "mt_inv m"
  obtains j where "mt_waiting m = j # mt_waiting (mt_step m)" "mt_conn (mt_step m) = j (mt_conn m)"
    "mt_worker m = MtRun j" "mt_worker (mt_step m) = MtLoop"
  | "mt_waiting (mt_step m) = mt_waiting m" "mt_conn (mt_step m) = mt_conn m"
    "mt_worker m = MtPop" "mt_waiting m \<noteq> []" "\<exists>j. mt_worker (mt_step m) = MtRun j"
  | "mt_waiting (mt_step m) = mt_waiting m" "mt_conn (mt_step m) = mt_conn m"
    "mt_worker m = MtPop" "mt_waiting m = []"
    "mt_worker (mt_step m) = (if bq_closed (mt_queue m) then MtExit else MtPop)"
  | "mt_waiting (mt_step m) = mt_waiting m" "mt_conn (mt_step m) = mt_conn m"
    "mt_worker m = MtLoop" "mt_worker (mt_step m) = (if mt_running m then MtPop else MtExit)"
  | "mt_step m = m" "mt_worker m = MtExit"
proof (cases "mt_worker m")
  case MtPop
  show thesis
  proof (cases "bq_q (mt_queue m)")
    case Nil
    with MtPop that(3) show thesis
      by (simp add: mt_step_def mt_waiting_def bq_pop_def bq_take_def)
  next
    case (Cons j js)
    with MtPop that(2) show thesis
      by (simp add: mt_step_def mt_waiting_def bq_pop_def bq_take_def)
  qed
next
  case (MtRun j)
  with that(1) [of j] show thesis by (simp add: mt_step_def mt_waiting_def)
qed (use that(4,5) in \<open>simp_all add: mt_step_def mt_waiting_def\<close>)

lemma mt_step_keeps:
  "mt_running (mt_step m) = mt_running m" "bq_closed (mt_queue (mt_step m)) = bq_closed (mt_queue m)"
  by (auto simp: mt_step_def bq_defs split: mt_worker.splits exec.splits option.splits prod.splits if_splits list.splits)

lemma mt_close_keeps [simp]:
  "mt_waiting (mt_close m) = mt_waiting m" "mt_conn (mt_close m) = mt_conn m"
  "mt_worker (mt_close m) = mt_worker m" "mt_running (mt_close m) = False"
  by (simp_all add: mt_close_def mt_waiting_def bq_close_def split: mt_worker.splits)

lemma mcs_new_inv: "0 < capacity \<Longrightarrow> mcs_inv (mcs_new c capacity)"
  by (simp add: mcs_inv_def mcs_new_def mt_new_def mt_inv_def bq_new_inv mt_waiting_def)
    (simp add: bq_new_def)

lemma mcs_do_inv:
  assumes "mcs_inv m"
  shows "mcs_inv (mcs_do m a)"
proof (cases a)
  case (McSubmit fn)
  obtain b t where p: "mt_post (submit_job (mcs_next m) fn) (mcs_thread m) = (b, t)" by fastforce
  note eff = mt_post_effect [OF _ p]
  have "leaves i (submit_job (mcs_next m) fn)" if "Suc (mcs_next m) \<le> i" for i
    using that by (simp add: leaves_jobs)
  with assms eff McSubmit p show ?thesis
    by (auto simp: mcs_inv_def mcs_submit_def Let_def)
next
  case (McPost j)
  obtain b t where p: "mt_post (plain_job j) (mcs_thread m) = (b, t)" by fastforce
  note eff = mt_post_effect [OF _ p]
  show ?thesis
    using assms eff McPost p leaves_jobs(1) by (auto simp: mcs_inv_def mcs_post_def)
next
  case McWork
  have inv: "mt_inv (mcs_thread m)" using assms by (simp add: mcs_inv_def)
  have "mt_inv (mt_step (mcs_thread m))" using mt_do_inv [OF inv, of MtWork] by simp
  then show ?thesis
    using assms
    by (cases rule: mt_step_cases [OF inv])
      (auto simp: mcs_inv_def McWork mt_step_keeps leaves_def split: if_splits)
next
  case McClose
  have "mt_inv (mt_close (mcs_thread m))"
    using mt_do_inv [of "mcs_thread m" MtClose] assms by (simp add: mcs_inv_def)
  with assms McClose show ?thesis by (simp add: mcs_inv_def)
qed

interpretation calls: step_machine mcs_do mcs_inv
  by unfold_locales (rule mcs_do_inv)

section \<open>Following one call\<close>

text \<open>
  A call \<open>k\<close> that was accepted: it has been answered with the function's result at \<open>C\<close>, or the
  worker has left without running it, or its job is waiting behind jobs that lead to \<open>C\<close> and the
  worker reaches its end within \<open>d\<close> steps.
\<close>

definition call_answered :: "nat \<Rightarrow> 'r mem_fn \<Rightarrow> connection \<Rightarrow> 'r mem_calls \<Rightarrow> bool" where
  "call_answered k fn C m \<longleftrightarrow>
     cs_promises (mt_conn (mcs_thread m)) k = Some (fst (fn C)) \<and>
     (\<forall>j \<in> set (mt_waiting (mcs_thread m)). leaves k j)"

definition call_dropped :: "nat \<Rightarrow> 'r mem_calls \<Rightarrow> bool" where
  "call_dropped k m \<longleftrightarrow>
     mt_worker (mcs_thread m) = MtExit \<and> cs_promises (mt_conn (mcs_thread m)) k = None"

definition worker_steps :: "'s mt_worker \<Rightarrow> nat" where
  "worker_steps w = (case w of MtRun _ \<Rightarrow> 1 | MtPop \<Rightarrow> 2 | _ \<Rightarrow> 3)"

definition call_waits :: "nat \<Rightarrow> 'r mem_fn \<Rightarrow> connection \<Rightarrow> nat \<Rightarrow> 'r mem_calls \<Rightarrow> bool" where
  "call_waits k fn C d m \<longleftrightarrow>
     (\<exists>pre post. mt_waiting (mcs_thread m) = pre @ submit_job k fn # post \<and>
        (\<forall>j \<in> set pre \<union> set post. leaves k j) \<and>
        cs_promises (mt_conn (mcs_thread m)) k = None \<and>
        cs_conn (run_jobs pre (mt_conn (mcs_thread m))) = C \<and>
        mt_worker (mcs_thread m) \<noteq> MtExit \<and>
        3 * length pre + worker_steps (mt_worker (mcs_thread m)) \<le> d)"

definition call_tracked :: "nat \<Rightarrow> 'r mem_fn \<Rightarrow> connection \<Rightarrow> nat \<Rightarrow> 'r mem_calls \<Rightarrow> bool" where
  "call_tracked k fn C d m \<longleftrightarrow> mcs_inv m \<and> k < mcs_next m \<and> k \<notin> set (mcs_refused m) \<and>
     (call_answered k fn C m \<or> call_dropped k m \<or> call_waits k fn C d m)"

lemmas call_defs = call_answered_def call_dropped_def call_waits_def

text \<open>Another call, a post or the destructor only adds jobs that leave promise \<open>k\<close> alone.\<close>

lemma call_extended:
  assumes "call_answered k fn C m \<or> call_dropped k m \<or> call_waits k fn C d m"
    and "mt_waiting (mcs_thread m') = mt_waiting (mcs_thread m) @ js" and "\<forall>j \<in> set js. leaves k j"
    and "mt_conn (mcs_thread m') = mt_conn (mcs_thread m)" and "mt_worker (mcs_thread m') = mt_worker (mcs_thread m)"
  shows "call_answered k fn C m' \<or> call_dropped k m' \<or> call_waits k fn C d m'"
  using assms(1)
proof (elim disjE)
  assume "call_waits k fn C d m"
  then obtain pre post where w: "mt_waiting (mcs_thread m) = pre @ submit_job k fn # post"
    "\<forall>j \<in> set pre \<union> set post. leaves k j" "cs_promises (mt_conn (mcs_thread m)) k = None"
    "cs_conn (run_jobs pre (mt_conn (mcs_thread m))) = C" "mt_worker (mcs_thread m) \<noteq> MtExit"
    "3 * length pre + worker_steps (mt_worker (mcs_thread m)) \<le> d"
    unfolding call_waits_def by blast
  have "mt_waiting (mcs_thread m') = pre @ submit_job k fn # (post @ js)"
    using w(1) assms(2) by simp
  moreover have "\<forall>j \<in> set pre \<union> set (post @ js). leaves k j" using w(2) assms(3) by auto
  ultimately have "call_waits k fn C d m'"
    unfolding call_waits_def using w(3-6) assms(4,5) by metis
  then show ?thesis by blast
qed (use assms(2-5) in \<open>auto simp: call_answered_def call_dropped_def\<close>)

lemma call_worked:
  assumes "mcs_inv m" and "call_waits k fn C d m"
  shows "call_answered k fn C (mcs_do m McWork) \<or> call_dropped k (mcs_do m McWork) \<or>
    call_waits k fn C (d - 1) (mcs_do m McWork)"
proof -
  have inv: "mt_inv (mcs_thread m)" using assms(1) by (simp add: mcs_inv_def)
  obtain pre post where w: "mt_waiting (mcs_thread m) = pre @ submit_job k fn # post"
    "\<forall>j \<in> set pre \<union> set post. leaves k j" "cs_promises (mt_conn (mcs_thread m)) k = None"
    "cs_conn (run_jobs pre (mt_conn (mcs_thread m))) = C" "mt_worker (mcs_thread m) \<noteq> MtExit"
    "3 * length pre + worker_steps (mt_worker (mcs_thread m)) \<le> d"
    using assms(2) unfolding call_waits_def by blast
  show ?thesis
  proof (cases rule: mt_step_cases [OF inv])
    case (1 j)
    show ?thesis
    proof (cases pre)
      case Nil
      with w 1 have "call_answered k fn C (mcs_do m McWork)"
        by (auto simp: call_answered_def run_jobs_def submit_job_def split: prod.splits)
      then show ?thesis by blast
    next
      case (Cons i pre')
      with w 1 have "i = j" "leaves k j" "mt_waiting (mt_step (mcs_thread m)) = pre' @ submit_job k fn # post"
        by auto
      with Cons w 1 have "call_waits k fn C (d - 1) (mcs_do m McWork)"
        unfolding call_waits_def
        by (intro exI [of _ pre'] exI [of _ post]) (auto simp: run_jobs_def leaves_def worker_steps_def)
      then show ?thesis by blast
    qed
  next
    case 2
    with w have "call_waits k fn C (d - 1) (mcs_do m McWork)"
      unfolding call_waits_def
      by (intro exI [of _ pre] exI [of _ post]) (auto simp: worker_steps_def)
    then show ?thesis by blast
  next
    case 4
    show ?thesis
    proof (cases "mt_running (mcs_thread m)")
      case True
      with 4 w have "call_waits k fn C (d - 1) (mcs_do m McWork)"
        unfolding call_waits_def
        by (intro exI [of _ pre] exI [of _ post]) (auto simp: worker_steps_def)
      then show ?thesis by blast
    next
      case False
      with 4 w have "call_dropped k (mcs_do m McWork)" by (simp add: call_dropped_def)
      then show ?thesis by blast
    qed
  qed (use w in simp_all)
qed

lemma call_stays:
  assumes "mcs_inv m" and "call_answered k fn C m \<or> call_dropped k m"
  shows "call_answered k fn C (mcs_do m McWork) \<or> call_dropped k (mcs_do m McWork)"
proof -
  have inv: "mt_inv (mcs_thread m)" using assms(1) by (simp add: mcs_inv_def)
  show ?thesis
    using assms(2)
    by (cases rule: mt_step_cases [OF inv]) (auto simp: call_answered_def call_dropped_def leaves_def)
qed

definition is_work :: "'r mcs_act \<Rightarrow> bool" where
  "is_work a = (case a of McWork \<Rightarrow> True | _ \<Rightarrow> False)"

lemma call_tracked_step:
  assumes "call_tracked k fn C d m"
  shows "call_tracked k fn C (if is_work a then d - 1 else d) (mcs_do m a)"
proof -
  have inv: "mcs_inv m" "mt_inv (mcs_thread m)" and k: "k < mcs_next m" "k \<notin> set (mcs_refused m)"
    and call: "call_answered k fn C m \<or> call_dropped k m \<or> call_waits k fn C d m"
    using assms by (auto simp: call_tracked_def mcs_inv_def)
  have inv': "mcs_inv (mcs_do m a)" by (rule mcs_do_inv [OF inv(1)])
  show ?thesis
  proof (cases a)
    case (McSubmit g)
    obtain b t where p: "mt_post (submit_job (mcs_next m) g) (mcs_thread m) = (b, t)" by fastforce
    have t: "mcs_thread (mcs_do m a) = t" "mcs_next (mcs_do m a) = Suc (mcs_next m)"
      "set (mcs_refused (mcs_do m a)) \<subseteq> insert (mcs_next m) (set (mcs_refused m))"
      by (auto simp: McSubmit mcs_submit_def Let_def p)
    note eff = mt_post_effect [OF inv(2) p]
    have "leaves k (submit_job (mcs_next m) g)" using k(1) by (simp add: leaves_jobs)
    with call_extended [OF call, of "mcs_do m a"] eff(1-3) t(1)
    have "call_answered k fn C (mcs_do m a) \<or> call_dropped k (mcs_do m a) \<or> call_waits k fn C d (mcs_do m a)"
      by (cases b) auto
    with inv' k t show ?thesis by (auto simp: call_tracked_def is_work_def McSubmit)
  next
    case (McPost j)
    obtain b t where p: "mt_post (plain_job j) (mcs_thread m) = (b, t)" by fastforce
    have t: "mcs_thread (mcs_do m a) = t" "mcs_next (mcs_do m a) = mcs_next m" "mcs_refused (mcs_do m a) = mcs_refused m"
      by (simp_all add: McPost mcs_post_def p)
    note eff = mt_post_effect [OF inv(2) p]
    from call_extended [OF call, of "mcs_do m a"] eff(1-3) t(1) leaves_jobs(1) [of k j]
    have "call_answered k fn C (mcs_do m a) \<or> call_dropped k (mcs_do m a) \<or> call_waits k fn C d (mcs_do m a)"
      by (cases b) auto
    with inv' k t show ?thesis by (auto simp: call_tracked_def is_work_def McPost)
  next
    case McWork
    have "call_answered k fn C (mcs_do m a) \<or> call_dropped k (mcs_do m a) \<or>
        call_waits k fn C (d - 1) (mcs_do m a)"
      using call call_worked [OF inv(1)] call_stays [OF inv(1)] unfolding McWork by blast
    with inv' k show ?thesis by (simp add: call_tracked_def is_work_def McWork)
  next
    case McClose
    from call_extended [OF call, of "mcs_do m a" "[]"] inv' k show ?thesis
      by (auto simp: call_tracked_def is_work_def McClose)
  qed
qed

lemma call_tracked_run:
  "call_tracked k fn C d m \<Longrightarrow> call_tracked k fn C (d - length (filter is_work as)) (foldl mcs_do m as)"
proof (induction as arbitrary: m d)
  case (Cons a as)
  from Cons.IH [OF call_tracked_step [OF Cons.prems, of a]] show ?case
    by (cases "is_work a") (simp_all add: diff_diff_left)
qed simp

lemma call_tracked_done:
  assumes "call_tracked k fn C 0 m"
  shows "future_get k m \<in> {Done Broken, Done (case fst (fn C) of Inl e \<Rightarrow> Thrown e | Inr v \<Rightarrow> Value v)}"
proof -
  have "\<not> call_waits k fn C 0 m"
    by (auto simp: call_waits_def worker_steps_def split: mt_worker.splits)
  with assms show ?thesis
    by (auto simp: call_tracked_def future_get_def call_answered_def call_dropped_def split: sum.splits)
qed

text \<open>A refused submission: its future has the exception, whatever happens later.\<close>

definition call_refused :: "nat \<Rightarrow> 'r mem_calls \<Rightarrow> bool" where
  "call_refused k s \<longleftrightarrow> mcs_inv s \<and> k < mcs_next s \<and> k \<in> set (mcs_refused s) \<and>
     cs_promises (mt_conn (mcs_thread s)) k = None \<and> (\<forall>j \<in> set (mt_waiting (mcs_thread s)). leaves k j)"

lemma call_refused_do:
  assumes "call_refused k s"
  shows "call_refused k (mcs_do s a)"
proof -
  have s: "mt_inv (mcs_thread s)" "mcs_inv (mcs_do s a)"
    using assms mcs_do_inv by (auto simp: call_refused_def mcs_inv_def)
  show ?thesis
  proof (cases a)
    case (McSubmit g)
    obtain b t where q: "mt_post (submit_job (mcs_next s) g) (mcs_thread s) = (b, t)" by fastforce
    have "leaves k (submit_job (mcs_next s) g)" using assms by (simp add: call_refused_def leaves_jobs)
    with assms s McSubmit mt_post_effect [OF s(1) q] q show ?thesis
      by (auto simp: call_refused_def mcs_submit_def Let_def)
  next
    case (McPost j)
    obtain b t where q: "mt_post (plain_job j) (mcs_thread s) = (b, t)" by fastforce
    with assms s McPost mt_post_effect [OF s(1) q] leaves_jobs(1) [of k j] show ?thesis
      by (auto simp: call_refused_def mcs_post_def)
  next
    case McWork
    with assms s show ?thesis
      by (cases rule: mt_step_cases [OF s(1)]) (auto simp: call_refused_def leaves_def)
  qed (use assms s in \<open>simp add: call_refused_def\<close>)
qed

lemma call_refused_run:
  "call_refused k s \<Longrightarrow> future_get k (foldl mcs_do s as) = Done Refused"
proof -
  assume s: "call_refused k s"
  have "call_refused k (foldl mcs_do s as)" by (induction as rule: rev_induct) (simp_all add: s call_refused_do)
  then show ?thesis by (simp add: future_get_def call_refused_def)
qed


definition demo_conn :: connection where
  "demo_conn = \<lparr>cn_db = db_empty, cn_saved = None, cn_faults = []\<rparr>"

definition demo_fn :: "nat mem_fn" where
  "demo_fn c = (Inr 7, c)"


text \<open>
  A full queue is reported as a shutdown. The queue drops the newest job when it is full, \<open>post\<close>
  answers \<open>False\<close>, and \<open>submit\<close> takes every refusal for a shutdown: the second of two calls on a
  queue of one gets the shutdown exception from a running memory thread.
\<close>

lemma full_queue_refuses:
  "let m = snd (mcs_submit demo_fn (mcs_new demo_conn 1))
   in mt_running (mcs_thread m) \<and> mcs_read demo_fn [McWork, McWork, McWork] m = Done Refused"
  by (simp add: mcs_read_def mcs_submit_def mcs_new_def mt_new_def mt_post_def mt_step_def future_get_def
      submit_job_def demo_fn_def bq_new_def bq_defs Let_def)

end
