(* ===== verification/Demo_Signals.thy ===== *)
theory Demo_Signals
  imports Playback_Engine Config
begin

text \<open>
  The signals the demonstration programs make and how they play them (\<open>src/demos/tone.cpp\<close>,
  \<open>src/demos/aec.cpp\<close>, \<open>src/demos/aec_hw.cpp\<close>, \<open>src/demos/aec_record.cpp\<close>): the generators as real
  functions converted to samples as the code converts them, and the loops that cut a signal into
  chunks and queue it. The lemmas show that no conversion overflows, that what is queued is the
  signal with one end notice, and that the tone program never queues anything on an unbounded
  queue.
\<close>

section \<open>Conversions\<close>

text \<open>\<open>std::lround\<close> (half away from zero) and the truncating conversion of a \<open>double\<close>.\<close>

definition lround :: "real \<Rightarrow> int" where
  "lround x = (if x < 0 then - \<lfloor>1 / 2 - x\<rfloor> else \<lfloor>x + 1 / 2\<rfloor>)"

definition real_trunc :: "real \<Rightarrow> int" where
  "real_trunc x = (if x < 0 then - \<lfloor>- x\<rfloor> else \<lfloor>x\<rfloor>)"

lemma lround_bound:
  assumes "\<bar>x\<bar> \<le> of_int n"
  shows "\<bar>lround x\<bar> \<le> n"
proof -
  have "lround x \<le> n \<and> - n \<le> lround x"
    using assms unfolding lround_def by (auto simp: abs_le_iff floor_le_iff le_floor_iff) linarith+
  then show ?thesis by (auto simp: abs_le_iff)
qed

lemma real_trunc_bound:
  assumes "\<bar>x\<bar> \<le> of_int n"
  shows "\<bar>real_trunc x\<bar> \<le> n"
proof -
  have "real_trunc x \<le> n \<and> - n \<le> real_trunc x"
    using assms unfolding real_trunc_def by (auto simp: abs_le_iff floor_le_iff le_floor_iff) linarith+
  then show ?thesis by (auto simp: abs_le_iff)
qed

lemma sample_of_int: "\<bar>k\<bar> \<le> 32767 \<Longrightarrow> sint (word_of_int k :: sample) = k"
  by (simp add: sint_sbintrunc' signed_take_bit_int_eq_self abs_le_iff)

section \<open>Generators\<close>

definition tone_sample :: "nat \<Rightarrow> nat \<Rightarrow> sample" where
  "tone_sample rate i =
     word_of_int (lround (sin (2 * pi * 440 * (real i / real rate)) * 0.30 * 32760))"

definition tone_total :: "nat \<Rightarrow> nat" where
  "tone_total rate = nat (real_trunc (real rate * 1.5))"

definition tone_signal :: "nat \<Rightarrow> sample list" where
  "tone_signal rate = map (tone_sample rate) [0..<tone_total rate]"

text \<open>The synthetic reference and microphone of the canceller check: 1 kHz, 50 ms later, weaker.\<close>

definition aec_ref_sample :: "nat \<Rightarrow> sample" where
  "aec_ref_sample i = word_of_int (real_trunc (sin (2 * pi * 1000 * real i / 48000) * 16000))"

definition mic_shift :: nat where
  "mic_shift = nat (real_trunc (16000 * 50 / 1000))"

definition aec_mic_sample :: "nat \<Rightarrow> sample" where
  "aec_mic_sample i =
     (let src = int i - int mic_shift;
          s = (if src < 0 then 0 else sin (2 * pi * 1000 * of_int src / 16000))
      in word_of_int (real_trunc (s * 0.4 * 16000)))"

text \<open>The sweep of the hardware check, at time \<open>i / rate\<close>.\<close>

definition chirp_sample :: "nat \<Rightarrow> nat \<Rightarrow> sample" where
  "chirp_sample rate i =
     (let t = real i / real rate;
          phase = 2 * pi * (200 * t + (2000 - 200) * t * t / (2 * 3))
      in word_of_int (lround (sin phase * 0.50 * 32760)))"

text \<open>
  The pink noise: five sources, source \<open>r\<close> drawn anew every \<open>2 ^ r\<close> samples, and their running sum.
  The random numbers are an argument: the draws, by their number.
\<close>

record pink =
  pk_rows :: "real list"
  pk_running :: real
  pk_draws :: "nat \<Rightarrow> real"
  pk_next :: nat

definition pink_new :: "(nat \<Rightarrow> real) \<Rightarrow> pink" where
  "pink_new draws = \<lparr>pk_rows = [0, 0, 0, 0, 0], pk_running = 0, pk_draws = draws, pk_next = 0\<rparr>"

definition pink_row :: "nat \<Rightarrow> pink \<Rightarrow> nat \<Rightarrow> pink" where
  "pink_row i p r =
     (if i mod 2 ^ r = 0
      then let d = pk_draws p (pk_next p)
           in p\<lparr>pk_rows := (pk_rows p)[r := d], pk_running := pk_running p - pk_rows p ! r + d,
                pk_next := pk_next p + 1\<rparr>
      else p)"

definition pink_step :: "nat \<Rightarrow> pink \<Rightarrow> sample \<times> pink" where
  "pink_step i p =
     (let p' = foldl (pink_row i) p [0, 1, 2, 3, 4]
      in (word_of_int (lround (pk_running p' / 5 * 0.50 * 32760)), p'))"

fun pink_samples :: "nat list \<Rightarrow> pink \<Rightarrow> sample list" where
  "pink_samples [] p = []"
| "pink_samples (i # is) p = (case pink_step i p of (s, p') \<Rightarrow> s # pink_samples is p')"

definition build_stimulus :: "nat \<Rightarrow> (nat \<Rightarrow> real) \<Rightarrow> sample list" where
  "build_stimulus rate draws =
     map (chirp_sample rate) [0..<nat (real_trunc (real rate * 3))]
     @ pink_samples [0..<nat (real_trunc (real rate * 3))] (pink_new draws)"

section \<open>No conversion overflows\<close>

lemma lround_sample:
  assumes "\<bar>s\<bar> \<le> 1" and "0 \<le> amp" and "amp \<le> 1"
  shows "\<bar>lround (s * amp * 32760)\<bar> \<le> 32760"
    "sint (word_of_int (lround (s * amp * 32760)) :: sample) = lround (s * amp * 32760)"
proof -
  have "\<bar>s * amp\<bar> \<le> 1 * 1"
    using assms unfolding abs_mult by (intro mult_mono) auto
  then have "\<bar>s * amp * 32760\<bar> \<le> of_int 32760" by (simp add: abs_mult)
  then show "\<bar>lround (s * amp * 32760)\<bar> \<le> 32760" by (rule lround_bound)
  then show "sint (word_of_int (lround (s * amp * 32760)) :: sample) = lround (s * amp * 32760)"
    by (intro sample_of_int) simp
qed

lemma tone_no_overflow:
  "sint (tone_sample rate i) = lround (sin (2 * pi * 440 * (real i / real rate)) * 0.30 * 32760)"
  unfolding tone_sample_def by (rule lround_sample(2)) simp_all

lemma chirp_no_overflow: "\<bar>sint (chirp_sample rate i)\<bar> \<le> 32760"
  unfolding chirp_sample_def Let_def
  by (subst lround_sample(2); (rule lround_sample(1))?) simp_all

lemma aec_signals_no_overflow:
  "sint (aec_ref_sample i) = real_trunc (sin (2 * pi * 1000 * real i / 48000) * 16000)"
  "\<bar>sint (aec_mic_sample i)\<bar> \<le> 6400"
proof -
  have bound: "\<bar>real_trunc (s * a)\<bar> \<le> n" if "\<bar>s\<bar> \<le> 1" "0 \<le> a" "a \<le> of_int n" for s a n
  proof (rule real_trunc_bound)
    have "\<bar>s * a\<bar> \<le> 1 * of_int n"
      using that unfolding abs_mult by (intro mult_mono) auto
    then show "\<bar>s * a\<bar> \<le> of_int n" by simp
  qed
  have "\<bar>real_trunc (sin (2 * pi * 1000 * real i / 48000) * 16000)\<bar> \<le> 16000"
    by (rule bound) simp_all
  then show "sint (aec_ref_sample i) = real_trunc (sin (2 * pi * 1000 * real i / 48000) * 16000)"
    unfolding aec_ref_sample_def by (intro sample_of_int) simp
  define s where "s = (if int i - int mic_shift < 0 then 0
    else sin (2 * pi * 1000 * of_int (int i - int mic_shift) / 16000))"
  have "\<bar>s\<bar> \<le> 1" by (simp add: s_def)
  from bound [OF this, of "0.4 * 16000" 6400] have "\<bar>real_trunc (s * (0.4 * 16000))\<bar> \<le> 6400" by simp
  then have k: "\<bar>real_trunc (s * 0.4 * 16000)\<bar> \<le> 6400" by (simp only: mult.assoc)
  then have "sint (word_of_int (real_trunc (s * 0.4 * 16000)) :: sample) = real_trunc (s * 0.4 * 16000)"
    by (intro sample_of_int) simp
  moreover have "aec_mic_sample i = word_of_int (real_trunc (s * 0.4 * 16000))"
    by (simp only: aec_mic_sample_def Let_def s_def)
  ultimately show "\<bar>sint (aec_mic_sample i)\<bar> \<le> 6400" using k by argo
qed

text \<open>The running sum of the noise is the sum of the five sources, each a draw.\<close>

definition pink_inv :: "pink \<Rightarrow> bool" where
  "pink_inv p \<longleftrightarrow> length (pk_rows p) = 5 \<and> pk_running p = sum_list (pk_rows p) \<and>
     (\<forall>x \<in> set (pk_rows p). \<bar>x\<bar> \<le> 1) \<and> (\<forall>k. \<bar>pk_draws p k\<bar> \<le> 1)"

lemma sum_list_update_real:
  "k < length xs \<Longrightarrow> sum_list (xs[k := x]) = sum_list xs + x - (xs ! k :: real)"
  by (induction xs arbitrary: k) (auto split: nat.splits)

lemma pink_row_inv: "pink_inv p \<Longrightarrow> r < 5 \<Longrightarrow> pink_inv (pink_row i p r)"
  by (auto simp: pink_inv_def pink_row_def sum_list_update_real Let_def
      dest!: set_update_subset_insert [THEN subsetD])

lemma pink_step_inv:
  assumes "pink_inv p"
  shows "pink_inv (snd (pink_step i p))" and "\<bar>sint (fst (pink_step i p))\<bar> \<le> 32760"
proof -
  define p' where "p' = foldl (pink_row i) p [0, 1, 2, 3, 4]"
  have inv: "pink_inv p'"
    using assms by (simp add: p'_def pink_row_inv)
  then show "pink_inv (snd (pink_step i p))" by (simp add: pink_step_def p'_def Let_def)
  have "\<bar>sum_list xs\<bar> \<le> real (length xs)" if "\<forall>x \<in> set xs. \<bar>x\<bar> \<le> 1" for xs :: "real list"
    using that by (induction xs) auto
  from this [of "pk_rows p'"] have "\<bar>pk_running p'\<bar> \<le> 5" using inv by (simp add: pink_inv_def)
  then have "\<bar>pk_running p' / 5\<bar> \<le> 1" by simp
  note ok = lround_sample [OF this, of "0.50"]
  have "fst (pink_step i p) = word_of_int (lround (pk_running p' / 5 * 0.50 * 32760))"
    by (simp only: pink_step_def Let_def p'_def fst_conv)
  with ok show "\<bar>sint (fst (pink_step i p))\<bar> \<le> 32760" by simp
qed

lemma pink_samples_bounded:
  "pink_inv p \<Longrightarrow> s \<in> set (pink_samples is p) \<Longrightarrow> \<bar>sint s\<bar> \<le> 32760"
proof (induction "is" arbitrary: p)
  case (Cons i "is")
  obtain s' p' where step: "pink_step i p = (s', p')" by fastforce
  with pink_step_inv [OF Cons.prems(1), of i] Cons show ?case by auto
qed simp

lemma stimulus_no_overflow:
  assumes "\<forall>k. \<bar>draws k\<bar> \<le> 1" and "s \<in> set (build_stimulus rate draws)"
  shows "\<bar>sint s\<bar> \<le> 32760"
proof -
  have "pink_inv (pink_new draws)" using assms(1) by (simp add: pink_inv_def pink_new_def)
  with assms(2) chirp_no_overflow pink_samples_bounded show ?thesis
    by (auto simp: build_stimulus_def)
qed

section \<open>Playing a signal\<close>

text \<open>
  The loop of the hardware checks: \<open>buf\<close> samples per chunk, numbered from \<open>k\<close>, each queued. With
  \<open>buf = 0\<close> it does not end.
\<close>

partial_function (option) stream_signal ::
  "nat \<Rightarrow> seq_no \<Rightarrow> sample list \<Rightarrow> playback_queue \<Rightarrow> (seq_no \<times> playback_queue) option" where
  "stream_signal buf k xs q =
     (if xs = [] then Some (k, q)
      else stream_signal buf (k + 1) (drop buf xs)
             (snd (pq_enqueue \<lparr>ch_turn = 1, ch_seq = k, ch_samples = take buf xs, ch_eos = False\<rparr> q)))"

text \<open>Then the end chunk, which makes the engine announce the end.\<close>

definition play_signal :: "nat \<Rightarrow> sample list \<Rightarrow> playback_queue \<Rightarrow> playback_queue option" where
  "play_signal buf xs q =
     (case stream_signal buf 0 xs q of
        None \<Rightarrow> None
      | Some (k, q') \<Rightarrow>
          Some (snd (pq_enqueue \<lparr>ch_turn = 1, ch_seq = k, ch_samples = [], ch_eos = True\<rparr> q')))"

lemma stream_signal_queues:
  assumes "0 < buf" and "pq_cap q = 0"
  shows "\<exists>k' cs. stream_signal buf k xs q = Some (k', q\<lparr>pq_q := pq_q q @ cs,
             pq_enqueued := pq_enqueued q + of_nat (length cs)\<rparr>) \<and>
           concat (map ch_samples cs) = xs \<and> (\<forall>c \<in> set cs. ch_turn c = 1 \<and> \<not> ch_eos c)"
  using assms(2)
proof (induction xs arbitrary: k q rule: length_induct)
  case (1 xs)
  show ?case
  proof (cases "xs = []")
    case True
    then show ?thesis
      by (intro exI [of _ k] exI [of _ "[]"]) (simp add: stream_signal.simps [of buf k "[]"])
  next
    case False
    let ?c = "\<lparr>ch_turn = 1, ch_seq = k, ch_samples = take buf xs, ch_eos = False\<rparr>"
    define q1 where "q1 = q\<lparr>pq_q := pq_q q @ [?c], pq_enqueued := pq_enqueued q + 1\<rparr>"
    have q1: "snd (pq_enqueue ?c q) = q1" "pq_cap q1 = 0"
      using 1(2) by (simp_all add: pq_enqueue_def pq_append_def q1_def)
    have "length (drop buf xs) < length xs" using False assms(1) by simp
    with 1(1) q1(2) obtain k' cs where rec: "stream_signal buf (k + 1) (drop buf xs) q1 =
        Some (k', q1\<lparr>pq_q := pq_q q1 @ cs, pq_enqueued := pq_enqueued q1 + of_nat (length cs)\<rparr>)"
      "concat (map ch_samples cs) = drop buf xs" "\<forall>c \<in> set cs. ch_turn c = 1 \<and> \<not> ch_eos c"
      by metis
    have "stream_signal buf k xs q = stream_signal buf (k + 1) (drop buf xs) q1"
      using False q1(1) by (simp add: stream_signal.simps [of buf k xs])
    with rec show ?thesis
      by (intro exI [of _ k'] exI [of _ "?c # cs"]) (simp add: q1_def ac_simps)
  qed
qed

text \<open>
  What the hardware checks queue is their signal: on an unbounded empty queue the stream of the
  played turn is exactly the signal, and one notice is due, after its last sample.
\<close>

theorem signal_queued:
  assumes "0 < buf"
  shows "\<exists>q. play_signal buf xs (pq_new 0) = Some q \<and>
    en_stream 1 (en_new prefill rate lb) q = xs \<and> length (en_due 1 (en_new prefill rate lb) q) = 1"
proof -
  obtain k cs where st: "stream_signal buf 0 xs (pq_new 0) = Some (k, (pq_new 0)\<lparr>pq_q := cs,
      pq_enqueued := of_nat (length cs)\<rparr>)"
    and cs: "concat (map ch_samples cs) = xs" "\<forall>c \<in> set cs. ch_turn c = 1 \<and> \<not> ch_eos c"
    using stream_signal_queues [OF assms, of "pq_new 0" 0 xs] by (auto simp: pq_new_def)
  let ?eos = "\<lparr>ch_turn = 1, ch_seq = k, ch_samples = [], ch_eos = True\<rparr>"
  define q where "q = snd (pq_enqueue ?eos ((pq_new 0)\<lparr>pq_q := cs, pq_enqueued := of_nat (length cs)\<rparr>))"
  have "pq_q q = cs @ [?eos]" by (simp add: q_def pq_enqueue_def pq_append_def pq_new_def)
  moreover have "filter (\<lambda>c. ch_turn c = 1) cs = cs" "filter ch_eos cs = []"
    "filter (\<lambda>c. ch_turn c = 1 \<and> ch_eos c) cs = []"
    using cs(2) by (auto simp: filter_id_conv filter_empty_conv)
  ultimately have "en_stream 1 (en_new prefill rate lb) q = xs"
    "length (en_due 1 (en_new prefill rate lb) q) = 1"
    by (simp_all add: en_stream_def en_due_def en_mine_def en_new_def chunk_empty_def cs(1))
  moreover have "play_signal buf xs (pq_new 0) = Some q" by (simp add: play_signal_def st q_def)
  ultimately show ?thesis by blast
qed

section \<open>The tone program\<close>

text \<open>
  Before it queues a chunk the tone program waits while the queue's size is not below its
  capacity. One poll either goes on or is \<open>Blocked\<close>.
\<close>

definition tone_enqueue :: "audio_chunk \<Rightarrow> playback_queue \<Rightarrow> playback_queue exec" where
  "tone_enqueue c q = (if pq_cap q \<le> pq_size q then Blocked else Done (snd (pq_enqueue c q)))"

definition tone_queue :: "config \<Rightarrow> playback_queue" where
  "tone_queue c = pq_new (unat (cpla_max_queue_chunks (cfg_playback c)))"

text \<open>
  The tone program hangs on the default configuration. A capacity of 0 means unbounded, so the
  queue's size is never below it: whatever the engine takes out in the meantime, the wait before
  the first chunk does not end.
\<close>

theorem tone_never_starts:
  "tone_enqueue c (foldl (\<lambda>q t. snd (pq_dequeue_active t q)) (tone_queue config_default) ts) = Blocked"
proof -
  have "pq_cap (foldl (\<lambda>q t. snd (pq_dequeue_active t q)) q ts) = pq_cap q" for q
    by (induction ts arbitrary: q) (auto simp: pq_dequeue_active_def split: prod.splits list.splits)
  moreover have "pq_cap (tone_queue config_default) = 0"
    by (simp add: tone_queue_def config_default_def pq_new_def)
  ultimately show ?thesis by (simp add: tone_enqueue_def)
qed

text \<open>On a bounded queue with room a chunk is queued.\<close>

lemma tone_enqueue_bounded:
  "pq_size q < pq_cap q \<Longrightarrow> tone_enqueue c q = Done (pq_append c q)"
  by (simp add: tone_enqueue_def pq_enqueue_def pq_size_def)

end
