(* ===== verification/Demo_Measures.thy ===== *)
theory Demo_Measures
  imports Playback_Engine Config Supervisor Sentence_Splitter Tts_Bridge
begin

text \<open>
  What the demonstration programs measure and conclude (\<open>src/demos/\<close>): the counters of the load
  test and their per-second windows, percentiles, the resampling of its fixture, level statistics
  of recordings, and the verdicts of the health, interruption, canceller, load and dialogue checks.
  Printing, and what the programs wait for, are not part of the model.
\<close>

section \<open>Load test: counters\<close>

text \<open>
  The counters of one service. Each \<open>fetch_add\<close> and each \<open>exchange\<close> is one step; the worker and the
  once-a-second reader interleave between them.
\<close>

record counters =
  ct_req :: counter
  ct_errors :: counter
  ct_total_ms :: counter
  ct_total_bytes :: counter
  ct_total_audio_ms :: counter
  ct_w_count :: counter
  ct_w_sum_ms :: counter
  ct_w_audio_ms :: counter
  ct_samples :: "counter list"

definition counters_new :: counters where
  "counters_new = \<lparr>ct_req = 0, ct_errors = 0, ct_total_ms = 0, ct_total_bytes = 0, ct_total_audio_ms = 0,
     ct_w_count = 0, ct_w_sum_ms = 0, ct_w_audio_ms = 0, ct_samples = []\<rparr>"

datatype counter_step =
    AddReq | AddError | AddMs counter | AddAudio counter | AddBytes counter
  | AddWCount | AddWSum counter | AddWAudio counter | PushSample counter
  | SnapCount | SnapSum | SnapAudio

definition record_steps :: "counter \<Rightarrow> counter \<Rightarrow> counter \<Rightarrow> counter_step list" where
  "record_steps ms audio_ms bytes =
     [AddReq, AddMs ms, AddAudio audio_ms, AddBytes bytes, AddWCount, AddWSum ms, AddWAudio audio_ms,
      PushSample ms]"

definition snap_steps :: "counter_step list" where
  "snap_steps = [SnapCount, SnapSum, SnapAudio]"

text \<open>A step, with the value an \<open>exchange\<close> hands out (0 for the others).\<close>

definition counter_do :: "counter_step \<Rightarrow> counters \<Rightarrow> counter \<times> counters" where
  "counter_do s c =
     (case s of
        AddReq \<Rightarrow> (0, c\<lparr>ct_req := ct_req c + 1\<rparr>)
      | AddError \<Rightarrow> (0, c\<lparr>ct_errors := ct_errors c + 1\<rparr>)
      | AddMs n \<Rightarrow> (0, c\<lparr>ct_total_ms := ct_total_ms c + n\<rparr>)
      | AddAudio n \<Rightarrow> (0, c\<lparr>ct_total_audio_ms := ct_total_audio_ms c + n\<rparr>)
      | AddBytes n \<Rightarrow> (0, c\<lparr>ct_total_bytes := ct_total_bytes c + n\<rparr>)
      | AddWCount \<Rightarrow> (0, c\<lparr>ct_w_count := ct_w_count c + 1\<rparr>)
      | AddWSum n \<Rightarrow> (0, c\<lparr>ct_w_sum_ms := ct_w_sum_ms c + n\<rparr>)
      | AddWAudio n \<Rightarrow> (0, c\<lparr>ct_w_audio_ms := ct_w_audio_ms c + n\<rparr>)
      | PushSample n \<Rightarrow> (0, c\<lparr>ct_samples := ct_samples c @ [n]\<rparr>)
      | SnapCount \<Rightarrow> (ct_w_count c, c\<lparr>ct_w_count := 0\<rparr>)
      | SnapSum \<Rightarrow> (ct_w_sum_ms c, c\<lparr>ct_w_sum_ms := 0\<rparr>)
      | SnapAudio \<Rightarrow> (ct_w_audio_ms c, c\<lparr>ct_w_audio_ms := 0\<rparr>))"

text \<open>A run: the sum of what the \<open>exchange\<close>s of one kind handed out, and the counters.\<close>

fun counter_run :: "counter_step \<Rightarrow> counter_step list \<Rightarrow> counters \<Rightarrow> counter \<times> counters" where
  "counter_run snap [] c = (0, c)"
| "counter_run snap (s # ss) c =
     (case counter_do s c of
        (v, c1) \<Rightarrow> (case counter_run snap ss c1 of
          (w, c2) \<Rightarrow> ((if s = snap then v else 0) + w, c2)))"

text \<open>
  No request is lost between two windows: in every interleaving the windows read and the window
  still open add up to the requests recorded (and their wall times to the recorded wall time),
  modulo the counters' width.
\<close>

lemma windows_add_up:
  "counter_run SnapCount ss c = (seen, c') \<Longrightarrow>
     seen + ct_w_count c' = ct_w_count c + of_nat (length (filter (\<lambda>s. s = AddWCount) ss))"
proof (induction ss arbitrary: c seen c')
  case (Cons s ss)
  obtain v c1 where s: "counter_do s c = (v, c1)" by fastforce
  obtain w c2 where r: "counter_run SnapCount ss c1 = (w, c2)" by fastforce
  with Cons.prems s have "c' = c2" "seen = (if s = SnapCount then v else 0) + w" by auto
  with Cons.IH [OF r] s show ?case
    by (cases s) (auto simp: counter_do_def algebra_simps)
qed simp

lemma window_times_add_up:
  "counter_run SnapSum ss c = (seen, c') \<Longrightarrow>
     seen + ct_w_sum_ms c' =
       ct_w_sum_ms c + sum_list (map (\<lambda>s. case s of AddWSum n \<Rightarrow> n | _ \<Rightarrow> 0) ss)"
proof (induction ss arbitrary: c seen c')
  case (Cons s ss)
  obtain v c1 where s: "counter_do s c = (v, c1)" by fastforce
  obtain w c2 where r: "counter_run SnapSum ss c1 = (w, c2)" by fastforce
  with Cons.prems s have "c' = c2" "seen = (if s = SnapSum then v else 0) + w" by auto
  with Cons.IH [OF r] s show ?case
    by (cases s) (auto simp: counter_do_def algebra_simps)
qed simp

section \<open>Load test: summary\<close>

definition percentile :: "counter list \<Rightarrow> real \<Rightarrow> counter" where
  "percentile xs p =
     (if xs = [] then 0 else xs ! min (length xs - 1) (nat \<lfloor>p * real (length xs)\<rfloor>))"

definition mean_ms :: "counter list \<Rightarrow> counter" where
  "mean_ms samples = (if samples = [] then 0 else sum_list samples div of_nat (length samples))"

definition real_time_factor :: "counters \<Rightarrow> real" where
  "real_time_factor c =
     (if ct_total_ms c = 0 then 0 else real (unat (ct_total_audio_ms c)) / real (unat (ct_total_ms c)))"

text \<open>The memory watermarks: the readings after the baseline, \<open>- 1\<close> where a reading failed.\<close>

record watermarks =
  wm_max_used :: int
  wm_max_at :: nat
  wm_min_free :: int

definition watermark :: "nat \<times> int \<times> int \<Rightarrow> watermarks \<Rightarrow> watermarks" where
  "watermark r w =
     (case r of (sec, used, free) \<Rightarrow>
        (let w1 = (if wm_max_used w < used then w\<lparr>wm_max_used := used, wm_max_at := sec\<rparr> else w)
         in if 0 \<le> free \<and> (wm_min_free w1 < 0 \<or> free < wm_min_free w1)
            then w1\<lparr>wm_min_free := free\<rparr> else w1))"

definition soak_exit :: "counters \<Rightarrow> counters \<Rightarrow> bool" where
  "soak_exit tts stt \<longleftrightarrow> \<not> 0 < ct_errors tts + ct_errors stt"

text \<open>
  Percentiles are taken from the samples, grow with the rank asked for and never exceed the
  largest sample.
\<close>

lemma percentile_index: "xs \<noteq> [] \<Longrightarrow> min (length xs - 1) k < length xs"
  by (cases xs) auto

theorem percentiles_ordered:
  assumes "sorted xs" and "xs \<noteq> []" and "p \<le> p'" and "p' \<le> 1"
  shows "percentile xs p \<in> set xs \<and> percentile xs p \<le> percentile xs p' \<and> percentile xs p' \<le> last xs"
proof -
  let ?i = "min (length xs - 1) (nat \<lfloor>p * real (length xs)\<rfloor>)"
  let ?j = "min (length xs - 1) (nat \<lfloor>p' * real (length xs)\<rfloor>)"
  have "\<lfloor>p * real (length xs)\<rfloor> \<le> \<lfloor>p' * real (length xs)\<rfloor>"
    using assms(3) by (intro floor_mono mult_right_mono) simp_all
  then have "?i \<le> ?j" by (auto simp: min_def)
  moreover have "?i < length xs" "?j < length xs"
    using percentile_index [OF assms(2)] by blast+
  moreover have "?j \<le> length xs - 1" by simp
  ultimately show ?thesis
    using assms(1,2) by (auto simp: percentile_def last_conv_nth sorted_iff_nth_mono)
qed

text \<open>The watermark is the largest reading.\<close>

lemma watermark_max:
  "wm_max_used (foldl (\<lambda>w r. watermark r w) w rs) =
     foldl (\<lambda>m (sec, used, free). max m used) (wm_max_used w) rs"
  by (induction rs arbitrary: w) (auto simp: watermark_def Let_def max_def)

section \<open>The fixture\<close>

definition kFixtureRatio :: real where
  "kFixtureRatio = 16000 / 22050"

definition downsample_22050_to_16000 :: "sample list \<Rightarrow> sample list" where
  "downsample_22050_to_16000 src =
     map (\<lambda>i. let s = nat \<lfloor>real i / kFixtureRatio\<rfloor> in if s < length src then src ! s else 0)
       [0..<nat \<lfloor>real (length src) * kFixtureRatio\<rfloor>]"

text \<open>Every sample of the result is one of the source: the guard for the end is never needed.\<close>

lemma downsample_from_source:
  "set (downsample_22050_to_16000 src) \<subseteq> set src"
proof
  fix x assume "x \<in> set (downsample_22050_to_16000 src)"
  then obtain i where i: "i < nat \<lfloor>real (length src) * kFixtureRatio\<rfloor>"
    and x: "x = (let s = nat \<lfloor>real i / kFixtureRatio\<rfloor> in if s < length src then src ! s else 0)"
    by (auto simp: downsample_22050_to_16000_def)
  have pos: "0 < kFixtureRatio" by (simp add: kFixtureRatio_def)
  from i have "int i + 1 \<le> \<lfloor>real (length src) * kFixtureRatio\<rfloor>" by linarith
  then have "real i + 1 \<le> real (length src) * kFixtureRatio" by (simp add: le_floor_iff)
  then have "real i / kFixtureRatio < real (length src)"
    using pos by (simp add: pos_divide_less_eq)
  then have "\<lfloor>real i / kFixtureRatio\<rfloor> < int (length src)" by (simp add: floor_less_iff)
  moreover have "0 \<le> \<lfloor>real i / kFixtureRatio\<rfloor>" using pos by simp
  ultimately have "nat \<lfloor>real i / kFixtureRatio\<rfloor> < length src" by (simp add: nat_less_iff)
  then show "x \<in> set src" by (simp add: x Let_def)
qed

section \<open>Levels\<close>

definition mean_abs :: "sample list \<Rightarrow> real" where
  "mean_abs v = (if v = [] then 0 else of_int (sum_list (map (\<lambda>x. \<bar>sint x\<bar>) v)) / real (length v))"

record wav_stats =
  ws_samples :: nat
  ws_rate :: nat
  ws_rms :: real
  ws_peak :: int

definition wav_duration :: "wav_stats \<Rightarrow> real" where
  "wav_duration s = (if 0 < ws_rate s then real (ws_samples s) / real (ws_rate s) else 0)"

definition compute_stats :: "sample list \<Rightarrow> nat \<Rightarrow> wav_stats" where
  "compute_stats xs rate =
     (if xs = [] then \<lparr>ws_samples = 0, ws_rate = rate, ws_rms = 0, ws_peak = 0\<rparr>
      else \<lparr>ws_samples = length xs, ws_rate = rate,
            ws_rms = sqrt (of_int (sum_list (map (\<lambda>x. sint x * sint x) xs)) / real (length xs)),
            ws_peak = min (foldl (\<lambda>p x. if p < \<bar>sint x\<bar> then \<bar>sint x\<bar> else p) 0 xs) 32767\<rparr>)"

lemma sint_sample: "\<bar>sint (x :: sample)\<bar> \<le> 32768"
  using sint_ge [of x] sint_lt [of x] by (simp add: abs_le_iff)

text \<open>The peak fits a sample although \<open>|-32768|\<close> does not, and the level is at most full scale.\<close>

lemma stats_in_range:
  "0 \<le> ws_peak (compute_stats xs rate) \<and> ws_peak (compute_stats xs rate) \<le> 32767 \<and>
   0 \<le> ws_rms (compute_stats xs rate) \<and> ws_rms (compute_stats xs rate) \<le> 32768"
proof (cases "xs = []")
  case False
  have peak: "0 \<le> p \<Longrightarrow> 0 \<le> foldl (\<lambda>p x. if p < \<bar>sint x\<bar> then \<bar>sint x\<bar> else p) p xs"
    for p and xs :: "sample list"
    by (induction xs arbitrary: p) auto
  have sq: "0 \<le> sum_list (map (\<lambda>x. sint x * sint x) xs) \<and>
      sum_list (map (\<lambda>x. sint x * sint x) xs) \<le> int (length xs) * (32768 * 32768)" for xs :: "sample list"
  proof (induction xs)
    case (Cons x xs)
    have "\<bar>sint x\<bar> * \<bar>sint x\<bar> \<le> 32768 * 32768"
      by (intro mult_mono sint_sample) simp_all
    then have "sint x * sint x \<le> 32768 * 32768" by (simp add: abs_mult_self_eq)
    with Cons show ?case by (simp add: algebra_simps)
  qed simp
  define m where "m = real_of_int (sum_list (map (\<lambda>x. sint x * sint x) xs)) / real (length xs)"
  have "real_of_int (sum_list (map (\<lambda>x. sint x * sint x) xs)) \<le> real_of_int (int (length xs) * (32768 * 32768))"
    using sq [of xs] by (simp only: of_int_le_iff)
  then have "m \<le> 32768 * 32768" using False by (simp add: m_def divide_le_eq ac_simps)
  then have "sqrt m \<le> sqrt (32768 * 32768)" by (rule real_sqrt_le_mono)
  moreover have "0 \<le> m" using sq [of xs] by (simp add: m_def)
  ultimately show ?thesis using False peak [of 0 xs] by (simp add: compute_stats_def m_def [symmetric])
qed (simp add: compute_stats_def)

section \<open>Canceller check\<close>

text \<open>The frames at which the synthetic check reports, and its verdict from the summed levels.\<close>

definition next_report :: "nat \<Rightarrow> int \<Rightarrow> bool \<times> int" where
  "next_report frame due =
     (if int frame \<noteq> due then (False, due)
      else let secs = real frame / 100
           in (True, if secs < 1 then 100 else if secs < 2 then 200 else if secs < 4 then 400 else - 1))"

fun reports :: "nat list \<Rightarrow> int \<Rightarrow> nat list" where
  "reports [] due = []"
| "reports (f # fs) due =
     (case next_report f due of (p, due') \<Rightarrow> (if p then [f] else []) @ reports fs due')"

definition cancel_db :: "real \<Rightarrow> real \<Rightarrow> real" where
  "cancel_db in_total out_total =
     (if 0 < out_total \<and> 0 < in_total then 20 * log 10 (in_total / out_total) else 0)"

definition aec_exit :: "real \<Rightarrow> real \<Rightarrow> bool" where
  "aec_exit in_total out_total \<longleftrightarrow> \<not> cancel_db in_total out_total < 1"

text \<open>
  A canceller that removes the echo completely fails the check: with no output energy the
  reduction is reported as 0 dB.
\<close>

lemma perfect_canceller_fails: "\<not> aec_exit in_total 0"
  by (simp add: aec_exit_def cancel_db_def)

lemma aec_exit_means:
  assumes "0 < in_total" and "0 < out_total"
  shows "aec_exit in_total out_total \<longleftrightarrow> out_total * 10 powr (1 / 20) \<le> in_total"
proof -
  have "aec_exit in_total out_total \<longleftrightarrow> 1 / 20 \<le> log 10 (in_total / out_total)"
    using assms by (auto simp: aec_exit_def cancel_db_def)
  also have "\<dots> \<longleftrightarrow> 10 powr (1 / 20) \<le> in_total / out_total"
    using assms le_log_iff [of 10 "in_total / out_total" "1 / 20"] by simp
  also have "\<dots> \<longleftrightarrow> out_total * 10 powr (1 / 20) \<le> in_total"
    using assms by (simp add: pos_le_divide_eq ac_simps)
  finally show ?thesis .
qed

section \<open>Health check\<close>

record target =
  tg_name :: string
  tg_url :: string
  tg_critical :: bool

definition health_targets :: "config \<Rightarrow> target list" where
  "health_targets c =
     [\<lparr>tg_name = ''llm'', tg_url = chea_health_url (cllm_health (cfg_llm c)),
       tg_critical = chea_fail_pipeline_if_down (cllm_health (cfg_llm c))\<rparr>,
      \<lparr>tg_name = ''stt'', tg_url = chea_health_url (cstt_health (cfg_stt c)),
       tg_critical = chea_fail_pipeline_if_down (cstt_health (cfg_stt c))\<rparr>,
      \<lparr>tg_name = ''tts'', tg_url = chea_health_url (ctts_health (cfg_tts c)),
       tg_critical = chea_fail_pipeline_if_down (ctts_health (cfg_tts c))\<rparr>]"

text \<open>The loop's two flags, then the exit code; the probe is an argument.\<close>

definition health_round :: "(string \<Rightarrow> probe_result) \<Rightarrow> bool \<times> bool \<Rightarrow> target \<Rightarrow> bool \<times> bool" where
  "health_round probe flags t =
     (case flags of (failed, probed) \<Rightarrow>
        (if tg_url t = [] then (failed, probed)
         else (failed \<or> \<not> pr_ok (probe (tg_url t)) \<and> tg_critical t, True)))"

definition run_health :: "(string \<Rightarrow> probe_result) \<Rightarrow> config \<Rightarrow> bool" where
  "run_health probe c =
     (case foldl (health_round probe) (False, False) (health_targets c) of
        (failed, probed) \<Rightarrow> (if \<not> probed then True else \<not> failed))"

lemma run_health_means:
  "run_health probe c \<longleftrightarrow>
     (\<forall>t \<in> set (health_targets c). tg_url t \<noteq> [] \<longrightarrow> tg_critical t \<longrightarrow> pr_ok (probe (tg_url t)))"
proof -
  have "foldl (health_round probe) (f, p) ts =
      (f \<or> (\<exists>t \<in> set ts. tg_url t \<noteq> [] \<and> tg_critical t \<and> \<not> pr_ok (probe (tg_url t))),
       p \<or> (\<exists>t \<in> set ts. tg_url t \<noteq> []))" for f p ts
    by (induction ts arbitrary: f p) (auto simp: health_round_def)
  then show ?thesis by (auto simp: run_health_def)
qed

section \<open>Interruption check\<close>

text \<open>\<open>std::stol\<close>: leading white space, a sign, digits; the rest is ignored. \<open>None\<close>: it throws.\<close>

definition is_c_space :: "char \<Rightarrow> bool" where
  "is_c_space c \<longleftrightarrow> (of_char c :: nat) \<in> {9, 10, 11, 12, 13, 32}"

definition decimal_value :: "string \<Rightarrow> int" where
  "decimal_value s = foldl (\<lambda>n c. 10 * n + (of_char c - 48)) 0 s"

definition stol :: "string \<Rightarrow> int option" where
  "stol s =
     (let s1 = dropWhile is_c_space s;
          (neg, s2) = (case s1 of [] \<Rightarrow> (False, [])
            | c # cs \<Rightarrow> (if c = CHR ''-'' then (True, cs) else if c = CHR ''+'' then (False, cs) else (False, s1)));
          ds = takeWhile is_digit s2;
          v = (if neg then - decimal_value ds else decimal_value ds)
      in if ds = [] \<or> v < - (2 ^ 63) \<or> 2 ^ 63 \<le> v then None else Some v)"

text \<open>The arguments: a delay, a request for help, or an error.\<close>

datatype bargein_args = Delay int | ShowHelp | BadArgs

fun parse_bargein :: "int \<Rightarrow> string list \<Rightarrow> bargein_args" where
  "parse_bargein d [] = Delay d"
| "parse_bargein d (a # as) =
     (if a = ''--delay-ms'' \<and> as \<noteq> []
      then (case stol (hd as) of None \<Rightarrow> BadArgs | Some n \<Rightarrow> parse_bargein n (List.tl as))
      else if take 11 a = ''--delay-ms=''
      then (case stol (drop 11 a) of None \<Rightarrow> BadArgs | Some n \<Rightarrow> parse_bargein n as)
      else if a = ''-h'' \<or> a = ''--help'' then ShowHelp
      else BadArgs)"

definition bargein_delay :: "string list \<Rightarrow> bargein_args" where
  "bargein_delay args =
     (case parse_bargein 1500 args of Delay d \<Rightarrow> (if d < 0 then BadArgs else Delay d) | r \<Rightarrow> r)"

lemma bargein_delay_nonneg: "bargein_delay args = Delay d \<Longrightarrow> 0 \<le> d"
  by (auto simp: bargein_delay_def split: bargein_args.splits if_splits)

lemma stol_ignores_rest: "stol ''15x'' = Some 15"
  by (simp add: stol_def is_c_space_def is_digit_def decimal_value_def)

text \<open>
  The verdict: the time measured is the engine's latency if it has one, else the time since the
  interruption was published.
\<close>

definition bargein_time :: "playback_engine \<Rightarrow> real \<Rightarrow> real" where
  "bargein_time e since_inject =
     (case fst (consume_barge_in_latency e) of Some ms \<Rightarrow> ms | None \<Rightarrow> since_inject)"

definition sentences_dropped :: "nat \<Rightarrow> nat \<Rightarrow> nat" where
  "sentences_dropped emitted played = (if played < emitted then emitted - played else 0)"

definition bargein_exit :: "bool \<Rightarrow> nat \<Rightarrow> nat \<Rightarrow> real \<Rightarrow> bool" where
  "bargein_exit llm_cancelled emitted played ms =
     (let cascade_fired = llm_cancelled \<or> 0 < sentences_dropped emitted played
      in if \<not> cascade_fired then False else \<not> 400 < ms)"

text \<open>
  The latency gate measures the wrong clock. The program never calls \<open>note_barge_in\<close>, so the
  engine's timer is never armed: after any callbacks the engine has no latency to report and the
  time compared with 400 ms is the program's own wait, not the time to silence.
\<close>

definition unarmed :: "playback_engine \<Rightarrow> bool" where
  "unarmed e \<longleftrightarrow> en_barge_ns e = 0 \<and> en_barge_latency e = None"

lemma en_refill_unarmed: "unarmed e \<Longrightarrow> en_refill a now left e q = (b, e', q') \<Longrightarrow> unarmed e'"
  by (auto simp: unarmed_def en_refill_def en_finish_current_def en_post_def maybe_close_timer_def Let_def
      split: if_splits prod.splits option.splits)

lemma render_loop_unarmed:
  "unarmed e \<Longrightarrow> render_loop act now k left e q = (out, full, e', q') \<Longrightarrow> unarmed e'"
proof (induction act now k left e q arbitrary: out full e' q' rule: render_loop.induct)
  case (1 act now k left e q)
  consider "left = 0"
    | "left \<noteq> 0" "length (ch_samples (en_current e)) \<le> en_pos e"
    | "left \<noteq> 0" "\<not> length (ch_samples (en_current e)) \<le> en_pos e" by linarith
  then show ?case
  proof cases
    case 1
    with "1.prems" show ?thesis by (simp add: render_loop.simps [of act now k 0])
  next
    case 2
    obtain b e1 q1 where r: "en_refill (act k) now left e q = (b, e1, q1)" by (metis prod_cases3)
    with en_refill_unarmed "1.prems"(1) have e1: "unarmed e1" by blast
    show ?thesis
    proof (cases b)
      case True
      with 2 r "1.prems"(2) have "render_loop act now (Suc k) left e1 q1 = (out, full, e', q')"
        by (simp add: render_loop.simps [of _ now k left])
      with "1.IH"(1) [OF 2, of True "(e1, q1)" e1 q1] r True e1 show ?thesis by auto
    next
      case False
      with 2 r "1.prems"(2) e1 show ?thesis by (simp add: render_loop.simps [of _ now k left])
    qed
  next
    case 3
    obtain xs e1 where c: "en_copy left e = (xs, e1)" by (metis surj_pair)
    with "1.prems"(1) have e1: "unarmed e1" by (auto simp: en_copy_def Let_def unarmed_def)
    obtain ys where "render_loop act now k (left - length xs) e1 q = (ys, full, e', q')"
      using "1.prems"(2) 3 c by (auto simp: render_loop.simps [of act now k left] split: prod.splits)
    with "1.IH"(2) [OF 3 c [symmetric]] e1 show ?thesis by auto
  qed
qed

theorem bargein_measures_its_wait:
  "bargein_time (fst (foldl (\<lambda>(e, q) (act, now, frames). snd (render_into act now frames e q))
     (en_new prefill rate lb, q) callbacks)) since_inject = since_inject"
proof -
  have "unarmed (fst (foldl (\<lambda>(e, q) (act, now, frames). snd (render_into act now frames e q)) (e, q) callbacks))"
    if "unarmed e" for e q
    using that
  proof (induction callbacks arbitrary: e q)
    case (Cons cb callbacks)
    obtain act now frames where cb: "cb = (act, now, frames)" by (metis prod_cases3)
    obtain out e1 q1 where r: "render_into act now frames e q = (out, e1, q1)" by (metis prod_cases3)
    then obtain full e2 where loop: "render_loop act now 0 frames e q = (out, full, e2, q1)"
      and "en_barge_ns e1 = en_barge_ns e2" "en_barge_latency e1 = en_barge_latency e2"
      by (auto simp: render_into_def split: prod.splits if_splits)
    with render_loop_unarmed [OF Cons.prems loop] have "unarmed e1" by (simp add: unarmed_def)
    with Cons.IH [of e1 q1] r cb show ?case by simp
  qed simp
  from this [of "en_new prefill rate lb" q] show ?thesis
    by (simp add: bargein_time_def consume_barge_in_latency_def unarmed_def en_new_def)
qed

end
