(* ===== verification/Pollers.thy ===== *)
theory Pollers
  imports Assembly
begin

text \<open>
  The small threads of the program that only carry values from one part to another: the pollers
  that mirror counters into the metrics (\<open>src/orchestrator/capture_stack.cpp\<close>,
  \<open>src/orchestrator/tts_stack.cpp\<close>, \<open>src/main.cpp\<close>) and the reader of typed lines (\<open>src/main.cpp\<close>).
  One round of a poller is one definition; its sleep is not modelled. The theorem shows what the
  latency histogram can contain under every interleaving of the poller, the audio thread and the
  detector.
\<close>

section \<open>One round of each poller\<close>

text \<open>
  The capture side. The canceller's delay and return loss are its processor's answers; \<open>in_flight\<close> is
  the number of utterances its consumers still hold.
\<close>

definition capture_poll ::
  "capture_engine \<Rightarrow> ('s, 'w, 'v) pipeline \<Rightarrow> nat \<Rightarrow> int \<Rightarrow> real \<Rightarrow> registry \<Rightarrow> registry" where
  "capture_poll ce pl in_flight delay erle =
     mr_call
       ([SetTo ''voice_capture_frames_total'' [] (real (unat (ce_captured ce))),
         SetTo ''voice_capture_ring_overruns_total'' [] (real (unat (ce_overruns ce))),
         SetTo ''voice_audio_pipeline_frames_total'' [] (real (unat (pl_frames_processed pl))),
         SetTo ''voice_vad_false_starts_total'' [] (real (unat (pl_false_starts pl))),
         SetTo ''voice_utterances_total'' [] (real (unat (pl_utterances pl))),
         SetTo ''voice_utterance_drops_total'' [] (real (unat (ub_drops (pl_ub pl)))),
         SetTo ''voice_utterance_in_flight'' [] (real in_flight)] @
        (case pl_apm pl of
           None \<Rightarrow> []
         | Some apm \<Rightarrow>
             [SetTo ''voice_aec_delay_estimate_ms'' [] (of_int delay),
              SetTo ''voice_aec_erle_db'' [] erle,
              SetTo ''voice_aec_frames_processed_total'' [] (real (unat (apm_frames apm)))]))"

text \<open>The playback side, which also takes the pending interruption latency.\<close>

definition playback_poll :: "playback_queue \<Rightarrow> playback_engine \<Rightarrow> registry \<Rightarrow> playback_engine \<times> registry" where
  "playback_poll q e r =
     (let r1 = mr_call
            [SetTo ''voice_playback_queue_depth'' [] (real (pq_size q)),
             SetTo ''voice_playback_underruns_total'' [] (real (unat (en_underruns e))),
             SetTo ''voice_playback_chunks_played_total'' [] (real (unat (en_chunks_played e))),
             SetTo ''voice_playback_drops_total'' [] (real (unat (pq_drops q)))] r
      in case consume_barge_in_latency e of
           (None, e1) \<Rightarrow> (e1, r1)
         | (Some ms, e1) \<Rightarrow> (e1, if 0 \<le> ms then on_barge_in_latency ms r1 else r1))"

definition barge_in_poll :: "barge_in \<Rightarrow> registry \<Rightarrow> registry" where
  "barge_in_poll bi =
     mr_call
       [SetTo ''voice_barge_in_fires_total'' [] (real (unat (bi_fires_total bi))),
        SetTo ''voice_barge_in_suppressed_total'' [(''cause'', ''any'')] (real (unat (bi_suppressed_total bi))),
        SetTo ''voice_barge_in_suppressed_total'' [(''cause'', ''cooldown'')] (real (unat (bi_suppressed_cooldown bi))),
        SetTo ''voice_barge_in_suppressed_total'' [(''cause'', ''aec'')] (real (unat (bi_suppressed_aec bi)))]"

text \<open>The pollers touch only series the registry was built with.\<close>

lemma polled_families_exist:
  "set (map family_name (drop (length (mr_calls r)) (mr_calls (capture_poll ce pl n d x r)))) \<subseteq> set (map family_name registry_init)"
  "set (map family_name (drop (length (mr_calls r)) (mr_calls (snd (playback_poll q e r))))) \<subseteq> set (map family_name registry_init)"
  "set (map family_name (drop (length (mr_calls r)) (mr_calls (barge_in_poll bi r)))) \<subseteq> set (map family_name registry_init)"
  by (auto simp: capture_poll_def playback_poll_def barge_in_poll_def mr_call_def registry_init_def
      consume_barge_in_latency_def on_barge_in_latency_def Let_def split: option.splits)

section \<open>Interruption latencies\<close>

text \<open>
  The audio thread, the detector's callback, the poller and the queue's producers, one step each.
\<close>

datatype latency_act =
    LaNote turn_id time_point
  | LaRender "nat \<Rightarrow> turn_id" time_point nat
  | LaPoll
  | LaQueue playback_queue

record latency_state =
  la_engine :: playback_engine
  la_queue :: playback_queue
  la_registry :: registry

fun latency_step :: "latency_state \<Rightarrow> latency_act \<Rightarrow> latency_state" where
  "latency_step s (LaNote t ts) = s\<lparr>la_engine := note_barge_in t ts (la_engine s)\<rparr>"
| "latency_step s (LaRender act now frames) =
     (case render_into act now frames (la_engine s) (la_queue s) of
        (_, e, q) \<Rightarrow> s\<lparr>la_engine := e, la_queue := q\<rparr>)"
| "latency_step s LaPoll =
     (case playback_poll (la_queue s) (la_engine s) (la_registry s) of
        (e, r) \<Rightarrow> s\<lparr>la_engine := e, la_registry := r\<rparr>)"
| "latency_step s (LaQueue q) = s\<lparr>la_queue := q\<rparr>"

definition is_latency :: "metric_call \<Rightarrow> bool" where
  "is_latency c = (case c of Observe n v \<Rightarrow> n = ''voice_barge_in_latency_ms'' | _ \<Rightarrow> False)"

definition is_note :: "latency_act \<Rightarrow> bool" where
  "is_note a = (case a of LaNote t ts \<Rightarrow> True | _ \<Rightarrow> False)"

text \<open>What the engine still holds: an armed timer, and a latency not yet taken.\<close>

definition outstanding :: "playback_engine \<Rightarrow> nat" where
  "outstanding e = (if en_barge_ns e = 0 then 0 else 1) + (if en_barge_latency e = None then 0 else 1)"

definition observed :: "registry \<Rightarrow> nat" where
  "observed r = length (filter is_latency (mr_calls r))"

lemma maybe_close_timer_outstanding: "outstanding (maybe_close_timer now a e) \<le> outstanding e"
  by (cases "en_barge_ns e = 0 \<or> a = en_barge_turn e") (auto simp: maybe_close_timer_def outstanding_def)

lemma outstanding_cong:
  "en_barge_ns e' = en_barge_ns e \<Longrightarrow> en_barge_latency e' = en_barge_latency e \<Longrightarrow> outstanding e' = outstanding e"
  by (simp add: outstanding_def)

lemma en_finish_current_outstanding: "outstanding (en_finish_current e) = outstanding e"
  by (rule outstanding_cong) (simp_all add: en_finish_current_def en_post_def Let_def)

lemma outstanding_other [simp]:
  "outstanding (e\<lparr>en_prefill_silence := w\<rparr>) = outstanding e"
  "outstanding (e\<lparr>en_underruns := w\<rparr>) = outstanding e"
  "outstanding (e\<lparr>en_primed_turn := t\<rparr>) = outstanding e"
  "outstanding (e\<lparr>en_current := c, en_pos := n\<rparr>) = outstanding e"
  by (simp_all add: outstanding_def)

lemma maybe_close_timer_outstanding': "outstanding e = n \<Longrightarrow> outstanding (maybe_close_timer now a e) \<le> n"
  using maybe_close_timer_outstanding by metis

lemma en_refill_outstanding:
  assumes "en_refill a now left e q = (b, e', q')"
  shows "outstanding e' \<le> outstanding e"
proof -
  define e1 where "e1 = en_finish_current e"
  have "outstanding e' \<le> outstanding e1"
    using assms unfolding en_refill_def Let_def e1_def [symmetric]
    by (auto intro: maybe_close_timer_outstanding' split: if_splits prod.splits option.splits)
  then show ?thesis by (simp add: e1_def en_finish_current_outstanding)
qed

lemma render_loop_outstanding:
  "render_loop act now k left e q = (out, full, e', q') \<Longrightarrow> outstanding e' \<le> outstanding e"
proof (induction act now k left e q arbitrary: out full e' q' rule: render_loop.induct)
  case (1 act now k left e q)
  consider "left = 0"
    | "left \<noteq> 0" "length (ch_samples (en_current e)) \<le> en_pos e"
    | "left \<noteq> 0" "\<not> length (ch_samples (en_current e)) \<le> en_pos e" by linarith
  then show ?case
  proof cases
    case 1
    with "1.prems" show ?thesis by (simp add: render_loop.simps [of act now k 0])
  next
    case 2
    obtain b e1 q1 where r: "en_refill (act k) now left e q = (b, e1, q1)" by (metis prod_cases3)
    note le = en_refill_outstanding [OF r]
    show ?thesis
    proof (cases b)
      case True
      with 2 r "1.prems" have "render_loop act now (Suc k) left e1 q1 = (out, full, e', q')"
        by (simp add: render_loop.simps [of _ now k left])
      with "1.IH"(1) [OF 2, of True "(e1, q1)" e1 q1] r True le show ?thesis by auto
    next
      case False
      with 2 r "1.prems" le show ?thesis by (simp add: render_loop.simps [of _ now k left])
    qed
  next
    case 3
    obtain xs e1 where c: "en_copy left e = (xs, e1)" by (metis surj_pair)
    then have e1: "outstanding e1 = outstanding e"
      by (intro outstanding_cong) (auto simp: en_copy_def Let_def)
    obtain ys where "render_loop act now k (left - length xs) e1 q = (ys, full, e', q')"
      using "1.prems" 3 c by (auto simp: render_loop.simps [of act now k left] split: prod.splits)
    with "1.IH"(2) [OF 3 c [symmetric]] e1 show ?thesis by auto
  qed
qed

lemma render_into_outstanding:
  assumes "render_into act now frames e q = (out, e', q')"
  shows "outstanding e' \<le> outstanding e"
proof -
  obtain full e1 where loop: "render_loop act now 0 frames e q = (out, full, e1, q')"
    and "en_barge_ns e' = en_barge_ns e1" "en_barge_latency e' = en_barge_latency e1"
    using assms by (auto simp: render_into_def split: prod.splits if_splits)
  with outstanding_cong [of e' e1] render_loop_outstanding [OF loop] show ?thesis by simp
qed

lemma latency_step_bound:
  "observed (la_registry (latency_step s a)) + outstanding (la_engine (latency_step s a))
     \<le> observed (la_registry s) + outstanding (la_engine s) + (if is_note a then 1 else 0)"
proof (cases a)
  case (LaNote t ts)
  then show ?thesis by (simp add: is_note_def outstanding_def note_barge_in_def)
next
  case (LaRender act now frames)
  obtain out e q where r: "render_into act now frames (la_engine s) (la_queue s) = (out, e, q)"
    by (metis prod_cases3)
  with render_into_outstanding [OF r] LaRender show ?thesis by (simp add: is_note_def)
next
  case LaPoll
  then show ?thesis
    by (cases "en_barge_latency (la_engine s)")
      (simp_all add: is_note_def playback_poll_def consume_barge_in_latency_def outstanding_def observed_def
        mr_call_def is_latency_def on_barge_in_latency_def Let_def)
qed (simp add: is_note_def)

text \<open>
  The histogram of interruption latencies receives at most one observation for each interruption
  the detector reported, whatever the order in which the detector, the audio thread and the
  poller run.
\<close>

theorem latencies_observed_once:
  "observed (la_registry (foldl latency_step
       \<lparr>la_engine = en_new prefill rate lb, la_queue = q, la_registry = registry_new\<rparr> acts))
     \<le> length (filter is_note acts)"
proof -
  have run: "observed (la_registry (foldl latency_step s acts)) + outstanding (la_engine (foldl latency_step s acts))
      \<le> observed (la_registry s) + outstanding (la_engine s) + length (filter is_note acts)" for s
  proof (induction acts arbitrary: s)
    case (Cons a acts)
    from Cons.IH [of "latency_step s a"] latency_step_bound [of s a] show ?case
      by (cases "is_note a") auto
  qed simp
  have "observed registry_new = 0"
    by (simp add: observed_def registry_new_def registry_init_def is_latency_def kAllStates_def kAllPipelineStates_def)
  with run [of "\<lparr>la_engine = en_new prefill rate lb, la_queue = q, la_registry = registry_new\<rparr>"] show ?thesis
    by (simp add: outstanding_def en_new_def)
qed

section \<open>Typed lines\<close>

text \<open>The reader publishes each line that is not empty as a final transcript outside any turn.\<close>

definition stdin_transcript :: "string \<Rightarrow> string \<Rightarrow> final_transcript" where
  "stdin_transcript lang line =
     \<lparr>ft_turn = 0, ft_text = line, ft_lang = lang, ft_confidence = Fin 1, ft_audio_duration = 0,
      ft_processing_duration = 0\<rparr>"

definition stdin_events :: "string \<Rightarrow> string list \<Rightarrow> event list" where
  "stdin_events lang lines = map (\<lambda>l. FinalTranscript (stdin_transcript lang l)) (filter (\<lambda>l. l \<noteq> []) lines)"

end
