(* ===== verification/Db_Handles.thy ===== *)
theory Db_Handles
  imports Repository
begin

text \<open>
  The owning wrappers of \<open>src/memory/db.hpp\<close> and \<open>src/memory/db.cpp\<close>: which variable owns which
  SQLite handle through construction, moves, assignment and destruction, opening a database with
  its failure paths, and the conversions of optional values. SQLite is a parameter: what its calls
  return. \<open>Database\<close> and \<open>Statement\<close> follow the same discipline and share the definitions. The
  theorem shows that every handle is released exactly once.
\<close>

section \<open>Owners and handles\<close>

text \<open>
  Variables in scope with the handle they own, if any; the handles given out are the numbers below
  \<open>ow_next\<close>; the releases (\<open>sqlite3_close_v2\<close>, \<open>sqlite3_finalize\<close>) in order.
\<close>

record handle_state =
  ow_vars :: "nat \<rightharpoonup> nat option"
  ow_next :: nat
  ow_released :: "nat list"

definition owners_new :: handle_state where
  "owners_new = \<lparr>ow_vars = Map.empty, ow_next = 0, ow_released = []\<rparr>"

definition acquire :: "handle_state \<Rightarrow> nat \<times> handle_state" where
  "acquire s = (ow_next s, s\<lparr>ow_next := ow_next s + 1\<rparr>)"

definition release :: "nat option \<Rightarrow> handle_state \<Rightarrow> handle_state" where
  "release h s = (case h of None \<Rightarrow> s | Some x \<Rightarrow> s\<lparr>ow_released := ow_released s @ [x]\<rparr>)"

definition bind_var :: "nat \<Rightarrow> nat option \<Rightarrow> handle_state \<Rightarrow> handle_state" where
  "bind_var v h s = s\<lparr>ow_vars := (ow_vars s)(v \<mapsto> h)\<rparr>"

definition owned :: "nat \<Rightarrow> handle_state \<Rightarrow> nat option" where
  "owned v s = (case ow_vars s v of None \<Rightarrow> None | Some h \<Rightarrow> h)"

text \<open>The move constructor, the move assignment and the destructor.\<close>

definition move_construct :: "nat \<Rightarrow> nat \<Rightarrow> handle_state \<Rightarrow> handle_state" where
  "move_construct v w s = bind_var w None (bind_var v (owned w s) s)"

definition move_assign :: "nat \<Rightarrow> nat \<Rightarrow> handle_state \<Rightarrow> handle_state" where
  "move_assign v w s =
     (if v = w then s
      else bind_var w None (bind_var v (owned w s) (release (owned v s) s)))"

definition destroy :: "nat \<Rightarrow> handle_state \<Rightarrow> handle_state" where
  "destroy v s = (release (owned v s) s)\<lparr>ow_vars := (ow_vars s)(v := None)\<rparr>"

section \<open>SQLite's answers\<close>

text \<open>
  \<open>sqlite3_open_v2\<close>: whether it succeeded, whether it left a handle behind, its message.
  \<open>sqlite3_exec\<close>: \<open>None\<close> for success, else its message if there is one. \<open>sqlite3_prepare_v2\<close>.
\<close>

record sqlite =
  sq_open :: "string \<Rightarrow> bool \<times> bool \<times> string"
  sq_exec :: "string \<Rightarrow> string option option"
  sq_prepare :: "string \<Rightarrow> bool"

definition db_exec :: "sqlite \<Rightarrow> string \<Rightarrow> db_error option" where
  "db_exec sq sql =
     (case sq_exec sq sql of
        None \<Rightarrow> None
      | Some m \<Rightarrow> Some (''sqlite exec: '' @ (case m of None \<Rightarrow> ''unknown'' | Some t \<Rightarrow> t)))"

definition kPragmas :: string where
  "kPragmas =
     ''PRAGMA journal_mode=WAL;'' @ ''PRAGMA synchronous=NORMAL;'' @ ''PRAGMA foreign_keys=ON;'' @
     ''PRAGMA temp_store=MEMORY;'' @ ''PRAGMA busy_timeout=5000;''"

text \<open>
  \<open>Database::open\<close>. The local wrapper owns the handle, so returning an error releases it; on
  success it is moved into the result. \<open>schema\<close> is the text of the schema.
\<close>

definition script_error :: "sqlite \<Rightarrow> string list \<Rightarrow> db_error option" where
  "script_error sq sqls = (case filter (\<lambda>sql. db_exec sq sql \<noteq> None) sqls of [] \<Rightarrow> None | sql # _ \<Rightarrow> db_exec sq sql)"

definition db_open :: "sqlite \<Rightarrow> string \<Rightarrow> string \<Rightarrow> handle_state \<Rightarrow> (db_error + nat) \<times> handle_state" where
  "db_open sq schema path s =
     (case sq_open sq path of
        (ok, left, msg) \<Rightarrow>
          (if \<not> ok
           then (Inl (''sqlite open failed: '' @ msg),
                 if left then (case acquire s of (h, s1) \<Rightarrow> release (Some h) s1) else s)
           else case acquire s of
             (h, s1) \<Rightarrow>
               (case script_error sq [kPragmas, schema, ''PRAGMA user_version=1;''] of
                  Some e \<Rightarrow> (Inl e, release (Some h) s1)
                | None \<Rightarrow> (Inr h, s1))))"

text \<open>The constructor of a statement: a failed preparation leaves it without a handle.\<close>

definition st_prepare :: "sqlite \<Rightarrow> string \<Rightarrow> handle_state \<Rightarrow> nat option \<times> handle_state" where
  "st_prepare sq sql s =
     (if sq_prepare sq sql then (case acquire s of (h, s1) \<Rightarrow> (Some h, s1)) else (None, s))"

datatype owner_op =
    OpOpen nat string
  | OpPrepare nat string
  | OpDefault nat
  | OpMove nat nat
  | OpAssign nat nat
  | OpDestroy nat

text \<open>
  One action of the program. A new variable is not in scope, the others are; actions that the
  language does not allow do nothing.
\<close>

definition owner_step :: "sqlite \<Rightarrow> string \<Rightarrow> handle_state \<Rightarrow> owner_op \<Rightarrow> handle_state" where
  "owner_step sq schema s a =
     (case a of
        OpOpen v path \<Rightarrow>
          (if v \<in> dom (ow_vars s) then s
           else case db_open sq schema path s of
                  (Inl e, s1) \<Rightarrow> s1
                | (Inr h, s1) \<Rightarrow> bind_var v (Some h) s1)
      | OpPrepare v sql \<Rightarrow>
          (if v \<in> dom (ow_vars s) then s
           else case st_prepare sq sql s of (h, s1) \<Rightarrow> bind_var v h s1)
      | OpDefault v \<Rightarrow> (if v \<in> dom (ow_vars s) then s else bind_var v None s)
      | OpMove v w \<Rightarrow>
          (if v \<in> dom (ow_vars s) \<or> w \<notin> dom (ow_vars s) then s else move_construct v w s)
      | OpAssign v w \<Rightarrow>
          (if v \<in> dom (ow_vars s) \<and> w \<in> dom (ow_vars s) then move_assign v w s else s)
      | OpDestroy v \<Rightarrow> (if v \<in> dom (ow_vars s) then destroy v s else s))"

section \<open>Every handle is released once\<close>

definition owns :: "handle_state \<Rightarrow> nat \<Rightarrow> nat \<Rightarrow> bool" where
  "owns s v h \<longleftrightarrow> ow_vars s v = Some (Some h)"

definition owner_inv :: "handle_state \<Rightarrow> bool" where
  "owner_inv s \<longleftrightarrow>
     (\<forall>v w h. owns s v h \<longrightarrow> owns s w h \<longrightarrow> v = w) \<and>
     (\<forall>v h. owns s v h \<longrightarrow> h < ow_next s \<and> h \<notin> set (ow_released s)) \<and>
     distinct (ow_released s) \<and>
     (\<forall>h < ow_next s. h \<in> set (ow_released s) \<or> (\<exists>v. owns s v h)) \<and>
     set (ow_released s) \<subseteq> {..<ow_next s}"

lemma owner_invI:
  assumes "\<And>v w h. owns s v h \<Longrightarrow> owns s w h \<Longrightarrow> v = w"
    and "\<And>v h. owns s v h \<Longrightarrow> h < ow_next s \<and> h \<notin> set (ow_released s)"
    and "distinct (ow_released s)"
    and "\<And>h. h < ow_next s \<Longrightarrow> h \<notin> set (ow_released s) \<Longrightarrow> \<exists>v. owns s v h"
    and "set (ow_released s) \<subseteq> {..<ow_next s}"
  shows "owner_inv s"
  using assms unfolding owner_inv_def by blast

lemma owner_invD:
  assumes "owner_inv s"
  shows "owns s v h \<Longrightarrow> owns s w h \<Longrightarrow> v = w"
    and "owns s v h \<Longrightarrow> h < ow_next s" and "owns s v h \<Longrightarrow> h \<notin> set (ow_released s)"
    and "distinct (ow_released s)"
    and "h < ow_next s \<Longrightarrow> h \<notin> set (ow_released s) \<Longrightarrow> \<exists>v. owns s v h"
    and "set (ow_released s) \<subseteq> {..<ow_next s}"
  using assms unfolding owner_inv_def by blast+

lemma owns_simps [simp]:
  "owns (bind_var v x s) w h \<longleftrightarrow> (if w = v then x = Some h else owns s w h)"
  "owns (release y s) w h \<longleftrightarrow> owns s w h"
  "owns (s\<lparr>ow_next := n\<rparr>) w h \<longleftrightarrow> owns s w h"
  "owns (s\<lparr>ow_vars := (ow_vars s)(v := None)\<rparr>) w h \<longleftrightarrow> w \<noteq> v \<and> owns s w h"
  by (auto simp: owns_def bind_var_def release_def split: option.splits)

lemma owned_iff: "owned v s = Some h \<longleftrightarrow> owns s v h"
  by (auto simp: owned_def owns_def split: option.splits)

lemma owner_simps [simp]:
  "ow_next (bind_var v x s) = ow_next s" "ow_released (bind_var v x s) = ow_released s"
  "ow_next (release y s) = ow_next s" "ow_released (release None s) = ow_released s"
  "ow_released (release (Some h) s) = ow_released s @ [h]" "ow_vars (release y s) = ow_vars s"
  by (simp_all add: bind_var_def release_def split: option.splits)

lemma owners_new_inv: "owner_inv owners_new"
  by (simp add: owner_inv_def owners_new_def owns_def)

lemma not_in_scope: "v \<notin> dom (ow_vars s) \<Longrightarrow> \<not> owns s v h"
  by (auto simp: owns_def)

text \<open>Acquiring a handle and binding it to a new variable, or releasing it at once.\<close>

lemma acquire_bind_inv:
  assumes "owner_inv s" and "v \<notin> dom (ow_vars s)"
  shows "owner_inv (bind_var v (Some (ow_next s)) (s\<lparr>ow_next := Suc (ow_next s)\<rparr>))"
proof (rule owner_invI, goal_cases)
  case (1 w w' h)
  have fresh: "\<not> owns s u (ow_next s)" for u using owner_invD(2) [OF assms(1)] by blast
  show ?case
  proof (cases "h = ow_next s")
    case True
    with 1 fresh show ?thesis by (auto split: if_splits)
  next
    case False
    with 1 owner_invD(1) [OF assms(1), of w h w'] show ?thesis by (simp split: if_splits)
  qed
next
  case (2 w h)
  show ?case
  proof (cases "h = ow_next s")
    case True
    with owner_invD(6) [OF assms(1)] show ?thesis by auto
  next
    case False
    with 2 owner_invD(2,3) [OF assms(1), of w h] show ?thesis by (auto split: if_splits)
  qed
next
  case (4 h)
  then show ?case
  proof (cases "h = ow_next s")
    case False
    with 4 owner_invD(5) [OF assms(1), of h] obtain w where "owns s w h" by auto
    with not_in_scope [OF assms(2)] show ?thesis by (intro exI [of _ w]) auto
  qed auto
qed (use owner_invD(4,6) [OF assms(1)] in auto)

lemma acquire_release_inv:
  assumes "owner_inv s"
  shows "owner_inv (release (Some (ow_next s)) (s\<lparr>ow_next := Suc (ow_next s)\<rparr>))"
proof (rule owner_invI, goal_cases)
  case (2 w h)
  with owner_invD(2,3) [OF assms] show ?case by fastforce
next
  case (4 h)
  with owner_invD(5) [OF assms, of h] show ?case by auto
qed (use owner_invD(1,4,6) [OF assms] in auto)

lemma bind_none_inv:
  assumes "owner_inv s" and "owned v s = None"
  shows "owner_inv (bind_var v None s)"
proof (rule owner_invI, goal_cases)
  case (4 h)
  with owner_invD(5) [OF assms(1), of h] obtain w where w: "owns s w h" by auto
  with assms(2) have "w \<noteq> v" using owned_iff [of v s h] by auto
  with w show ?case by auto
qed (use owner_invD(1,2,3,4,6) [OF assms(1)] in \<open>auto split: if_splits\<close>)

lemma destroy_inv:
  assumes "owner_inv s"
  shows "owner_inv (destroy v s)"
proof -
  have vars: "owns (destroy v s) w h \<longleftrightarrow> w \<noteq> v \<and> owns s w h" for w h
    by (auto simp: destroy_def owns_def)
  have nxt: "ow_next (destroy v s) = ow_next s" by (simp add: destroy_def)
  show ?thesis
  proof (cases "owned v s")
    case None
    then have rel: "ow_released (destroy v s) = ow_released s" by (simp add: destroy_def)
    show ?thesis
    proof (rule owner_invI, goal_cases)
      case (4 h)
      with owner_invD(5) [OF assms, of h] obtain w where w: "owns s w h" by (auto simp: rel nxt)
      with None have "w \<noteq> v" using owned_iff [of v s h] by auto
      with w show ?case by (auto simp: vars)
    qed (use owner_invD(1,2,3,4,6) [OF assms] in \<open>auto simp: vars rel nxt\<close>)
  next
    case (Some x)
    then have own: "owns s v x" by (simp add: owned_iff)
    from Some have rel: "ow_released (destroy v s) = ow_released s @ [x]" by (simp add: destroy_def)
    show ?thesis
    proof (rule owner_invI, goal_cases)
      case (2 w h)
      with owner_invD(1) [OF assms, of w h v] own owner_invD(2,3) [OF assms, of w h] show ?case
        by (auto simp: vars rel nxt)
    next
      case (4 h)
      with owner_invD(5) [OF assms, of h] obtain w where w: "owns s w h" by (auto simp: rel nxt)
      with 4 own have "w \<noteq> v" by (auto simp: rel owns_def)
      with w show ?case by (auto simp: vars)
    qed (use owner_invD [OF assms] own in \<open>auto simp: vars rel nxt\<close>)
  qed
qed

lemma move_construct_inv:
  assumes "owner_inv s" and "v \<notin> dom (ow_vars s)" and "w \<in> dom (ow_vars s)"
  shows "owner_inv (move_construct v w s)"
proof -
  have "v \<noteq> w" using assms(2,3) by auto
  then have vars: "owns (move_construct v w s) u h \<longleftrightarrow> (if u = v then owns s w h else u \<noteq> w \<and> owns s u h)" for u h
    by (auto simp: move_construct_def owned_iff)
  have same: "ow_next (move_construct v w s) = ow_next s" "ow_released (move_construct v w s) = ow_released s"
    by (simp_all add: move_construct_def)
  note free = not_in_scope [OF assms(2)]
  show ?thesis
  proof (rule owner_invI, goal_cases)
    case (1 u u' h)
    with owner_invD(1) [OF assms(1), of _ h] show ?case unfolding vars by (auto split: if_splits)
  next
    case (4 h)
    with owner_invD(5) [OF assms(1), of h] obtain u where u: "owns s u h" by (auto simp: same)
    then have "owns (move_construct v w s) (if u = w then v else u) h"
      using free [of h] \<open>v \<noteq> w\<close> by (auto simp: vars)
    then show ?case ..
  qed (use owner_invD(2,3,4,6) [OF assms(1)] in \<open>auto simp: vars same split: if_splits\<close>)
qed

text \<open>An assignment is the destruction of the target and a move into it.\<close>

lemma move_assign_as_move:
  assumes "v \<noteq> w"
  shows "move_assign v w s = move_construct v w (destroy v s)"
  using assms
  by (auto simp: move_assign_def move_construct_def destroy_def bind_var_def owned_def release_def
      fun_upd_twist split: option.splits)

lemma owner_step_inv:
  assumes "owner_inv s"
  shows "owner_inv (owner_step sq schema s a)"
proof (cases a)
  case (OpOpen v path)
  obtain ok left msg where o: "sq_open sq path = (ok, left, msg)" by (metis prod_cases3)
  from assms show ?thesis
    using acquire_bind_inv [OF assms, of v] acquire_release_inv [OF assms]
    by (auto simp: owner_step_def OpOpen db_open_def o acquire_def split: option.splits)
next
  case (OpPrepare v sql)
  show ?thesis
    using assms acquire_bind_inv [OF assms, of v] bind_none_inv [OF assms, of v]
    by (auto simp: owner_step_def OpPrepare st_prepare_def acquire_def owned_def domIff)
next
  case (OpDefault v)
  show ?thesis
    using assms bind_none_inv [OF assms, of v] by (auto simp: owner_step_def OpDefault owned_def domIff)
next
  case (OpMove v w)
  then show ?thesis using assms move_construct_inv [OF assms, of v w] by (auto simp: owner_step_def)
next
  case (OpAssign v w)
  show ?thesis
  proof (cases "v = w \<or> v \<notin> dom (ow_vars s) \<or> w \<notin> dom (ow_vars s)")
    case True
    with assms OpAssign show ?thesis by (auto simp: owner_step_def move_assign_def)
  next
    case False
    then have "owner_inv (destroy v s)" by (intro destroy_inv [OF assms])
    moreover have "v \<notin> dom (ow_vars (destroy v s))" "w \<in> dom (ow_vars (destroy v s))"
      using False by (auto simp: destroy_def release_def split: option.splits)
    ultimately show ?thesis
      using False move_construct_inv move_assign_as_move by (auto simp: owner_step_def OpAssign)
  qed
next
  case (OpDestroy v)
  then show ?thesis using assms destroy_inv [OF assms, of v] by (auto simp: owner_step_def)
qed

interpretation handles: step_machine "owner_step sq schema" owner_inv
  by unfold_locales (rule owner_step_inv)

text \<open>
  Every handle SQLite hands out is released exactly once. In any sequence of openings (failing in
  any way), preparations, moves, assignments and destructions, no handle is released twice, none
  that a variable still owns is released, and once no variable is left all have been.
\<close>

theorem handles_released_once:
  "distinct (ow_released (foldl (owner_step sq schema) owners_new ops)) \<and>
   (ow_vars (foldl (owner_step sq schema) owners_new ops) = Map.empty \<longrightarrow>
      set (ow_released (foldl (owner_step sq schema) owners_new ops)) =
        {..<ow_next (foldl (owner_step sq schema) owners_new ops)})"
proof -
  have "owner_inv (foldl (owner_step sq schema) owners_new ops)"
    by (rule handles.run_inv [OF owners_new_inv])
  then show ?thesis by (auto simp: owner_inv_def owns_def)
qed

section \<open>Opening\<close>

text \<open>\<open>open\<close> succeeds exactly if the file opens and all three scripts run; otherwise no handle stays.\<close>

lemma script_error_None: "script_error sq sqls = None \<longleftrightarrow> (\<forall>sql \<in> set sqls. db_exec sq sql = None)"
  by (induction sqls) (auto simp: script_error_def)

lemma db_open_succeeds:
  "(\<exists>h. fst (db_open sq schema path s) = Inr h) \<longleftrightarrow>
     fst (sq_open sq path) \<and>
     (\<forall>sql \<in> {kPragmas, schema, ''PRAGMA user_version=1;''}. db_exec sq sql = None)"
proof -
  have "script_error sq [kPragmas, schema, ''PRAGMA user_version=1;''] = None \<longleftrightarrow>
      (\<forall>sql \<in> {kPragmas, schema, ''PRAGMA user_version=1;''}. db_exec sq sql = None)"
    using script_error_None [of sq "[kPragmas, schema, ''PRAGMA user_version=1;'']"]
    unfolding list.set by blast
  then show ?thesis
    by (auto simp: db_open_def acquire_def split: prod.splits option.splits)
qed

section \<open>Values\<close>

datatype sql_value = SqlNull | SqlInt int | SqlText string

definition bind_text_opt :: "string option \<Rightarrow> sql_value" where
  "bind_text_opt v = (case v of None \<Rightarrow> SqlNull | Some s \<Rightarrow> SqlText s)"

definition bind_int_opt :: "int option \<Rightarrow> sql_value" where
  "bind_int_opt v = (case v of None \<Rightarrow> SqlNull | Some n \<Rightarrow> SqlInt n)"

definition column_is_null :: "sql_value \<Rightarrow> bool" where
  "column_is_null v \<longleftrightarrow> v = SqlNull"

text \<open>The accessors; SQLite's conversions between types are arguments.\<close>

definition column_text :: "(int \<Rightarrow> string) \<Rightarrow> sql_value \<Rightarrow> string" where
  "column_text show_int v = (case v of SqlNull \<Rightarrow> [] | SqlInt n \<Rightarrow> show_int n | SqlText s \<Rightarrow> s)"

definition column_int64 :: "(string \<Rightarrow> int) \<Rightarrow> sql_value \<Rightarrow> int" where
  "column_int64 read_int v = (case v of SqlNull \<Rightarrow> 0 | SqlInt n \<Rightarrow> n | SqlText s \<Rightarrow> read_int s)"

definition column_text_opt :: "(int \<Rightarrow> string) \<Rightarrow> sql_value \<Rightarrow> string option" where
  "column_text_opt show_int v = (if column_is_null v then None else Some (column_text show_int v))"

definition column_int64_opt :: "(string \<Rightarrow> int) \<Rightarrow> sql_value \<Rightarrow> int option" where
  "column_int64_opt read_int v = (if column_is_null v then None else Some (column_int64 read_int v))"

lemma optional_columns_roundtrip:
  "column_text_opt show_int (bind_text_opt v) = v" "column_int64_opt read_int (bind_int_opt n) = n"
  by (auto simp: column_text_opt_def column_int64_opt_def bind_text_opt_def bind_int_opt_def
      column_is_null_def column_text_def column_int64_def split: option.splits)

end
