(* ===== verification/Llm_Requests.thy ===== *)
theory Llm_Requests
  imports Llm_Client Config Supervisor
begin

text \<open>
  The requests of the language-model client (\<open>src/llm/client.cpp\<close>): a whole \<open>submit\<close> from the request
  it makes to the event it publishes, the health probe and the keep-alive. libcurl and the HTTP
  library are the environment, the JSON writer is an argument. The lemmas show what \<open>submit\<close>
  reports on every path and which addresses the three requests use.
\<close>

section \<open>Submit\<close>

record http_request =
  hr_url :: string
  hr_headers :: "string list"
  hr_body :: string
  hr_connect_timeout :: nat

text \<open>
  What happens to one transfer: whether libcurl gives a handle, the pieces of the body, the number
  of pieces before the token is flipped, whether it is flipped at the end, the code and the status.
\<close>

record llm_exchange =
  lx_handle :: bool
  lx_pieces :: "string list"
  lx_before_cancel :: nat
  lx_cancelled :: bool
  lx_code :: curl_code
  lx_status :: nat

record llm_result =
  lr_request :: "http_request option"
  lr_tokens :: "string list"
  lr_finished :: "llm_finish list"   \<comment> \<open>calls of \<open>on_finished\<close>\<close>
  lr_published :: "event list"

definition completions_url :: "config \<Rightarrow> string" where
  "completions_url c = cllm_base_url (cfg_llm c) @ ''/chat/completions''"

definition llm_http_request :: "config \<Rightarrow> string \<Rightarrow> http_request" where
  "llm_http_request c body =
     \<lparr>hr_url = completions_url c,
      hr_headers = [''Content-Type: application/json'', ''Accept: text/event-stream''],
      hr_body = body, hr_connect_timeout = unat (cllm_request_timeout_seconds (cfg_llm c))\<rparr>"

definition llm_submit :: "json_chunk \<Rightarrow> config \<Rightarrow> turn_id \<Rightarrow> string \<Rightarrow> llm_exchange \<Rightarrow> llm_result" where
  "llm_submit decode c t body x =
     (if \<not> lx_handle x
      then \<lparr>lr_request = None, lr_tokens = [],
            lr_finished = [(lf_new t)\<lparr>lf_error := True, lf_error_message := ''curl_easy_init failed''\<rparr>],
            lr_published = []\<rparr>
      else case lc_transfer decode (lx_before_cancel x) (lx_pieces x) lc_new of
        (xs, st) \<Rightarrow> (case lc_drain decode st of
          (ys, st1) \<Rightarrow>
            (let f = lc_outcome t (lx_cancelled x) (lx_code x) (lx_status x) st1
             in \<lparr>lr_request = Some (llm_http_request c body), lr_tokens = xs @ ys, lr_finished = [f],
                 lr_published = [lc_finished_event f]\<rparr>)))"

text \<open>
  \<open>on_finished\<close> is called once on every path, with an error, a cancellation or neither. The event
  \<open>LlmFinished\<close> follows it, except when libcurl gives no handle: then it is never published, and the
  dialogue machine, which waits for it, is not told that the stream is over.
\<close>

lemma submit_finishes_once:
  "\<exists>f. lr_finished (llm_submit decode c t body x) = [f] \<and> lf_turn f = t \<and> \<not> (lf_error f \<and> lf_cancelled f) \<and>
     lr_published (llm_submit decode c t body x) = (if lx_handle x then [lc_finished_event f] else [])"
  by (auto simp: llm_submit_def lc_outcome_def lf_new_def Let_def split: prod.splits curl_code.splits)

text \<open>A transfer that succeeds reports neither an error nor a cancellation, and its tokens.\<close>

lemma lc_transfer_tokens:
  "lc_transfer decode n bs st = (xs, st') \<Longrightarrow> lc_tokens st' = lc_tokens st + of_nat (length xs)"
proof (induction decode n bs st arbitrary: xs st' rule: lc_transfer.induct)
  case (2 decode n b bs st)
  show ?case
  proof (cases "curl_write decode (n = 0) b st")
    case (Some r)
    obtain ys st1 where r: "r = (ys, st1)" by fastforce
    obtain zs st2 where rec: "lc_transfer decode (n - 1) bs st1 = (zs, st2)" by fastforce
    have "lc_tokens st1 = lc_tokens st + of_nat (length ys)"
      using Some r by (auto simp: curl_write_def lc_deliver_def Let_def split: if_splits prod.splits)
    moreover have "lc_tokens st2 = lc_tokens st1 + of_nat (length zs)"
      using "2.IH" [OF Some] r rec by blast
    ultimately show ?thesis using "2.prems" Some r rec by auto
  qed (use "2.prems" in simp)
qed simp

lemma submit_counts_tokens:
  assumes "lx_handle x" and "lr_finished (llm_submit decode c t body x) = [f]"
  shows "lf_tokens_generated f = of_nat (length (lr_tokens (llm_submit decode c t body x)))"
proof -
  obtain xs st where a: "lc_transfer decode (lx_before_cancel x) (lx_pieces x) lc_new = (xs, st)" by fastforce
  obtain ys st1 where b: "lc_drain decode st = (ys, st1)" by fastforce
  have "lc_tokens st = of_nat (length xs)" using lc_transfer_tokens [OF a] by (simp add: lc_new_def)
  moreover have "lc_tokens st1 = lc_tokens st + of_nat (length ys)"
    using b by (auto simp: lc_drain_def lc_deliver_def Let_def split: prod.splits)
  ultimately show ?thesis
    using assms by (auto simp: llm_submit_def a b lc_outcome_def lf_new_def Let_def split: curl_code.splits)
qed

section \<open>Probe and keep-alive\<close>

text \<open>\<open>authority_of\<close>: the address up to the first slash after the scheme.\<close>

definition authority_of :: "string \<Rightarrow> string" where
  "authority_of url =
     (let host_start = (case find_sub ''://'' url of None \<Rightarrow> 0 | Some i \<Rightarrow> i + 3)
      in case find_sub ''/'' (drop host_start url) of
           None \<Rightarrow> url
         | Some j \<Rightarrow> take (host_start + j) url)"

text \<open>The answer to \<open>GET /health\<close>, if any, as a status.\<close>

definition llm_probe :: "(string \<Rightarrow> string \<Rightarrow> nat option) \<Rightarrow> config \<Rightarrow> bool" where
  "llm_probe get c = (get (authority_of (cllm_base_url (cfg_llm c))) ''/health'' = Some 200)"

record ping_request =
  pg_model :: string
  pg_messages :: "(string \<times> string) list"
  pg_max_tokens :: int
  pg_stream :: bool

definition keep_alive_request :: "config \<Rightarrow> ping_request" where
  "keep_alive_request c =
     \<lparr>pg_model = cllm_model (cfg_llm c), pg_messages = [(''user'', ''ping'')], pg_max_tokens = 1, pg_stream = False\<rparr>"

text \<open>The writer answers \<open>None\<close> on an error; an empty body is not sent.\<close>

definition build_keep_alive_body :: "(ping_request \<Rightarrow> string option) \<Rightarrow> config \<Rightarrow> string" where
  "build_keep_alive_body write_json c =
     (case write_json (keep_alive_request c) of None \<Rightarrow> [] | Some out \<Rightarrow> out)"

definition llm_keep_alive :: "(ping_request \<Rightarrow> string option) \<Rightarrow> config \<Rightarrow> (string \<times> string) option" where
  "llm_keep_alive write_json c =
     (let body = build_keep_alive_body write_json c
      in if body = [] then None
         else Some (authority_of (cllm_base_url (cfg_llm c)) @ ''/v1/chat/completions'', body))"

text \<open>
  The keep-alive goes to a fixed path below the authority, the requests to a path below the base
  address: they meet the same endpoint exactly when the base address is the authority and \<open>/v1\<close>.
\<close>

lemma keep_alive_same_endpoint:
  assumes "llm_keep_alive write_json c = Some (url, body)"
  shows "url = completions_url c \<longleftrightarrow>
    cllm_base_url (cfg_llm c) = authority_of (cllm_base_url (cfg_llm c)) @ ''/v1''"
proof -
  have url: "url = authority_of (cllm_base_url (cfg_llm c)) @ ''/v1/chat/completions''"
    using assms by (auto simp: llm_keep_alive_def Let_def split: if_splits)
  have "url = (authority_of (cllm_base_url (cfg_llm c)) @ ''/v1'') @ ''/chat/completions''"
    by (simp add: url)
  then show ?thesis unfolding completions_url_def by (metis append_same_eq)
qed

lemma authority_examples:
  "authority_of ''http://h:1/v1'' = ''http://h:1''" "authority_of ''http://h:1'' = ''http://h:1''"
  "authority_of ''http://h/llm/v1'' = ''http://h''"
  by (simp_all add: authority_of_def)

end
