(* ===== verification/Periodic_Threads.thy ===== *)
theory Periodic_Threads
  imports Supervisor
begin

text \<open>
  The two threads of the supervisor that wait with a timeout: the idle timer that keeps the model
  loaded (\<open>src/supervisor/keep_alive.cpp\<close>) and the evaluator of the pipeline's state
  (\<open>src/supervisor/supervisor.cpp\<close>). Their loops, the calls of \<open>stop\<close> and the handler of health events
  are interleaved steps between synchronisation points. The theorems show that the timer stops
  without waiting for its interval and never fires after \<open>stop\<close>, and that the evaluator evaluates
  after every health event; it may do so a second late, because its wake-up can be lost.
\<close>

section \<open>The idle timer\<close>

text \<open>
  \<open>KaTest\<close>: the loop's test. \<open>KaWait\<close>: at the predicate of the wait; the predicate and falling
  asleep are one step, since the mutex is held. \<open>KaCheck\<close>: the wait has returned. \<open>KaAsk\<close>: outside
  the mutex, before the callbacks.
\<close>

datatype ka_pc = KaTest | KaWait | KaAsleep | KaCheck | KaAsk | KaExit

datatype ka_stop = KaIdle | KaStore | KaNotify | KaJoin

record ka_thread =
  kt_alive :: keep_alive
  kt_running :: bool
  kt_stopping :: bool
  kt_pc :: "ka_pc option"   \<comment> \<open>\<open>None\<close>: no worker\<close>
  kt_stop :: ka_stop

definition kt_new :: "keep_alive \<Rightarrow> ka_thread" where
  "kt_new k = \<lparr>kt_alive = k, kt_running = False, kt_stopping = False, kt_pc = None, kt_stop = KaIdle\<rparr>"

text \<open>\<open>start\<close>; \<open>configured\<close>: both callbacks are set.\<close>

definition kt_start :: "bool \<Rightarrow> ka_thread \<Rightarrow> ka_thread" where
  "kt_start configured s =
     (if \<not> configured \<or> kt_running s then s
      else s\<lparr>kt_running := True, kt_stopping := False, kt_pc := Some KaTest\<rparr>)"

definition kt_stop_step :: "ka_thread \<Rightarrow> ka_thread exec" where
  "kt_stop_step s =
     (case kt_stop s of
        KaIdle \<Rightarrow> Done (if kt_running s then s\<lparr>kt_running := False, kt_stop := KaStore\<rparr> else s)
      | KaStore \<Rightarrow> Done (s\<lparr>kt_stopping := True, kt_stop := KaNotify\<rparr>)
      | KaNotify \<Rightarrow>
          Done (s\<lparr>kt_stop := KaJoin, kt_pc := (if kt_pc s = Some KaAsleep then Some KaWait else kt_pc s)\<rparr>)
      | KaJoin \<Rightarrow>
          (if kt_pc s = None \<or> kt_pc s = Some KaExit then Done (s\<lparr>kt_stop := KaIdle, kt_pc := None\<rparr>)
           else Blocked))"

text \<open>The worker; \<open>answer\<close> is what \<open>should_fire\<close> does, \<open>None\<close> if it throws.\<close>

definition kt_work :: "bool option \<Rightarrow> ka_thread \<Rightarrow> ka_thread exec" where
  "kt_work answer s =
     (case kt_pc s of
        None \<Rightarrow> Blocked
      | Some KaTest \<Rightarrow> Done (s\<lparr>kt_pc := Some (if kt_running s then KaWait else KaExit)\<rparr>)
      | Some KaWait \<Rightarrow> Done (s\<lparr>kt_pc := Some (if kt_stopping s then KaCheck else KaAsleep)\<rparr>)
      | Some KaAsleep \<Rightarrow> Blocked
      | Some KaCheck \<Rightarrow> Done (s\<lparr>kt_pc := Some (if kt_stopping s then KaExit else KaAsk)\<rparr>)
      | Some KaAsk \<Rightarrow> Done (s\<lparr>kt_alive := snd (ka_expiry answer (kt_alive s)), kt_pc := Some KaTest\<rparr>)
      | Some KaExit \<Rightarrow> Blocked)"

text \<open>The interval has passed.\<close>

definition kt_timeout :: "ka_thread \<Rightarrow> ka_thread exec" where
  "kt_timeout s = (if kt_pc s = Some KaAsleep then Done (s\<lparr>kt_pc := Some KaCheck\<rparr>) else Blocked)"

datatype ka_act = KtStart bool | KtStop | KtWork "bool option" | KtTimeout

definition kt_step :: "ka_act \<Rightarrow> ka_thread \<Rightarrow> ka_thread exec" where
  "kt_step a s =
     (case a of
        KtStart configured \<Rightarrow> (if kt_stop s = KaIdle then Done (kt_start configured s) else Blocked)
      | KtStop \<Rightarrow> kt_stop_step s
      | KtWork answer \<Rightarrow> kt_work answer s
      | KtTimeout \<Rightarrow> kt_timeout s)"

primrec kt_run :: "ka_act list \<Rightarrow> ka_thread \<Rightarrow> ka_thread exec" where
  "kt_run [] s = Done s"
| "kt_run (a # as) s = (case kt_step a s of Done s' \<Rightarrow> kt_run as s' | Blocked \<Rightarrow> Blocked | UB \<Rightarrow> UB)"

definition kt_inv :: "ka_thread \<Rightarrow> bool" where
  "kt_inv s \<longleftrightarrow>
     (kt_stop s \<noteq> KaIdle \<longrightarrow> \<not> kt_running s) \<and>
     (kt_stop s \<in> {KaNotify, KaJoin} \<longrightarrow> kt_stopping s) \<and>
     (kt_stop s = KaJoin \<longrightarrow> kt_pc s \<noteq> Some KaAsleep) \<and>
     (kt_stop s = KaIdle \<and> \<not> kt_running s \<longrightarrow> kt_pc s = None)"

lemma kt_new_inv: "kt_inv (kt_new k)"
  by (simp add: kt_inv_def kt_new_def)

lemma kt_step_inv: "kt_inv s \<Longrightarrow> kt_step a s = Done s' \<Longrightarrow> kt_inv s'"
  by (cases a; cases "kt_stop s"; cases "kt_pc s")
    (auto simp: kt_inv_def kt_step_def kt_start_def kt_stop_step_def kt_work_def kt_timeout_def
      split: ka_pc.splits if_splits)

lemma kt_run_inv: "kt_inv s \<Longrightarrow> kt_run as s = Done s' \<Longrightarrow> kt_inv s'"
  by (induction as arbitrary: s) (auto split: exec.splits dest: kt_step_inv)

text \<open>What is left of \<open>stop\<close>, without the timeout.\<close>

definition kt_left :: "ka_thread \<Rightarrow> nat" where
  "kt_left s =
     (case kt_stop s of KaIdle \<Rightarrow> 0 | KaStore \<Rightarrow> 24 | KaNotify \<Rightarrow> 16 | KaJoin \<Rightarrow> 8) +
     (case kt_pc s of None \<Rightarrow> 0 | Some KaExit \<Rightarrow> 0 | Some KaAsleep \<Rightarrow> 0 | Some KaTest \<Rightarrow> 1
      | Some KaAsk \<Rightarrow> 2 | Some KaCheck \<Rightarrow> 3 | Some KaWait \<Rightarrow> 4)"

text \<open>
  The idle timer stops promptly. From any state it can reach in which \<open>stop\<close> has begun: as long as
  \<open>stop\<close> has not returned, it or the worker can take a step without waiting for the interval, and
  at most 28 such steps are left.
\<close>

theorem keep_alive_stop_prompt:
  assumes "kt_run as (kt_new k) = Done s" and "kt_stop s \<noteq> KaIdle"
  shows "(\<exists>a s'. a \<in> {KtStop, KtWork None} \<and> kt_step a s = Done s') \<and> kt_left s \<le> 28 \<and>
    (\<forall>a s'. kt_step a s = Done s' \<longrightarrow> a \<noteq> KtTimeout \<longrightarrow> kt_left s' < kt_left s)"
proof -
  have inv: "kt_inv s" using kt_run_inv [OF kt_new_inv assms(1)] .
  have step: "kt_step KtStop s = kt_stop_step s" "kt_step (KtWork None) s = kt_work None s"
    by (simp_all add: kt_step_def)
  have "(\<exists>s'. kt_stop_step s = Done s') \<or> (\<exists>s'. kt_work None s = Done s')"
    using inv assms(2)
    by (cases "kt_stop s"; cases "kt_pc s")
      (auto simp: kt_inv_def kt_stop_step_def kt_work_def split: ka_pc.splits)
  then have "\<exists>a s'. a \<in> {KtStop, KtWork None} \<and> kt_step a s = Done s'" using step by auto
  moreover have "kt_left s \<le> 28"
    by (simp add: kt_left_def split: ka_stop.splits option.splits ka_pc.splits)
  moreover have "kt_left s' < kt_left s" if "kt_step a s = Done s'" "a \<noteq> KtTimeout" for a s'
    using inv assms(2) that
    by (cases a; cases "kt_stop s"; cases "kt_pc s")
      (auto simp: kt_inv_def kt_left_def kt_step_def kt_stop_step_def kt_work_def split: ka_pc.splits if_splits)
  ultimately show ?thesis by blast
qed

text \<open>When \<open>stop\<close> has returned the timer neither fires nor skips until it is started again.\<close>

theorem keep_alive_silent_after_stop:
  assumes "kt_run as (kt_new k) = Done s" and "kt_stop s = KaIdle" and "\<not> kt_running s"
    and "kt_run bs s = Done s'" and "\<forall>b. KtStart b \<notin> set bs"
  shows "kt_alive s' = kt_alive s"
proof -
  have "kt_pc s = None"
    using kt_run_inv [OF kt_new_inv assms(1)] assms(2,3) by (simp add: kt_inv_def)
  with assms(2-5) show ?thesis
  proof (induction bs arbitrary: s)
    case (Cons b bs)
    then obtain s1 where s1: "kt_step b s = Done s1" "kt_run bs s1 = Done s'"
      by (auto split: exec.splits)
    with Cons.prems have "s1 = s"
      by (cases b) (auto simp: kt_step_def kt_stop_step_def kt_work_def kt_timeout_def)
    with Cons s1(2) show ?case by simp
  qed simp
qed

section \<open>The evaluator\<close>

text \<open>
  The wait's mutex is a local one that nobody else takes, so the handler and \<open>stop\<close> can come
  between the test of the predicate (\<open>EvPred\<close>) and falling asleep (\<open>EvSleepy\<close>).
\<close>

datatype ev_pc = EvTest | EvPred | EvSleepy | EvAsleep | EvClear | EvCheck | EvEvaluate | EvExit

record evaluator =
  ev_pc :: ev_pc
  ev_running :: bool
  ev_wake :: bool
  ev_pending :: bool  \<comment> \<open>a health event has been handled since the last evaluation\<close>

definition ev_new :: evaluator where
  "ev_new = \<lparr>ev_pc = EvTest, ev_running = True, ev_wake = False, ev_pending = False\<rparr>"

text \<open>
  The worker's step, the timeout, the two halves of the health handler, the first three actions of
  \<open>stop\<close> (its notification is \<open>EvNotify\<close>).
\<close>

datatype ev_act = EvWork | EvTimeout | EvHealth | EvNotify | EvStop | EvWakeUp

definition ev_work :: "evaluator \<Rightarrow> evaluator exec" where
  "ev_work s =
     (case ev_pc s of
        EvTest \<Rightarrow> Done (s\<lparr>ev_pc := (if ev_running s then EvPred else EvExit)\<rparr>)
      | EvPred \<Rightarrow> Done (s\<lparr>ev_pc := (if ev_wake s \<or> \<not> ev_running s then EvClear else EvSleepy)\<rparr>)
      | EvSleepy \<Rightarrow> Done (s\<lparr>ev_pc := EvAsleep\<rparr>)
      | EvAsleep \<Rightarrow> Blocked
      | EvClear \<Rightarrow> Done (s\<lparr>ev_wake := False, ev_pc := EvCheck\<rparr>)
      | EvCheck \<Rightarrow> Done (s\<lparr>ev_pc := (if ev_running s then EvEvaluate else EvExit)\<rparr>)
      | EvEvaluate \<Rightarrow> Done (s\<lparr>ev_pending := False, ev_pc := EvTest\<rparr>)
      | EvExit \<Rightarrow> Blocked)"

definition ev_step :: "evaluator \<Rightarrow> ev_act \<Rightarrow> evaluator" where
  "ev_step s a =
     (case a of
        EvWork \<Rightarrow> (case ev_work s of Done s' \<Rightarrow> s' | _ \<Rightarrow> s)
      | EvTimeout \<Rightarrow> (if ev_pc s = EvAsleep then s\<lparr>ev_pc := EvClear\<rparr> else s)
      | EvHealth \<Rightarrow> s\<lparr>ev_wake := True, ev_pending := True\<rparr>
      | EvNotify \<Rightarrow> (if ev_pc s = EvAsleep then s\<lparr>ev_pc := EvPred\<rparr> else s)
      | EvStop \<Rightarrow> s\<lparr>ev_running := False\<rparr>
      | EvWakeUp \<Rightarrow> s\<lparr>ev_wake := True\<rparr>)"

text \<open>Steps until the next evaluation, counting the timeout as one.\<close>

definition ev_rank :: "evaluator \<Rightarrow> nat" where
  "ev_rank s = (case ev_pc s of EvEvaluate \<Rightarrow> 1 | EvCheck \<Rightarrow> 2 | EvClear \<Rightarrow> 3 | EvAsleep \<Rightarrow> 4
     | EvSleepy \<Rightarrow> 5 | EvPred \<Rightarrow> 6 | EvTest \<Rightarrow> 7 | EvExit \<Rightarrow> 0)"

text \<open>A step the evaluator or its timer really takes.\<close>

definition ev_progress :: "evaluator \<Rightarrow> ev_act \<Rightarrow> bool" where
  "ev_progress s a \<longleftrightarrow>
     (a = EvWork \<and> ev_pc s \<noteq> EvAsleep \<and> ev_pc s \<noteq> EvExit) \<or> (a = EvTimeout \<and> ev_pc s = EvAsleep)"

primrec ev_steps :: "evaluator \<Rightarrow> ev_act list \<Rightarrow> nat" where
  "ev_steps s [] = 0"
| "ev_steps s (a # as) = (if ev_progress s a then 1 else 0) + ev_steps (ev_step s a) as"

lemma ev_step_rank:
  assumes "ev_running s" and "ev_pc s \<noteq> EvExit" and "a \<noteq> EvStop"
  shows "(\<not> ev_pending (ev_step s a)) \<or>
    ((if ev_progress s a then 1 else 0) + ev_rank (ev_step s a) \<le> ev_rank s + (if a = EvNotify then 2 else 0))"
    and "ev_running (ev_step s a) \<and> ev_pc (ev_step s a) \<noteq> EvExit"
  using assms
  by (cases a; cases "ev_pc s"; simp add: ev_step_def ev_work_def ev_progress_def ev_rank_def)+

text \<open>
  No health event is missed: after the handler has run, in any interleaving in which the evaluator
  is not stopped, an evaluation follows within 7 steps of the evaluator or its one-second timer,
  and two more for each notification that arrives meanwhile.
\<close>

theorem health_event_evaluated:
  assumes "ev_running s" and "ev_pc s \<noteq> EvExit" and "EvStop \<notin> set as"
    and "7 + 2 * length (filter (\<lambda>a. a = EvNotify) as) \<le> ev_steps s as"
  shows "\<exists>n \<le> length as. \<not> ev_pending (foldl ev_step s (take n as))"
proof (rule ccontr)
  assume "\<not> ?thesis"
  then have all: "\<forall>n \<le> length as. ev_pending (foldl ev_step s (take n as))" by blast
  have "ev_steps s as + ev_rank (foldl ev_step s as) \<le> ev_rank s + 2 * length (filter (\<lambda>a. a = EvNotify) as) \<and>
      ev_pc (foldl ev_step s as) \<noteq> EvExit"
    using assms(1-3) all
  proof (induction as arbitrary: s)
    case (Cons a as)
    have "ev_pending (ev_step s a)" using Cons.prems(4) [rule_format, of 1] by simp
    moreover have "a \<noteq> EvStop" using Cons.prems(3) by auto
    ultimately have step: "(if ev_progress s a then 1 else 0) + ev_rank (ev_step s a)
        \<le> ev_rank s + (if a = EvNotify then 2 else 0)" "ev_running (ev_step s a)" "ev_pc (ev_step s a) \<noteq> EvExit"
      using ev_step_rank [OF Cons.prems(1,2), of a] by auto
    have "\<forall>n \<le> length as. ev_pending (foldl ev_step (ev_step s a) (take n as))"
    proof (intro allI impI)
      fix n assume "n \<le> length as"
      with Cons.prems(4) [rule_format, of "Suc n"] show "ev_pending (foldl ev_step (ev_step s a) (take n as))"
        by simp
    qed
    with Cons.IH [of "ev_step s a"] step Cons.prems(3) show ?case by auto
  qed simp
  moreover have "ev_rank s \<le> 7" by (simp add: ev_rank_def split: ev_pc.splits)
  moreover have "0 < ev_rank (foldl ev_step s as)" if "ev_pc (foldl ev_step s as) \<noteq> EvExit"
    using that by (simp add: ev_rank_def split: ev_pc.splits)
  ultimately show False using assms(4) by linarith
qed

text \<open>
  The wake-up can be lost: a handler that runs between the test and the sleep wakes nobody, and the
  evaluator sleeps with the flag set until its timer ends.
\<close>

lemma wake_up_lost:
  "let s = foldl ev_step ev_new [EvWork, EvWork, EvHealth, EvNotify, EvWork]
   in ev_pc s = EvAsleep \<and> ev_wake s \<and> ev_pending s"
  by (simp add: ev_step_def ev_work_def ev_new_def)

end
