(* ===== verification/Supervision.thy ===== *)
theory Supervision
  imports Supervisor
begin

text \<open>
  The supervisor as a whole (\<open>src/supervisor/supervisor.cpp\<close>): registration, start, stop, the
  snapshot and the wait for a state. The lemmas show that stopping stops every monitor, that a
  service registered after the start is not probed, and that the wait returns within its timeout.
\<close>

section \<open>Start and stop\<close>

record supervision =
  sv_running :: bool
  sv_monitors :: "service_monitor list"
  sv_core :: supervisor
  sv_evaluator :: bool     \<comment> \<open>the evaluator's thread\<close>
  sv_subscribed :: bool    \<comment> \<open>the subscription to health events\<close>

definition supervision_new :: "int \<Rightarrow> supervision" where
  "supervision_new grace_seconds =
     \<lparr>sv_running = False, sv_monitors = [], sv_core = su_new grace_seconds, sv_evaluator = False, sv_subscribed = True\<rparr>"

definition supervision_register :: "service_config \<Rightarrow> supervision \<Rightarrow> supervision" where
  "supervision_register svc s = s\<lparr>sv_monitors := su_register svc (sv_monitors s)\<rparr>"

definition supervision_evaluate :: "time_point \<Rightarrow> supervision \<Rightarrow> supervision" where
  "supervision_evaluate now s = s\<lparr>sv_core := su_evaluate now (map sm_snapshot (sv_monitors s)) (sv_core s)\<rparr>"

definition supervision_start :: "time_point \<Rightarrow> supervision \<Rightarrow> supervision" where
  "supervision_start now s =
     (if sv_running s then s
      else supervision_evaluate now
             (s\<lparr>sv_running := True, sv_monitors := map sm_start (sv_monitors s), sv_evaluator := True\<rparr>))"

definition supervision_stop :: "supervision \<Rightarrow> supervision" where
  "supervision_stop s =
     (if \<not> sv_running s then s
      else s\<lparr>sv_running := False, sv_evaluator := False, sv_monitors := map sm_stop (sv_monitors s),
             sv_subscribed := False\<rparr>)"

definition supervision_snapshot :: "supervision \<Rightarrow> pipeline_state \<times> service_snapshot list" where
  "supervision_snapshot s = (su_state (sv_core s), map sm_snapshot (sv_monitors s))"

datatype sv_act = SvRegister service_config | SvStart time_point | SvStop | SvEvaluate time_point

text \<open>The evaluator evaluates only while its thread is there.\<close>

fun supervision_do :: "supervision \<Rightarrow> sv_act \<Rightarrow> supervision" where
  "supervision_do s (SvRegister svc) = supervision_register svc s"
| "supervision_do s (SvStart now) = supervision_start now s"
| "supervision_do s SvStop = supervision_stop s"
| "supervision_do s (SvEvaluate now) = (if sv_evaluator s then supervision_evaluate now s else s)"

lemma sm_new_idle [simp]: "\<not> sm_running (sm_new svc)" "sm_cfg (sm_new svc) = svc"
  by (simp_all add: sm_new_def)

lemma sm_start_stop [simp]:
  "sm_running (sm_start m) \<longleftrightarrow> sm_running m \<or> sv_health_url (sm_cfg m) \<noteq> []" "\<not> sm_running (sm_stop m)"
  "sm_cfg (sm_start m) = sm_cfg m" "sm_cfg (sm_stop m) = sm_cfg m"
  by (simp_all add: sm_start_def sm_stop_def)

lemma su_register_set:
  "m \<in> set (su_register svc ms) \<Longrightarrow> m \<in> set ms \<or> m = sm_new svc"
  by (auto simp: su_register_def Let_def split: if_splits dest: set_update_subset_insert [THEN subsetD])

text \<open>
  In every sequence of calls: the evaluator's thread is there while the supervisor runs, a monitor
  runs only then and only with a health address.
\<close>

definition supervision_inv :: "supervision \<Rightarrow> bool" where
  "supervision_inv s \<longleftrightarrow> (sv_evaluator s \<longleftrightarrow> sv_running s) \<and>
     (\<forall>m \<in> set (sv_monitors s). sm_running m \<longrightarrow> sv_running s \<and> sv_health_url (sm_cfg m) \<noteq> [])"

lemma supervision_do_inv: "supervision_inv s \<Longrightarrow> supervision_inv (supervision_do s a)"
  by (cases a) (auto simp: supervision_inv_def supervision_register_def supervision_start_def supervision_stop_def
      supervision_evaluate_def dest!: su_register_set)

theorem monitors_stop_with_supervisor:
  "supervision_inv (foldl supervision_do (supervision_new g) as)"
  "\<forall>m \<in> set (sv_monitors (supervision_stop (foldl supervision_do (supervision_new g) as))). \<not> sm_running m"
proof -
  have new: "supervision_inv (supervision_new g)" by (simp add: supervision_inv_def supervision_new_def)
  show inv: "supervision_inv (foldl supervision_do (supervision_new g) as)"
    by (induction as rule: rev_induct) (simp_all add: new supervision_do_inv)
  then show "\<forall>m \<in> set (sv_monitors (supervision_stop (foldl supervision_do (supervision_new g) as))). \<not> sm_running m"
    by (auto simp: supervision_stop_def supervision_inv_def)
qed

text \<open>
  Why services are registered before the start: one registered later is not started, and a second
  start does nothing, so it is never probed.
\<close>

lemma late_service_never_probed:
  assumes "sv_running s" and "\<forall>m \<in> set (sv_monitors s). sv_name (sm_cfg m) \<noteq> sv_name svc"
  shows "let s' = supervision_start now (supervision_register svc s)
    in sv_monitors s' = sv_monitors s @ [sm_new svc] \<and> \<not> sm_running (last (sv_monitors s'))"
  using assms by (simp add: supervision_register_def su_register_def supervision_start_def)

text \<open>A supervisor that is started again has no subscription: only the timer wakes its evaluator.\<close>

lemma restart_unsubscribed:
  "sv_running s \<Longrightarrow> let s' = supervision_start now (supervision_stop s) in sv_running s' \<and> \<not> sv_subscribed s'"
  by (simp add: supervision_stop_def supervision_start_def supervision_evaluate_def)

section \<open>The wait for a state\<close>

text \<open>
  The polls: the state a test reads, the clock after it, and the state a load after that reads. The
  clock is in nanoseconds, the sleep between two polls takes two milliseconds or more.
\<close>

fun wait_for_pipeline_state ::
  "pipeline_state \<Rightarrow> time_point \<Rightarrow> (pipeline_state \<times> time_point \<times> pipeline_state) list \<Rightarrow> pipeline_state option" where
  "wait_for_pipeline_state wanted deadline [] = None"
| "wait_for_pipeline_state wanted deadline ((tested, now, loaded) # polls) =
     (if tested = wanted \<or> deadline \<le> now then Some loaded
      else wait_for_pipeline_state wanted deadline polls)"

lemma wait_polls_before_deadline:
  "wait_for_pipeline_state wanted deadline polls = None \<Longrightarrow> p \<in> set polls \<Longrightarrow> fst (snd p) < deadline"
  by (induction wanted deadline polls rule: wait_for_pipeline_state.induct) (auto split: if_splits)

lemma wait_returns_in_time:
  assumes "\<And>i. i < length polls \<Longrightarrow> start + 2000000 * int i \<le> fst (snd (polls ! i))"
    and "timeout \<le> 2 * (int (length polls) - 1)" and "polls \<noteq> []"
  shows "\<exists>st. wait_for_pipeline_state wanted (start + 1000000 * timeout) polls = Some st"
proof (rule ccontr)
  let ?n = "length polls - 1"
  assume "\<not> ?thesis"
  then have none: "wait_for_pipeline_state wanted (start + 1000000 * timeout) polls = None" by simp
  have n: "?n < length polls" using assms(3) by simp
  have "fst (snd (polls ! ?n)) < start + 1000000 * timeout"
    using wait_polls_before_deadline [OF none nth_mem [OF n]] .
  moreover have "start + 2000000 * int ?n \<le> fst (snd (polls ! ?n))" by (rule assms(1) [OF n])
  moreover have "int ?n = int (length polls) - 1" using n by simp
  ultimately show False using assms(2) by simp
qed

end
