(* ===== verification/Stt_Wiring.thy ===== *)
theory Stt_Wiring
  imports Realtime_Stt Stt_Client Config
begin

text \<open>
  The transcription stack that a configuration builds (\<open>src/orchestrator/stt_stack.cpp\<close>): which of the
  two clients it makes, the handlers that open and close an utterance of the streaming client, what
  its callbacks publish, and the stop of the stack. The theorem states what reaches the bus for one
  utterance; the last lemmas show that opening and closing run on two threads and can change places.
\<close>

section \<open>The path\<close>

datatype stt_route = SttOff | SttUnavailable | SttStreaming | SttRequests

text \<open>\<open>up\<close>: the session of the streaming client came up within its 15 seconds.\<close>

definition stt_path :: "bool \<Rightarrow> config \<Rightarrow> stt_route" where
  "stt_path up c =
     (if cstt_base_url (cfg_stt c) = [] then SttOff
      else if cstt_streaming (cfg_stt c) \<and> caud_capture_enabled (cfg_audio c)
      then (if up then SttStreaming else SttUnavailable)
      else SttRequests)"

definition stt_enabled :: "stt_route \<Rightarrow> bool" where
  "stt_enabled p \<longleftrightarrow> p = SttStreaming \<or> p = SttRequests"

text \<open>The events the stack subscribes to, one subscription each, and whether it takes the live audio.\<close>

definition stt_subscriptions :: "stt_route \<Rightarrow> event_type list" where
  "stt_subscriptions p =
     (case p of SttStreaming \<Rightarrow> [TSpeechStarted, TSpeechEnded] | SttRequests \<Rightarrow> [TUtteranceReady] | _ \<Rightarrow> [])"

definition takes_live_audio :: "bool \<Rightarrow> stt_route \<Rightarrow> bool" where
  "takes_live_audio pipeline p \<longleftrightarrow> pipeline \<and> p = SttStreaming"

text \<open>Without capture there is no streaming; nothing is subscribed by a stack that is not enabled.\<close>

lemma stt_path_cases:
  "stt_path up c = SttStreaming \<Longrightarrow> caud_capture_enabled (cfg_audio c)"
  "\<not> caud_capture_enabled (cfg_audio c) \<Longrightarrow> stt_path up c \<in> {SttOff, SttRequests}"
  "stt_enabled (stt_path up c) \<longleftrightarrow> stt_subscriptions (stt_path up c) \<noteq> []"
  by (auto simp: stt_path_def stt_enabled_def stt_subscriptions_def split: if_splits)

section \<open>The streaming path\<close>

text \<open>The callbacks of utterance number \<open>k\<close>, and what one call of them publishes; an error is logged.\<close>

definition wired_callbacks :: "nat \<Rightarrow> utterance_callbacks" where
  "wired_callbacks k = \<lparr>uc_owner = k, uc_partial = True, uc_final = True, uc_error = True\<rparr>"

definition call_events :: "user_call \<Rightarrow> event list" where
  "call_events x =
     (case x of CallPartial _ p \<Rightarrow> [PartialTranscript p] | CallFinal _ f \<Rightarrow> [FinalTranscript f] | CallError _ _ \<Rightarrow> [])"

text \<open>
  What the bus sees of one utterance, in every run of the client's threads: partial transcripts that
  grow from the first delta on, then at most one final transcript, all of them without a turn.
\<close>

theorem streaming_transcripts:
  assumes "rt_reachable e s" and "(wired_callbacks k, kNoTurn) \<in> set (rr_begun s)"
  shows "\<exists>ds fs. concat (map call_events (told_to s k)) =
      map (\<lambda>i. PartialTranscript
        \<lparr>pt_turn = kNoTurn, pt_text = concat (take (Suc i) ds), pt_lang = [],
         pt_stable_prefix_len = length (concat (take (Suc i) ds)), pt_seq = word_of_nat (Suc i),
         pt_confidence = Fin 0\<rparr>) [0..<length ds] @ map FinalTranscript fs \<and>
      length fs \<le> 1 \<and> (\<forall>f \<in> set fs. ft_turn f = kNoTurn)"
proof -
  have "utterance_told (wired_callbacks k) kNoTurn (told_to s k)"
    using callbacks_told [OF assms] by (simp add: wired_callbacks_def)
  then obtain ds ys where told: "told_to s k = partials_of (wired_callbacks k) kNoTurn ds @ ys"
    and last: "last_call (wired_callbacks k) kNoTurn ys"
    by (auto simp: utterance_told_def)
  have parts: "concat (map call_events (partials_of (wired_callbacks k) kNoTurn ds)) =
      map (\<lambda>i. PartialTranscript
        \<lparr>pt_turn = kNoTurn, pt_text = concat (take (Suc i) ds), pt_lang = [],
         pt_stable_prefix_len = length (concat (take (Suc i) ds)), pt_seq = word_of_nat (Suc i),
         pt_confidence = Fin 0\<rparr>) [0..<length ds]"
    by (simp add: partials_of_def partial_calls_def wired_callbacks_def call_events_def comp_def
        concat_map_singleton)
  have "\<exists>fs. concat (map call_events ys) = map FinalTranscript fs \<and> length fs \<le> 1 \<and>
      (\<forall>f \<in> set fs. ft_turn f = kNoTurn)" (is "\<exists>fs. ?final fs")
  proof (cases "(wired_callbacks k, kNoTurn, ys)" rule: last_call.cases)
    case (2 cb t j f)
    with last show ?thesis by (intro exI [of _ "[f]"]) (simp add: call_events_def)
  qed (use last in \<open>auto simp: call_events_def\<close>)
  then obtain fs where "?final fs" ..
  then show ?thesis by (intro exI [of _ ds] exI [of _ fs]) (simp add: told parts)
qed

text \<open>
  The link between the bus and the client. \<open>SpeechStarted\<close> and \<open>SpeechEnded\<close> have a subscription
  each, so a queue and a thread each: the state counts the events that wait in either queue. A
  flush that does not return keeps its thread, and the step changes nothing.
\<close>

record 's stt_link =
  sl_client :: "'s rt_client"
  sl_heap :: heap
  sl_begun :: nat
  sl_started :: nat
  sl_ended :: nat
  sl_wire :: "wire list"

definition sl_new :: "'s rt_client \<Rightarrow> heap \<Rightarrow> 's stt_link" where
  "sl_new c h = \<lparr>sl_client = c, sl_heap = h, sl_begun = 0, sl_started = 0, sl_ended = 0, sl_wire = []\<rparr>"

definition on_speech_started :: "'s rt_env \<Rightarrow> time_point \<Rightarrow> 's stt_link \<Rightarrow> 's stt_link" where
  "on_speech_started e now s =
     (let (cancel, h) = new_token (sl_heap s);
          (res, c) = rt_begin_utterance e now kNoTurn (Some cancel) (wired_callbacks (sl_begun s)) (sl_client s)
      in s\<lparr>sl_client := c, sl_heap := h, sl_begun := sl_begun s + 1,
           sl_wire := sl_wire s @ (case res of BeginSends ws \<Rightarrow> ws | _ \<Rightarrow> [])\<rparr>)"

definition on_speech_ended :: "'s rt_env \<Rightarrow> 's stt_link \<Rightarrow> 's stt_link" where
  "on_speech_ended e s =
     (case rt_end_utterance e (sl_client s) of
        None \<Rightarrow> s
      | Some (sent, c) \<Rightarrow> s\<lparr>sl_client := c, sl_wire := sl_wire s @ (case sent of Ok ws \<Rightarrow> ws | _ \<Rightarrow> [])\<rparr>)"

text \<open>The two publications, and the dispatch of the first waiting event by either thread.\<close>

datatype link_act = PublishStarted | PublishEnded | DispatchStarted time_point | DispatchEnded

fun link_do :: "'s rt_env \<Rightarrow> 's stt_link \<Rightarrow> link_act \<Rightarrow> 's stt_link" where
  "link_do e s PublishStarted = s\<lparr>sl_started := sl_started s + 1\<rparr>"
| "link_do e s PublishEnded = s\<lparr>sl_ended := sl_ended s + 1\<rparr>"
| "link_do e s (DispatchStarted now) =
     (if sl_started s = 0 then s else on_speech_started e now (s\<lparr>sl_started := sl_started s - 1\<rparr>))"
| "link_do e s DispatchEnded =
     (if sl_ended s = 0 then s else on_speech_ended e (s\<lparr>sl_ended := sl_ended s - 1\<rparr>))"

text \<open>Dispatched in the order of publication, an utterance is opened and committed.\<close>

lemma link_in_order:
  assumes "rt_state (sl_client s) = RtReady" and "sl_started s = 0" and "sl_ended s = 0"
    and "resampler_new (re_soxr e) 16000 24000 = Ok r" and "resampler_flush (re_soxr e) [] r = Some (Ok (rest, r'))"
  shows "sl_wire (foldl (link_do e) s [PublishStarted, DispatchStarted now, PublishEnded, DispatchEnded]) =
    sl_wire s @ [WClear] @ (if rest = [] then [] else [WAppend (pcm_base64 rest)]) @ [WCommit]"
  using assms
  by (simp add: on_speech_started_def on_speech_ended_def rt_begin_utterance_def rt_end_utterance_def new_token_def)

text \<open>
  With both events waiting the other thread can be first: the close finds no utterance and does
  nothing, then the utterance is opened and stays open, without a commit.
\<close>

lemma link_out_of_order:
  assumes "rt_state (sl_client s) = RtReady" and "\<not> rt_active (sl_client s)"
    and "sl_started s = 0" and "sl_ended s = 0" and "resampler_new (re_soxr e) 16000 24000 = Ok r"
  shows "let s' = foldl (link_do e) s [PublishStarted, PublishEnded, DispatchEnded, DispatchStarted now]
    in sl_wire s' = sl_wire s @ [WClear] \<and> rt_active (sl_client s') \<and> sl_started s' = 0 \<and> sl_ended s' = 0"
  using assms
  by (simp add: on_speech_started_def on_speech_ended_def rt_begin_utterance_def idle_end new_token_def)

section \<open>The stop\<close>

text \<open>The stack's parts; the join of the request worker is left to \<open>Stt_Client\<close>.\<close>

record 's stt_parts =
  sp_realtime :: "'s rt_client option"
  sp_requests :: "stt_stack option"
  sp_stopped :: bool

definition stt_parts_stop :: "'s stt_parts \<Rightarrow> 's stt_parts" where
  "stt_parts_stop s =
     (if sp_stopped s then s
      else s\<lparr>sp_stopped := True, sp_realtime := map_option rt_stop (sp_realtime s),
             sp_requests := map_option (\<lambda>w. stt_stop_notify (stt_stop_store w)) (sp_requests s)\<rparr>)"

lemma stt_parts_stop_once:
  "stt_parts_stop (stt_parts_stop s) = stt_parts_stop s"
  "\<not> sp_stopped s \<Longrightarrow> sp_requests s = Some w \<Longrightarrow> \<exists>w'. sp_requests (stt_parts_stop s) = Some w' \<and> ss_stop w'"
  by (simp_all add: stt_parts_stop_def stt_stop_notify_def stt_stop_store_def)

end
