(* ===== verification/Vad_Model.thy ===== *)
theory Vad_Model
  imports Audio_Pipeline Text_Format
begin

text \<open>
  Loading the activity detector's model (constructor and \<open>load\<close> in \<open>src/audio/vad.cpp\<close>, its caller in
  \<open>src/audio/pipeline.cpp\<close>) and reading the outputs of one window. The file system and the ONNX
  runtime are arguments. The lemmas show which models are accepted, that the pipeline goes on without
  a detector when loading throws, and that an accepted model with one output is read out of range.
\<close>

section \<open>Loading\<close>

text \<open>What the runtime tells of a session it has made.\<close>

record onnx_model =
  om_inputs :: nat
  om_outputs :: nat

text \<open>\<open>create\<close> makes a session from a path or fails with a text.\<close>

definition vad_load ::
  "(string \<Rightarrow> bool) \<Rightarrow> (string \<Rightarrow> string + onnx_model) \<Rightarrow> string \<Rightarrow> string + onnx_model" where
  "vad_load exists create path =
     (if \<not> exists path then Inl (''vad: model file not found: '' @ path)
      else case create path of
          Inl e \<Rightarrow> Inl (''vad: failed to load ONNX model: '' @ e)
        | Inr om \<Rightarrow>
            (if om_inputs om \<noteq> 3
             then Inl (''vad: unsupported model '' @ [CHR 0xE2, CHR 0x80, CHR 0x94] @
               '' expected 3 inputs (Silero v5), got '' @ dec_nat (om_inputs om))
             else Inr om))"

definition vad_new ::
  "(string \<Rightarrow> bool) \<Rightarrow> (string \<Rightarrow> string + onnx_model) \<Rightarrow> 'v \<Rightarrow> string \<Rightarrow> nat \<Rightarrow> string + (onnx_model \<times> 'v silero_vad)" where
  "vad_new exists create zero path rate =
     (if rate \<noteq> 16000 then Inl (''vad: only 16 kHz is supported (got '' @ dec_nat rate @ '')'')
      else case vad_load exists create path of
          Inl e \<Rightarrow> Inl e
        | Inr om \<Rightarrow> Inr (om, \<lparr>vad_state = zero, vad_scratch = [], vad_last_p = Fin 0\<rparr>))"

text \<open>The pipeline's constructor: no detector without a path, none when the constructor throws.\<close>

definition pipeline_vad ::
  "(string \<Rightarrow> bool) \<Rightarrow> (string \<Rightarrow> string + onnx_model) \<Rightarrow> 'v \<Rightarrow> string \<Rightarrow> nat \<Rightarrow> 'v silero_vad option" where
  "pipeline_vad exists create zero path rate =
     (if path = [] then None
      else case vad_new exists create zero path rate of Inl _ \<Rightarrow> None | Inr (_, v) \<Rightarrow> Some v)"

lemma pipeline_vad_iff:
  "pipeline_vad exists create zero path rate \<noteq> None \<longleftrightarrow>
     path \<noteq> [] \<and> rate = 16000 \<and> exists path \<and> (\<exists>om. create path = Inr om \<and> om_inputs om = 3)"
  by (auto simp: pipeline_vad_def vad_new_def vad_load_def split: sum.splits)

text \<open>A new detector is a detector that has been reset.\<close>

lemma vad_new_is_reset:
  "vad_new exists create zero path rate = Inr (om, v) \<Longrightarrow> v = vad_reset zero v \<and> om_inputs om = 3"
  by (auto simp: vad_new_def vad_load_def vad_reset_def split: if_splits sum.splits)

section \<open>One window\<close>

text \<open>
  \<open>run\<close> asks for all outputs of the model and reads the first two of the vector it gets.
\<close>

definition vad_run_model :: "onnx_model \<Rightarrow> ('s, 'w, 'v) engines \<Rightarrow> 'v silero_vad \<Rightarrow> 'v silero_vad outcome" where
  "vad_run_model om eng v = (if om_outputs om < 2 then Undefined else Ok (vad_run eng v))"

lemma vad_run_model_ok: "2 \<le> om_outputs om \<Longrightarrow> vad_run_model om eng v = Ok (vad_run eng v)"
  by (simp add: vad_run_model_def)

text \<open>
  The constructor checks the number of inputs and not that of outputs: a model with three inputs and
  one output is accepted, and its first window reads past the end of the outputs.
\<close>

lemma one_output_accepted:
  assumes "exists path" and "create path = Inr om" and "om_inputs om = 3" and "om_outputs om = 1"
  shows "\<exists>v. vad_new exists create zero path 16000 = Inr (om, v) \<and> vad_run_model om eng v = Undefined"
  using assms by (simp add: vad_new_def vad_load_def vad_run_model_def)

end
