(* ===== verification/Dialogue_Stack.thy ===== *)
theory Dialogue_Stack
  imports Assembly Turn_Writer Summarizer Memory_Calls Periodic_Threads
begin

text \<open>
  The dialogue side as a whole (\<open>src/orchestrator/dialogue_stack.cpp\<close>): the session it opens, the
  components it makes and starts, and the order in which \<open>stop\<close> stops them. The theorem shows that the
  manager, the turn writer and the summarizer share one session, which is a row of the memory.
\<close>

section \<open>Building\<close>

record dialogue_stack =
  ds_driver :: "fd_options option"
  ds_manager :: "manager option"
  ds_writer :: "turn_writer option"
  ds_summarizer :: "summarizer option"
  ds_interval :: "64 word"      \<comment> \<open>of the idle timer, in milliseconds\<close>
  ds_keep_alive :: "ka_thread option"
  ds_barge_in :: "barge_in option"
  ds_stopped :: bool

text \<open>The function the stack submits to the memory thread, and what the blocking read gives.\<close>

definition open_session :: "unix_ms \<Rightarrow> (db_error + row_id) mem_fn" where
  "open_session now c = (case insert_session now None c of (r, c') \<Rightarrow> (Inr r, c'))"

datatype dialogue_build = DialogueBuilt dialogue_stack | DialogueError db_error | DialogueThrows

definition without_llm :: "config \<Rightarrow> dialogue_stack" where
  "without_llm c =
     \<lparr>ds_driver = fake_driver_options c, ds_manager = None, ds_writer = None, ds_summarizer = None, ds_interval = 0,
      ds_keep_alive = None, ds_barge_in = None, ds_stopped = False\<rparr>"

definition keep_alive_interval_ms :: "config \<Rightarrow> 64 word" where
  "keep_alive_interval_ms c = ucast (cllm_keep_alive_interval_seconds (cfg_llm c)) * 1000"

definition summarizer_settings :: "config \<Rightarrow> counter \<times> string" where
  "summarizer_settings c =
     (ucast (csum_turn_threshold (cmem_summary (cfg_memory c))), cllm_model (cfg_llm c))"

definition with_llm :: "config \<Rightarrow> turn_factory \<Rightarrow> heap \<Rightarrow> row_id \<Rightarrow> dialogue_stack" where
  "with_llm c f h session =
     (without_llm c)
       \<lparr>ds_manager := Some (mg_start (mg_set_session session (mg_new (manager_settings c) f h))),
        ds_writer := Some (tw_start (tw_set_session session tw_new)),
        ds_summarizer := Some (sz_start (sz_set_session session
          (sz_new (fst (summarizer_settings c)) (snd (summarizer_settings c))))),
        ds_interval := keep_alive_interval_ms c,
        ds_keep_alive := Some (kt_start True (kt_new \<lparr>ka_fired = 0, ka_skipped = 0\<rparr>)),
        ds_barge_in := Some (build_barge_in c)\<rparr>"

text \<open>
  \<open>answer\<close> is what the read returns; a refused or broken promise and an exception of the job are
  thrown on. Without an address of the model no session is opened.
\<close>

definition build_dialogue ::
  "config \<Rightarrow> turn_factory \<Rightarrow> heap \<Rightarrow> (db_error + row_id) call_outcome \<Rightarrow> dialogue_build" where
  "build_dialogue c f h answer =
     (if cllm_base_url (cfg_llm c) = [] then DialogueBuilt (without_llm c)
      else case answer of
          Value (Inl e) \<Rightarrow> DialogueError e
        | Value (Inr session) \<Rightarrow> DialogueBuilt (with_llm c f h session)
        | _ \<Rightarrow> DialogueThrows)"

section \<open>One session\<close>

lemma open_session_row:
  assumes "open_session now c = (Inr (Inr i), c')"
  shows "\<lparr>se_id = i, se_started_at = now, se_ended_at = None, se_title = None\<rparr> \<in> set (db_sessions (cn_db c'))"
  using assms
  by (auto simp: open_session_def insert_session_def run_sql_def Let_def split: prod.splits fault.splits)

text \<open>
  What the components of a built dialogue side write belongs to one session: the row that the read
  inserted, open and without a title. The three are subscribed, and the detector is not yet.
\<close>

theorem dialogue_session_shared:
  assumes "open_session now conn = (Inr r, conn')" and "build_dialogue c f h (Value r) = DialogueBuilt ds"
    and "cllm_base_url (cfg_llm c) \<noteq> []"
  shows "\<exists>i m w z b. r = Inr i \<and> ds_manager ds = Some m \<and> mg_session m = i \<and> mg_subscribed m \<and>
    ds_writer ds = Some w \<and> tw_session w = i \<and> tw_subscribed w \<and>
    ds_summarizer ds = Some z \<and> sz_session z = i \<and> sz_subscribed z \<and>
    ds_barge_in ds = Some b \<and> \<not> bi_subscribed b \<and>
    \<lparr>se_id = i, se_started_at = now, se_ended_at = None, se_title = None\<rparr> \<in> set (db_sessions (cn_db conn'))"
proof (cases r)
  case (Inr i)
  have row: "\<lparr>se_id = i, se_started_at = now, se_ended_at = None, se_title = None\<rparr> \<in> set (db_sessions (cn_db conn'))"
    using open_session_row assms(1) Inr by blast
  have "ds = with_llm c f h i" using assms(2,3) Inr by (simp add: build_dialogue_def)
  then show ?thesis using Inr row
    by (simp add: with_llm_def mg_start_def mg_set_session_def mg_new_def tw_start_def tw_set_session_def tw_new_def
        sz_start_def sz_set_session_def sz_new_def build_barge_in_def bi_new_def)
qed (use assms in \<open>simp add: build_dialogue_def\<close>)

text \<open>Without the language model there is no detector either: nothing can be interrupted.\<close>

lemma no_llm_no_barge_in:
  "cllm_base_url (cfg_llm c) = [] \<Longrightarrow> \<exists>ds. build_dialogue c f h answer = DialogueBuilt ds \<and> ds_barge_in ds = None"
  by (simp add: build_dialogue_def without_llm_def)

text \<open>
  The interval is not checked when the configuration is loaded: with 0 seconds the timer's wait ends
  at once, and the loop fires as fast as the machine listens.
\<close>

lemma keep_alive_interval_zero:
  "keep_alive_interval_ms c = 0 \<longleftrightarrow> cllm_keep_alive_interval_seconds (cfg_llm c) = 0"
proof -
  let ?n = "unat (cllm_keep_alive_interval_seconds (cfg_llm c))"
  have "?n < 2 ^ 32" using unsigned_less [where ?'a = nat, of "cllm_keep_alive_interval_seconds (cfg_llm c)"] by simp
  then have "unat (keep_alive_interval_ms c) = ?n * 1000"
    by (simp add: keep_alive_interval_ms_def unat_word_ariths unsigned_ucast_eq take_bit_nat_eq_self)
  then show ?thesis by (metis mult_is_0 unat_eq_zero zero_neq_numeral)
qed

section \<open>Stopping\<close>

text \<open>Up to the joins, each part by its own \<open>stop\<close>; the order is that of the code.\<close>

definition dialogue_stop :: "dialogue_stack \<Rightarrow> dialogue_stack" where
  "dialogue_stop s =
     (if ds_stopped s then s
      else let s1 = s\<lparr>ds_stopped := True, ds_driver := None\<rparr>;
               s2 = s1\<lparr>ds_barge_in := map_option bi_stop (ds_barge_in s1)\<rparr>;
               s3 = s2\<lparr>ds_keep_alive := map_option (\<lambda>k. case kt_stop_step k of Done k' \<Rightarrow> k' | _ \<Rightarrow> k) (ds_keep_alive s2)\<rparr>;
               s4 = s3\<lparr>ds_manager := map_option mg_stop (ds_manager s3)\<rparr>;
               s5 = s4\<lparr>ds_writer := map_option tw_stop (ds_writer s4)\<rparr>
           in s5\<lparr>ds_summarizer := map_option sz_stop (ds_summarizer s5)\<rparr>)"

lemma bi_stop_unsubscribed: "\<not> bi_subscribed (bi_stop d)"
  by (simp add: bi_stop_def)

lemma mg_stop_unsubscribed: "\<not> mg_subscribed (mg_stop m)"
  by (simp add: mg_stop_def cancel_active_def Let_def split: option.splits)

lemma tw_stop_unsubscribed: "\<not> tw_subscribed (tw_stop w)"
  by (simp add: tw_stop_def)

lemma sz_stop_unsubscribed: "\<not> sz_subscribed (sz_stop z)"
  by (simp add: sz_stop_def Let_def)

text \<open>After \<open>stop\<close> no part is subscribed and the idle timer's flag is down; a second \<open>stop\<close> does nothing.\<close>

lemma dialogue_stop_stops:
  assumes "\<not> ds_stopped s"
  shows "ds_driver (dialogue_stop s) = None"
    "\<forall>b \<in> set_option (ds_barge_in (dialogue_stop s)). \<not> bi_subscribed b"
    "\<forall>m \<in> set_option (ds_manager (dialogue_stop s)). \<not> mg_subscribed m"
    "\<forall>w \<in> set_option (ds_writer (dialogue_stop s)). \<not> tw_subscribed w"
    "\<forall>z \<in> set_option (ds_summarizer (dialogue_stop s)). \<not> sz_subscribed z"
    "dialogue_stop (dialogue_stop s) = dialogue_stop s"
  using assms
  by (auto simp: dialogue_stop_def Let_def option.set_map bi_stop_unsubscribed mg_stop_unsubscribed
      tw_stop_unsubscribed sz_stop_unsubscribed)

text \<open>
  The writer is unsubscribed after the manager has been stopped, so it can still record the end of
  the stream that the stop cancels; of what the bus delivers later nothing is written.
\<close>

lemma stopped_dialogue_keeps_session:
  assumes "ds_writer s = Some w" and "\<not> ds_stopped s"
  shows "\<exists>w'. ds_writer (dialogue_stop s) = Some w' \<and> tw_session w' = tw_session w \<and> tw_in_flight w' = tw_in_flight w"
  using assms by (simp add: dialogue_stop_def tw_stop_def Let_def)

end
