(* ===== verification/Demo_Runs.thy ===== *)
theory Demo_Runs
  imports Llm_Requests Tts_Client Stt_Client Demo_Measures Playback_Queue
begin

text \<open>
  What the smaller demonstration programs decide (\<open>demo.cpp\<close>, \<open>wedge.cpp\<close>, \<open>stt.cpp\<close>, \<open>llm.cpp\<close>, \<open>fsm.cpp\<close>,
  \<open>tts.cpp\<close>, \<open>chat.cpp\<close> and \<open>loopback.cpp\<close> under \<open>src/demos/\<close>): the table of programs, the diagnosis of
  the speech server, the exit codes as functions of what the clients answered, and the worker of the
  loopback program. Their printing and their waits are left out.
\<close>

section \<open>The table\<close>

definition kDemos :: "(string \<times> string) list" where
  "kDemos =
     [(''fsm'', ''M0''), (''health'', ''M2''), (''llm'', ''M1''), (''tone'', ''M3''), (''tts'', ''M3+M4B''),
      (''chat'', ''M1+M3+M4B''), (''bargein'', ''M7''), (''loopback'', ''M4''), (''capture'', ''M4''), (''stt'', ''M4B''),
      (''transcribe'', ''M5''), (''aec'', ''M6''), (''aec-hw'', ''M6''), (''aec-record'', ''M6B''), (''soak'', ''M6''),
      (''wedge'', ''M6'')]"

text \<open>\<open>find\<close>: the first entry of that name.\<close>

definition find_demo :: "string \<Rightarrow> (string \<times> string) option" where
  "find_demo name = find (\<lambda>d. fst d = name) kDemos"

lemma find_key: "distinct (map fst xs) \<Longrightarrow> x \<in> set xs \<Longrightarrow> find (\<lambda>y. fst y = fst x) xs = Some x"
  by (induction xs) (auto simp: image_iff)

lemma kDemos_distinct: "distinct (map fst kDemos)"
  by code_simp

lemma find_demo_finds: "d \<in> set kDemos \<Longrightarrow> find_demo (fst d) = Some d"
  using find_key [OF kDemos_distinct] by (simp add: find_demo_def)

lemma find_demo_sound: "find_demo name = Some d \<Longrightarrow> d \<in> set kDemos \<and> fst d = name"
  by (auto simp: find_demo_def find_Some_iff)

section \<open>The diagnosis of the speech server\<close>

text \<open>\<open>WedgeThrows\<close>: \<open>at\<close> on the resolved voices throws for a fallback language without a voice.\<close>

datatype wedge_report = WedgeUnconfigured | WedgeThrows | AlreadyWedged | WedgeReproduced | WedgePartial | NoWedge

definition run_wedge ::
  "(string \<Rightarrow> string + string) \<Rightarrow> config \<Rightarrow> time_point \<Rightarrow> stt_exchange \<Rightarrow> tts_exchange \<Rightarrow> stt_exchange \<Rightarrow> wedge_report" where
  "run_wedge parse c now warm speech post =
     (let fallback = ctts_fallback_lang (cfg_tts c);
          tts_err = (CbError \<in> set (tts_submit (cfg_tts c) fallback speech))
      in if ctts_base_url (cfg_tts c) = [] \<or> ctts_voices (cfg_tts c) = [] then WedgeUnconfigured
         else if cstt_base_url (cfg_stt c) = [] then WedgeUnconfigured
         else if map_of (ctts_voices_resolved (cfg_tts c)) fallback = None then WedgeThrows
         else if \<not> wr_ok (stt_warmup parse (cfg_stt c) now warm) then AlreadyWedged
         else if \<not> wr_ok (stt_warmup parse (cfg_stt c) now post) then WedgeReproduced
         else if tts_err then WedgePartial
         else NoWedge)"

definition wedge_exit :: "wedge_report \<Rightarrow> bool" where
  "wedge_exit r \<longleftrightarrow> r \<noteq> WedgeUnconfigured"

text \<open>With a configuration that loads the program does not throw.\<close>

lemma wedge_loaded:
  assumes "load_from_string rd yaml = Inr c"
  shows "run_wedge parse c now warm speech post \<noteq> WedgeThrows"
proof (cases "ctts_voices (cfg_tts c) = []")
  case False
  obtain c0 where c: "c = resolve_aliases c0" "validate c = None" using load_parts [OF assms] by blast
  obtain a where "(ctts_fallback_lang (cfg_tts c), a) \<in> set (ctts_voices (cfg_tts c))"
    using accepted_fallback [OF c(2) False] by blast
  from accepted_voice [OF c(2) this] show ?thesis by (auto simp: run_wedge_def Let_def)
qed (simp add: run_wedge_def Let_def)

text \<open>
  The verdict that the failure was reproduced does not depend on the speech request, although its
  text says that the request failed.
\<close>

lemma wedge_ignores_speech:
  assumes "run_wedge parse c now warm speech post = WedgeReproduced"
  shows "run_wedge parse c now warm speech' post = WedgeReproduced"
  using assms by (auto simp: run_wedge_def Let_def split: if_splits)

section \<open>Speech to text and back\<close>

definition heard_samples :: "callback list \<Rightarrow> sample list" where
  "heard_samples cs = concat (map (\<lambda>cb. case cb of CbAudio xs \<Rightarrow> xs | _ \<Rightarrow> []) cs)"

text \<open>\<open>synth\<close> and \<open>transcribe\<close>; \<open>None\<close> when the client reports an error.\<close>

definition demo_synth :: "config \<Rightarrow> time_point \<Rightarrow> tts_exchange \<Rightarrow> audio_slice option" where
  "demo_synth c now x =
     (let cs = tts_submit (cfg_tts c) (ctts_fallback_lang (cfg_tts c)) x
      in if CbError \<in> set cs then None
         else Some \<lparr>slice_samples = downsample_22050_to_16000 (heard_samples cs), slice_rate = 16000,
                slice_started_at = now, slice_ended_at = now\<rparr>)"

definition demo_transcribe ::
  "(string \<Rightarrow> string + string) \<Rightarrow> config \<Rightarrow> audio_slice \<Rightarrow> stt_exchange \<Rightarrow> string option" where
  "demo_transcribe parse c sl x =
     (case snd (stt_submit parse (cfg_stt c)
             \<lparr>rq_turn = 1, rq_slice = Some sl, rq_lang_hint = cstt_language (cfg_stt c)\<rparr> x) of
        SttFinal ft \<Rightarrow> Some (ft_text ft)
      | SttError e \<Rightarrow> (if e = [] then Some [] else None))"

text \<open>A warm-up pass and a measured one; the result is the transcript of the second, \<open>None\<close> the failure.\<close>

definition run_stt_demo ::
  "(string \<Rightarrow> string + string) \<Rightarrow> config \<Rightarrow> time_point \<Rightarrow> tts_exchange \<times> stt_exchange \<Rightarrow> tts_exchange \<times> stt_exchange \<Rightarrow>
     string option" where
  "run_stt_demo parse c now warm measured =
     (if cstt_base_url (cfg_stt c) = [] then None
      else if ctts_base_url (cfg_tts c) = [] \<or> ctts_voices (cfg_tts c) = [] then None
      else Option.bind (demo_synth c now (fst warm)) (\<lambda>sl.
           Option.bind (demo_transcribe parse c sl (snd warm)) (\<lambda>_.
           Option.bind (demo_synth c now (fst measured)) (\<lambda>sl.
             demo_transcribe parse c sl (snd measured)))))"

lemma demo_transcribe_iff:
  "demo_transcribe parse c sl x \<noteq> None \<longleftrightarrow>
     (\<exists>ft. snd (stt_submit parse (cfg_stt c)
        \<lparr>rq_turn = 1, rq_slice = Some sl, rq_lang_hint = cstt_language (cfg_stt c)\<rparr> x) = SttFinal ft)"
  using error_text by (auto simp: demo_transcribe_def split: stt_callback.splits)

text \<open>The audio handed to the transcription consists of samples the server sent.\<close>

lemma demo_synth_samples:
  "demo_synth c now x = Some sl \<Longrightarrow>
     set (slice_samples sl) \<subseteq> set (heard_samples (tts_submit (cfg_tts c) (ctts_fallback_lang (cfg_tts c)) x))"
  using downsample_from_source [of "heard_samples (tts_submit (cfg_tts c) (ctts_fallback_lang (cfg_tts c)) x)"]
  by (auto simp: demo_synth_def Let_def split: if_splits)

section \<open>Exit codes\<close>

text \<open>
  The prompt of the language-model program is escaped, the configured model is not; \<open>temperature\<close> is
  the text of the configured number.
\<close>

definition simple_escape :: "char \<Rightarrow> string" where
  "simple_escape ch =
     (if ch = CHR 0x22 then [CHR 0x5C, CHR 0x22]
      else if ch = CHR 0x5C then [CHR 0x5C, CHR 0x5C]
      else if ch = CHR 0x0A then [CHR 0x5C, CHR ''n'']
      else [ch])"

definition build_simple_body :: "string \<Rightarrow> config \<Rightarrow> string \<Rightarrow> string" where
  "build_simple_body temperature c prompt =
     ''{\"model\":\"'' @ cllm_model (cfg_llm c) @ ''\",'' @
     ''\"messages\":[{\"role\":\"user\",\"content\":\"'' @ concat (map simple_escape prompt) @ ''\"}],'' @
     ''\"temperature\":'' @ temperature @ '','' @ ''\"max_tokens\":40,\"stream\":true}''"

definition llm_prompt :: string where
  "llm_prompt = ''Reply with one short sentence acknowledging you are running locally.''"

definition run_llm_demo ::
  "(string \<Rightarrow> string \<Rightarrow> nat option) \<Rightarrow> json_chunk \<Rightarrow> string \<Rightarrow> config \<Rightarrow> llm_exchange \<Rightarrow> bool" where
  "run_llm_demo get decode temperature c x \<longleftrightarrow>
     llm_probe get c \<and> lr_tokens (llm_submit decode c 1 (build_simple_body temperature c llm_prompt) x) \<noteq> []"

text \<open>The time the machine's program waits, in 32-bit milliseconds, and its verdict.\<close>

definition fsm_demo_timeout :: "config \<Rightarrow> 32 word" where
  "fsm_demo_timeout c = cpip_fake_idle_between_turns_ms (cfg_pipeline c) * 4 + 6000"

fun fsm_demo_wait :: "time_point \<Rightarrow> (nat \<times> time_point) list \<Rightarrow> nat option" where
  "fsm_demo_wait deadline [] = None"
| "fsm_demo_wait deadline ((outcomes, now) # polls) =
     (if outcomes < 3 \<and> now < deadline then fsm_demo_wait deadline polls else Some outcomes)"

definition fsm_demo_exit :: "nat \<Rightarrow> bool" where
  "fsm_demo_exit outcomes \<longleftrightarrow> outcomes \<noteq> 0"

lemma fsm_demo_wait_result:
  "fsm_demo_wait deadline polls = Some n \<Longrightarrow> 3 \<le> n \<or> (\<exists>now. (n, now) \<in> set polls \<and> deadline \<le> now)"
  by (induction deadline polls rule: fsm_demo_wait.induct) (force split: if_splits)+

text \<open>The sum wraps: an idle time of about twelve days leaves no time at all.\<close>

lemma fsm_demo_timeout_wraps:
  "cpip_fake_idle_between_turns_ms (cfg_pipeline c) = 1073740324 \<Longrightarrow> fsm_demo_timeout c = 0"
  by (simp add: fsm_demo_timeout_def)

definition tts_demo_exit :: "nat \<Rightarrow> bool \<Rightarrow> bool" where
  "tts_demo_exit errors finished \<longleftrightarrow> errors = 0 \<and> finished"

text \<open>The chat program, once the stream has ended: it had tokens and a sentence was synthesised.\<close>

definition chat_demo_exit :: "nat \<Rightarrow> nat \<Rightarrow> bool" where
  "chat_demo_exit tokens synthesized \<longleftrightarrow> tokens \<noteq> 0 \<and> synthesized \<noteq> 0"

section \<open>The loopback program\<close>

record 's loopback_worker =
  lw_down :: "'s resampler"
  lw_up :: "'s resampler"
  lw_seq :: seq_no
  lw_frames :: counter
  lw_queue :: playback_queue

text \<open>One frame taken from the ring; frames that give no samples on the way are skipped.\<close>

definition loopback_frame :: "'s soxr \<Rightarrow> sample list \<Rightarrow> 's loopback_worker \<Rightarrow> 's loopback_worker outcome" where
  "loopback_frame sx frame w =
     (let w1 = w\<lparr>lw_frames := lw_frames w + word_of_nat (length frame)\<rparr>
      in bind_outcome (resampler_process sx frame (lw_down w1)) (\<lambda>(xs, down).
         let w2 = w1\<lparr>lw_down := down\<rparr>
         in if xs = [] then Ok w2
            else bind_outcome (resampler_process sx xs (lw_up w2)) (\<lambda>(ys, up).
              let w3 = w2\<lparr>lw_up := up\<rparr>
              in if ys = [] then Ok w3
                 else Ok (w3\<lparr>lw_seq := lw_seq w3 + 1,
                        lw_queue := snd (pq_enqueue \<lparr>ch_turn = 1, ch_seq = lw_seq w3, ch_samples = ys, ch_eos = False\<rparr>
                          (lw_queue w3))\<rparr>))))"

fun loopback_run :: "'s soxr \<Rightarrow> sample list list \<Rightarrow> 's loopback_worker \<Rightarrow> 's loopback_worker outcome" where
  "loopback_run sx [] w = Ok w"
| "loopback_run sx (f # fs) w = bind_outcome (loopback_frame sx f w) (loopback_run sx fs)"

text \<open>The chunks of an unbounded queue carry the turn and consecutive numbers, and none is empty.\<close>

definition loopback_chunks :: "'s loopback_worker \<Rightarrow> bool" where
  "loopback_chunks w \<longleftrightarrow> pq_cap (lw_queue w) = 0 \<and>
     map ch_seq (pq_q (lw_queue w)) = map word_of_nat [0..<length (pq_q (lw_queue w))] \<and>
     lw_seq w = word_of_nat (length (pq_q (lw_queue w))) \<and>
     (\<forall>ch \<in> set (pq_q (lw_queue w)). ch_turn ch = 1 \<and> ch_samples ch \<noteq> [] \<and> \<not> ch_eos ch)"

lemma loopback_frame_chunks: "loopback_chunks w \<Longrightarrow> loopback_frame sx f w = Ok w' \<Longrightarrow> loopback_chunks w'"
  by (auto simp: loopback_frame_def loopback_chunks_def Let_def bind_outcome_Ok pq_enqueue_def pq_append_def add.commute
      split: if_splits)

lemma loopback_run_chunks: "loopback_chunks w \<Longrightarrow> loopback_run sx fs w = Ok w' \<Longrightarrow> loopback_chunks w'"
  by (induction fs arbitrary: w) (auto simp: bind_outcome_Ok dest: loopback_frame_chunks)

end
