(* ===== verification/Apm_Stats.thy ===== *)
theory Apm_Stats
  imports Assembly Barge_In
begin

text \<open>
  What the echo canceller tells WebRTC at its construction and what it keeps of WebRTC's statistics
  (\<open>src/audio/apm.cpp\<close>). The lemmas show that the readings are those last reported, that the interruption
  detector stays closed until WebRTC has reported a return loss, and which setting has no effect.
\<close>

section \<open>The settings of the processor\<close>

record webrtc_settings =
  ws_echo_canceller :: bool
  ws_high_pass :: bool
  ws_noise_suppression :: bool
  ws_gain_controller :: bool
  ws_target_level_dbfs :: int
  ws_compression_gain_db :: int
  ws_limiter :: bool
  ws_residual_echo_detector :: bool

definition webrtc_settings_of :: "apm_settings \<Rightarrow> webrtc_settings" where
  "webrtc_settings_of st =
     \<lparr>ws_echo_canceller = as_aec st, ws_high_pass = as_aec st, ws_noise_suppression = as_ns st,
      ws_gain_controller = as_agc st, ws_target_level_dbfs = 3, ws_compression_gain_db = 9, ws_limiter = True,
      ws_residual_echo_detector = True\<rparr>"

text \<open>The delays set on the processor: one by the constructor, one before each frame.\<close>

definition delay_hints :: "apm_settings \<Rightarrow> nat \<Rightarrow> int list" where
  "delay_hints st frames = (if as_aec st then replicate (Suc frames) (as_initial_delay st) else [])"

text \<open>The configured largest delay reaches neither the wrapper nor the processor.\<close>

lemma max_delay_unused:
  "apm_new eng webrtc w r (st\<lparr>as_max_delay := d\<rparr>) = apm_new eng webrtc w r st"
  "webrtc_settings_of (st\<lparr>as_max_delay := d\<rparr>) = webrtc_settings_of st"
  "delay_hints (st\<lparr>as_max_delay := d\<rparr>) n = delay_hints st n"
  by (cases webrtc; simp add: apm_new_def webrtc_settings_of_def delay_hints_def Let_def)+

section \<open>Statistics\<close>

record apm_stats =
  at_delay :: int
  at_erle :: cfloat

definition apm_stats_new :: apm_stats where
  "apm_stats_new = \<lparr>at_delay = - 1, at_erle = NaN\<rparr>"

text \<open>The snapshot after one frame: an estimate WebRTC does not give leaves the old reading.\<close>

definition apm_note_stats :: "int option \<times> cfloat option \<Rightarrow> apm_stats \<Rightarrow> apm_stats" where
  "apm_note_stats report s =
     (let s1 = (case fst report of None \<Rightarrow> s | Some d \<Rightarrow> s\<lparr>at_delay := d\<rparr>)
      in case snd report of None \<Rightarrow> s1 | Some e \<Rightarrow> s1\<lparr>at_erle := e\<rparr>)"

definition apm_stats_after :: "(int option \<times> cfloat option) list \<Rightarrow> apm_stats" where
  "apm_stats_after reports = foldl (\<lambda>s r. apm_note_stats r s) apm_stats_new reports"

definition last_given :: "'a \<Rightarrow> 'a option list \<Rightarrow> 'a" where
  "last_given d xs = last (d # map the (filter (\<lambda>x. x \<noteq> None) xs))"

lemma last_given_snoc: "last_given d (xs @ [x]) = (case x of None \<Rightarrow> last_given d xs | Some y \<Rightarrow> y)"
  by (cases x) (simp_all add: last_given_def)

lemma apm_stats_last:
  "at_delay (apm_stats_after reports) = last_given (- 1) (map fst reports)"
  "at_erle (apm_stats_after reports) = last_given NaN (map snd reports)"
proof (induction reports rule: rev_induct)
  case (snoc r rs)
  have step: "apm_stats_after (rs @ [r]) = apm_note_stats r (apm_stats_after rs)" by (simp add: apm_stats_after_def)
  case 1
  show ?case using snoc(1) by (auto simp: step last_given_snoc apm_note_stats_def Let_def split: option.splits)
  case 2
  show ?case using snoc(2) by (auto simp: step last_given_snoc apm_note_stats_def Let_def split: option.splits)
qed (simp_all add: apm_stats_after_def apm_stats_new_def last_given_def)

text \<open>
  Before WebRTC has given a return loss the reading is not a number, and the detector that asks for
  a converged canceller does not take it as one, whatever its threshold.
\<close>

lemma no_report_no_convergence:
  assumes "\<forall>r \<in> set reports. snd r = None"
  shows "\<not> erle_meets (Some (active, at_erle (apm_stats_after reports))) threshold"
proof -
  have "filter (\<lambda>x. x \<noteq> None) (map snd reports) = []" using assms by (simp add: filter_empty_conv)
  then have "at_erle (apm_stats_after reports) = NaN" by (simp add: apm_stats_last last_given_def)
  then show ?thesis by (simp add: erle_meets_def)
qed

end
