(* ===== verification/Supervisor_Setup.thy ===== *)
theory Supervisor_Setup
  imports Assembly Supervision
begin

text \<open>
  The supervisor that the program builds from its configuration
  (\<open>src/orchestrator/supervisor_setup.cpp\<close>): three services registered, then started. The theorem shows
  which of them are probed and that the pipeline's gate is open right after the start.
\<close>

definition supervisor_grace :: "config \<Rightarrow> int" where
  "supervisor_grace c = uint (csup_pipeline_fail_grace_seconds (cfg_supervisor c))"

definition build_supervision :: "config \<Rightarrow> time_point \<Rightarrow> supervision" where
  "build_supervision c now =
     supervision_start now
       (foldl (\<lambda>s svc. supervision_register svc s) (supervision_new (supervisor_grace c)) (configured_services c))"

lemma registered_monitors:
  "sv_monitors (foldl (\<lambda>s svc. supervision_register svc s) s svcs) = foldl (\<lambda>ms svc. su_register svc ms) (sv_monitors s) svcs"
  "sv_running (foldl (\<lambda>s svc. supervision_register svc s) s svcs) = sv_running s"
  "sv_core (foldl (\<lambda>s svc. supervision_register svc s) s svcs) = sv_core s"
  by (induction svcs arbitrary: s) (simp_all add: supervision_register_def)

lemma built_monitors: "sv_monitors (build_supervision c now) = map sm_start (build_monitors c)"
  by (simp add: build_supervision_def supervision_start_def supervision_evaluate_def registered_monitors
      supervision_new_def build_monitors_def)

text \<open>A scan of services none of which is unhealthy finds no failure.\<close>

lemma su_scan_no_failure:
  "\<forall>s \<in> set ss. ss_state s \<noteq> SvcUnhealthy \<Longrightarrow> su_scan now grace ss (crit, False, since) = (crit', failed, since') \<Longrightarrow>
     \<not> failed"
  by (induction ss arbitrary: crit since) (auto split: if_splits)

lemma sm_new_not_unhealthy: "sm_state (sm_start (sm_new svc)) \<noteq> SvcUnhealthy"
  by (simp add: sm_start_def sm_new_def)

text \<open>
  After the set-up the three services are there in order, exactly those with a health address are
  probed, and the pipeline is not failed, so the manager accepts turns before the first probe.
\<close>

theorem supervisor_starts_open:
  "map (\<lambda>m. sv_name (sm_cfg m)) (sv_monitors (build_supervision c now)) = [''llm'', ''stt'', ''tts'']"
  "\<forall>m \<in> set (sv_monitors (build_supervision c now)). sm_running m \<longleftrightarrow> sv_health_url (sm_cfg m) \<noteq> []"
  "sv_running (build_supervision c now) \<and> sv_evaluator (build_supervision c now)"
  "pipeline_gate_answer (su_state (sv_core (build_supervision c now))) = GateSays True"
proof -
  have ms: "build_monitors c = map sm_new (configured_services c)"
    by (simp add: build_monitors_def configured_services_def su_register_def from_health_def sm_new_def)
  show "map (\<lambda>m. sv_name (sm_cfg m)) (sv_monitors (build_supervision c now)) = [''llm'', ''stt'', ''tts'']"
    by (simp add: built_monitors ms configured_services_def from_health_def)
  show "\<forall>m \<in> set (sv_monitors (build_supervision c now)). sm_running m \<longleftrightarrow> sv_health_url (sm_cfg m) \<noteq> []"
    by (auto simp: built_monitors ms)
  show "sv_running (build_supervision c now) \<and> sv_evaluator (build_supervision c now)"
    by (simp add: build_supervision_def supervision_start_def supervision_evaluate_def registered_monitors
        supervision_new_def)
  let ?snaps = "map sm_snapshot (map sm_start (build_monitors c))"
  have healthy: "\<forall>s \<in> set ?snaps. ss_state s \<noteq> SvcUnhealthy"
    by (auto simp: ms sm_snapshot_def sm_new_not_unhealthy)
  obtain crit failed since where scan: "su_scan now (su_grace (su_new (supervisor_grace c))) ?snaps (False, False, []) =
      (crit, failed, since)" by (metis prod_cases3)
  have "\<not> failed" by (rule su_scan_no_failure [OF healthy scan])
  moreover have "su_state (sv_core (build_supervision c now)) =
      su_state (su_evaluate now ?snaps (su_new (supervisor_grace c)))"
    by (simp add: build_supervision_def supervision_start_def supervision_evaluate_def registered_monitors
        supervision_new_def build_monitors_def)
  ultimately show "pipeline_gate_answer (su_state (sv_core (build_supervision c now))) = GateSays True"
    using scan by (simp add: su_evaluate_def su_new_def Let_def pipeline_gate_answer_def)
qed

end
