(* ===== verification/Spec2Isabelle.thy ===== *)
theory Spec2Isabelle
  imports Event_Bus Dialogue_Fsm Barge_In Playback_Engine Audio_Pipeline Wav Sentence_Splitter Sse_Parser Supervisor Tts_Bridge
    Memory_Thread Recovery Summarizer Turn_Writer Manager Prompt_Builder Realtime_Stt Log_Setup Tts_Client Stt_Client Fake_Driver Status System_Aec Startup Conversation Assembly
    Playback_Threads Memory_Calls Demo_Signals Demo_Measures Pollers Db_Handles
    Llm_Requests Periodic_Threads Supervision Stt_Wiring Vad_Model Dialogue_Stack Demo_Runs
    Apm_Stats Supervisor_Setup
begin

text \<open>
  A verification library for acva, a real-time voice assistant in C++ (sources under \<open>src/src/\<close>).

  The program. A microphone callback feeds a ring; a worker resamples, cancels the echo of the
  loudspeaker, detects speech and cuts utterances. Transcripts of them start answers of a language
  model, which are cut into sentences while they stream; each sentence is synthesised, queued and
  played, and what was played goes back to the echo canceller. The parts talk over an event bus with
  one bounded queue and one thread per subscriber; a dialogue machine tracks the turn, a detector
  turns speech over an answer into an interruption, and a memory thread keeps sessions, turns,
  summaries and facts in a database. A supervisor probes the services behind it.

  Conventions. A C++ class is a record, a method a function from state to state, an exception or an
  error value a branch of a sum or of \<open>outcome\<close>, undefined behaviour the value \<open>UB\<close> or \<open>Undefined\<close>, a
  wait that cannot go on \<open>Blocked\<close>. 64 and 32 bit integers are words wherever they can wrap; sizes are
  naturals; durations and clock readings are integers in milli- or nanoseconds, and a clock reading
  is an argument of the step that takes it. Floats are reals with a value for not-a-number
  (\<open>cfloat\<close>). Threads are interleaved steps between their lock regions or atomic accesses, and the
  statements quantify over all step sequences. Code outside the repository (PortAudio, soxr, the
  ONNX runtime, WebRTC, libcurl, libdatachannel, SQLite, the JSON and YAML readers, Prometheus,
  spdlog) is an argument of the definitions that use it.

  Theories, by layer.

  \<^item> \<open>Prelude\<close>, \<open>Events\<close> (\<open>event/event.hpp\<close>), \<open>Turn\<close> (\<open>dialogue/turn.*\<close>): shared lemmas and interfaces (the
    locales \<open>step_machine\<close>, for invariants over runs, and those of the queues), the event type, turn
    ids and cancellation tokens in an explicit heap.
  \<^item> \<open>Bounded_Queue\<close>, \<open>Event_Bus\<close> (\<open>event/queue.hpp\<close>, \<open>event/bus.*\<close>): push and pop with the three overflow
    policies, subscriptions with their threads; delivery in order under every interleaving.
  \<^item> \<open>Spsc_Ring\<close>, \<open>Capture\<close>, \<open>Resampler\<close>, \<open>Loopback\<close>, \<open>Endpointer\<close>, \<open>Utterance\<close>, \<open>Audio_Pipeline\<close>, \<open>Vad_Model\<close>,
    \<open>Apm_Stats\<close>, \<open>Wav\<close> (\<open>audio/\<close>): the lock-free ring as a queue under every interleaving of its accesses, the capture
    timeline, the reference ring as a window of the emitted history, speech boundaries on enough
    evidence, slices as windows of the signal, the whole worker step, and files read back.
  \<^item> \<open>Playback_Queue\<close>, \<open>Playback_Engine\<close>, \<open>Audio_Device\<close>, \<open>Playback_Threads\<close> (\<open>playback/\<close>, and \<open>start\<close> and \<open>stop\<close> of
    \<open>audio/capture.cpp\<close>): accounting of chunks, what one callback plays, the choice and opening of a
    device, and the publisher, the ticker and the stopping thread interleaved: the notices reach the
    bus in order, and \<open>stop\<close> returns.
  \<^item> \<open>Dialogue_Fsm\<close>, \<open>Barge_In\<close>, \<open>Sentence_Splitter\<close>, \<open>Manager\<close>, \<open>Turn_Writer\<close>, \<open>Tts_Bridge\<close>
    (\<open>dialogue/\<close>): the machine's invariant and liveness, the detector's gates, no character lost by the
    splitter, the published streams and the sentence limit, the rows written, and the bridge under
    interruption.
  \<^item> \<open>Sse_Parser\<close>, \<open>Llm_Client\<close>, \<open>Llm_Requests\<close>, \<open>Prompt_Builder\<close> (\<open>llm/\<close>), \<open>Tts_Client\<close> (\<open>tts/\<close>),
    \<open>Stt_Client\<close>, \<open>Realtime_Envelope\<close>, \<open>Realtime_Stt\<close> (\<open>stt/\<close>), \<open>Stt_Wiring\<close> (\<open>orchestrator/stt_stack.cpp\<close>):
    framing independent of how the network cuts a stream, requests, answers, the callbacks of an
    utterance in both transcription paths, and what reaches the bus of them.
  \<^item> \<open>Db_Handles\<close>, \<open>Repository\<close>, \<open>Memory_Thread\<close>, \<open>Memory_Calls\<close>, \<open>Recovery\<close>, \<open>Summarizer\<close> (\<open>memory/\<close>):
    handles released once, tables as lists with a fault in any statement, jobs in order, calls with
    promises that return, the all-or-nothing sweep, summaries without gap or overlap.
  \<^item> \<open>Supervisor\<close>, \<open>Supervision\<close>, \<open>Periodic_Threads\<close> (\<open>supervisor/\<close>): probing and the gate, starting and
    stopping as a whole, and the threads that wait with a timeout: a prompt stop, no health event missed.
  \<^item> \<open>Metrics\<close>, \<open>Status\<close>, \<open>Log_Setup\<close>, \<open>Json_Text\<close>, \<open>Json_Log\<close>, \<open>Text_Format\<close>
    (\<open>metrics/\<close>, \<open>log/\<close>, \<open>http/\<close>, \<open>orchestrator/event_tracer.*\<close>, \<open>orchestrator/status_extra.*\<close>):
    gauges and timers, and text that reads back.
  \<^item> \<open>Config\<close>, \<open>System_Aec\<close>, \<open>Startup\<close>, \<open>Fake_Driver\<close>, \<open>Assembly\<close>, \<open>Supervisor_Setup\<close>,
    \<open>Dialogue_Stack\<close>, \<open>Pollers\<close>
    (\<open>config/\<close>, \<open>cli/\<close>, \<open>main.cpp\<close>, \<open>pipeline/fake_driver.*\<close>, \<open>orchestrator/\<close>): the checks a
    configuration passes, the start of the program up to the running state, what each component is
    built from, the dialogue side from its session to its stop, the synthetic driver, and what the
    pollers carry into the metrics.
  \<^item> \<open>Demo_Signals\<close>, \<open>Demo_Measures\<close>, \<open>Demo_Runs\<close> (\<open>demos/\<close>): the signals of the demonstration programs
    and how they queue them, their counters, percentiles and levels, and their verdicts.
  \<^item> \<open>Conversation\<close> and this theory: the components together. The manager's stream drives the machine
    to a completed turn, and is what the turn writer stores; speech over an answer stops it, and the
    reply that follows is given outside any turn; the half-duplex gate follows the machine.

  Bounds and fuel. No definition runs on fuel. Loops that may not end are \<open>partial_function (option)\<close>
  (\<open>Wav.wav_walk\<close>, \<open>Resampler.resampler_flush\<close>, \<open>Fake_Driver.fd_sentences\<close>, \<open>Demo_Signals.stream_signal\<close>), and when
  the reader, the driver and the signal's loop end is proved.
  Statements with a bound on counts (\<open>2 ^ 32\<close> sentences or frames of one kind) assume the counters do not
  wrap; where wrapping is reachable it is a lemma of its own (\<open>sl_push_wraps\<close>, \<open>tts_key_collision\<close>).

  Not modelled. What is left out is set-up, pure input and output, or other people's code: the
  option calls of the ONNX runtime and libcurl, the text of the SQL schema, the sockets of the
  control server and of the HTTP probes, the help text and the signal handlers, the creation of the
  pollers' and workers' threads and the order in which \<open>main\<close> destroys the parts at the end. Of the
  programs under \<open>demos/\<close> the assembly of the components (modelled for the program itself in
  \<open>Assembly\<close>), their waiting loops and their printing are left out; nothing depends on them. Memory
  that is shared without synchronisation beyond the atomics named in a theory, and floating-point
  rounding, are outside the models.
\<close>

section \<open>From the answer to the memory\<close>

text \<open>
  C5. An answer is remembered as it was published. Take any run of the manager and a stream in what
  it published, from its announcement to its end; let the turn writer see these events interleaved
  in any way with those of other components. It then writes one row with the sentences published,
  or, if the stream was reported cancelled, with those whose playback it saw finish, in order.
\<close>

theorem answer_remembered:
  assumes "published_stream decode acts (mg_new cfg f h) t body (LlmFinished t cancelled k)"
    and "length (emitted t body) < 2 ^ 32 - 1"
    and "filter stream_event (map (\<lambda>(now, late, e). e) es) = filter stream_event body"
    and "\<forall>u. PlaybackFinished u (- 1) \<notin> set (map (\<lambda>(now, late, e). e) es)"
    and "tw_in_flight w t = None" and "tw_session w \<noteq> 0" and "store_ready (tw_session w) c"
  shows "\<exists>js w1 jobs w2. tw_run ((n0, l0, LlmStarted t) # es) w = Done (js, w1) \<and>
    tw_on_event now late (LlmFinished t cancelled k) w1 = Done (jobs, w2) \<and> tw_in_flight w2 t = None \<and>
    (let ws = kept t cancelled (map (\<lambda>(now, late, e). e) es)
     in if cancelled \<and> ws = [] then jobs = []
        else \<exists>r. db_turns (cn_db (run_jobs jobs c)) = db_turns (cn_db c) @ [r] \<and>
          tu_session r = tw_session w \<and> tu_role r = ''assistant'' \<and> tu_text r = Some (join_words ws) \<and>
          tu_status r = (if cancelled then ''interrupted'' else ''committed'') \<and>
          tu_interrupted r = (if cancelled then Some (int (length ws)) else None) \<and> tu_ended_at r = Some now)"
proof -
  let ?evs = "map (\<lambda>(now, late, e). e) es"
  from published_body [OF assms(1)]
  have body: "map ls_seq (emitted t body) = map of_nat [0..<length (emitted t body)]"
    "\<And>s. LlmSentence s \<in> set body \<Longrightarrow> s \<in> set (emitted t body)" "\<And>u c k. LlmFinished u c k \<notin> set body" by auto
  have em: "emitted t ?evs = emitted t body"
    using assms(3) by (metis emitted_filter)
  have seq: "unat (ls_seq (emitted t body ! i)) = i" if "i < length (emitted t body)" for i
  proof -
    have "map ls_seq (emitted t body) ! i = of_nat i" using that by (simp add: body(1))
    with that assms(2) show ?thesis by (simp add: unat_of_nat take_bit_nat_eq_self)
  qed
  have order: "in_order t ?evs"
    unfolding in_order_def em by (rule nth_equalityI) (simp_all add: seq)
  have in_body: "stream_event e \<Longrightarrow> e \<in> set ?evs \<Longrightarrow> e \<in> set body" for e
  proof -
    assume "stream_event e" "e \<in> set ?evs"
    then have "e \<in> set (filter stream_event ?evs)" by simp
    then show "e \<in> set body" unfolding assms(3) by simp
  qed
  have goes: "goes_on t e" if e: "e \<in> set ?evs" for e
  proof (cases e)
    case (LlmSentence s)
    then have "s \<in> set (emitted t body)" using in_body [of e] e body(2) by (simp add: stream_event_def)
    then obtain i where "i < length (emitted t body)" "s = emitted t body ! i" by (auto simp: in_set_conv_nth)
    with seq assms(2) have "unat (ls_seq s) < 2 ^ 32 - 1" by simp
    then have "ls_seq s \<noteq> - 1" by (auto simp: unsigned_minus_1_eq_mask mask_eq_exp_minus_1)
    with LlmSentence show ?thesis by (simp add: goes_on_def seq_sane_def)
  next
    case (LlmFinished u d n)
    then show ?thesis using in_body [of e] e body(3) by (simp add: stream_event_def)
  next
    case (PlaybackFinished u q)
    with e assms(4) have "q \<noteq> - 1" by blast
    with PlaybackFinished show ?thesis by (simp add: goes_on_def seq_sane_def)
  qed (simp_all add: goes_on_def seq_sane_def)
  then have "list_all (\<lambda>(now, late, e). goes_on t e) es"
    by (force simp: list_all_iff)
  from assistant_turn_stored [OF assms(5,6,7) this order] show ?thesis .
qed

text \<open>The same answer with the first sentence heard before the stream ends, and a second listener between.\<close>

definition demo_seen :: "(unix_ms \<times> unix_ms \<times> event) list" where
  "demo_seen = map (\<lambda>e. (3, 3, e))
     (take 2 demo_body @ [SpeechStarted 9 4, PlaybackFinished 1 0] @ drop 2 demo_body)"

theorem answer_remembered_witness:
  "\<exists>js w1 jobs w2. tw_run ((1, 1, LlmStarted 1) # demo_seen) (tw_set_session 1 tw_new) = Done (js, w1) \<and>
     tw_on_event 9 9 (LlmFinished 1 False 2) w1 = Done (jobs, w2) \<and>
     map (\<lambda>r. (tu_text r, tu_status r)) (db_turns (cn_db (run_jobs jobs one_session))) =
       [(Some ''Hello there. Good bye.'', ''committed'')]"
proof -
  have seen: "map (\<lambda>(now, late, e). e) demo_seen = take 2 demo_body @ [SpeechStarted 9 4, PlaybackFinished 1 0] @ drop 2 demo_body"
    by (simp add: demo_seen_def demo_body_def)
  have kept: "kept 1 False (map (\<lambda>(now, late, e). e) demo_seen) = [''Hello there.'', ''Good bye.'']"
    unfolding seen by (simp add: kept_def emitted_def demo_body_def)
  have w: "tw_in_flight (tw_set_session 1 tw_new) 1 = None" "tw_session (tw_set_session 1 tw_new) = 1"
    by (simp_all add: tw_set_session_def tw_new_def)
  have conds: "length (emitted 1 demo_body) < 2 ^ 32 - 1"
    "filter stream_event (map (\<lambda>(now, late, e). e) demo_seen) = filter stream_event demo_body"
    "\<forall>u. PlaybackFinished u (- 1) \<notin> set (map (\<lambda>(now, late, e). e) demo_seen)"
    unfolding demo_emitted unfolding seen by (simp_all add: demo_body_def stream_event_def)
  have "db_turns (cn_db one_session) = []" by (simp add: one_session_def db_empty_def)
  with answer_remembered [OF demo_published [unfolded demo_manager_def] conds w(1), of one_session 1 1 9 9] one_session_ready w kept
  show ?thesis by (force simp: Let_def)
qed

end
